(* ===== verification/Prelude.thy ===== *)
theory Prelude
  imports Main "HOL-Library.Word" "HOL-Library.Sublist" "HOL-Library.Multiset"
begin

text \<open>
  Shared vocabulary of the development: the machine integers and byte strings of the Go
  sources, the big-endian readings the wire formats use, and the generic lemmas on lists,
  prefixes and words that the component theories rely on.

  Go's \<^verbatim>\<open>uint8\<close>, \<^verbatim>\<open>uint16\<close>, \<^verbatim>\<open>uint32\<close> and \<^verbatim>\<open>uint64\<close> are words of their width.
  Go's \<^verbatim>\<open>int\<close> is 64 bits wide on every platform the program is released for; lengths and
  offsets are \<open>nat\<close> or \<open>int\<close> here, and where the source computes a value that could leave
  the range the bound is proved. A Go string is a byte sequence and is modelled by \<open>string\<close>,
  whose characters are exactly the 256 byte values.
\<close>

unbundle bit_operations_syntax

type_synonym u8 = "8 word"
type_synonym u16 = "16 word"
type_synonym u32 = "32 word"
type_synonym u64 = "64 word"
type_synonym bytes = "u8 list"

text \<open>
  Collections of the development: \<open>cb_simps\<close> unfolds the reads of a byte string,
  \<open>grease_simps\<close> the facts on reserved codepoints, \<open>emit_simps\<close> the effect of the
  assembler's operations on single fields.
\<close>

named_theorems cb_simps
named_theorems grease_simps
named_theorems emit_simps


subsection \<open>Big-endian numbers\<close>

text \<open>The two-byte big-endian value, as \<^verbatim>\<open>binary.BigEndian.Uint16\<close> reads it.\<close>

definition be16 :: "u8 \<Rightarrow> u8 \<Rightarrow> u16" where
  "be16 a b = word_of_nat (unat a * 256 + unat b)"

text \<open>The value of a big-endian byte string of any length.\<close>

definition be_nat :: "bytes \<Rightarrow> nat" where
  "be_nat bs = foldl (\<lambda>v b. v * 256 + unat b) 0 bs"

lemma byte_less [simp]: "unat (b :: u8) < 256"
  using unsigned_less [of b, where ?'a = nat] by simp

lemma byte_le [simp]: "unat (b :: u8) \<le> 255"
  using byte_less [of b] by linarith

lemma unat_ucast_u8 [simp]: "unat (ucast (b :: u8) :: u64) = unat b" "unat (ucast b :: u32) = unat b"
  by (simp_all add: unsigned_ucast_eq take_bit_nat_eq_self_iff less_le_trans [OF byte_less])

lemma pos256_less: "a * 256 + b < 65536" if "a < 256" "b < 256" for a b :: nat
  using that by linarith

lemma pos256_inj: "a * 256 + b = c * 256 + d \<longleftrightarrow> a = c \<and> b = d"
  if "b < 256" "d < 256" for a b c d :: nat
proof
  assume eq: "a * 256 + b = c * 256 + d"
  have "a = (a * 256 + b) div 256" using that by simp
  also have "\<dots> = c" using that eq by simp
  finally show "a = c \<and> b = d" using eq by simp
qed simp

lemma unat_be16: "unat (be16 a b) = unat a * 256 + unat b"
  by (simp only: be16_def unat_of_nat) (simp add: pos256_less)

lemma be16_less [simp]: "unat (be16 a b) < 65536"
  by (simp add: unat_be16 pos256_less)

lemma be16_inj: "be16 a b = be16 c d \<longleftrightarrow> a = c \<and> b = d"
  by (simp add: word_unat_eq_iff unat_be16 pos256_inj)

lemma be_nat_shift: "foldl (\<lambda>v b. v * 256 + unat (b :: u8)) v bs = v * 256 ^ length bs + be_nat bs"
proof (induction bs arbitrary: v)
  case (Cons b bs)
  show ?case
    using Cons.IH [of "v * 256 + unat b"] Cons.IH [of "unat b"]
    by (simp add: be_nat_def algebra_simps)
qed (simp add: be_nat_def)

lemma be_nat_Nil [simp]: "be_nat [] = 0"
  by (simp add: be_nat_def)

lemma be_nat_Cons: "be_nat (b # bs) = unat b * 256 ^ length bs + be_nat bs"
  using be_nat_shift [of "unat b" bs] by (simp add: be_nat_def)

lemma be_nat_bound: "be_nat bs < 256 ^ length bs"
proof (induction bs)
  case (Cons b bs)
  have "unat b + 1 \<le> 256" using byte_less [of b] by linarith
  then have "(unat b + 1) * 256 ^ length bs \<le> 256 * 256 ^ length bs"
    by (rule mult_right_mono) simp
  with Cons.IH have "unat b * 256 ^ length bs + be_nat bs < 256 * 256 ^ length bs"
    by (simp only: distrib_right mult_1)
  then show ?case by (simp add: be_nat_Cons)
qed simp

text \<open>The bytes of a word from the most significant one down are its value in base 256.\<close>

lemma be_nat_of_word:
  "be_nat (map (\<lambda>i. ucast (drop_bit (8 * i) w)) (rev [0..<n])) = unat (w :: 'a :: len word) mod 256 ^ n"
proof (induction n)
  case (Suc n)
  have b: "unat (ucast (drop_bit (8 * n) w) :: u8) = unat w div 256 ^ n mod 256"
    by (simp only: unsigned_ucast_eq unat_drop_bit_eq) (simp add: take_bit_eq_mod drop_bit_eq_div power_mult)
  have "be_nat (map (\<lambda>i. ucast (drop_bit (8 * i) w)) (rev [0..<Suc n])) =
      (unat w div 256 ^ n mod 256) * 256 ^ n + unat w mod 256 ^ n"
    using Suc.IH b by (simp add: be_nat_Cons)
  also have "\<dots> = unat w mod (256 ^ n * 256)"
    by (simp add: mod_mult2_eq)
  finally show ?case by (simp add: mult.commute)
qed simp

text \<open>The shift-and-or spelling of the sources is the positional value.\<close>

lemma shl_or: "push_bit k a OR b = a * 2 ^ k + b" if "b < 2 ^ k" for a b :: nat
proof -
  have "bit (push_bit k a) n \<longrightarrow> \<not> bit b n" for n
  proof
    assume "bit (push_bit k a) n"
    then have "k \<le> n" by (simp add: bit_push_bit_iff)
    then have "(2 :: nat) ^ k \<le> 2 ^ n" by (rule power_increasing) simp
    with that have "b < 2 ^ n" by linarith
    then show "\<not> bit b n" by (simp add: bit_iff_odd)
  qed
  then have "push_bit k a AND b = 0"
    by (auto simp: bit_eq_iff bit_and_iff)
  then have "push_bit k a + b = push_bit k a OR b"
    by (rule disjunctive_add_eq_or)
  then show ?thesis by (simp add: push_bit_eq_mult)
qed

lemma shl8_or: "push_bit 8 a OR b = a * 256 + b" if "b < 256" for a b :: nat
  using shl_or [of b 8 a] that by simp

text \<open>The three-byte length of a handshake header, \<^verbatim>\<open>b[1]<<16 | b[2]<<8 | b[3]\<close>.\<close>

lemma shl16_or: "(push_bit 16 a OR push_bit 8 b) OR c = a * 65536 + b * 256 + c"
  if "b < 256" "c < 256" for a b c :: nat
proof -
  have "push_bit 16 a OR push_bit 8 b = push_bit 8 (push_bit 8 a OR b)"
    by simp
  also have "\<dots> OR c = (a * 256 + b) * 256 + c"
    using that by (simp add: shl8_or)
  finally show ?thesis by simp
qed


subsection \<open>Lists and prefixes\<close>

lemma prefix_take: "prefix (take n xs) xs"
  by (metis append_take_drop_id prefixI)

lemma take_drop_split: "n \<le> length xs \<Longrightarrow> xs = take n xs @ drop n xs \<and> length (take n xs) = n"
  by simp

lemma prefix_imp_append: "prefix xs ys \<Longrightarrow> \<exists>zs. ys = xs @ zs"
  by (auto elim: prefixE)

lemma find_prefix:
  assumes "prefix xs ys" and "find P xs = Some x"
  shows "find P ys = Some x"
proof -
  obtain zs where "ys = xs @ zs" using assms(1) by (auto elim: prefixE)
  moreover have "find P (xs @ zs) = Some x"
    using assms(2) by (induction xs) (auto split: if_splits)
  ultimately show ?thesis by simp
qed

text \<open>The first \<open>n\<close> elements of a list are kept by every longer list.\<close>

lemma take_prefix_eq: "prefix xs ys \<Longrightarrow> n \<le> length xs \<Longrightarrow> take n ys = take n xs"
  by (auto elim: prefixE)

lemma drop_prefix_mono: "prefix xs ys \<Longrightarrow> n \<le> length xs \<Longrightarrow> prefix (drop n xs) (drop n ys)"
  by (auto elim: prefixE)

lemma prefix_nth: "prefix xs ys \<Longrightarrow> i < length xs \<Longrightarrow> ys ! i = xs ! i"
  by (auto elim: prefixE simp: nth_append)

text \<open>Replacing one element changes a count by what the element contributes.\<close>

lemma length_filter_update:
  "i < length xs \<Longrightarrow>
   length (filter P (xs[i := y])) + (if P (xs ! i) then 1 else 0) = length (filter P xs) + (if P y then 1 else 0)"
proof (induction xs arbitrary: i)
  case (Cons x xs)
  then show ?case by (cases i) auto
qed simp

lemma list_all_update: "list_all P xs \<Longrightarrow> P y \<Longrightarrow> list_all P (xs[i := y])"
  by (auto simp: list_all_iff dest: set_update_subset_insert [THEN subsetD])



subsection \<open>Maps as lists of entries\<close>

text \<open>A Go map as the list of its entries, one per key: storing replaces in place or appends.\<close>

fun map_put :: "'k \<Rightarrow> 'v \<Rightarrow> ('k \<times> 'v) list \<Rightarrow> ('k \<times> 'v) list" where
  "map_put k v [] = [(k, v)]"
| "map_put k v ((k', v') # m) = (if k' = k then (k, v) # m else (k', v') # map_put k v m)"

lemma map_put_keys:
  "map fst (map_put k v m) = (if k \<in> fst ` set m then map fst m else map fst m @ [k])"
  by (induction k v m rule: map_put.induct) auto

lemma length_map_put: "length (map_put k v m) = length m + (if k \<in> fst ` set m then 0 else 1)"
  by (induction k v m rule: map_put.induct) auto

lemma list_all_map_put: "list_all P m \<Longrightarrow> P (k, v) \<Longrightarrow> list_all P (map_put k v m)"
  by (induction k v m rule: map_put.induct) auto

lemma map_of_map_put: "map_of (map_put k v m) = (map_of m)(k \<mapsto> v)"
  by (induction k v m rule: map_put.induct) (auto simp: fun_eq_iff)

lemma distinct_map_put: "distinct (map fst m) \<Longrightarrow> distinct (map fst (map_put k v m))"
  by (simp add: map_put_keys)

end
