(* ===== verification/Cryptobyte.thy ===== *)
theory Cryptobyte
  imports Prelude
begin

text \<open>
  The interface of \<^verbatim>\<open>golang.org/x/crypto/cryptobyte\<close>, which the TLS parsers read their input
  through. The package is not part of the repository, so its operations are a parameter of
  every parser: a record of functions, one per method of \<^verbatim>\<open>cryptobyte.String\<close> that the
  sources call. A \<^verbatim>\<open>String\<close> is a byte slice; a read that reports failure is \<open>None\<close> (no caller
  looks at the string again after a failed read), and a successful one gives the value and
  the string advanced over it.

  The locale \<open>cryptobyte_laws\<close> states what the package documents of these methods. The
  parsers' lemmas are proved inside it, and \<open>string_methods\<close> is an implementation of the
  documented behaviour that interprets it.
\<close>

record cryptobyte =
  Empty :: "bytes \<Rightarrow> bool"
  Skip :: "nat \<Rightarrow> bytes \<Rightarrow> bytes option"
  ReadBytes :: "nat \<Rightarrow> bytes \<Rightarrow> (bytes \<times> bytes) option"
  ReadUint8 :: "bytes \<Rightarrow> (u8 \<times> bytes) option"
  ReadUint16 :: "bytes \<Rightarrow> (u16 \<times> bytes) option"
  ReadUint8LengthPrefixed :: "bytes \<Rightarrow> (bytes \<times> bytes) option"
  ReadUint16LengthPrefixed :: "bytes \<Rightarrow> (bytes \<times> bytes) option"
  ReadUint24LengthPrefixed :: "bytes \<Rightarrow> (bytes \<times> bytes) option"

text \<open>Splitting \<open>n\<close> bytes off the front, and the content of a \<open>k\<close>-byte length-prefixed value.\<close>

definition split_at :: "nat \<Rightarrow> bytes \<Rightarrow> (bytes \<times> bytes) option" where
  "split_at n s = (if n \<le> length s then Some (take n s, drop n s) else None)"

definition length_prefixed :: "nat \<Rightarrow> bytes \<Rightarrow> (bytes \<times> bytes) option" where
  "length_prefixed k s =
     (case split_at k s of None \<Rightarrow> None | Some (l, r) \<Rightarrow> split_at (be_nat l) r)"

locale cryptobyte_laws =
  fixes cb :: cryptobyte
  assumes Empty_law: "Empty cb s \<longleftrightarrow> s = []"
    and Skip_law: "Skip cb n s = map_option snd (split_at n s)"
    and ReadBytes_law: "ReadBytes cb n s = split_at n s"
    and ReadUint8_law:
      "ReadUint8 cb s = (case s of [] \<Rightarrow> None | b # r \<Rightarrow> Some (b, r))"
    and ReadUint16_law:
      "ReadUint16 cb s = (case s of a # b # r \<Rightarrow> Some (be16 a b, r) | _ \<Rightarrow> None)"
    and ReadUint8LengthPrefixed_law: "ReadUint8LengthPrefixed cb s = length_prefixed 1 s"
    and ReadUint16LengthPrefixed_law: "ReadUint16LengthPrefixed cb s = length_prefixed 2 s"
    and ReadUint24LengthPrefixed_law: "ReadUint24LengthPrefixed cb s = length_prefixed 3 s"
begin

lemmas laws [cb_simps] =
  Empty_law Skip_law ReadBytes_law ReadUint8_law ReadUint16_law
  ReadUint8LengthPrefixed_law ReadUint16LengthPrefixed_law ReadUint24LengthPrefixed_law

end

text \<open>An implementation of the documented methods.\<close>

definition string_methods :: cryptobyte where
  "string_methods =
     \<lparr>Empty = (\<lambda>s. s = []),
      Skip = (\<lambda>n s. map_option snd (split_at n s)),
      ReadBytes = split_at,
      ReadUint8 = (\<lambda>s. case s of [] \<Rightarrow> None | b # r \<Rightarrow> Some (b, r)),
      ReadUint16 = (\<lambda>s. case s of a # b # r \<Rightarrow> Some (be16 a b, r) | _ \<Rightarrow> None),
      ReadUint8LengthPrefixed = length_prefixed 1,
      ReadUint16LengthPrefixed = length_prefixed 2,
      ReadUint24LengthPrefixed = length_prefixed 3\<rparr>"

interpretation sm: cryptobyte_laws string_methods
  by unfold_locales (simp_all add: string_methods_def)


subsection \<open>What a read consumes\<close>

lemma split_at_Some:
  "split_at n s = Some (x, r) \<longleftrightarrow> s = x @ r \<and> length x = n"
  by (auto simp: split_at_def)

lemma split_at_append [simp]: "split_at (length x) (x @ r) = Some (x, r)"
  by (simp add: split_at_def)

lemma split_at_None: "split_at n s = None \<longleftrightarrow> length s < n"
  by (auto simp: split_at_def)

lemma length_prefixed_Some:
  "length_prefixed k s = Some (x, r) \<longleftrightarrow>
     (\<exists>l. s = l @ x @ r \<and> length l = k \<and> be_nat l = length x)"
  by (auto simp: length_prefixed_def split_at_Some split: option.splits prod.splits
      dest: split_at_None [THEN iffD1])

lemma length_prefixed_shrinks:
  "length_prefixed k s = Some (x, r) \<Longrightarrow> k + length x + length r = length s"
  by (auto simp: length_prefixed_Some)

context cryptobyte_laws
begin

lemma ReadUint8_Some: "ReadUint8 cb s = Some (b, r) \<longleftrightarrow> s = b # r"
  by (auto simp: cb_simps split: list.splits)

lemma ReadUint16_Some: "ReadUint16 cb s = Some (v, r) \<longleftrightarrow> (\<exists>a b. s = a # b # r \<and> v = be16 a b)"
  by (auto simp: cb_simps split: list.splits)

lemma ReadUint16_None: "ReadUint16 cb s = None \<longleftrightarrow> length s < 2"
  by (auto simp: cb_simps split: list.splits)

text \<open>Every successful read leaves a shorter string: the loops over a string make progress.\<close>

lemma ReadUint8_shrinks: "ReadUint8 cb s = Some (b, r) \<Longrightarrow> length r < length s"
  by (auto simp: ReadUint8_Some)

lemma ReadUint16_shrinks: "ReadUint16 cb s = Some (v, r) \<Longrightarrow> length r < length s"
  by (auto simp: ReadUint16_Some)

lemma prefixed_shrinks:
  "ReadUint8LengthPrefixed cb s = Some (x, r) \<Longrightarrow> length r < length s"
  "ReadUint16LengthPrefixed cb s = Some (x, r) \<Longrightarrow> length r < length s"
  "ReadUint24LengthPrefixed cb s = Some (x, r) \<Longrightarrow> length r < length s"
  by (auto simp: cb_simps dest: length_prefixed_shrinks)

lemmas reads_shrink = ReadUint8_shrinks ReadUint16_shrinks prefixed_shrinks

end

end
