(* ===== verification/Grease.thy ===== *)
theory Grease
  imports Prelude
begin

text \<open>
  \<^verbatim>\<open>internal/tlsparse/grease.go\<close>: recognising and stripping the codepoints RFC 8701 reserves.
\<close>

definition IsGREASE :: "u16 \<Rightarrow> bool" where
  "IsGREASE v \<longleftrightarrow> (ucast (drop_bit 8 v) :: u8) = ucast v \<and> v AND 0x0f = 0x0a"

text \<open>
  The loop looks for the first reserved value; from there on it copies the others. Without
  one the input is returned as it is. \<open>stripGREASE_from i\<close> is the loop at index \<open>i\<close>.
\<close>

function stripGREASE_from :: "nat \<Rightarrow> u16 list \<Rightarrow> u16 list \<times> bool" where
  "stripGREASE_from i inp =
     (if i < length inp
      then (if \<not> IsGREASE (inp ! i) then stripGREASE_from (Suc i) inp
            else (take i inp @ filter (\<lambda>v. \<not> IsGREASE v) (drop (Suc i) inp), True))
      else (inp, False))"
  by pat_completeness auto
termination
  by (relation "measure (\<lambda>(i, inp). length inp - i)") auto

declare stripGREASE_from.simps [simp del]

definition stripGREASE :: "u16 list \<Rightarrow> u16 list \<times> bool" where
  "stripGREASE inp = stripGREASE_from 0 inp"

definition grease_free :: "u16 list \<Rightarrow> bool" where
  "grease_free vs \<longleftrightarrow> (\<forall>v \<in> set vs. \<not> IsGREASE v)"

lemma grease_free_simps [simp]:
  "grease_free []"
  "grease_free (v # vs) \<longleftrightarrow> \<not> IsGREASE v \<and> grease_free vs"
  "grease_free (vs @ ws) \<longleftrightarrow> grease_free vs \<and> grease_free ws"
  by (auto simp: grease_free_def)

lemma grease_free_filter [simp]: "grease_free (filter (\<lambda>v. \<not> IsGREASE v) vs)"
  by (simp add: grease_free_def)

lemma stripGREASE_from_eq:
  "grease_free (take i inp) \<Longrightarrow>
   stripGREASE_from i inp =
     (filter (\<lambda>v. \<not> IsGREASE v) inp, \<exists>v \<in> set (drop i inp). IsGREASE v)"
proof (induction i inp rule: stripGREASE_from.induct)
  case (1 i inp)
  show ?case
  proof (cases "i < length inp")
    case False
    with "1.prems" show ?thesis
      by (auto simp: stripGREASE_from.simps [of i inp] grease_free_def filter_id_conv [THEN iffD2])
  next
    case i: True
    then have split: "inp = take i inp @ inp ! i # drop (Suc i) inp"
      by (simp add: id_take_nth_drop)
    have kept: "filter (\<lambda>v. \<not> IsGREASE v) (take i inp) = take i inp"
      using "1.prems" by (simp add: grease_free_def)
    show ?thesis
    proof (cases "IsGREASE (inp ! i)")
      case True
      have "filter (\<lambda>v. \<not> IsGREASE v) inp = take i inp @ filter (\<lambda>v. \<not> IsGREASE v) (drop (Suc i) inp)"
        using True kept by (subst split) simp
      with i True show ?thesis
        by (auto simp: stripGREASE_from.simps [of i inp] Cons_nth_drop_Suc [symmetric])
    next
      case False
      then have "grease_free (take (Suc i) inp)"
        using i "1.prems" by (simp add: take_Suc_conv_app_nth)
      with "1.IH" [OF i False] i False show ?thesis
        by (simp add: stripGREASE_from.simps [of i inp] Cons_nth_drop_Suc [symmetric])
    qed
  qed
qed

text \<open>The optimised copy is a filter, and the flag says whether it removed anything.\<close>

lemma stripGREASE_eq [grease_simps]:
  "stripGREASE inp = (filter (\<lambda>v. \<not> IsGREASE v) inp, \<exists>v \<in> set inp. IsGREASE v)"
  by (simp add: stripGREASE_def stripGREASE_from_eq)

lemma stripGREASE_grease_free: "stripGREASE inp = (out, found) \<Longrightarrow> grease_free out"
  by (auto simp: stripGREASE_eq)

lemma drop_bit_be16: "(ucast (drop_bit 8 (be16 a b)) :: u8) = a"
proof -
  have "unat (ucast (drop_bit 8 (be16 a b)) :: u8) = take_bit 8 (drop_bit 8 (unat (be16 a b)))"
    by (simp only: unsigned_ucast_eq unat_drop_bit_eq) simp
  also have "\<dots> = unat a"
    by (simp only: unat_be16) (simp add: drop_bit_eq_div take_bit_eq_mod)
  finally show ?thesis by (simp only: word_unat_eq_iff)
qed

lemma ucast_be16: "(ucast (be16 a b) :: u8) = b"
proof -
  have "unat (ucast (be16 a b) :: u8) = unat (be16 a b) mod 256"
    by (simp add: unsigned_ucast_eq take_bit_eq_mod)
  also have "\<dots> = unat b" by (simp add: unat_be16)
  finally show ?thesis by (simp only: word_unat_eq_iff)
qed

lemma be16_surj: "\<exists>a b. v = be16 a b"
proof -
  let ?a = "word_of_nat (unat v div 256) :: u8" and ?b = "word_of_nat (unat v mod 256) :: u8"
  have "unat v div 256 < 256"
    using unsigned_less [of v, where ?'a = nat] by (simp add: less_mult_imp_div_less)
  then have "unat (be16 ?a ?b) = unat v"
    by (simp only: unat_be16 unat_of_nat) simp
  then have "v = be16 ?a ?b" by (simp only: word_unat_eq_iff)
  then show ?thesis by blast
qed

lemma low_nibble_be16: "be16 a b AND 0x0f = 0x0a \<longleftrightarrow> unat b mod 16 = 10"
proof -
  have "be16 a b AND 0x0f = take_bit 4 (be16 a b)"
    by (simp add: take_bit_eq_mask mask_eq_exp_minus_1)
  moreover have "unat (take_bit 4 (be16 a b)) = unat b mod 16"
  proof -
    have "(unat a * 256 + unat b) mod 16 = unat b mod 16"
      using mod_mult_self1 [of "unat b" "unat a * 16" 16] by (simp add: algebra_simps)
    then show ?thesis by (simp only: unsigned_take_bit_eq unat_be16) (simp add: take_bit_eq_mod)
  qed
  ultimately show ?thesis by (simp add: word_unat_eq_iff)
qed

text \<open>The reserved values are the sixteen codepoints \<^verbatim>\<open>0x?a?a\<close> with equal bytes.\<close>

lemma IsGREASE_be16: "IsGREASE (be16 a b) \<longleftrightarrow> a = b \<and> unat b mod 16 = 10"
  by (simp add: IsGREASE_def drop_bit_be16 ucast_be16 low_nibble_be16)

end
