(* ===== verification/Go_Text.thy ===== *)
theory Go_Text
  imports Prelude
begin

text \<open>
  The functions of Go's \<^verbatim>\<open>strings\<close>, \<^verbatim>\<open>fmt\<close> and \<^verbatim>\<open>sort\<close> packages that the sources use, on
  byte strings. An index is an option: Go's \<^verbatim>\<open>-1\<close> is \<open>None\<close>.
\<close>

definition go_string :: "bytes \<Rightarrow> string" where
  "go_string bs = map (\<lambda>b. char_of (unat b)) bs"

definition string_bytes :: "string \<Rightarrow> bytes" where
  "string_bytes s = map (\<lambda>c. word_of_nat (of_char c)) s"

lemma go_string_eq_Nil [simp]: "go_string bs = [] \<longleftrightarrow> bs = []"
  by (simp add: go_string_def)

lemma length_go_string [simp]: "length (go_string bs) = length bs"
  by (simp add: go_string_def)

lemma length_string_bytes [simp]: "length (string_bytes s) = length s"
  by (simp add: string_bytes_def)

lemma go_string_bytes [simp]: "go_string (string_bytes s) = s"
  by (simp add: go_string_def string_bytes_def unat_of_nat comp_def)


subsection \<open>Package strings\<close>

definition HasPrefix :: "string \<Rightarrow> string \<Rightarrow> bool" where
  "HasPrefix s p \<longleftrightarrow> take (length p) s = p"

definition HasSuffix :: "string \<Rightarrow> string \<Rightarrow> bool" where
  "HasSuffix s p \<longleftrightarrow> HasPrefix (rev s) (rev p)"

definition TrimPrefix :: "string \<Rightarrow> string \<Rightarrow> string" where
  "TrimPrefix s p = (if HasPrefix s p then drop (length p) s else s)"

definition TrimSuffix :: "string \<Rightarrow> string \<Rightarrow> string" where
  "TrimSuffix s p = (if HasSuffix s p then take (length s - length p) s else s)"

fun Contains :: "string \<Rightarrow> string \<Rightarrow> bool" where
  "Contains [] sub \<longleftrightarrow> sub = []"
| "Contains (c # s) sub \<longleftrightarrow> HasPrefix (c # s) sub \<or> Contains s sub"

text \<open>\<^verbatim>\<open>before, after, found := strings.Cut(s, sep)\<close>\<close>

fun Cut :: "string \<Rightarrow> string \<Rightarrow> string \<times> string \<times> bool" where
  "Cut [] sep = ([], [], sep = [])"
| "Cut (c # s) sep =
     (if HasPrefix (c # s) sep then ([], drop (length sep) (c # s), True)
      else (case Cut s sep of (before, after, found) \<Rightarrow> (c # before, after, found)))"

fun LastIndex :: "string \<Rightarrow> string \<Rightarrow> nat option" where
  "LastIndex [] sub = (if sub = [] then Some 0 else None)"
| "LastIndex (c # s) sub =
     (case LastIndex s sub of
        Some i \<Rightarrow> Some (Suc i)
      | None \<Rightarrow> if HasPrefix (c # s) sub then Some 0 else None)"

fun Join :: "string list \<Rightarrow> string \<Rightarrow> string" where
  "Join [] sep = []"
| "Join [p] sep = p"
| "Join (p # q # ps) sep = p @ sep @ Join (q # ps) sep"

text \<open>\<^verbatim>\<open>strings.ToUpper\<close> and \<^verbatim>\<open>strings.ToLower\<close> on ASCII input.\<close>

definition ascii_upper :: "char \<Rightarrow> char" where
  "ascii_upper c = (let n = (of_char c :: nat) in if 97 \<le> n \<and> n \<le> 122 then char_of (n - 32) else c)"

definition ascii_lower :: "char \<Rightarrow> char" where
  "ascii_lower c = (let n = (of_char c :: nat) in if 65 \<le> n \<and> n \<le> 90 then char_of (n + 32) else c)"

definition ToUpper :: "string \<Rightarrow> string" where
  "ToUpper s = map ascii_upper s"

definition ToLower :: "string \<Rightarrow> string" where
  "ToLower s = map ascii_lower s"


subsection \<open>Package fmt: the verbs in use\<close>

definition hexdigit :: "nat \<Rightarrow> char" where
  "hexdigit n = (if n < 10 then char_of (48 + n) else char_of (87 + n))"

text \<open>\<^verbatim>\<open>%04x\<close> of a \<^verbatim>\<open>uint16\<close>.\<close>

definition hex04 :: "u16 \<Rightarrow> string" where
  "hex04 v = (let n = unat v in
     [hexdigit (n div 4096), hexdigit (n div 256 mod 16), hexdigit (n div 16 mod 16), hexdigit (n mod 16)])"

text \<open>\<^verbatim>\<open>%#04x\<close>: the zero padding counts digits, the \<^verbatim>\<open>0x\<close> comes on top of it.\<close>

definition sharp_hex04 :: "u16 \<Rightarrow> string" where
  "sharp_hex04 v = ''0x'' @ hex04 v"

text \<open>\<^verbatim>\<open>hex.EncodeToString\<close>\<close>

definition hex_encode :: "bytes \<Rightarrow> string" where
  "hex_encode bs = concat (map (\<lambda>b. [hexdigit (unat b div 16), hexdigit (unat b mod 16)]) bs)"

text \<open>\<^verbatim>\<open>%d\<close> of a non-negative number, and \<^verbatim>\<open>%02d\<close>.\<close>

fun dec :: "nat \<Rightarrow> string" where
  "dec n = (if n < 10 then [char_of (48 + n)] else dec (n div 10) @ [char_of (48 + n mod 10)])"

declare dec.simps [simp del]

definition dec02 :: "nat \<Rightarrow> string" where
  "dec02 n = (if n < 10 then CHR ''0'' # dec n else dec n)"

lemma length_hex04 [simp]: "length (hex04 v) = 4"
  by (simp add: hex04_def Let_def)

lemma length_hex_encode [simp]: "length (hex_encode bs) = 2 * length bs"
  by (induction bs) (simp_all add: hex_encode_def)

lemma length_dec02: "n < 100 \<Longrightarrow> length (dec02 n) = 2"
  by (simp add: dec02_def dec.simps [of n] dec.simps [of "n div 10"] div_less_mono)

lemma hexdigit_inj: "hexdigit m = hexdigit n \<longleftrightarrow> m = n" if "m < 16" "n < 16"
proof
  assume eq: "hexdigit m = hexdigit n"
  have code: "(of_char (hexdigit k) :: nat) = (if k < 10 then 48 + k else 87 + k)" if "k < 16" for k
    using that by (simp add: hexdigit_def)
  from eq have "(of_char (hexdigit m) :: nat) = of_char (hexdigit n)" by simp
  with code [OF that(1)] code [OF that(2)] show "m = n"
    by (simp split: if_splits)
qed simp

lemma hex_digits_value:
  "((n div 4096 * 16 + n div 256 mod 16) * 16 + n div 16 mod 16) * 16 + n mod 16 = (n :: nat)"
proof -
  have "n div 4096 * 16 + n div 256 mod 16 = n div 256"
    using div_mult_mod_eq [of "n div 256" 16] by (simp add: div_mult2_eq [symmetric])
  moreover have "n div 256 * 16 + n div 16 mod 16 = n div 16"
    using div_mult_mod_eq [of "n div 16" 16] by (simp add: div_mult2_eq [symmetric])
  ultimately show ?thesis by simp
qed

text \<open>The four hex digits determine the codepoint.\<close>

lemma hex04_inj: "hex04 v = hex04 w \<longleftrightarrow> v = w"
proof
  assume eq: "hex04 v = hex04 w"
  let ?m = "unat v" and ?n = "unat w"
  have small: "?m div 4096 < 16" "?n div 4096 < 16"
    using unsigned_less [of v, where ?'a = nat] unsigned_less [of w, where ?'a = nat]
    by (simp_all add: div_less_mono)
  have "?m div 4096 = ?n div 4096" "?m div 256 mod 16 = ?n div 256 mod 16"
    "?m div 16 mod 16 = ?n div 16 mod 16" "?m mod 16 = ?n mod 16"
    using eq small by (simp_all add: hex04_def Let_def hexdigit_inj)
  then have "?m = ?n" by (metis hex_digits_value)
  then show "v = w" by (simp only: word_unat_eq_iff)
qed simp


subsection \<open>Package sort\<close>

text \<open>
  \<^verbatim>\<open>sort.Slice(s, less)\<close> rearranges \<open>s\<close> so that no element is less than one before it, and
  promises nothing on elements neither of which is less than the other.
  \<open>slice_sorted\<close> is that postcondition; \<open>sort_slice\<close> is an insertion sort that meets it.
\<close>

definition slice_sorted :: "('a \<Rightarrow> 'a \<Rightarrow> bool) \<Rightarrow> 'a list \<Rightarrow> 'a list \<Rightarrow> bool" where
  "slice_sorted lt s t \<longleftrightarrow> mset t = mset s \<and> sorted_wrt (\<lambda>x y. \<not> lt y x) t"

fun insert_by :: "('a \<Rightarrow> 'a \<Rightarrow> bool) \<Rightarrow> 'a \<Rightarrow> 'a list \<Rightarrow> 'a list" where
  "insert_by lt x [] = [x]"
| "insert_by lt x (y # ys) = (if lt y x then y # insert_by lt x ys else x # y # ys)"

definition sort_slice :: "('a \<Rightarrow> 'a \<Rightarrow> bool) \<Rightarrow> 'a list \<Rightarrow> 'a list" where
  "sort_slice lt xs = foldr (insert_by lt) xs []"

lemma mset_insert_by [simp]: "mset (insert_by lt x ys) = add_mset x (mset ys)"
  by (induction ys) auto

lemma set_insert_by [simp]: "set (insert_by lt x ys) = insert x (set ys)"
  by (induction ys) auto

lemma mset_sort_slice [simp]: "mset (sort_slice lt xs) = mset xs"
  by (induction xs) (simp_all add: sort_slice_def)

lemma set_sort_slice [simp]: "set (sort_slice lt xs) = set xs"
  by (metis mset_sort_slice set_mset_mset)

lemma length_sort_slice [simp]: "length (sort_slice lt xs) = length xs"
  by (metis mset_sort_slice size_mset)

text \<open>A comparison usable with \<^verbatim>\<open>sort.Slice\<close>: a strict weak order.\<close>

locale strict_weak_order =
  fixes lt :: "'a \<Rightarrow> 'a \<Rightarrow> bool"
  assumes asym: "lt x y \<Longrightarrow> \<not> lt y x"
    and cotrans: "lt x z \<Longrightarrow> lt x y \<or> lt y z"
begin

lemma trans_less: "lt x y \<Longrightarrow> lt y z \<Longrightarrow> lt x z"
  using asym cotrans by blast

lemma not_less_trans: "\<not> lt y x \<Longrightarrow> \<not> lt z y \<Longrightarrow> \<not> lt z x"
  using cotrans by blast

lemma sorted_insert_by:
  "sorted_wrt (\<lambda>x y. \<not> lt y x) ys \<Longrightarrow> sorted_wrt (\<lambda>x y. \<not> lt y x) (insert_by lt x ys)"
proof (induction ys)
  case (Cons y ys)
  show ?case
  proof (cases "lt y x")
    case True
    with Cons show ?thesis by (auto dest: asym)
  next
    case False
    with Cons.prems not_less_trans [OF False] show ?thesis by auto
  qed
qed simp

lemma sort_slice_sorted: "slice_sorted lt xs (sort_slice lt xs)"
proof -
  have "sorted_wrt (\<lambda>x y. \<not> lt y x) (sort_slice lt xs)"
    by (induction xs) (auto simp: sort_slice_def intro: sorted_insert_by)
  then show ?thesis by (simp add: slice_sorted_def)
qed

text \<open>
  Where the comparison separates any two elements of the input, the postcondition leaves one
  result: it depends neither on the algorithm nor on the order of the input.
\<close>

lemma slice_sorted_unique:
  assumes "mset s = mset s'" and "slice_sorted lt s t" and "slice_sorted lt s' t'"
    and total: "\<And>x y. x \<in> set s \<Longrightarrow> y \<in> set s \<Longrightarrow> \<not> lt x y \<Longrightarrow> \<not> lt y x \<Longrightarrow> x = y"
  shows "t = t'"
proof -
  have eq: "mset t = mset t'" and elems: "set t = set s"
    using assms(1-3) by (auto simp: slice_sorted_def dest: mset_eq_setD)
  have "sorted_wrt (\<lambda>x y. \<not> lt y x) t" "sorted_wrt (\<lambda>x y. \<not> lt y x) t'"
    using assms(2,3) by (simp_all add: slice_sorted_def)
  moreover have "\<forall>x\<in>set t. \<forall>y\<in>set t. \<not> lt x y \<longrightarrow> \<not> lt y x \<longrightarrow> x = y"
    using total elems by blast
  ultimately show ?thesis using eq
  proof (induction t arbitrary: t')
    case (Cons a t)
    then obtain b u where t': "t' = b # u" by (cases t') auto
    have "a \<in> set (b # u)" "b \<in> set (a # t)"
      using Cons.prems(4) t' by (metis list.set_intros(1) mset_eq_setD)+
    with Cons.prems t' have "a = b" by auto
    with Cons t' show ?case by auto
  qed simp
qed

end

end
