(* ===== verification/Tls_Extensions.thy ===== *)
theory Tls_Extensions
  imports Cryptobyte Grease Go_Text
begin

text \<open>
  \<^verbatim>\<open>internal/tlsparse/extensions.go\<close>: the extension codepoints, the list readers the hello
  parsers share, and the server_name, ALPN and encrypted_client_hello bodies.

  A loop \<^verbatim>\<open>for !s.Empty()\<close> recurses on the string the reads left. The reads are a parameter,
  so each loop asks that its reads made the string shorter; where they did not the source's loop
  would not end, and the model stops with the value stated there. The laws of
  \<open>cryptobyte_laws\<close> exclude that case (\<open>reads_shrink\<close>).
\<close>

definition ExtServerName :: u16 where [simp]: "ExtServerName = 0"
definition ExtStatusRequest :: u16 where [simp]: "ExtStatusRequest = 5"
definition ExtSupportedGroups :: u16 where [simp]: "ExtSupportedGroups = 10"
definition ExtSignatureAlgorithms :: u16 where [simp]: "ExtSignatureAlgorithms = 13"
definition ExtALPN :: u16 where [simp]: "ExtALPN = 16"
definition ExtExtendedMasterSecret :: u16 where [simp]: "ExtExtendedMasterSecret = 23"
definition ExtSessionTicket :: u16 where [simp]: "ExtSessionTicket = 35"
definition ExtPreSharedKey :: u16 where [simp]: "ExtPreSharedKey = 41"
definition ExtEarlyData :: u16 where [simp]: "ExtEarlyData = 42"
definition ExtSupportedVersions :: u16 where [simp]: "ExtSupportedVersions = 43"
definition ExtPSKKeyExchangeModes :: u16 where [simp]: "ExtPSKKeyExchangeModes = 45"
definition ExtSignatureAlgorithmsCert :: u16 where [simp]: "ExtSignatureAlgorithmsCert = 50"
definition ExtKeyShare :: u16 where [simp]: "ExtKeyShare = 51"
definition ExtQUICTransportParams :: u16 where [simp]: "ExtQUICTransportParams = 57"
definition ExtEncryptedClientHello :: u16 where [simp]: "ExtEncryptedClientHello = 0xfe0d"
definition ExtRenegotiationInfo :: u16 where [simp]: "ExtRenegotiationInfo = 0xff01"

text \<open>\<^verbatim>\<open>var extensionNames\<close>: the registered names, by codepoint.\<close>

definition extensionNames :: "(u16 \<times> string) list" where
  "extensionNames =
    [(0, ''server_name''), (1, ''max_fragment_length''), (5, ''status_request''),
     (10, ''supported_groups''), (11, ''ec_point_formats''), (13, ''signature_algorithms''),
     (14, ''use_srtp''), (15, ''heartbeat''), (16, ''application_layer_protocol_negotiation''),
     (18, ''signed_certificate_timestamp''), (19, ''client_certificate_type''),
     (20, ''server_certificate_type''), (21, ''padding''), (22, ''encrypt_then_mac''),
     (23, ''extended_master_secret''), (27, ''compress_certificate''), (28, ''record_size_limit''),
     (34, ''delegated_credential''), (35, ''session_ticket''), (41, ''pre_shared_key''),
     (42, ''early_data''), (43, ''supported_versions''), (44, ''cookie''),
     (45, ''psk_key_exchange_modes''), (47, ''certificate_authorities''),
     (49, ''post_handshake_auth''), (50, ''signature_algorithms_cert''), (51, ''key_share''),
     (57, ''quic_transport_parameters''), (13172, ''next_protocol_negotiation''),
     (17513, ''application_settings''), (17613, ''application_settings_old''),
     (0xfe0d, ''encrypted_client_hello''), (0xff01, ''renegotiation_info'')]"

text \<open>The name of a codepoint, or its hex form.\<close>

definition name_or_hex :: "(u16 \<times> string) list \<Rightarrow> u16 \<Rightarrow> string" where
  "name_or_hex names v =
     (case map_of names v of
        Some n \<Rightarrow> n
      | None \<Rightarrow> if IsGREASE v then ''GREASE('' @ sharp_hex04 v @ '')'' else sharp_hex04 v)"

definition ExtensionName :: "u16 \<Rightarrow> string" where
  "ExtensionName v = name_or_hex extensionNames v"

record ECHInfo =
  ech_Outer :: bool
  ech_KDFID :: u16
  ech_AEADID :: u16
  ech_ConfigID :: u8


subsection \<open>Lists of codepoints\<close>

function collectUint16_loop :: "cryptobyte \<Rightarrow> u16 list \<Rightarrow> bytes \<Rightarrow> u16 list option" where
  "collectUint16_loop cb list v =
     (if Empty cb v then Some list
      else (case ReadUint16 cb v of
              None \<Rightarrow> None
            | Some (x, r) \<Rightarrow>
                if length r < length v then collectUint16_loop cb (list @ [x]) r else None))"
  by pat_completeness auto
termination
  by (relation "measure (\<lambda>(cb, list, v). length v)") auto

declare collectUint16_loop.simps [simp del]

definition collectUint16 :: "cryptobyte \<Rightarrow> bytes \<Rightarrow> u16 list option" where
  "collectUint16 cb v = (if length v mod 2 \<noteq> 0 then None else collectUint16_loop cb [] v)"

text \<open>Both readers advance the string over the vector; the callers that go on reading use it.\<close>

definition readUint16List :: "cryptobyte \<Rightarrow> bytes \<Rightarrow> (u16 list \<times> bytes) option" where
  "readUint16List cb s =
     (case ReadUint16LengthPrefixed cb s of
        None \<Rightarrow> None
      | Some (v, r) \<Rightarrow> map_option (\<lambda>out. (out, r)) (collectUint16 cb v))"

definition readUint8PrefixedUint16List :: "cryptobyte \<Rightarrow> bytes \<Rightarrow> (u16 list \<times> bytes) option" where
  "readUint8PrefixedUint16List cb s =
     (case ReadUint8LengthPrefixed cb s of
        None \<Rightarrow> None
      | Some (v, r) \<Rightarrow> map_option (\<lambda>out. (out, r)) (collectUint16 cb v))"


subsection \<open>server\_name\<close>

text \<open>\<open>None\<close> is the source's \<^verbatim>\<open>"", false\<close>.\<close>

function parseServerName_loop :: "cryptobyte \<Rightarrow> bytes \<Rightarrow> string option" where
  "parseServerName_loop cb list =
     (if Empty cb list then Some []
      else (case ReadUint8 cb list of
              None \<Rightarrow> None
            | Some (nameType, l1) \<Rightarrow>
                (case ReadUint16LengthPrefixed cb l1 of
                   None \<Rightarrow> None
                 | Some (name, l2) \<Rightarrow>
                     if nameType = 0 then Some (go_string name)
                     else if length l2 < length list then parseServerName_loop cb l2
                     else None)))"
  by pat_completeness auto
termination
  by (relation "measure (\<lambda>(cb, list). length list)") auto

declare parseServerName_loop.simps [simp del]

definition parseServerName :: "cryptobyte \<Rightarrow> bytes \<Rightarrow> string option" where
  "parseServerName cb body =
     (case ReadUint16LengthPrefixed cb body of
        None \<Rightarrow> None
      | Some (list, _) \<Rightarrow> parseServerName_loop cb list)"


subsection \<open>ALPN\<close>

function parseALPN_loop :: "cryptobyte \<Rightarrow> string list \<Rightarrow> bytes \<Rightarrow> string list option" where
  "parseALPN_loop cb out list =
     (if Empty cb list then Some out
      else (case ReadUint8LengthPrefixed cb list of
              None \<Rightarrow> None
            | Some (name, r) \<Rightarrow>
                if length r < length list then parseALPN_loop cb (out @ [go_string name]) r
                else None))"
  by pat_completeness auto
termination
  by (relation "measure (\<lambda>(cb, out, list). length list)") auto

declare parseALPN_loop.simps [simp del]

definition parseALPN :: "cryptobyte \<Rightarrow> bytes \<Rightarrow> string list option" where
  "parseALPN cb body =
     (case ReadUint16LengthPrefixed cb body of
        None \<Rightarrow> None
      | Some (list, _) \<Rightarrow> parseALPN_loop cb [] list)"


subsection \<open>encrypted\_client\_hello\<close>

definition parseECH :: "cryptobyte \<Rightarrow> bytes \<Rightarrow> ECHInfo option" where
  "parseECH cb body =
     (case ReadUint8 cb body of
        None \<Rightarrow> None
      | Some (kind, b) \<Rightarrow>
          if kind = 0 then
            (case ReadUint16 cb b of None \<Rightarrow> None | Some (kdf, b) \<Rightarrow>
            (case ReadUint16 cb b of None \<Rightarrow> None | Some (aead, b) \<Rightarrow>
            (case ReadUint8 cb b of None \<Rightarrow> None | Some (config, b) \<Rightarrow>
            (case ReadUint16LengthPrefixed cb b of None \<Rightarrow> None | Some (enc, b) \<Rightarrow>
            (case ReadUint16LengthPrefixed cb b of None \<Rightarrow> None | Some (payload, b) \<Rightarrow>
               Some \<lparr>ech_Outer = True, ech_KDFID = kdf, ech_AEADID = aead, ech_ConfigID = config\<rparr>)))))
          else if kind = 1 then
            Some \<lparr>ech_Outer = False, ech_KDFID = 0, ech_AEADID = 0, ech_ConfigID = 0\<rparr>
          else None)"


subsection \<open>Decoding what an encoder wrote\<close>

text \<open>The wire form of a vector of codepoints.\<close>

definition u16_bytes :: "u16 \<Rightarrow> bytes" where
  "u16_bytes v = [ucast (drop_bit 8 v), ucast v]"

definition u16s_bytes :: "u16 list \<Rightarrow> bytes" where
  "u16s_bytes vs = concat (map u16_bytes vs)"

definition with_len8 :: "bytes \<Rightarrow> bytes" where
  "with_len8 x = word_of_nat (length x) # x"

definition with_len16 :: "bytes \<Rightarrow> bytes" where
  "with_len16 x = u16_bytes (word_of_nat (length x)) @ x"

lemma length_u16_bytes [simp]: "length (u16_bytes v) = 2"
  by (simp add: u16_bytes_def)

lemma length_u16s_bytes [simp]: "length (u16s_bytes vs) = 2 * length vs"
  by (induction vs) (simp_all add: u16s_bytes_def)

lemma u16s_bytes_Cons: "u16s_bytes (v # vs) = u16_bytes v @ u16s_bytes vs"
  by (simp add: u16s_bytes_def)

lemma u16s_bytes_append: "u16s_bytes (vs @ ws) = u16s_bytes vs @ u16s_bytes ws"
  by (simp add: u16s_bytes_def)

lemma u16_bytes_be16: "u16_bytes (be16 a b) = [a, b]"
  by (simp add: u16_bytes_def drop_bit_be16 ucast_be16)

lemma u16_bytes_cases: obtains a b where "u16_bytes v = [a, b]" "be16 a b = v"
  using be16_surj [of v] u16_bytes_be16 by metis

lemma be_nat_two: "be_nat [a, b] = unat (be16 a b)"
  by (simp add: be_nat_def unat_be16)

lemma be_nat_u16_bytes: "n < 65536 \<Longrightarrow> be_nat (u16_bytes (word_of_nat n)) = n"
  by (rule u16_bytes_cases [of "word_of_nat n"])
    (simp add: be_nat_two unat_of_nat)

lemma length_prefixed_16: "length x < 65536 \<Longrightarrow> length_prefixed 2 (with_len16 x @ r) = Some (x, r)"
  by (auto simp: length_prefixed_Some with_len16_def be_nat_u16_bytes)

lemma length_prefixed_8: "length x < 256 \<Longrightarrow> length_prefixed 1 (with_len8 x @ r) = Some (x, r)"
proof -
  assume "length x < 256"
  then have "be_nat [word_of_nat (length x)] = length x"
    by (simp add: be_nat_def unat_of_nat)
  then have "with_len8 x @ r = [word_of_nat (length x)] @ x @ r \<and>
      length [word_of_nat (length x) :: u8] = 1 \<and> be_nat [word_of_nat (length x)] = length x"
    by (simp add: with_len8_def)
  then show ?thesis by (subst length_prefixed_Some) blast
qed

context cryptobyte_laws
begin

lemma ReadUint16_u16_bytes [simp]: "ReadUint16 cb (u16_bytes v @ r) = Some (v, r)"
  by (rule u16_bytes_cases [of v]) (auto simp: ReadUint16_Some)

lemma prefixed_round_trip:
  "length x < 65536 \<Longrightarrow> ReadUint16LengthPrefixed cb (with_len16 x @ r) = Some (x, r)"
  "length x < 256 \<Longrightarrow> ReadUint8LengthPrefixed cb (with_len8 x @ r) = Some (x, r)"
  by (simp_all add: cb_simps length_prefixed_16 length_prefixed_8 [unfolded One_nat_def])

lemma collectUint16_loop_round_trip:
  "collectUint16_loop cb list (u16s_bytes vs) = Some (list @ vs)"
proof (induction vs arbitrary: list)
  case Nil
  show ?case by (subst collectUint16_loop.simps) (simp add: u16s_bytes_def cb_simps)
next
  case (Cons v vs)
  have "\<not> Empty cb (u16_bytes v @ u16s_bytes vs)"
    by (simp add: cb_simps u16_bytes_def)
  with Cons.IH [of "list @ [v]"] show ?case
    by (subst collectUint16_loop.simps) (simp add: u16s_bytes_Cons)
qed

lemma collectUint16_round_trip: "collectUint16 cb (u16s_bytes vs) = Some vs"
  by (simp add: collectUint16_def collectUint16_loop_round_trip)

text \<open>Every even string is the encoding of a list, so the odd length is the only failure.\<close>

lemma even_bytes_u16s: "even (length v) \<Longrightarrow> \<exists>vs. v = u16s_bytes vs"
proof (induction v rule: induct_list012)
  case 1
  have "[] = u16s_bytes []" by (simp add: u16s_bytes_def)
  then show ?case by blast
next
  case (3 a b v)
  then obtain vs where "v = u16s_bytes vs" by auto
  then have "a # b # v = u16s_bytes (be16 a b # vs)"
    by (simp add: u16s_bytes_Cons u16_bytes_be16)
  then show ?case by blast
qed simp

lemma collectUint16_None: "collectUint16 cb v = None \<longleftrightarrow> odd (length v)"
proof (cases "even (length v)")
  case True
  then obtain vs where "v = u16s_bytes vs" using even_bytes_u16s by blast
  with True show ?thesis by (simp add: collectUint16_round_trip)
next
  case False
  then show ?thesis by (simp add: collectUint16_def odd_iff_mod_2_eq_one)
qed

lemma readUint16List_round_trip:
  "2 * length vs < 65536 \<Longrightarrow> readUint16List cb (with_len16 (u16s_bytes vs) @ r) = Some (vs, r)"
  by (simp add: readUint16List_def prefixed_round_trip collectUint16_round_trip)

lemma readUint8PrefixedUint16List_round_trip:
  "2 * length vs < 256 \<Longrightarrow>
   readUint8PrefixedUint16List cb (with_len8 (u16s_bytes vs) @ r) = Some (vs, r)"
  by (simp add: readUint8PrefixedUint16List_def prefixed_round_trip collectUint16_round_trip)

end

end
