(* ===== verification/Tls_ClientHello.thy ===== *)
theory Tls_ClientHello
  imports Tls_Extensions
begin

text \<open>
  \<^verbatim>\<open>internal/tlsparse/clienthello.go\<close>: decoding a ClientHello body. The errors of the package
  are the values of \<open>tls_error\<close>; the pointer fields are options; a nil slice is the empty list.
\<close>

datatype tls_error = ErrNotTLS | ErrTruncated | ErrMalformed

record ClientHello =
  ch_LegacyVersion :: u16
  ch_SessionIDLen :: nat
  ch_CipherSuites :: "u16 list"
  ch_CompressionMethods :: bytes
  ch_Extensions :: "u16 list"
  ch_ServerName :: string
  ch_ALPN :: "string list"
  ch_SupportedVersions :: "u16 list"
  ch_SupportedGroups :: "u16 list"
  ch_KeyShareGroups :: "u16 list"
  ch_SignatureAlgorithms :: "u16 list"
  ch_SignatureAlgorithmsCert :: "u16 list"
  ch_PSKKeyExchangeModes :: bytes
  ch_HasPreSharedKey :: bool
  ch_HasEarlyData :: bool
  ch_HasSessionTicket :: bool
  ch_HasExtendedMasterSecret :: bool
  ch_HasRenegotiationInfo :: bool
  ch_HasStatusRequest :: bool
  ch_QUIC :: bool
  ch_ECH :: "ECHInfo option"
  ch_GREASE :: bool
  ch_Truncated :: bool

definition empty_ClientHello :: ClientHello where
  "empty_ClientHello =
     \<lparr>ch_LegacyVersion = 0, ch_SessionIDLen = 0, ch_CipherSuites = [], ch_CompressionMethods = [],
      ch_Extensions = [], ch_ServerName = [], ch_ALPN = [], ch_SupportedVersions = [],
      ch_SupportedGroups = [], ch_KeyShareGroups = [], ch_SignatureAlgorithms = [],
      ch_SignatureAlgorithmsCert = [], ch_PSKKeyExchangeModes = [], ch_HasPreSharedKey = False,
      ch_HasEarlyData = False, ch_HasSessionTicket = False, ch_HasExtendedMasterSecret = False,
      ch_HasRenegotiationInfo = False, ch_HasStatusRequest = False, ch_QUIC = False,
      ch_ECH = None, ch_GREASE = False, ch_Truncated = False\<rparr>"

text \<open>The loop of \<^verbatim>\<open>NegotiatedVersion\<close>: a running maximum that starts at zero.\<close>

definition max_version :: "u16 list \<Rightarrow> u16" where
  "max_version vs = foldl (\<lambda>m v. if v > m then v else m) 0 vs"

definition ch_NegotiatedVersion :: "ClientHello \<Rightarrow> u16" where
  "ch_NegotiatedVersion ch =
     (let m = max_version (ch_SupportedVersions ch)
      in if m \<noteq> 0 then m else ch_LegacyVersion ch)"


subsection \<open>key\_share\<close>

text \<open>
  The groups are stored only when the whole vector was read; a reserved group sets the GREASE
  flag at once, even if the vector turns out to be malformed later.
\<close>

function ch_parseKeyShare_loop :: "cryptobyte \<Rightarrow> ClientHello \<Rightarrow> u16 list \<Rightarrow> bytes \<Rightarrow> ClientHello" where
  "ch_parseKeyShare_loop cb ch groups shares =
     (if Empty cb shares then ch\<lparr>ch_KeyShareGroups := groups\<rparr>
      else (case ReadUint16 cb shares of
              None \<Rightarrow> ch
            | Some (grp, s1) \<Rightarrow>
                (case ReadUint16LengthPrefixed cb s1 of
                   None \<Rightarrow> ch
                 | Some (key, s2) \<Rightarrow>
                     if \<not> length s2 < length shares then ch
                     else if IsGREASE grp
                     then ch_parseKeyShare_loop cb (ch\<lparr>ch_GREASE := True\<rparr>) groups s2
                     else ch_parseKeyShare_loop cb ch (groups @ [grp]) s2)))"
  by pat_completeness auto
termination
  by (relation "measure (\<lambda>(cb, ch, groups, shares). length shares)") auto

declare ch_parseKeyShare_loop.simps [simp del]

definition ch_parseKeyShare :: "cryptobyte \<Rightarrow> ClientHello \<Rightarrow> bytes \<Rightarrow> ClientHello" where
  "ch_parseKeyShare cb ch body =
     (case ReadUint16LengthPrefixed cb body of
        None \<Rightarrow> ch
      | Some (shares, _) \<Rightarrow> ch_parseKeyShare_loop cb ch [] shares)"


subsection \<open>Extensions\<close>

text \<open>The switch over one extension; a body that does not decode changes nothing.\<close>

definition ch_extension :: "cryptobyte \<Rightarrow> ClientHello \<Rightarrow> u16 \<Rightarrow> bytes \<Rightarrow> ClientHello" where
  "ch_extension cb ch extType body =
    (if extType = ExtServerName then
       (case parseServerName cb body of Some name \<Rightarrow> ch\<lparr>ch_ServerName := name\<rparr> | None \<Rightarrow> ch)
     else if extType = ExtALPN then
       (case parseALPN cb body of Some list \<Rightarrow> ch\<lparr>ch_ALPN := list\<rparr> | None \<Rightarrow> ch)
     else if extType = ExtSupportedVersions then
       (case readUint8PrefixedUint16List cb body of
          Some (vs, _) \<Rightarrow> (case stripGREASE vs of (vs, g) \<Rightarrow>
            ch\<lparr>ch_SupportedVersions := vs, ch_GREASE := ch_GREASE ch \<or> g\<rparr>)
        | None \<Rightarrow> ch)
     else if extType = ExtSupportedGroups then
       (case readUint16List cb body of
          Some (gs, _) \<Rightarrow> (case stripGREASE gs of (gs, g) \<Rightarrow>
            ch\<lparr>ch_SupportedGroups := gs, ch_GREASE := ch_GREASE ch \<or> g\<rparr>)
        | None \<Rightarrow> ch)
     else if extType = ExtSignatureAlgorithms then
       (case readUint16List cb body of
          Some (sa, _) \<Rightarrow> (case stripGREASE sa of (sa, g) \<Rightarrow>
            ch\<lparr>ch_SignatureAlgorithms := sa, ch_GREASE := ch_GREASE ch \<or> g\<rparr>)
        | None \<Rightarrow> ch)
     else if extType = ExtSignatureAlgorithmsCert then
       (case readUint16List cb body of
          Some (sa, _) \<Rightarrow> (case stripGREASE sa of (sa, _) \<Rightarrow> ch\<lparr>ch_SignatureAlgorithmsCert := sa\<rparr>)
        | None \<Rightarrow> ch)
     else if extType = ExtKeyShare then ch_parseKeyShare cb ch body
     else if extType = ExtPSKKeyExchangeModes then
       (case ReadUint8LengthPrefixed cb body of
          Some (modes, _) \<Rightarrow> ch\<lparr>ch_PSKKeyExchangeModes := modes\<rparr>
        | None \<Rightarrow> ch)
     else if extType = ExtEncryptedClientHello then
       (case parseECH cb body of
          Some info \<Rightarrow> ch\<lparr>ch_ECH := Some info\<rparr>
        | None \<Rightarrow> ch\<lparr>ch_ECH := Some \<lparr>ech_Outer = True, ech_KDFID = 0, ech_AEADID = 0, ech_ConfigID = 0\<rparr>\<rparr>)
     else if extType = ExtPreSharedKey then ch\<lparr>ch_HasPreSharedKey := True\<rparr>
     else if extType = ExtEarlyData then ch\<lparr>ch_HasEarlyData := True\<rparr>
     else if extType = ExtSessionTicket then ch\<lparr>ch_HasSessionTicket := True\<rparr>
     else if extType = ExtExtendedMasterSecret then ch\<lparr>ch_HasExtendedMasterSecret := True\<rparr>
     else if extType = ExtRenegotiationInfo then ch\<lparr>ch_HasRenegotiationInfo := True\<rparr>
     else if extType = ExtStatusRequest then ch\<lparr>ch_HasStatusRequest := True\<rparr>
     else if extType = ExtQUICTransportParams then ch\<lparr>ch_QUIC := True\<rparr>
     else ch)"

function ch_parseExtensions :: "cryptobyte \<Rightarrow> ClientHello \<Rightarrow> bytes \<Rightarrow> ClientHello" where
  "ch_parseExtensions cb ch exts =
     (if Empty cb exts then ch
      else (case ReadUint16 cb exts of
              None \<Rightarrow> ch\<lparr>ch_Truncated := True\<rparr>
            | Some (extType, e1) \<Rightarrow>
                (case ReadUint16LengthPrefixed cb e1 of
                   None \<Rightarrow> ch\<lparr>ch_Truncated := True\<rparr>
                 | Some (body, e2) \<Rightarrow>
                     if \<not> length e2 < length exts then ch
                     else if IsGREASE extType
                     then ch_parseExtensions cb (ch\<lparr>ch_GREASE := True\<rparr>) e2
                     else ch_parseExtensions cb
                            (ch_extension cb (ch\<lparr>ch_Extensions := ch_Extensions ch @ [extType]\<rparr>)
                               extType body) e2)))"
  by pat_completeness auto
termination
  by (relation "measure (\<lambda>(cb, ch, exts). length exts)") auto

declare ch_parseExtensions.simps [simp del]


subsection \<open>The whole body\<close>

definition ParseClientHello :: "cryptobyte \<Rightarrow> bytes \<Rightarrow> tls_error + ClientHello" where
  "ParseClientHello cb body =
     (let ch = empty_ClientHello in
      case ReadUint16 cb body of None \<Rightarrow> Inl ErrTruncated | Some (legacy, s) \<Rightarrow>
     (let ch = ch\<lparr>ch_LegacyVersion := legacy\<rparr> in
      case Skip cb 32 s of None \<Rightarrow> Inl ErrTruncated | Some s \<Rightarrow>
     (case ReadUint8LengthPrefixed cb s of None \<Rightarrow> Inl ErrTruncated | Some (sessionID, s) \<Rightarrow>
     (let ch = ch\<lparr>ch_SessionIDLen := length sessionID\<rparr> in
      case readUint16List cb s of None \<Rightarrow> Inl ErrMalformed | Some (suites, s) \<Rightarrow>
     (case stripGREASE suites of (suites, greased) \<Rightarrow>
     (let ch = ch\<lparr>ch_CipherSuites := suites, ch_GREASE := greased\<rparr> in
      case ReadUint8LengthPrefixed cb s of None \<Rightarrow> Inl ErrTruncated | Some (compression, s) \<Rightarrow>
     (let ch = ch\<lparr>ch_CompressionMethods := compression\<rparr> in
      if Empty cb s then Inr ch
      else case ReadUint16LengthPrefixed cb s of
             None \<Rightarrow> Inr (ch\<lparr>ch_Truncated := True\<rparr>)
           | Some (exts, _) \<Rightarrow> Inr (ch_parseExtensions cb ch exts))))))))"


subsection \<open>Every list is free of reserved codepoints\<close>

definition ch_grease_free :: "ClientHello \<Rightarrow> bool" where
  "ch_grease_free ch \<longleftrightarrow>
     grease_free (ch_CipherSuites ch) \<and> grease_free (ch_Extensions ch) \<and>
     grease_free (ch_SupportedVersions ch) \<and> grease_free (ch_SupportedGroups ch) \<and>
     grease_free (ch_KeyShareGroups ch) \<and> grease_free (ch_SignatureAlgorithms ch) \<and>
     grease_free (ch_SignatureAlgorithmsCert ch)"

lemma ch_parseKeyShare_loop_grease_free:
  "ch_grease_free ch \<Longrightarrow> grease_free groups \<Longrightarrow>
   ch_grease_free (ch_parseKeyShare_loop cb ch groups shares)"
proof (induction cb ch groups shares rule: ch_parseKeyShare_loop.induct)
  case (1 cb ch groups shares)
  then show ?case
    by (subst ch_parseKeyShare_loop.simps)
      (auto simp: ch_grease_free_def split: option.splits)
qed

lemma ch_parseKeyShare_grease_free:
  "ch_grease_free ch \<Longrightarrow> ch_grease_free (ch_parseKeyShare cb ch body)"
  by (auto simp: ch_parseKeyShare_def ch_parseKeyShare_loop_grease_free split: option.splits)

lemma ch_extension_grease_free:
  "ch_grease_free ch \<Longrightarrow> ch_grease_free (ch_extension cb ch t body)"
  unfolding ch_extension_def
  using ch_parseKeyShare_grease_free [of ch cb body]
  by (auto simp: ch_grease_free_def stripGREASE_eq split: option.splits)

lemma ch_parseExtensions_grease_free:
  "ch_grease_free ch \<Longrightarrow> ch_grease_free (ch_parseExtensions cb ch exts)"
proof (induction cb ch exts rule: ch_parseExtensions.induct)
  case (1 cb ch exts)
  have step: "ch_grease_free (ch_extension cb (ch\<lparr>ch_Extensions := ch_Extensions ch @ [t]\<rparr>) t body)"
    if "\<not> IsGREASE t" for t body
    by (rule ch_extension_grease_free) (use 1 that in \<open>simp add: ch_grease_free_def\<close>)
  have trunc: "ch_grease_free (ch\<lparr>ch_Truncated := True\<rparr>)" "ch_grease_free (ch\<lparr>ch_GREASE := True\<rparr>)"
    using 1 by (simp_all add: ch_grease_free_def)
  show ?case
    using 1 step trunc by (subst ch_parseExtensions.simps) (auto split: option.splits)
qed

lemma ch_grease_free_updates [simp]:
  "ch_grease_free empty_ClientHello"
  "ch_grease_free (ch\<lparr>ch_LegacyVersion := v\<rparr>) = ch_grease_free ch"
  "ch_grease_free (ch\<lparr>ch_SessionIDLen := n\<rparr>) = ch_grease_free ch"
  "ch_grease_free (ch\<lparr>ch_CompressionMethods := m\<rparr>) = ch_grease_free ch"
  "ch_grease_free (ch\<lparr>ch_GREASE := g\<rparr>) = ch_grease_free ch"
  "ch_grease_free (ch\<lparr>ch_Truncated := t\<rparr>) = ch_grease_free ch"
  "ch_grease_free ch \<Longrightarrow> grease_free vs \<Longrightarrow> ch_grease_free (ch\<lparr>ch_CipherSuites := vs\<rparr>)"
  by (simp_all add: ch_grease_free_def empty_ClientHello_def)

lemma ParseClientHello_grease_free:
  "ParseClientHello cb body = Inr ch \<Longrightarrow> ch_grease_free ch"
  unfolding ParseClientHello_def Let_def
  by (auto split: option.splits prod.splits if_splits simp: stripGREASE_eq
      intro!: ch_parseExtensions_grease_free)


subsection \<open>The offered version\<close>

lemma max_version_eq: "max_version vs = Max (insert 0 (set vs))"
proof -
  have "(\<lambda>m v :: u16. if v > m then v else m) = max"
    by (intro ext) (simp add: max_def not_less less_imp_le)
  moreover have "foldl max a vs = Max (insert a (set vs))" for a :: u16
  proof (induction vs arbitrary: a)
    case (Cons v vs)
    have "Max (insert a (set (v # vs))) = Max (insert (max a v) (set vs))"
      by (cases "vs = []") (simp_all add: max.assoc)
    with Cons.IH [of "max a v"] show ?case by simp
  qed simp
  ultimately show ?thesis by (simp add: max_version_def)
qed

end
