(* ===== verification/Tls_ServerHello.thy ===== *)
theory Tls_ServerHello
  imports Tls_ClientHello
begin

text \<open>
  \<^verbatim>\<open>internal/tlsparse/serverhello.go\<close>: decoding a ServerHello body and the two TLS 1.2
  messages that enrich it. \<open>sh_CertificateChain\<close> is nil exactly when it is empty: the source
  only ever builds it by appending.
\<close>

definition helloRetryRequestRandom :: bytes where
  "helloRetryRequestRandom =
    [0xcf, 0x21, 0xad, 0x74, 0xe5, 0x9a, 0x61, 0x11,
     0xbe, 0x1d, 0x8c, 0x02, 0x1e, 0x65, 0xb8, 0x91,
     0xc2, 0xa2, 0x11, 0x16, 0x7a, 0xbb, 0x8c, 0x5e,
     0x07, 0x9e, 0x09, 0xe2, 0xc8, 0xa8, 0x33, 0x9c]"

definition GroupSourceKeyShare :: string where
  "GroupSourceKeyShare = ''key_share''"

definition GroupSourceServerKeyExchange :: string where
  "GroupSourceServerKeyExchange = ''server_key_exchange''"

record ServerHello =
  sh_LegacyVersion :: u16
  sh_CipherSuite :: u16
  sh_CompressionMethod :: u8
  sh_Extensions :: "u16 list"
  sh_SelectedVersion :: u16
  sh_Group :: u16
  sh_GroupSource :: string
  sh_SelectedALPN :: string
  sh_IsHelloRetryRequest :: bool
  sh_HasPreSharedKey :: bool
  sh_FlightComplete :: bool
  sh_CertificateChain :: "bytes list"
  sh_Truncated :: bool

definition empty_ServerHello :: ServerHello where
  "empty_ServerHello =
     \<lparr>sh_LegacyVersion = 0, sh_CipherSuite = 0, sh_CompressionMethod = 0, sh_Extensions = [],
      sh_SelectedVersion = 0, sh_Group = 0, sh_GroupSource = [], sh_SelectedALPN = [],
      sh_IsHelloRetryRequest = False, sh_HasPreSharedKey = False, sh_FlightComplete = False,
      sh_CertificateChain = [], sh_Truncated = False\<rparr>"

definition sh_NegotiatedVersion :: "ServerHello \<Rightarrow> u16" where
  "sh_NegotiatedVersion sh =
     (if sh_SelectedVersion sh \<noteq> 0 then sh_SelectedVersion sh else sh_LegacyVersion sh)"

definition sh_parseKeyShare :: "cryptobyte \<Rightarrow> ServerHello \<Rightarrow> bytes \<Rightarrow> ServerHello" where
  "sh_parseKeyShare cb sh body =
     (case ReadUint16 cb body of
        None \<Rightarrow> sh
      | Some (grp, b) \<Rightarrow>
          if sh_IsHelloRetryRequest sh
          then sh\<lparr>sh_Group := grp, sh_GroupSource := GroupSourceKeyShare\<rparr>
          else (case ReadUint16LengthPrefixed cb b of
                  None \<Rightarrow> sh
                | Some (key, _) \<Rightarrow> sh\<lparr>sh_Group := grp, sh_GroupSource := GroupSourceKeyShare\<rparr>))"

definition sh_extension :: "cryptobyte \<Rightarrow> ServerHello \<Rightarrow> u16 \<Rightarrow> bytes \<Rightarrow> ServerHello" where
  "sh_extension cb sh extType body =
    (if extType = ExtSupportedVersions then
       (case ReadUint16 cb body of Some (v, _) \<Rightarrow> sh\<lparr>sh_SelectedVersion := v\<rparr> | None \<Rightarrow> sh)
     else if extType = ExtKeyShare then sh_parseKeyShare cb sh body
     else if extType = ExtALPN then
       (case parseALPN cb body of
          Some (p # _) \<Rightarrow> sh\<lparr>sh_SelectedALPN := p\<rparr>
        | _ \<Rightarrow> sh)
     else if extType = ExtPreSharedKey then sh\<lparr>sh_HasPreSharedKey := True\<rparr>
     else sh)"

function sh_parseExtensions :: "cryptobyte \<Rightarrow> ServerHello \<Rightarrow> bytes \<Rightarrow> ServerHello" where
  "sh_parseExtensions cb sh exts =
     (if Empty cb exts then sh
      else (case ReadUint16 cb exts of
              None \<Rightarrow> sh\<lparr>sh_Truncated := True\<rparr>
            | Some (extType, e1) \<Rightarrow>
                (case ReadUint16LengthPrefixed cb e1 of
                   None \<Rightarrow> sh\<lparr>sh_Truncated := True\<rparr>
                 | Some (body, e2) \<Rightarrow>
                     if \<not> length e2 < length exts then sh
                     else if IsGREASE extType then sh_parseExtensions cb sh e2
                     else sh_parseExtensions cb
                            (sh_extension cb (sh\<lparr>sh_Extensions := sh_Extensions sh @ [extType]\<rparr>)
                               extType body) e2)))"
  by pat_completeness auto
termination
  by (relation "measure (\<lambda>(cb, sh, exts). length exts)") auto

declare sh_parseExtensions.simps [simp del]

definition ParseServerHello :: "cryptobyte \<Rightarrow> bytes \<Rightarrow> tls_error + ServerHello" where
  "ParseServerHello cb body =
     (let sh = empty_ServerHello in
      case ReadUint16 cb body of None \<Rightarrow> Inl ErrTruncated | Some (legacy, s) \<Rightarrow>
     (let sh = sh\<lparr>sh_LegacyVersion := legacy\<rparr> in
      case ReadBytes cb 32 s of None \<Rightarrow> Inl ErrTruncated | Some (random, s) \<Rightarrow>
     (let sh = sh\<lparr>sh_IsHelloRetryRequest := (random = helloRetryRequestRandom)\<rparr> in
      case ReadUint8LengthPrefixed cb s of None \<Rightarrow> Inl ErrTruncated | Some (sessionID, s) \<Rightarrow>
     (case ReadUint16 cb s of None \<Rightarrow> Inl ErrTruncated | Some (suite, s) \<Rightarrow>
     (let sh = sh\<lparr>sh_CipherSuite := suite\<rparr> in
      case ReadUint8 cb s of None \<Rightarrow> Inl ErrTruncated | Some (method, s) \<Rightarrow>
     (let sh = sh\<lparr>sh_CompressionMethod := method\<rparr> in
      if Empty cb s then Inr sh
      else case ReadUint16LengthPrefixed cb s of
             None \<Rightarrow> Inr (sh\<lparr>sh_Truncated := True\<rparr>)
           | Some (exts, _) \<Rightarrow> Inr (sh_parseExtensions cb sh exts)))))))"


subsection \<open>The TLS 1.2 messages\<close>

definition ParseServerKeyExchangeGroup :: "cryptobyte \<Rightarrow> bytes \<Rightarrow> u16 option" where
  "ParseServerKeyExchangeGroup cb body =
     (case ReadUint8 cb body of
        None \<Rightarrow> None
      | Some (curveType, s) \<Rightarrow>
          if curveType \<noteq> 3 then None
          else map_option fst (ReadUint16 cb s))"

text \<open>
  The result is \<^verbatim>\<open>chain, ok\<close>. A certificate that does not decode ends the chain; what was read
  before it is kept, and is reported as read when there is any.
\<close>

function ParseCertificateChain_loop :: "cryptobyte \<Rightarrow> bytes list \<Rightarrow> bytes \<Rightarrow> bytes list \<times> bool" where
  "ParseCertificateChain_loop cb chain list =
     (if Empty cb list then (chain, True)
      else (case ReadUint24LengthPrefixed cb list of
              None \<Rightarrow> (chain, length chain > 0)
            | Some (cert, r) \<Rightarrow>
                if length r < length list then ParseCertificateChain_loop cb (chain @ [cert]) r
                else (chain, False)))"
  by pat_completeness auto
termination
  by (relation "measure (\<lambda>(cb, chain, list). length list)") auto

declare ParseCertificateChain_loop.simps [simp del]

definition ParseCertificateChain :: "cryptobyte \<Rightarrow> bytes \<Rightarrow> bytes list \<times> bool" where
  "ParseCertificateChain cb body =
     (case ReadUint24LengthPrefixed cb body of
        None \<Rightarrow> ([], False)
      | Some (list, _) \<Rightarrow> ParseCertificateChain_loop cb [] list)"


subsection \<open>What the extension block can change\<close>

lemma sh_extension_frame [simp]:
  "sh_IsHelloRetryRequest (sh_extension cb sh t body) = sh_IsHelloRetryRequest sh"
  "sh_LegacyVersion (sh_extension cb sh t body) = sh_LegacyVersion sh"
  "sh_CipherSuite (sh_extension cb sh t body) = sh_CipherSuite sh"
  "sh_CertificateChain (sh_extension cb sh t body) = sh_CertificateChain sh"
  "sh_FlightComplete (sh_extension cb sh t body) = sh_FlightComplete sh"
  "sh_Extensions (sh_extension cb sh t body) = sh_Extensions sh"
  by (simp_all add: sh_extension_def sh_parseKeyShare_def split: option.splits list.splits)

lemma sh_parseExtensions_frame [simp]:
  "sh_IsHelloRetryRequest (sh_parseExtensions cb sh exts) = sh_IsHelloRetryRequest sh"
  "sh_LegacyVersion (sh_parseExtensions cb sh exts) = sh_LegacyVersion sh"
  "sh_CipherSuite (sh_parseExtensions cb sh exts) = sh_CipherSuite sh"
  "sh_CertificateChain (sh_parseExtensions cb sh exts) = sh_CertificateChain sh"
  "sh_FlightComplete (sh_parseExtensions cb sh exts) = sh_FlightComplete sh"
proof (induction cb sh exts rule: sh_parseExtensions.induct)
  case (1 cb sh exts)
  { case 1 with "1.IH" show ?case
      by (subst sh_parseExtensions.simps) (auto split: option.splits) }
  { case 2 with "1.IH" show ?case
      by (subst sh_parseExtensions.simps) (auto split: option.splits) }
  { case 3 with "1.IH" show ?case
      by (subst sh_parseExtensions.simps) (auto split: option.splits) }
  { case 4 with "1.IH" show ?case
      by (subst sh_parseExtensions.simps) (auto split: option.splits) }
  { case 5 with "1.IH" show ?case
      by (subst sh_parseExtensions.simps) (auto split: option.splits) }
qed

lemma sh_parseExtensions_grease_free:
  "grease_free (sh_Extensions sh) \<Longrightarrow> grease_free (sh_Extensions (sh_parseExtensions cb sh exts))"
proof (induction cb sh exts rule: sh_parseExtensions.induct)
  case (1 cb sh exts)
  then show ?case by (subst sh_parseExtensions.simps) (auto split: option.splits)
qed

lemma ParseServerHello_facts:
  assumes "ParseServerHello cb body = Inr sh"
  shows "sh_CertificateChain sh = []" and "\<not> sh_FlightComplete sh" and "grease_free (sh_Extensions sh)"
  using assms unfolding ParseServerHello_def Let_def
  by (auto split: option.splits if_splits intro!: sh_parseExtensions_grease_free
      simp: empty_ServerHello_def)

end
