(* ===== verification/Tls_Record.thy ===== *)
theory Tls_Record
  imports Tls_ServerHello
begin

text \<open>
  \<^verbatim>\<open>internal/tlsparse/record.go\<close>: the record layer, the split of the coalesced handshake
  stream into messages, and the search for the two hellos. Together with it the two framing
  builders of \<^verbatim>\<open>internal/tlssynth/synth.go\<close>, \<^verbatim>\<open>HandshakeMsg\<close> and \<^verbatim>\<open>Records\<close>, which the round
  trips are stated with.
\<close>

definition RecordChangeCipherSpec :: u8 where [simp]: "RecordChangeCipherSpec = 20"
definition RecordAlert :: u8 where [simp]: "RecordAlert = 21"
definition RecordHandshake :: u8 where [simp]: "RecordHandshake = 22"

definition HandshakeClientHello :: u8 where [simp]: "HandshakeClientHello = 1"
definition HandshakeServerHello :: u8 where [simp]: "HandshakeServerHello = 2"
definition HandshakeCertificate :: u8 where [simp]: "HandshakeCertificate = 11"
definition HandshakeServerKeyExchange :: u8 where [simp]: "HandshakeServerKeyExchange = 12"
definition HandshakeServerHelloDone :: u8 where [simp]: "HandshakeServerHelloDone = 14"

definition recordHeaderLen :: nat where [simp]: "recordHeaderLen = 5"
definition maxRecordPayload :: nat where "maxRecordPayload = 2 ^ 14 + 256"

record HandshakeMessage =
  msg_Type :: u8
  msg_Body :: bytes


subsection \<open>Splitting and coalescing\<close>

function splitMessages :: "bytes \<Rightarrow> HandshakeMessage list" where
  "splitMessages buf =
     (if length buf \<ge> 4 then
        let len = (push_bit 16 (unat (buf ! 1)) OR push_bit 8 (unat (buf ! 2))) OR unat (buf ! 3)
        in if length buf < 4 + len then []
           else \<lparr>msg_Type = buf ! 0, msg_Body = take len (drop 4 buf)\<rparr> # splitMessages (drop (4 + len) buf)
      else [])"
  by pat_completeness auto
termination
  by (relation "measure length") auto

declare splitMessages.simps [simp del]

text \<open>
  The loop over the records: \<open>first\<close> until a record was accepted, \<open>buf\<close> the handshake bytes
  so far. The result is the final \<open>buf\<close>, or the error.
\<close>

function HandshakeMessages_loop :: "bool \<Rightarrow> bytes \<Rightarrow> bytes \<Rightarrow> tls_error + bytes" where
  "HandshakeMessages_loop first buf b =
     (if length b \<ge> recordHeaderLen then
        let typ = b ! 0; len = push_bit 8 (unat (b ! 3)) OR unat (b ! 4) in
        if first \<and> (typ \<noteq> RecordHandshake \<or> b ! 1 \<noteq> 3 \<or> len = 0) then Inl ErrNotTLS
        else if len > maxRecordPayload then Inl ErrNotTLS
        else
          let payload = drop recordHeaderLen b in
          if length payload < len then
            Inr (if typ = RecordHandshake then buf @ payload else buf)
          else if typ = RecordHandshake then
            HandshakeMessages_loop False (buf @ take len payload) (drop (recordHeaderLen + len) b)
          else if typ = RecordChangeCipherSpec \<or> typ = RecordAlert then
            HandshakeMessages_loop False buf (drop (recordHeaderLen + len) b)
          else Inr buf
      else Inr buf)"
  by pat_completeness auto
termination
  by (relation "measure (\<lambda>(first, buf, b). length b)") auto

declare HandshakeMessages_loop.simps [simp del]

definition HandshakeMessages :: "bytes \<Rightarrow> tls_error + HandshakeMessage list" where
  "HandshakeMessages b = map_sum (\<lambda>e. e) splitMessages (HandshakeMessages_loop True [] b)"

definition HandshakeMessagesRaw :: "bytes \<Rightarrow> HandshakeMessage list" where
  "HandshakeMessagesRaw b = splitMessages b"


subsection \<open>Finding the hellos\<close>

text \<open>\<open>Inr None\<close> is the source's \<^verbatim>\<open>nil, nil\<close>: nothing found, no error.\<close>

fun findClientHelloIn :: "cryptobyte \<Rightarrow> HandshakeMessage list \<Rightarrow> tls_error + ClientHello option" where
  "findClientHelloIn cb [] = Inr None"
| "findClientHelloIn cb (m # msgs) =
     (if msg_Type m = HandshakeClientHello
      then map_sum (\<lambda>e. e) Some (ParseClientHello cb (msg_Body m))
      else findClientHelloIn cb msgs)"

definition FindClientHello :: "cryptobyte \<Rightarrow> bytes \<Rightarrow> tls_error + ClientHello option" where
  "FindClientHello cb stream =
     (case HandshakeMessages stream of Inl e \<Rightarrow> Inl e | Inr msgs \<Rightarrow> findClientHelloIn cb msgs)"

definition FindClientHelloRaw :: "cryptobyte \<Rightarrow> bytes \<Rightarrow> tls_error + ClientHello option" where
  "FindClientHelloRaw cb stream = findClientHelloIn cb (HandshakeMessagesRaw stream)"

text \<open>
  The scan for the ServerHello: \<open>sh\<close>, \<open>retry\<close> and \<open>done\<close> are the three locals of the source.
  The only early return is the parse error of a first ServerHello.
\<close>

fun findServerHello_loop ::
  "cryptobyte \<Rightarrow> ServerHello option \<Rightarrow> ServerHello option \<Rightarrow> bool \<Rightarrow> HandshakeMessage list
   \<Rightarrow> tls_error + (ServerHello option \<times> ServerHello option \<times> bool)" where
  "findServerHello_loop cb sh retry sawDone [] = Inr (sh, retry, sawDone)"
| "findServerHello_loop cb sh retry sawDone (m # msgs) =
     (if msg_Type m = HandshakeServerHello then
        (case ParseServerHello cb (msg_Body m) of
           Inl err \<Rightarrow>
             if sh = None \<and> retry = None then Inl err
             else findServerHello_loop cb sh retry sawDone msgs
         | Inr parsed \<Rightarrow>
             if sh_IsHelloRetryRequest parsed then
               findServerHello_loop cb sh (if retry = None then Some parsed else retry) sawDone msgs
             else findServerHello_loop cb (Some parsed) retry sawDone msgs)
      else if msg_Type m = HandshakeServerKeyExchange then
        (case sh of
           None \<Rightarrow> findServerHello_loop cb sh retry sawDone msgs
         | Some s \<Rightarrow>
             if sh_Group s \<noteq> 0 then findServerHello_loop cb sh retry sawDone msgs
             else (case ParseServerKeyExchangeGroup cb (msg_Body m) of
                     None \<Rightarrow> findServerHello_loop cb sh retry sawDone msgs
                   | Some grp \<Rightarrow>
                       findServerHello_loop cb
                         (Some (s\<lparr>sh_Group := grp, sh_GroupSource := GroupSourceServerKeyExchange\<rparr>))
                         retry sawDone msgs))
      else if msg_Type m = HandshakeServerHelloDone then
        findServerHello_loop cb sh retry True msgs
      else if msg_Type m = HandshakeCertificate then
        (case sh of
           None \<Rightarrow> findServerHello_loop cb sh retry sawDone msgs
         | Some s \<Rightarrow>
             if sh_CertificateChain s \<noteq> [] then findServerHello_loop cb sh retry sawDone msgs
             else (case ParseCertificateChain cb (msg_Body m) of
                     (chain, ok) \<Rightarrow>
                       findServerHello_loop cb
                         (if ok then Some (s\<lparr>sh_CertificateChain := chain\<rparr>) else sh)
                         retry sawDone msgs))
      else findServerHello_loop cb sh retry sawDone msgs)"

definition findServerHelloIn :: "cryptobyte \<Rightarrow> HandshakeMessage list \<Rightarrow> tls_error + ServerHello option" where
  "findServerHelloIn cb msgs =
     (case findServerHello_loop cb None None False msgs of
        Inl err \<Rightarrow> Inl err
      | Inr (sh, retry, sawDone) \<Rightarrow>
          (case sh of
             Some s \<Rightarrow> Inr (Some (s\<lparr>sh_FlightComplete := sh_NegotiatedVersion s \<ge> 0x0304 \<or> sawDone\<rparr>))
           | None \<Rightarrow> Inr retry))"

definition FindServerHello :: "cryptobyte \<Rightarrow> bytes \<Rightarrow> tls_error + ServerHello option" where
  "FindServerHello cb stream =
     (case HandshakeMessages stream of Inl e \<Rightarrow> Inl e | Inr msgs \<Rightarrow> findServerHelloIn cb msgs)"

definition FindServerHelloRaw :: "cryptobyte \<Rightarrow> bytes \<Rightarrow> tls_error + ServerHello option" where
  "FindServerHelloRaw cb stream = findServerHelloIn cb (HandshakeMessagesRaw stream)"


subsection \<open>The framing builders of tlssynth\<close>

text \<open>\<^verbatim>\<open>byte(n)\<close> of a length keeps its low eight bits.\<close>

definition HandshakeMsg :: "u8 \<Rightarrow> bytes \<Rightarrow> bytes" where
  "HandshakeMsg typ body =
     [typ, word_of_nat (drop_bit 16 (length body)), word_of_nat (drop_bit 8 (length body)),
      word_of_nat (length body)] @ body"

function Records_loop :: "u8 \<Rightarrow> bytes \<Rightarrow> nat \<Rightarrow> bytes" where
  "Records_loop contentType payload chunk =
     (if payload = [] \<or> chunk = 0 then []
      else let n = min chunk (length payload) in
        [contentType, 3, 3, word_of_nat (drop_bit 8 n), word_of_nat n] @ take n payload @
        Records_loop contentType (drop n payload) chunk)"
  by pat_completeness auto
termination
  by (relation "measure (\<lambda>(t, payload, chunk). length payload)") auto

declare Records_loop.simps [simp del]

definition Records :: "u8 \<Rightarrow> bytes \<Rightarrow> int \<Rightarrow> bytes" where
  "Records contentType payload chunk =
     (let chunk = (if chunk \<le> 0 then int (length payload) else chunk)
      in if chunk \<le> 0 then [] else Records_loop contentType payload (nat chunk))"

end
