(* ===== verification/Tls_Stream.thy ===== *)
theory Tls_Stream
  imports Tls_Record
begin

text \<open>
  Facts on the stream functions of \<open>Tls_Record\<close>: what the framing builders write is read back,
  however it is cut into records and whatever is interleaved with it; a truncated capture yields
  a prefix of what the whole stream yields; and the order in which the ServerHello scan prefers
  its candidates.
\<close>

subsection \<open>Handshake messages\<close>

abbreviation msg_length :: "bytes \<Rightarrow> nat" where
  "msg_length buf \<equiv> unat (buf ! 1) * 65536 + unat (buf ! 2) * 256 + unat (buf ! 3)"

lemma splitMessages_unfold:
  "splitMessages buf =
     (if length buf \<ge> 4 \<and> length buf \<ge> 4 + msg_length buf
      then \<lparr>msg_Type = buf ! 0, msg_Body = take (msg_length buf) (drop 4 buf)\<rparr>
           # splitMessages (drop (4 + msg_length buf) buf)
      else [])"
  by (subst splitMessages.simps) (simp add: shl16_or Let_def)

lemma splitMessages_Nil [simp]: "splitMessages [] = []"
  by (simp add: splitMessages_unfold)

lemma byte_split24:
  assumes "n < 2 ^ 24"
  shows "unat (word_of_nat (drop_bit 16 n) :: u8) * 65536 +
         unat (word_of_nat (drop_bit 8 n) :: u8) * 256 + unat (word_of_nat n :: u8) = n"
proof -
  have hi: "n div 65536 mod 256 = n div 65536"
    using assms by (simp add: less_mult_imp_div_less)
  have mid: "n div 65536 * 256 + n div 256 mod 256 = n div 256"
    using div_mult_mod_eq [of "n div 256" 256] by (simp add: div_mult2_eq [symmetric])
  have "n div 65536 * 65536 + n div 256 mod 256 * 256 + n mod 256
      = (n div 65536 * 256 + n div 256 mod 256) * 256 + n mod 256"
    by simp
  also have "\<dots> = n" by (simp only: mid div_mult_mod_eq)
  finally show ?thesis
    by (simp only: unat_of_nat drop_bit_eq_div) (simp add: hi)
qed

lemma splitMessages_HandshakeMsg:
  assumes "length body < 2 ^ 24"
  shows "splitMessages (HandshakeMsg t body @ r) = \<lparr>msg_Type = t, msg_Body = body\<rparr> # splitMessages r"
proof -
  have "msg_length (HandshakeMsg t body @ r) = length body"
    using byte_split24 [OF assms] by (simp add: HandshakeMsg_def)
  moreover have "drop (4 + length body) (HandshakeMsg t body @ r) = r"
    by (simp add: HandshakeMsg_def eval_nat_numeral)
  ultimately show ?thesis
    by (subst splitMessages_unfold) (simp add: HandshakeMsg_def)
qed

lemma splitMessages_concat:
  "\<forall>m \<in> set ms. length (msg_Body m) < 2 ^ 24 \<Longrightarrow>
   splitMessages (concat (map (\<lambda>m. HandshakeMsg (msg_Type m) (msg_Body m)) ms)) = ms"
  by (induction ms) (simp_all add: splitMessages_HandshakeMsg)

text \<open>A shorter stream yields a prefix of the messages.\<close>

lemma splitMessages_prefix: "prefix a b \<Longrightarrow> prefix (splitMessages a) (splitMessages b)"
proof (induction a arbitrary: b rule: splitMessages.induct)
  case (1 a)
  let ?n = "msg_length a"
  show ?case
  proof (cases "length a \<ge> 4 \<and> length a \<ge> 4 + ?n")
    case False
    then have "splitMessages a = []" by (subst splitMessages_unfold) simp
    then show ?thesis by simp
  next
    case True
    have same: "b ! i = a ! i" if "i < 4" for i
      using "1.prems" True that by (intro prefix_nth) auto
    then have n: "msg_length b = ?n" by simp
    have len: "length a \<le> length b"
      using "1.prems" by (rule prefix_length_le)
    have "prefix (splitMessages (drop (4 + ?n) a)) (splitMessages (drop (4 + ?n) b))"
      using True by (intro "1.IH") (auto simp: shl16_or intro!: drop_prefix_mono "1.prems")
    moreover have "take ?n (drop 4 b) = take ?n (drop 4 a)"
      using True by (intro take_prefix_eq drop_prefix_mono "1.prems") auto
    moreover have "splitMessages a =
        \<lparr>msg_Type = a ! 0, msg_Body = take ?n (drop 4 a)\<rparr> # splitMessages (drop (4 + ?n) a)"
      using True by (subst splitMessages_unfold) simp
    moreover have "splitMessages b =
        \<lparr>msg_Type = b ! 0, msg_Body = take ?n (drop 4 b)\<rparr> # splitMessages (drop (4 + ?n) b)"
      using True len n by (subst splitMessages_unfold) simp
    ultimately show ?thesis using same [of 0] by simp
  qed
qed


subsection \<open>Records\<close>

lemma take_prefix_short: "prefix xs ys \<Longrightarrow> length xs \<le> n \<Longrightarrow> prefix xs (take n ys)"
  by (auto elim!: prefixE simp: prefix_def)

abbreviation rec_length :: "bytes \<Rightarrow> nat" where
  "rec_length b \<equiv> unat (b ! 3) * 256 + unat (b ! 4)"

lemma HandshakeMessages_loop_unfold:
  "HandshakeMessages_loop first buf b =
     (if length b < 5 then Inr buf
      else if first \<and> (b ! 0 \<noteq> 22 \<or> b ! 1 \<noteq> 3 \<or> rec_length b = 0) then Inl ErrNotTLS
      else if rec_length b > maxRecordPayload then Inl ErrNotTLS
      else if length b < 5 + rec_length b then
        Inr (if b ! 0 = 22 then buf @ drop 5 b else buf)
      else if b ! 0 = 22 then
        HandshakeMessages_loop False (buf @ take (rec_length b) (drop 5 b)) (drop (5 + rec_length b) b)
      else if b ! 0 = 20 \<or> b ! 0 = 21 then
        HandshakeMessages_loop False buf (drop (5 + rec_length b) b)
      else Inr buf)"
  by (subst HandshakeMessages_loop.simps) (auto simp: shl8_or Let_def not_le)

lemma HandshakeMessages_loop_extends:
  "HandshakeMessages_loop first buf b = Inr out \<Longrightarrow> prefix buf out"
proof (induction b arbitrary: first buf rule: length_induct)
  case (1 b)
  show ?case
  proof (cases "length b < 5")
    case True
    with "1.prems" show ?thesis by (subst (asm) HandshakeMessages_loop_unfold) simp
  next
    case False
    then have shorter: "length (drop (5 + rec_length b) b) < length b" by simp
    have IH: "prefix buf' out"
      if "HandshakeMessages_loop False buf' (drop (5 + rec_length b) b) = Inr out" for buf'
      using "1.IH" shorter that by blast
    from "1.prems" False show ?thesis
      by (subst (asm) HandshakeMessages_loop_unfold)
        (auto split: if_splits dest: IH append_prefixD)
  qed
qed

text \<open>
  Cutting a record stream short never turns success into failure, and what is coalesced from
  the shorter stream is a prefix of what the whole stream gives.
\<close>

lemma HandshakeMessages_loop_prefix:
  assumes "prefix b b'" and "HandshakeMessages_loop first buf b' = Inr out'"
  shows "\<exists>out. HandshakeMessages_loop first buf b = Inr out \<and> prefix out out'"
  using assms
proof (induction b arbitrary: first buf b' rule: length_induct)
  case (1 b)
  let ?n = "rec_length b"
  note ext = HandshakeMessages_loop_extends [OF "1.prems"(2)]
  show ?case
  proof (cases "length b < 5")
    case True
    with ext show ?thesis by (subst HandshakeMessages_loop_unfold) simp
  next
    case False
    have same: "b' ! i = b ! i" if "i < 5" for i
      using "1.prems"(1) False that by (intro prefix_nth) auto
    then have n: "rec_length b' = ?n" by simp
    have hdr: "b' ! 0 = b ! 0" "b' ! 1 = b ! 1" using same by simp_all
    have len: "length b \<le> length b'" using "1.prems"(1) by (rule prefix_length_le)
    have rest: "prefix (drop 5 b) (drop 5 b')"
      using False by (intro drop_prefix_mono "1.prems"(1)) simp
    have eq': "HandshakeMessages_loop first buf b' = Inr out'" by (fact "1.prems"(2))
    show ?thesis
    proof (cases "length b < 5 + ?n")
      case short: True
      have trans: "prefix (buf @ drop 5 b) out'" if "prefix (buf @ take ?n (drop 5 b')) out'"
        using prefix_order.trans [OF _ that] short rest by (simp add: take_prefix_short)
      have "prefix (buf @ drop 5 b) out'" if "b ! 0 = 22"
        using eq' False len n hdr that short rest
        by (subst (asm) HandshakeMessages_loop_unfold)
          (auto split: if_splits dest!: HandshakeMessages_loop_extends intro: trans)
      with ext eq' False len n hdr short show ?thesis
        by (subst HandshakeMessages_loop_unfold, subst (asm) HandshakeMessages_loop_unfold)
          (auto split: if_splits)
    next
      case full: False
      have tk: "take ?n (drop 5 b') = take ?n (drop 5 b)"
        using full by (intro take_prefix_eq rest) simp
      have dr: "prefix (drop (5 + ?n) b) (drop (5 + ?n) b')"
        using full by (intro drop_prefix_mono "1.prems"(1)) simp
      have IH: "\<exists>out. HandshakeMessages_loop False buf' (drop (5 + ?n) b) = Inr out \<and> prefix out out'"
        if "HandshakeMessages_loop False buf' (drop (5 + ?n) b') = Inr out'" for buf'
        using "1.IH" False dr that by simp
      from eq' False full len n hdr tk ext show ?thesis
        by (subst HandshakeMessages_loop_unfold, subst (asm) HandshakeMessages_loop_unfold)
          (auto split: if_splits intro: IH)
    qed
  qed
qed


lemma HandshakeMessages_prefix:
  assumes "prefix b b'" and "HandshakeMessages b' = Inr msgs'"
  shows "\<exists>msgs. HandshakeMessages b = Inr msgs \<and> prefix msgs msgs'"
proof -
  obtain out' where out': "HandshakeMessages_loop True [] b' = Inr out'" "msgs' = splitMessages out'"
    using assms(2) by (cases "HandshakeMessages_loop True [] b'") (auto simp: HandshakeMessages_def)
  obtain out where "HandshakeMessages_loop True [] b = Inr out" "prefix out out'"
    using HandshakeMessages_loop_prefix [OF assms(1) out'(1)] by blast
  then show ?thesis
    by (auto simp: HandshakeMessages_def out'(2) intro: splitMessages_prefix)
qed

text \<open>A record on the wire, and the stream of a list of records.\<close>

definition tls_record :: "u8 \<Rightarrow> u8 \<Rightarrow> bytes \<Rightarrow> bytes" where
  "tls_record typ minor payload =
     [typ, 3, minor, word_of_nat (drop_bit 8 (length payload)), word_of_nat (length payload)] @ payload"

definition record_stream :: "(u8 \<times> u8 \<times> bytes) list \<Rightarrow> bytes" where
  "record_stream rs = concat (map (\<lambda>(typ, minor, p). tls_record typ minor p) rs)"

definition handshake_payload :: "(u8 \<times> u8 \<times> bytes) list \<Rightarrow> bytes" where
  "handshake_payload rs = concat (map (\<lambda>(typ, minor, p). if typ = RecordHandshake then p else []) rs)"

text \<open>Records a handshake can consist of: handshake, change_cipher_spec and alert records.\<close>

definition handshake_records :: "(u8 \<times> u8 \<times> bytes) list \<Rightarrow> bool" where
  "handshake_records rs \<longleftrightarrow>
     (\<forall>(typ, minor, p) \<in> set rs. length p \<le> maxRecordPayload \<and>
        (typ = RecordHandshake \<or> typ = RecordChangeCipherSpec \<or> typ = RecordAlert))"

definition starts_handshake :: "(u8 \<times> u8 \<times> bytes) list \<Rightarrow> bool" where
  "starts_handshake rs \<longleftrightarrow> (case rs of [] \<Rightarrow> False | (typ, _, p) # _ \<Rightarrow> typ = RecordHandshake \<and> p \<noteq> [])"

lemma rec_length_tls_record:
  assumes "length p \<le> maxRecordPayload"
  shows "rec_length (tls_record typ minor p @ r) = length p"
proof -
  have "length p < 65536" using assms by (simp add: maxRecordPayload_def)
  then have "unat (word_of_nat (drop_bit 8 (length p)) :: u8) * 256 + unat (word_of_nat (length p) :: u8)
      = length p"
    by (simp add: unat_of_nat drop_bit_eq_div less_mult_imp_div_less)
  then show ?thesis by (simp add: tls_record_def)
qed

lemma HandshakeMessages_loop_record:
  assumes len: "length p \<le> maxRecordPayload"
    and "typ = RecordHandshake \<or> typ = RecordChangeCipherSpec \<or> typ = RecordAlert"
    and "first \<Longrightarrow> typ = RecordHandshake \<and> p \<noteq> []"
  shows "HandshakeMessages_loop first buf (tls_record typ minor p @ r) =
         HandshakeMessages_loop False (if typ = RecordHandshake then buf @ p else buf) r"
proof -
  define b where "b = tls_record typ minor p @ r"
  have n: "rec_length b = length p"
    unfolding b_def by (rule rec_length_tls_record [OF len])
  have hdr: "b ! 0 = typ" "b ! 1 = 3" "drop 5 b = p @ r" "drop (5 + length p) b = r"
    by (simp_all add: b_def tls_record_def eval_nat_numeral)
  have "5 + length p \<le> length b" by (simp add: b_def tls_record_def)
  with n hdr assms have "HandshakeMessages_loop first buf b =
      HandshakeMessages_loop False (if typ = RecordHandshake then buf @ p else buf) r"
    by (subst HandshakeMessages_loop_unfold [of first buf b]) (auto simp: n)
  then show ?thesis by (simp only: b_def)
qed

lemma HandshakeMessages_loop_records:
  "handshake_records rs \<Longrightarrow> (first \<longrightarrow> starts_handshake rs) \<Longrightarrow>
   HandshakeMessages_loop first buf (record_stream rs @ r) =
   HandshakeMessages_loop (first \<and> rs = []) (buf @ handshake_payload rs) r"
proof (induction rs arbitrary: first buf)
  case Nil
  then show ?case by (simp add: record_stream_def handshake_payload_def)
next
  case (Cons x rs)
  obtain ty minor p where x: "x = (ty, minor, p)" by (cases x)
  have rs: "handshake_records rs" using Cons.prems(1) by (simp add: handshake_records_def)
  have "HandshakeMessages_loop first buf (record_stream (x # rs) @ r)
      = HandshakeMessages_loop first buf (tls_record ty minor p @ record_stream rs @ r)"
    by (simp add: record_stream_def x)
  also have "\<dots> = HandshakeMessages_loop False (if ty = RecordHandshake then buf @ p else buf)
      (record_stream rs @ r)"
    using Cons.prems
    by (intro HandshakeMessages_loop_record) (auto simp: handshake_records_def starts_handshake_def x)
  also have "\<dots> = HandshakeMessages_loop False
      ((if ty = RecordHandshake then buf @ p else buf) @ handshake_payload rs) r"
    using Cons.IH [OF rs] by simp
  finally show ?case by (simp add: handshake_payload_def x)
qed

text \<open>
  What ends the clear part: the end of the capture, a header cut short, or a record of another
  type, as application data is.
\<close>

definition stream_end :: "bytes \<Rightarrow> bool" where
  "stream_end r \<longleftrightarrow> length r < 5 \<or>
     (rec_length r \<le> maxRecordPayload \<and>
      r ! 0 \<noteq> RecordHandshake \<and> r ! 0 \<noteq> RecordChangeCipherSpec \<and> r ! 0 \<noteq> RecordAlert)"

lemma HandshakeMessages_records:
  assumes "handshake_records rs" and "starts_handshake rs" and "stream_end r"
  shows "HandshakeMessages (record_stream rs @ r) = Inr (splitMessages (handshake_payload rs))"
proof -
  have "rs \<noteq> []" using assms(2) by (auto simp: starts_handshake_def)
  then have "HandshakeMessages_loop True [] (record_stream rs @ r)
      = HandshakeMessages_loop False (handshake_payload rs) r"
    using HandshakeMessages_loop_records [OF assms(1), of True "[]" r] assms(2) by simp
  also have "\<dots> = Inr (handshake_payload rs)"
    using assms(3) by (subst HandshakeMessages_loop_unfold) (auto simp: stream_end_def)
  finally show ?thesis by (simp add: HandshakeMessages_def)
qed

lemma Records_loop_stream:
  "0 < chunk \<Longrightarrow> chunk \<le> maxRecordPayload \<Longrightarrow>
   \<exists>rs. Records_loop t payload chunk = record_stream rs \<and>
        handshake_payload (map (\<lambda>(_, m, p). (RecordHandshake, m, p)) rs) = payload \<and>
        (\<forall>(typ, minor, p) \<in> set rs. typ = t \<and> p \<noteq> [] \<and> length p \<le> maxRecordPayload) \<and>
        (payload \<noteq> [] \<longrightarrow> rs \<noteq> [])"
proof (induction payload rule: length_induct)
  case (1 payload)
  show ?case
  proof (cases "payload = []")
    case True
    then show ?thesis
      by (subst Records_loop.simps)
        (auto simp: record_stream_def handshake_payload_def intro!: exI [of _ "[]"])
  next
    case False
    let ?n = "min chunk (length payload)"
    have "length (drop ?n payload) < length payload" using False "1.prems" by simp
    then obtain rs where rs: "Records_loop t (drop ?n payload) chunk = record_stream rs"
        "handshake_payload (map (\<lambda>(_, m, p). (RecordHandshake, m, p)) rs) = drop ?n payload"
        "\<forall>(typ, minor, p) \<in> set rs. typ = t \<and> p \<noteq> [] \<and> length p \<le> maxRecordPayload"
      using "1.IH" "1.prems" by blast
    have "Records_loop t payload chunk = tls_record t 3 (take ?n payload) @ record_stream rs"
      using False "1.prems" rs(1)
      by (subst Records_loop.simps) (simp add: Let_def tls_record_def min.commute)
    with rs False "1.prems" show ?thesis
      by (intro exI [of _ "(t, 3, take ?n payload) # rs"])
        (auto simp: record_stream_def handshake_payload_def)
  qed
qed

lemma Records_handshake:
  assumes "payload \<noteq> []" and "0 < chunk" and "chunk \<le> int maxRecordPayload"
  shows "HandshakeMessages (Records RecordHandshake payload chunk) = Inr (splitMessages payload)"
proof -
  have "0 < nat chunk" "nat chunk \<le> maxRecordPayload" using assms by auto
  from Records_loop_stream [OF this, of RecordHandshake payload] obtain rs where
    rs: "Records_loop RecordHandshake payload (nat chunk) = record_stream rs"
      "handshake_payload (map (\<lambda>(_, m, p). (RecordHandshake, m, p)) rs) = payload"
      "\<forall>(ty, minor, p) \<in> set rs. ty = RecordHandshake \<and> p \<noteq> [] \<and> length p \<le> maxRecordPayload"
      "rs \<noteq> []"
    using assms(1) by auto
  have "map (\<lambda>(_, m, p). (RecordHandshake, m, p)) rs = rs"
    using rs(3) by (intro map_idI) auto
  moreover have "handshake_records rs" "starts_handshake rs"
    using rs(3,4) by (auto simp: handshake_records_def starts_handshake_def split: list.split)
  ultimately have "HandshakeMessages (record_stream rs @ []) = Inr (splitMessages payload)"
    using HandshakeMessages_records [of rs "[]"] rs(2) by (simp add: stream_end_def)
  with rs(1) assms show ?thesis by (simp add: Records_def)
qed


subsection \<open>The hellos\<close>

lemma findClientHelloIn_find:
  "findClientHelloIn cb msgs =
     (case find (\<lambda>m. msg_Type m = HandshakeClientHello) msgs of
        None \<Rightarrow> Inr None
      | Some m \<Rightarrow> map_sum (\<lambda>e. e) Some (ParseClientHello cb (msg_Body m)))"
  by (induction msgs) simp_all

lemma findClientHelloIn_prefix:
  assumes "prefix msgs msgs'" and "findClientHelloIn cb msgs \<noteq> Inr None"
  shows "findClientHelloIn cb msgs' = findClientHelloIn cb msgs"
  using assms find_prefix [OF assms(1), of "\<lambda>m. msg_Type m = HandshakeClientHello"]
  by (auto simp: findClientHelloIn_find split: option.splits)

lemma findClientHelloIn_grease_free:
  "findClientHelloIn cb msgs = Inr (Some ch) \<Longrightarrow> ch_grease_free ch"
proof (induction msgs)
  case (Cons m msgs)
  then show ?case
    by (cases "ParseClientHello cb (msg_Body m)")
      (auto split: if_splits dest: ParseClientHello_grease_free)
qed simp

text \<open>The real ServerHello messages of a stream: those that parse and are not a retry request.\<close>

definition real_hello :: "cryptobyte \<Rightarrow> HandshakeMessage \<Rightarrow> bool" where
  "real_hello cb m \<longleftrightarrow> msg_Type m = HandshakeServerHello \<and>
     (case ParseServerHello cb (msg_Body m) of
        Inr parsed \<Rightarrow> \<not> sh_IsHelloRetryRequest parsed
      | Inl _ \<Rightarrow> False)"

definition scan_inv :: "ServerHello option \<Rightarrow> ServerHello option \<Rightarrow> bool" where
  "scan_inv sh retry \<longleftrightarrow>
     (\<forall>s. sh = Some s \<longrightarrow> \<not> sh_IsHelloRetryRequest s) \<and>
     (\<forall>s. retry = Some s \<longrightarrow> sh_IsHelloRetryRequest s \<and> \<not> sh_FlightComplete s)"

lemma findServerHello_loop_scan:
  assumes "findServerHello_loop cb sh retry sawDone msgs = Inr (sh', retry', sawDone')"
    and "scan_inv sh retry"
  shows "scan_inv sh' retry'"
    and "sh' = None \<longleftrightarrow> sh = None \<and> (\<forall>m \<in> set msgs. \<not> real_hello cb m)"
    and "sawDone' \<longleftrightarrow> sawDone \<or> (\<exists>m \<in> set msgs. msg_Type m = HandshakeServerHelloDone)"
proof -
  have "scan_inv sh' retry' \<and>
      (sh' = None \<longleftrightarrow> sh = None \<and> (\<forall>m \<in> set msgs. \<not> real_hello cb m)) \<and>
      (sawDone' \<longleftrightarrow> sawDone \<or> (\<exists>m \<in> set msgs. msg_Type m = HandshakeServerHelloDone))"
    using assms
  proof (induction msgs arbitrary: sh retry sawDone)
    case (Cons m msgs)
    show ?case
    proof (cases "msg_Type m = HandshakeServerHello")
      case True
      show ?thesis
      proof (cases "ParseServerHello cb (msg_Body m)")
        case (Inl err)
        with Cons.prems True Cons.IH [of sh retry sawDone] show ?thesis
          by (auto simp: real_hello_def split: if_splits)
      next
        case (Inr parsed)
        have nfc: "\<not> sh_FlightComplete parsed" by (rule ParseServerHello_facts(2) [OF Inr])
        have real: "real_hello cb m \<longleftrightarrow> \<not> sh_IsHelloRetryRequest parsed"
          using True Inr by (simp add: real_hello_def)
        have notdone: "msg_Type m \<noteq> HandshakeServerHelloDone" using True by simp
        show ?thesis
        proof (cases "sh_IsHelloRetryRequest parsed")
          case hrr: True
          let ?retry = "if retry = None then Some parsed else retry"
          have "findServerHello_loop cb sh ?retry sawDone msgs = Inr (sh', retry', sawDone')"
            using Cons.prems(1) True Inr hrr by simp
          moreover have "scan_inv sh ?retry"
            using Cons.prems(2) hrr nfc by (simp add: scan_inv_def)
          ultimately show ?thesis using Cons.IH real hrr notdone by simp
        next
          case False
          have "findServerHello_loop cb (Some parsed) retry sawDone msgs = Inr (sh', retry', sawDone')"
            using Cons.prems(1) True Inr False by simp
          moreover have "scan_inv (Some parsed) retry"
            using Cons.prems(2) False by (simp add: scan_inv_def)
          ultimately show ?thesis using Cons.IH real False notdone by simp
        qed
      qed
    next
      case False
      then have "\<not> real_hello cb m" by (simp add: real_hello_def)
      moreover have "\<exists>sh1. findServerHello_loop cb sh1 retry
            (sawDone \<or> msg_Type m = HandshakeServerHelloDone) msgs = Inr (sh', retry', sawDone') \<and>
          scan_inv sh1 retry \<and> (sh1 = None \<longleftrightarrow> sh = None)"
        using Cons.prems False
        by (auto simp: scan_inv_def split: if_splits option.splits prod.splits)
      then obtain sh1 where sh1: "findServerHello_loop cb sh1 retry
            (sawDone \<or> msg_Type m = HandshakeServerHelloDone) msgs = Inr (sh', retry', sawDone')"
          "scan_inv sh1 retry" "sh1 = None \<longleftrightarrow> sh = None"
        by blast
      ultimately show ?thesis
        using Cons.IH [OF sh1(1,2)] sh1(3) by simp
    qed
  qed simp
  then show "scan_inv sh' retry'"
    and "sh' = None \<longleftrightarrow> sh = None \<and> (\<forall>m \<in> set msgs. \<not> real_hello cb m)"
    and "sawDone' \<longleftrightarrow> sawDone \<or> (\<exists>m \<in> set msgs. msg_Type m = HandshakeServerHelloDone)"
    by blast+
qed

lemma findServerHelloIn_cases:
  assumes "findServerHelloIn cb msgs = Inr (Some s)"
  shows "sh_IsHelloRetryRequest s \<longleftrightarrow> (\<forall>m \<in> set msgs. \<not> real_hello cb m)"
    and "sh_FlightComplete s \<longleftrightarrow> \<not> sh_IsHelloRetryRequest s \<and>
           (sh_NegotiatedVersion s \<ge> 0x0304 \<or> (\<exists>m \<in> set msgs. msg_Type m = HandshakeServerHelloDone))"
proof -
  obtain sh retry sd where loop: "findServerHello_loop cb None None False msgs = Inr (sh, retry, sd)"
    using assms by (auto simp: findServerHelloIn_def split: sum.splits)
  have inv: "scan_inv None None" by (simp add: scan_inv_def)
  note scan = findServerHello_loop_scan [OF loop inv]
  have s: "s = (case sh of Some t \<Rightarrow> t\<lparr>sh_FlightComplete := sh_NegotiatedVersion t \<ge> 0x0304 \<or> sd\<rparr>
                 | None \<Rightarrow> s)" "sh = None \<Longrightarrow> retry = Some s"
    using assms loop by (auto simp: findServerHelloIn_def split: option.splits)
  have "sh_IsHelloRetryRequest s \<longleftrightarrow> sh = None"
    using s scan(1) by (cases sh) (auto simp: scan_inv_def)
  then show "sh_IsHelloRetryRequest s \<longleftrightarrow> (\<forall>m \<in> set msgs. \<not> real_hello cb m)"
    using scan(2) by simp
  show "sh_FlightComplete s \<longleftrightarrow> \<not> sh_IsHelloRetryRequest s \<and>
      (sh_NegotiatedVersion s \<ge> 0x0304 \<or> (\<exists>m \<in> set msgs. msg_Type m = HandshakeServerHelloDone))"
    using s scan(1,3) by (cases sh) (auto simp: scan_inv_def sh_NegotiatedVersion_def)
qed


subsection \<open>Properties of the parser\<close>

text \<open>
  C5: However a handshake is cut into records, with change_cipher_spec and alert records
  interleaved anywhere after the first handshake record, and whatever ends the clear part, the
  record layer delivers exactly the messages of the concatenated handshake payloads.
\<close>

theorem record_layer_coalesces:
  assumes "handshake_records rs" and "starts_handshake rs" and "stream_end r"
    and "\<forall>m \<in> set ms. length (msg_Body m) < 2 ^ 24"
    and "handshake_payload rs = concat (map (\<lambda>m. HandshakeMsg (msg_Type m) (msg_Body m)) ms)"
  shows "HandshakeMessages (record_stream rs @ r) = Inr ms"
  using HandshakeMessages_records [OF assms(1-3)] splitMessages_concat [OF assms(4)] assms(5)
  by simp

theorem record_layer_coalesces_witness:
  "HandshakeMessages
     (record_stream [(22, 1, [14, 0]), (20, 3, [1]), (22, 3, [0, 2, 7, 8])] @ [23, 3, 3, 0, 9])
   = Inr [\<lparr>msg_Type = 14, msg_Body = [7, 8]\<rparr>]"
  by (rule record_layer_coalesces)
    (simp_all add: handshake_records_def starts_handshake_def stream_end_def maxRecordPayload_def
      handshake_payload_def HandshakeMsg_def drop_bit_eq_div)

text \<open>
  C16: A capture that holds only a prefix of a record stream yields a prefix of the messages the
  whole stream yields, and never an error the whole stream does not have.
\<close>

theorem truncation_tolerant:
  assumes "HandshakeMessages (b @ r) = Inr msgs'"
  shows "\<exists>msgs. HandshakeMessages b = Inr msgs \<and> prefix msgs msgs'"
  using HandshakeMessages_prefix [of b "b @ r"] assms by simp

theorem truncation_tolerant_witness:
  "\<exists>msgs. HandshakeMessages [22, 3, 1, 0, 4, 14] = Inr msgs \<and>
     prefix msgs [\<lparr>msg_Type = 14, msg_Body = []\<rparr>]"
proof -
  have "HandshakeMessages ([22, 3, 1, 0, 4, 14] @ [0, 0, 0]) = Inr [\<lparr>msg_Type = 14, msg_Body = []\<rparr>]"
    by (simp add: HandshakeMessages_def HandshakeMessages_loop_unfold splitMessages_unfold maxRecordPayload_def)
  then show ?thesis by (rule truncation_tolerant)
qed

end
