(* ===== verification/Registry.thy ===== *)
theory Registry
  imports Tls_Extensions
begin

text \<open>
  \<^verbatim>\<open>internal/tlsparse/registry.go\<close>: the tables of IANA codepoints, the cipher suite and group
  properties derived from the registered names, and the reverse lookup. A Go map literal is an
  association list whose keys are distinct (\<open>registry_keys_distinct\<close>); looking a codepoint up is
  \<open>map_of\<close>.
\<close>

subsection \<open>Cipher suites\<close>

definition cipherSuiteNames :: "(u16 \<times> string) list" where
  "cipherSuiteNames =
    [(0x1301, ''TLS_AES_128_GCM_SHA256''), (0x1302, ''TLS_AES_256_GCM_SHA384''), 
     (0x1303, ''TLS_CHACHA20_POLY1305_SHA256''), (0x1304, ''TLS_AES_128_CCM_SHA256''), 
     (0x1305, ''TLS_AES_128_CCM_8_SHA256''), (0xc02b, ''TLS_ECDHE_ECDSA_WITH_AES_128_GCM_SHA256''), 
     (0xc02c, ''TLS_ECDHE_ECDSA_WITH_AES_256_GCM_SHA384''), 
     (0xc02f, ''TLS_ECDHE_RSA_WITH_AES_128_GCM_SHA256''), 
     (0xc030, ''TLS_ECDHE_RSA_WITH_AES_256_GCM_SHA384''), 
     (0xcca8, ''TLS_ECDHE_RSA_WITH_CHACHA20_POLY1305_SHA256''), 
     (0xcca9, ''TLS_ECDHE_ECDSA_WITH_CHACHA20_POLY1305_SHA256''), 
     (0xccaa, ''TLS_DHE_RSA_WITH_CHACHA20_POLY1305_SHA256''), 
     (0x009e, ''TLS_DHE_RSA_WITH_AES_128_GCM_SHA256''), 
     (0x009f, ''TLS_DHE_RSA_WITH_AES_256_GCM_SHA384''), 
     (0xc023, ''TLS_ECDHE_ECDSA_WITH_AES_128_CBC_SHA256''), 
     (0xc024, ''TLS_ECDHE_ECDSA_WITH_AES_256_CBC_SHA384''), 
     (0xc027, ''TLS_ECDHE_RSA_WITH_AES_128_CBC_SHA256''), 
     (0xc028, ''TLS_ECDHE_RSA_WITH_AES_256_CBC_SHA384''), 
     (0xc009, ''TLS_ECDHE_ECDSA_WITH_AES_128_CBC_SHA''), 
     (0xc00a, ''TLS_ECDHE_ECDSA_WITH_AES_256_CBC_SHA''), 
     (0xc013, ''TLS_ECDHE_RSA_WITH_AES_128_CBC_SHA''), 
     (0xc014, ''TLS_ECDHE_RSA_WITH_AES_256_CBC_SHA''), 
     (0x0033, ''TLS_DHE_RSA_WITH_AES_128_CBC_SHA''), (0x0039, ''TLS_DHE_RSA_WITH_AES_256_CBC_SHA''), 
     (0x0067, ''TLS_DHE_RSA_WITH_AES_128_CBC_SHA256''), 
     (0x006b, ''TLS_DHE_RSA_WITH_AES_256_CBC_SHA256''), 
     (0x0032, ''TLS_DHE_DSS_WITH_AES_128_CBC_SHA''), (0x0038, ''TLS_DHE_DSS_WITH_AES_256_CBC_SHA''), 
     (0x009c, ''TLS_RSA_WITH_AES_128_GCM_SHA256''), (0x009d, ''TLS_RSA_WITH_AES_256_GCM_SHA384''), 
     (0x002f, ''TLS_RSA_WITH_AES_128_CBC_SHA''), (0x0035, ''TLS_RSA_WITH_AES_256_CBC_SHA''), 
     (0x003c, ''TLS_RSA_WITH_AES_128_CBC_SHA256''), (0x003d, ''TLS_RSA_WITH_AES_256_CBC_SHA256''), 
     (0x000a, ''TLS_RSA_WITH_3DES_EDE_CBC_SHA''), (0x0016, ''TLS_DHE_RSA_WITH_3DES_EDE_CBC_SHA''), 
     (0x0013, ''TLS_DHE_DSS_WITH_3DES_EDE_CBC_SHA''), 
     (0xc012, ''TLS_ECDHE_RSA_WITH_3DES_EDE_CBC_SHA''), 
     (0xc008, ''TLS_ECDHE_ECDSA_WITH_3DES_EDE_CBC_SHA''), (0x0005, ''TLS_RSA_WITH_RC4_128_SHA''), 
     (0x0004, ''TLS_RSA_WITH_RC4_128_MD5''), (0xc007, ''TLS_ECDHE_ECDSA_WITH_RC4_128_SHA''), 
     (0xc011, ''TLS_ECDHE_RSA_WITH_RC4_128_SHA''), (0x0009, ''TLS_RSA_WITH_DES_CBC_SHA''), 
     (0x0012, ''TLS_DHE_DSS_WITH_DES_CBC_SHA''), (0x0015, ''TLS_DHE_RSA_WITH_DES_CBC_SHA''), 
     (0x0000, ''TLS_NULL_WITH_NULL_NULL''), (0x0001, ''TLS_RSA_WITH_NULL_MD5''), 
     (0x0002, ''TLS_RSA_WITH_NULL_SHA''), (0x003b, ''TLS_RSA_WITH_NULL_SHA256''), 
     (0xc010, ''TLS_ECDHE_RSA_WITH_NULL_SHA''), (0xc006, ''TLS_ECDHE_ECDSA_WITH_NULL_SHA''), 
     (0x0003, ''TLS_RSA_EXPORT_WITH_RC4_40_MD5''), (0x0006, ''TLS_RSA_EXPORT_WITH_RC2_CBC_40_MD5''), 
     (0x0008, ''TLS_RSA_EXPORT_WITH_DES40_CBC_SHA''), 
     (0x0011, ''TLS_DHE_DSS_EXPORT_WITH_DES40_CBC_SHA''), 
     (0x0014, ''TLS_DHE_RSA_EXPORT_WITH_DES40_CBC_SHA''), 
     (0x0017, ''TLS_DH_anon_EXPORT_WITH_RC4_40_MD5''), (0x0018, ''TLS_DH_anon_WITH_RC4_128_MD5''), 
     (0x001b, ''TLS_DH_anon_WITH_3DES_EDE_CBC_SHA''), (0x0034, ''TLS_DH_anon_WITH_AES_128_CBC_SHA''), 
     (0x003a, ''TLS_DH_anon_WITH_AES_256_CBC_SHA''), (0xc015, ''TLS_ECDH_anon_WITH_NULL_SHA''), 
     (0xc016, ''TLS_ECDH_anon_WITH_RC4_128_SHA''), (0xc018, ''TLS_ECDH_anon_WITH_AES_128_CBC_SHA''), 
     (0xc019, ''TLS_ECDH_anon_WITH_AES_256_CBC_SHA''), 
     (0x00ff, ''TLS_EMPTY_RENEGOTIATION_INFO_SCSV''), (0x5600, ''TLS_FALLBACK_SCSV'')]"

record CipherProperties =
  cp_Name :: string
  cp_KeyExchange :: string
  cp_Authentication :: string
  cp_Encryption :: string
  cp_MAC :: string
  cp_ForwardSecrecy :: bool
  cp_AEAD :: bool
  cp_Export :: bool
  cp_Anonymous :: bool
  cp_TLS13 :: bool
  cp_Signalling :: bool
  cp_Known :: bool

definition zero_CipherProperties :: CipherProperties where
  "zero_CipherProperties =
     \<lparr>cp_Name = [], cp_KeyExchange = [], cp_Authentication = [], cp_Encryption = [], cp_MAC = [],
      cp_ForwardSecrecy = False, cp_AEAD = False, cp_Export = False, cp_Anonymous = False,
      cp_TLS13 = False, cp_Signalling = False, cp_Known = False\<rparr>"

definition CipherName :: "u16 \<Rightarrow> string" where
  "CipherName v = name_or_hex cipherSuiteNames v"

text \<open>The key exchange and authentication of the part of a name before \<^verbatim>\<open>_WITH_\<close>.\<close>

definition cipher_kx :: "CipherProperties \<Rightarrow> string \<Rightarrow> CipherProperties" where
  "cipher_kx p kx =
     (let p = p\<lparr>cp_Export := Contains kx ''EXPORT''\<rparr>;
          kx = TrimSuffix kx ''_EXPORT'';
          p = p\<lparr>cp_Anonymous := HasSuffix kx ''_anon''\<rparr>;
          p = (if cp_Anonymous p then p\<lparr>cp_KeyExchange := kx, cp_Authentication := ''anon''\<rparr>
               else if kx = ''NULL'' then p\<lparr>cp_KeyExchange := ''NULL'', cp_Authentication := ''NULL''\<rparr>
               else (case Cut kx ''_'' of (k, a, ok) \<Rightarrow>
                 if ok then p\<lparr>cp_KeyExchange := k, cp_Authentication := a\<rparr>
                 else p\<lparr>cp_KeyExchange := kx, cp_Authentication := kx\<rparr>))
      in if cp_KeyExchange p = ''ECDHE'' \<or> cp_KeyExchange p = ''DHE''
         then p\<lparr>cp_ForwardSecrecy := \<not> cp_Anonymous p\<rparr> else p)"

text \<open>The bulk cipher and MAC of the part after it.\<close>

definition cipher_bulk :: "CipherProperties \<Rightarrow> string \<Rightarrow> CipherProperties" where
  "cipher_bulk p rest =
     (case LastIndex rest ''_'' of
        None \<Rightarrow> p\<lparr>cp_Encryption := rest\<rparr>
      | Some i \<Rightarrow>
          (let p = p\<lparr>cp_Encryption := take i rest, cp_MAC := drop (Suc i) rest\<rparr>;
               p = (if cp_MAC p = ''8'' then p\<lparr>cp_Encryption := rest, cp_MAC := []\<rparr> else p)
           in if Contains (cp_Encryption p) ''_GCM'' \<or> Contains (cp_Encryption p) ''_CCM'' \<or>
                 Contains (cp_Encryption p) ''CHACHA20_POLY1305''
              then p\<lparr>cp_AEAD := True, cp_MAC := ''AEAD''\<rparr> else p))"

text \<open>The properties a registered name gives: the body of \<^verbatim>\<open>Cipher\<close> after the table lookup.\<close>

definition cipher_of_name :: "string \<Rightarrow> CipherProperties" where
  "cipher_of_name name =
     (let p = zero_CipherProperties\<lparr>cp_Name := name, cp_Known := True\<rparr> in
      if HasSuffix name ''_SCSV'' then p\<lparr>cp_Signalling := True\<rparr>
      else
        (let body = TrimPrefix name ''TLS_'' in
         case Cut body ''_WITH_'' of (kx, rest, hasWith) \<Rightarrow>
         if \<not> hasWith then
           p\<lparr>cp_TLS13 := True, cp_ForwardSecrecy := True, cp_AEAD := True, cp_MAC := ''AEAD'',
             cp_Encryption :=
               (case LastIndex body ''_SHA'' of
                  Some i \<Rightarrow> if i > 0 then take i body else body
                | None \<Rightarrow> body)\<rparr>
         else cipher_bulk (cipher_kx p kx) rest))"

definition Cipher :: "u16 \<Rightarrow> CipherProperties" where
  "Cipher v =
     (case map_of cipherSuiteNames v of
        None \<Rightarrow> zero_CipherProperties\<lparr>cp_Name := CipherName v\<rparr>
      | Some name \<Rightarrow> cipher_of_name name)"


subsection \<open>Named groups\<close>

definition groupNames :: "(u16 \<times> string) list" where
  "groupNames =
    [(19, ''secp192r1''), (21, ''secp224r1''), (22, ''secp256k1''), (23, ''secp256r1''), 
     (24, ''secp384r1''), (25, ''secp521r1''), (29, ''x25519''), (30, ''x448''), 
     (256, ''ffdhe2048''), (257, ''ffdhe3072''), (258, ''ffdhe4096''), (259, ''ffdhe6144''), 
     (260, ''ffdhe8192''), (0x0200, ''MLKEM512''), (0x0201, ''MLKEM768''), (0x0202, ''MLKEM1024''), 
     (0x11eb, ''SecP256r1MLKEM768''), (0x11ec, ''X25519MLKEM768''), (0x11ed, ''SecP384r1MLKEM1024''), 
     (0x6399, ''X25519Kyber768Draft00''), (0x639a, ''SecP256r1Kyber768Draft00'')]"

definition pureKEM :: "u16 \<Rightarrow> bool" where
  "pureKEM v \<longleftrightarrow> v \<in> {0x0200, 0x0201, 0x0202}"

record GroupProperties =
  gp_Name :: string
  gp_PostQuantum :: bool
  gp_Hybrid :: bool
  gp_Known :: bool

definition GroupName :: "u16 \<Rightarrow> string" where
  "GroupName v = name_or_hex groupNames v"

definition Group :: "u16 \<Rightarrow> GroupProperties" where
  "Group v =
     (case map_of groupNames v of
        None \<Rightarrow> \<lparr>gp_Name = GroupName v, gp_PostQuantum = False, gp_Hybrid = False, gp_Known = False\<rparr>
      | Some name \<Rightarrow>
          (let g = \<lparr>gp_Name = name, gp_PostQuantum = False, gp_Hybrid = False, gp_Known = True\<rparr> in
           if pureKEM v then g\<lparr>gp_PostQuantum := True\<rparr>
           else if Contains name ''MLKEM'' \<or> Contains name ''Kyber''
           then g\<lparr>gp_PostQuantum := True, gp_Hybrid := True\<rparr>
           else g))"


subsection \<open>Signature algorithms and versions\<close>

definition sigAlgNames :: "(u16 \<times> string) list" where
  "sigAlgNames =
    [(0x0201, ''rsa_pkcs1_sha1''), (0x0202, ''dsa_sha1''), (0x0203, ''ecdsa_sha1''), 
     (0x0401, ''rsa_pkcs1_sha256''), (0x0402, ''dsa_sha256''), (0x0403, ''ecdsa_secp256r1_sha256''), 
     (0x0501, ''rsa_pkcs1_sha384''), (0x0502, ''dsa_sha384''), (0x0503, ''ecdsa_secp384r1_sha384''), 
     (0x0601, ''rsa_pkcs1_sha512''), (0x0602, ''dsa_sha512''), (0x0603, ''ecdsa_secp521r1_sha512''), 
     (0x0804, ''rsa_pss_rsae_sha256''), (0x0805, ''rsa_pss_rsae_sha384''), 
     (0x0806, ''rsa_pss_rsae_sha512''), (0x0807, ''ed25519''), (0x0808, ''ed448''), 
     (0x0809, ''rsa_pss_pss_sha256''), (0x080a, ''rsa_pss_pss_sha384''), 
     (0x080b, ''rsa_pss_pss_sha512''), (0x0904, ''mldsa44''), (0x0905, ''mldsa65''), 
     (0x0906, ''mldsa87'')]"

definition SigAlgName :: "u16 \<Rightarrow> string" where
  "SigAlgName v = name_or_hex sigAlgNames v"

definition SigAlgPostQuantum :: "u16 \<Rightarrow> bool" where
  "SigAlgPostQuantum v \<longleftrightarrow> HasPrefix (SigAlgName v) ''mldsa''"

definition VersionName :: "u16 \<Rightarrow> string" where
  "VersionName v =
     (if v = 0x0300 then ''SSL 3.0''
      else if v = 0x0301 then ''TLS 1.0''
      else if v = 0x0302 then ''TLS 1.1''
      else if v = 0x0303 then ''TLS 1.2''
      else if v = 0x0304 then ''TLS 1.3''
      else if v = 0xfefd then ''DTLS 1.2''
      else if v = 0xfefc then ''DTLS 1.3''
      else if IsGREASE v then ''GREASE('' @ sharp_hex04 v @ '')''
      else sharp_hex04 v)"


subsection \<open>Reverse lookup\<close>

text \<open>
  \<^verbatim>\<open>reverseIndex\<close> writes every pair into a map in the iteration order of the source map, which Go
  leaves open: \<open>m\<close> is the table in that order, and a later write replaces an earlier one.
\<close>

definition reverseIndex :: "(u16 \<times> string) list \<Rightarrow> (string \<rightharpoonup> u16)" where
  "reverseIndex m = foldl (\<lambda>out (v, name). out(name \<mapsto> v)) Map.empty m"

definition CipherByName :: "string \<Rightarrow> u16 option" where
  "CipherByName name = reverseIndex cipherSuiteNames name"

definition GroupByName :: "string \<Rightarrow> u16 option" where
  "GroupByName name = reverseIndex groupNames name"


subsection \<open>Facts on the tables\<close>

lemma registry_keys_distinct:
  "distinct (map fst cipherSuiteNames)" "distinct (map fst groupNames)"
  "distinct (map fst sigAlgNames)" "distinct (map fst extensionNames)"
  by (simp_all add: cipherSuiteNames_def groupNames_def sigAlgNames_def extensionNames_def)

lemma registry_names_distinct:
  "distinct (map snd cipherSuiteNames)" "distinct (map snd groupNames)"
  by (code_simp, code_simp)

end
