(* ===== verification/Ja4.thy ===== *)
theory Ja4
  imports Tls_ServerHello Sha256
begin

text \<open>
  \<^verbatim>\<open>internal/tlsparse/ja4.go\<close>: the JA4 client and JA4S server fingerprints. \<^verbatim>\<open>sort.Slice\<close> is
  \<open>sort_slice\<close>; on codepoints every result that meets its postcondition is the same list
  (\<open>u16_sort_unique\<close>), so the choice of the algorithm does not show.
\<close>

definition ja4Version :: "u16 \<Rightarrow> string" where
  "ja4Version v =
     (if v = 0x0304 then ''13''
      else if v = 0x0303 then ''12''
      else if v = 0x0302 then ''11''
      else if v = 0x0301 then ''10''
      else if v = 0x0300 then ''s3''
      else if v = 0x0002 then ''s2''
      else ''00'')"

definition ja4ALPNOne :: "string \<Rightarrow> string" where
  "ja4ALPNOne v = (if v = [] then ''00'' else [hd v, last v])"

definition ja4ALPN :: "string list \<Rightarrow> string" where
  "ja4ALPN alpn = (case alpn of [] \<Rightarrow> ''00'' | p # _ \<Rightarrow> ja4ALPNOne p)"

definition cap99 :: "nat \<Rightarrow> nat" where
  "cap99 n = (if n > 99 then 99 else n)"

definition joinHex :: "u16 list \<Rightarrow> string" where
  "joinHex vs = Join (map hex04 vs) '',''"

definition joinHexSorted :: "u16 list \<Rightarrow> string" where
  "joinHexSorted vs = joinHex (sort_slice (<) vs)"

definition truncHash :: "string \<Rightarrow> string" where
  "truncHash s =
     (if s = [] then ''000000000000'' else take 12 (hex_encode (sha256 (string_bytes s))))"

definition ja4a :: "ClientHello \<Rightarrow> string" where
  "ja4a ch =
     (let proto = (if ch_QUIC ch then ''q'' else ''t'');
          sni = (if ch_ServerName ch \<noteq> [] then ''d'' else ''i'')
      in proto @ ja4Version (ch_NegotiatedVersion ch) @ sni @
         dec02 (cap99 (length (ch_CipherSuites ch))) @
         dec02 (cap99 (length (ch_Extensions ch))) @
         ja4ALPN (ch_ALPN ch))"

definition ja4b :: "ClientHello \<Rightarrow> string" where
  "ja4b ch = truncHash (joinHexSorted (ch_CipherSuites ch))"

definition ja4c :: "ClientHello \<Rightarrow> string" where
  "ja4c ch =
     (let exts = filter (\<lambda>e. \<not> (e = ExtServerName \<or> e = ExtALPN)) (ch_Extensions ch);
          s = joinHexSorted exts;
          s = (if length (ch_SignatureAlgorithms ch) > 0
               then s @ ''_'' @ joinHex (ch_SignatureAlgorithms ch) else s)
      in truncHash s)"

definition JA4 :: "ClientHello \<Rightarrow> string" where
  "JA4 ch = Join [ja4a ch, ja4b ch, ja4c ch] ''_''"

definition JA4S :: "ServerHello \<Rightarrow> bool \<Rightarrow> string" where
  "JA4S sh quic =
     (let proto = (if quic then ''q'' else ''t'');
          a = proto @ ja4Version (sh_NegotiatedVersion sh) @
              dec02 (cap99 (length (sh_Extensions sh))) @ ja4ALPNOne (sh_SelectedALPN sh);
          b = hex04 (sh_CipherSuite sh);
          c = truncHash (joinHex (sh_Extensions sh))
      in a @ ''_'' @ b @ ''_'' @ c)"


subsection \<open>Sorting codepoints\<close>

interpretation u16_order: strict_weak_order "(<) :: u16 \<Rightarrow> u16 \<Rightarrow> bool"
  by unfold_locales auto

lemma u16_sort_unique:
  assumes "mset vs = mset ws" and "slice_sorted (<) vs s" and "slice_sorted (<) ws t"
  shows "s = (t :: u16 list)"
  by (rule u16_order.slice_sorted_unique [OF assms]) auto

lemma joinHexSorted_perm: "mset vs = mset ws \<Longrightarrow> joinHexSorted vs = joinHexSorted ws"
  unfolding joinHexSorted_def
  by (rule arg_cong [where f = joinHex])
    (rule u16_sort_unique [OF _ u16_order.sort_slice_sorted u16_order.sort_slice_sorted])


subsection \<open>The shape of a fingerprint\<close>

lemma length_truncHash [simp]: "length (truncHash s) = 12"
  by (simp add: truncHash_def)

lemma length_ja4Version [simp]: "length (ja4Version v) = 2"
  by (simp add: ja4Version_def)

lemma length_ja4ALPNOne [simp]: "length (ja4ALPNOne v) = 2"
  by (simp add: ja4ALPNOne_def)

lemma length_ja4ALPN [simp]: "length (ja4ALPN vs) = 2"
  by (simp add: ja4ALPN_def split: list.split)

lemma length_dec02_cap99 [simp]: "length (dec02 (cap99 n)) = 2"
  by (simp add: cap99_def length_dec02)

lemma length_ja4a [simp]: "length (ja4a ch) = 10"
  by (simp add: ja4a_def Let_def)

lemma length_JA4: "length (JA4 ch) = 36"
  by (simp add: JA4_def ja4b_def ja4c_def Let_def)


subsection \<open>The hashed text determines the lists\<close>

lemma joinHex_Cons:
  "joinHex (v # vs) = hex04 v @ (if vs = [] then [] else CHR '','' # joinHex vs)"
  by (cases vs) (simp_all add: joinHex_def)

lemma joinHex_eq_Nil [simp]: "joinHex vs = [] \<longleftrightarrow> vs = []"
  by (cases vs) (simp_all add: joinHex_Cons, simp_all add: joinHex_def hex04_def Let_def)

lemma joinHex_inj: "joinHex vs = joinHex ws \<longleftrightarrow> vs = ws"
proof (induction vs arbitrary: ws)
  case Nil
  then show ?case by (metis joinHex_eq_Nil)
next
  case (Cons v vs)
  show ?case
  proof (cases ws)
    case Nil
    then show ?thesis by (metis joinHex_eq_Nil)
  next
    case (Cons w ws')
    then show ?thesis
      using Cons.IH [of ws'] by (auto simp: joinHex_Cons hex04_inj split: if_splits)
  qed
qed

lemma joinHexSorted_inj: "joinHexSorted vs = joinHexSorted ws \<longleftrightarrow> mset vs = mset ws"
  by (metis joinHexSorted_def joinHexSorted_perm joinHex_inj mset_sort_slice)


subsection \<open>Properties of the fingerprints\<close>

text \<open>
  C17: A JA4 fingerprint does not depend on the order in which a client lists its cipher suites
  and extensions; the order of the other lists stays significant.
\<close>

theorem JA4_order_independent:
  assumes "mset (ch_CipherSuites ch) = mset suites" and "mset (ch_Extensions ch) = mset exts"
  shows "JA4 (ch\<lparr>ch_CipherSuites := suites, ch_Extensions := exts\<rparr>) = JA4 ch"
proof -
  let ?P = "\<lambda>e. \<not> (e = ExtServerName \<or> e = ExtALPN)"
  have len: "length suites = length (ch_CipherSuites ch)" "length exts = length (ch_Extensions ch)"
    using assms by (metis size_mset)+
  have "mset (filter ?P exts) = mset (filter ?P (ch_Extensions ch))"
    by (simp add: assms(2) mset_filter)
  then have "joinHexSorted (filter ?P exts) = joinHexSorted (filter ?P (ch_Extensions ch))"
    by (rule joinHexSorted_perm)
  moreover have "joinHexSorted suites = joinHexSorted (ch_CipherSuites ch)"
    by (rule joinHexSorted_perm) (simp add: assms(1))
  ultimately show ?thesis
    by (simp add: JA4_def ja4a_def ja4b_def ja4c_def ch_NegotiatedVersion_def Let_def len)
qed

theorem JA4_order_independent_witness:
  "JA4 (empty_ClientHello\<lparr>ch_CipherSuites := [0x1302, 0x1301], ch_Extensions := [51, 0, 43]\<rparr>)
   = JA4 (empty_ClientHello\<lparr>ch_CipherSuites := [0x1301, 0x1302], ch_Extensions := [0, 43, 51]\<rparr>)"
  using JA4_order_independent
    [of "empty_ClientHello\<lparr>ch_CipherSuites := [0x1301, 0x1302], ch_Extensions := [0, 43, 51]\<rparr>"
      "[0x1302, 0x1301]" "[51, 0, 43]"]
  by (simp add: add_mset_commute)

text \<open>
  A fingerprint is 36 characters with separators at fixed places, and its cipher part is the
  truncated hash of a text that two hellos share exactly when they offer the same suites.
\<close>

theorem JA4_shape:
  "length (JA4 ch) = 36 \<and> JA4 ch ! 10 = CHR ''_'' \<and> JA4 ch ! 23 = CHR ''_'' \<and>
   take 12 (drop 11 (JA4 ch)) = truncHash (joinHexSorted (ch_CipherSuites ch)) \<and>
   (joinHexSorted (ch_CipherSuites ch) = joinHexSorted (ch_CipherSuites ch') \<longleftrightarrow>
    mset (ch_CipherSuites ch) = mset (ch_CipherSuites ch'))"
proof -
  have "JA4 ch = ja4a ch @ ''_'' @ ja4b ch @ ''_'' @ ja4c ch"
    by (simp add: JA4_def)
  moreover have "length (ja4b ch) = 12" by (simp add: ja4b_def)
  ultimately have "JA4 ch ! 10 = CHR ''_'' \<and> JA4 ch ! 23 = CHR ''_'' \<and> take 12 (drop 11 (JA4 ch)) = ja4b ch"
    by (simp add: nth_append)
  then show ?thesis by (simp add: length_JA4 joinHexSorted_inj ja4b_def)
qed

end
