(* ===== verification/Quic_Wire.thy ===== *)
theory Quic_Wire
  imports Sha256 Tls_Extensions
begin

text \<open>
  \<^verbatim>\<open>internal/quic/varint.go\<close>, \<^verbatim>\<open>frames.go\<close> and the header part of \<^verbatim>\<open>packet.go\<close>: the
  variable-length integers, the CRYPTO frames of a decrypted payload and the cleartext fields of a
  long-header packet; with the integer and frame builders of \<^verbatim>\<open>internal/tlssynth/quic.go\<close>.
\<close>

datatype quic_error = ErrNotQUIC | ErrTruncatedQUIC | ErrUnsupportedVersion | ErrAuthFailed | ErrCrypto | QuicPanic

text \<open>
  Indexing and slicing check their bounds: outside of them Go panics, which is \<open>Inl QuicPanic\<close>. (A slice
  may reach the capacity of its array; here it must not reach past the datagram.)
\<close>

definition go_index :: "'a list \<Rightarrow> nat \<Rightarrow> quic_error + 'a" where
  "go_index xs i = (if i < length xs then Inr (xs ! i) else Inl QuicPanic)"

definition go_slice :: "'a list \<Rightarrow> nat \<Rightarrow> nat \<Rightarrow> quic_error + 'a list" where
  "go_slice xs lo hi = (if lo \<le> hi \<and> hi \<le> length xs then Inr (take (hi - lo) (drop lo xs)) else Inl QuicPanic)"

definition and_then :: "'e + 'a \<Rightarrow> ('a \<Rightarrow> 'e + 'b) \<Rightarrow> 'e + 'b" where
  "and_then r f = (case r of Inl e \<Rightarrow> Inl e | Inr x \<Rightarrow> f x)"

lemma and_then_simps [simp]: "and_then (Inl e) f = Inl e" "and_then (Inr x) f = f x"
  by (simp_all add: and_then_def)

lemma go_index_in [simp]: "i < length xs \<Longrightarrow> go_index xs i = Inr (xs ! i)"
  by (simp add: go_index_def)

lemma go_slice_in [simp]: "lo \<le> hi \<Longrightarrow> hi \<le> length xs \<Longrightarrow> go_slice xs lo hi = Inr (take (hi - lo) (drop lo xs))"
  by (simp add: go_slice_def)


subsection \<open>Variable-length integers\<close>

definition readVarint :: "bytes \<Rightarrow> (u64 \<times> nat) option" where
  "readVarint b =
     (case b of
        [] \<Rightarrow> None
      | b0 # bs \<Rightarrow>
          (let n = 2 ^ unat (drop_bit 6 b0) in
           if length b < n then None
           else Some (foldl (\<lambda>value x. push_bit 8 value OR ucast x) (ucast (b0 AND 0x3f)) (take (n - 1) bs), n)))"

definition quicVarint :: "bytes \<Rightarrow> u64 \<Rightarrow> bytes" where
  "quicVarint b v =
     (if v < 2 ^ 6 then b @ [ucast v]
      else if v < 2 ^ 14 then b @ u16_bytes (ucast v OR 0x4000)
      else if v < 2 ^ 30 then b @ u32_bytes (ucast v OR 0x80000000)
      else b @ u64_bytes (v OR 0xc000000000000000))"


subsection \<open>Frames\<close>

record CryptoFrame =
  cf_Offset :: u64
  cf_Data :: bytes

text \<open>Reading \<open>n\<close> integers and keeping only what follows them.\<close>

fun skipVarints :: "nat \<Rightarrow> bytes \<Rightarrow> bytes option" where
  "skipVarints 0 b = Some b"
| "skipVarints (Suc n) b =
     (case readVarint b of None \<Rightarrow> None | Some (_, k) \<Rightarrow> skipVarints n (drop k b))"

text \<open>
  The fields of an ACK frame after its type: largest acknowledged, delay, range count and first
  range, the ranges with a gap and a length each, and the three ECN counts of the second form.
\<close>

definition skipACK :: "bool \<Rightarrow> bytes \<Rightarrow> bytes option" where
  "skipACK ecn b =
     (case skipVarints 2 b of None \<Rightarrow> None | Some b \<Rightarrow>
     (case readVarint b of None \<Rightarrow> None | Some (rangeCount, n) \<Rightarrow>
     (case skipVarints 1 (drop n b) of None \<Rightarrow> None | Some b \<Rightarrow>
     (case skipVarints (2 * unat rangeCount) b of None \<Rightarrow> None | Some b \<Rightarrow>
        if ecn then skipVarints 3 b else Some b))))"

text \<open>
  The source walks an index \<^verbatim>\<open>p\<close> over the payload; \<open>b\<close> is \<^verbatim>\<open>payload[p:]\<close>. Every failed read
  returns what was collected; so do the CONNECTION_CLOSE frames, whatever their fields are.
\<close>

lemma readVarint_bounds: "readVarint b = Some (v, n) \<Longrightarrow> 0 < n \<and> n \<le> length b"
  by (auto simp: readVarint_def Let_def split: list.splits if_splits)

lemma skipVarints_length: "skipVarints n b = Some r \<Longrightarrow> length r \<le> length b"
  by (induction n arbitrary: b) (fastforce split: option.splits)+

lemma skipACK_length: "skipACK ecn b = Some r \<Longrightarrow> length r \<le> length b"
  by (auto simp: skipACK_def split: option.splits if_splits dest!: skipVarints_length)

function CryptoFrames_loop :: "CryptoFrame list \<Rightarrow> bytes \<Rightarrow> CryptoFrame list" where
  "CryptoFrames_loop out b =
     (if b = [] then out
      else (case readVarint b of
              None \<Rightarrow> out
            | Some (ty, n) \<Rightarrow>
                (let b = drop n b in
                 if ty = 0x00 \<or> ty = 0x01 then CryptoFrames_loop out b
                 else if ty = 0x02 \<or> ty = 0x03 then
                   (case skipACK (ty = 0x03) b of
                      None \<Rightarrow> out
                    | Some r \<Rightarrow> CryptoFrames_loop out r)
                 else if ty = 0x06 then
                   (case readVarint b of None \<Rightarrow> out | Some (offset, n) \<Rightarrow>
                   (let b = drop n b in
                    case readVarint b of None \<Rightarrow> out | Some (len, n) \<Rightarrow>
                   (let b = drop n b in
                    if unat len > length b then out
                    else CryptoFrames_loop
                           (out @ [\<lparr>cf_Offset = offset, cf_Data = take (unat len) b\<rparr>])
                           (drop (unat len) b))))
                 else if ty = 0x1c \<or> ty = 0x1d then
                   (case skipVarints (if ty = 0x1c then 3 else 2) b of None \<Rightarrow> out | Some _ \<Rightarrow> out)
                 else out)))"
  by pat_completeness auto
termination
  by (relation "measure (\<lambda>(out, b). length b)")
    (auto dest!: readVarint_bounds skipACK_length)

declare CryptoFrames_loop.simps [simp del]

definition CryptoFrames :: "bytes \<Rightarrow> CryptoFrame list" where
  "CryptoFrames payload = CryptoFrames_loop [] payload"

text \<open>\<^verbatim>\<open>tlssynth.CryptoFrame\<close>\<close>

definition CryptoFrame_bytes :: "u64 \<Rightarrow> bytes \<Rightarrow> bytes" where
  "CryptoFrame_bytes offset data =
     (let out = [0x06];
          out = quicVarint out offset;
          out = quicVarint out (word_of_nat (length data))
      in out @ data)"


subsection \<open>Long headers\<close>

definition TypeInitial :: u8 where [simp]: "TypeInitial = 0"
definition TypeRetry :: u8 where [simp]: "TypeRetry = 3"
definition maxConnIDLen :: nat where [simp]: "maxConnIDLen = 20"
definition sampleLen :: nat where [simp]: "sampleLen = 16"
definition sampleOffset :: nat where [simp]: "sampleOffset = 4"

record LongHeader =
  lh_Type :: u8
  lh_Version :: u32
  lh_DCID :: bytes
  lh_SCID :: bytes
  lh_Token :: bytes
  lh_PNOffset :: nat
  lh_Length :: nat
  lh_End :: nat

definition IsLongHeader :: "bytes \<Rightarrow> bool" where
  "IsLongHeader b \<longleftrightarrow> length b > 0 \<and> b ! 0 AND 0xc0 = 0xc0"

text \<open>The closure \<^verbatim>\<open>readCID\<close>: the connection ID at \<open>p\<close> and the index after it.\<close>

definition readCID :: "bytes \<Rightarrow> nat \<Rightarrow> quic_error + bytes \<times> nat" where
  "readCID b p =
     (if p \<ge> length b then Inl ErrTruncatedQUIC
      else and_then (go_index b p) (\<lambda>x.
        let n = unat x; p = p + 1 in
        if n > maxConnIDLen \<or> p + n > length b then Inl ErrTruncatedQUIC
        else and_then (go_slice b p (p + n)) (\<lambda>cid. Inr (cid, p + n))))"

text \<open>The token of an Initial packet at \<open>p\<close> and the index after it; other packets have none.\<close>

definition readToken :: "u8 \<Rightarrow> bytes \<Rightarrow> nat \<Rightarrow> quic_error + bytes \<times> nat" where
  "readToken ty b p =
     (if ty = TypeInitial then
        and_then (go_slice b p (length b)) (\<lambda>tail.
        case readVarint tail of
           None \<Rightarrow> Inl ErrTruncatedQUIC
         | Some (tokenLen, n) \<Rightarrow>
             (let p = p + n in
              if unat tokenLen > length b - p then Inl ErrTruncatedQUIC
              else and_then (go_slice b p (p + unat tokenLen)) (\<lambda>token. Inr (token, p + unat tokenLen))))
      else Inr ([], p))"

text \<open>
  A decoded length is below \<open>2 ^ 62\<close> (\<open>readVarint_less\<close>), so \<^verbatim>\<open>int(length)\<close> keeps its value and
  the sum with an index into the packet does not wrap; the test \<^verbatim>\<open>h.Length < 0\<close> never holds.
\<close>

definition ParseLongHeader :: "bytes \<Rightarrow> quic_error + LongHeader" where
  "ParseLongHeader b =
     (if \<not> IsLongHeader b then Inl ErrNotQUIC
      else if length b < 7 then Inl ErrTruncatedQUIC
      else
        and_then (go_index b 0) (\<lambda>b0.
        and_then (go_slice b 1 5) (\<lambda>version.
        let h = \<lparr>lh_Type = drop_bit 4 (b0 AND 0x30), lh_Version = be32 version,
                  lh_DCID = [], lh_SCID = [], lh_Token = [], lh_PNOffset = 0, lh_Length = 0, lh_End = 0\<rparr> in
         if lh_Version h = 0 then Inl ErrUnsupportedVersion
         else
        and_then (readCID b 5) (\<lambda>(dcid, p).
        and_then (readCID b p) (\<lambda>(scid, p).
        let h = h\<lparr>lh_DCID := dcid, lh_SCID := scid\<rparr> in
         if lh_Type h = TypeRetry then Inr (h\<lparr>lh_End := length b\<rparr>)
         else
        and_then (readToken (lh_Type h) b p) (\<lambda>(token, p).
        let h = h\<lparr>lh_Token := token\<rparr> in
        and_then (go_slice b p (length b)) (\<lambda>tail.
         case readVarint tail of
           None \<Rightarrow> Inl ErrTruncatedQUIC
         | Some (len, n) \<Rightarrow>
             (let p = p + n;
                  h = h\<lparr>lh_PNOffset := p, lh_Length := unat len, lh_End := p + unat len\<rparr> in
              if lh_End h > length b then Inl ErrTruncatedQUIC else Inr h))))))))"


subsection \<open>The integer coding\<close>

abbreviation varint_fold :: "u64 \<Rightarrow> bytes \<Rightarrow> u64" where
  "varint_fold \<equiv> foldl (\<lambda>value x. push_bit 8 value OR ucast x)"

lemma unat_shift_in:
  assumes "unat v * 256 + 255 < 2 ^ 64"
  shows "unat (push_bit 8 v OR ucast (x :: u8) :: u64) = unat v * 256 + unat x"
proof -
  have "unat (push_bit 8 v) = unat v * 256"
    using assms by (simp only: unsigned_push_bit_eq) (simp add: take_bit_eq_mod push_bit_eq_mult)
  then have "unat (push_bit 8 v OR ucast x) = push_bit 8 (unat v) OR unat x"
    by (simp add: unsigned_or_eq push_bit_eq_mult)
  then show ?thesis by (simp add: shl8_or)
qed

lemma unat_varint_fold:
  "(unat v + 1) * 256 ^ length bs \<le> 2 ^ 64 \<Longrightarrow>
   unat (varint_fold v bs) = unat v * 256 ^ length bs + be_nat bs"
proof (induction bs arbitrary: v)
  case (Cons b bs)
  have "(unat v + 1) * 256 * 1 \<le> (unat v + 1) * 256 * 256 ^ length bs"
    by (rule mult_left_mono) simp_all
  also have "\<dots> \<le> 2 ^ 64" using Cons.prems by (simp only: mult.assoc length_Cons power_Suc)
  finally have "(unat v + 1) * 256 \<le> 2 ^ 64" by simp
  then have step: "unat (push_bit 8 v OR ucast b) = unat v * 256 + unat b"
    by (intro unat_shift_in) simp
  have "unat v * 256 + unat b + 1 \<le> (unat v + 1) * 256" by simp
  then have "(unat v * 256 + unat b + 1) * 256 ^ length bs \<le> (unat v + 1) * 256 * 256 ^ length bs"
    by (rule mult_right_mono) simp
  also have "\<dots> \<le> 2 ^ 64" using Cons.prems by (simp only: mult.assoc length_Cons power_Suc)
  finally have "(unat (push_bit 8 v OR ucast b) + 1) * 256 ^ length bs \<le> 2 ^ 64"
    by (simp only: step)
  from Cons.IH [OF this] step show ?case
    by (simp add: be_nat_Cons algebra_simps)
qed simp

lemma varint_first:
  "unat (drop_bit 6 (b :: u8)) = unat b div 64"
  "unat (b AND 0x3f) = unat b mod 64"
proof -
  show "unat (drop_bit 6 b) = unat b div 64"
    by (simp only: unat_drop_bit_eq) (simp add: drop_bit_eq_div)
  have "b AND 0x3f = take_bit 6 b" by (simp add: take_bit_eq_mask mask_eq_exp_minus_1)
  then show "unat (b AND 0x3f) = unat b mod 64"
    by (simp only: unsigned_take_bit_eq) (simp add: take_bit_eq_mod)
qed

lemma varint_exponent: "unat (drop_bit 6 (b :: u8)) < 4"
  using byte_less [of b] by (simp only: varint_first less_mult_imp_div_less)


text \<open>
  The value of a decoded integer: the first byte without its two top bits, followed by the rest.
\<close>

lemma readVarint_value:
  assumes "bs = b0 # t" and "length bs = 2 ^ (unat b0 div 64)"
  shows "\<exists>v. readVarint (bs @ r) = Some (v, length bs) \<and> unat v = be_nat bs mod (64 * 256 ^ length t)"
proof -
  have k: "unat b0 div 64 < 4" by (simp add: less_mult_imp_div_less)
  have len: "length t + 1 = 2 ^ (unat b0 div 64)" using assms by simp
  have t7: "length t \<le> 7"
  proof -
    have "(2 :: nat) ^ (unat b0 div 64) \<le> 2 ^ 3" using k by (intro power_increasing) auto
    then show ?thesis using len by simp
  qed
  let ?v = "varint_fold (ucast (b0 AND 0x3f)) t"
  have r: "readVarint (bs @ r) = Some (?v, length bs)"
    using assms by (simp add: readVarint_def varint_first Let_def)
  have "(unat b0 mod 64 + 1) * 256 ^ length t \<le> 64 * 256 ^ 7"
    using t7 by (intro mult_mono power_increasing) (auto simp: Suc_le_eq)
  then have "unat ?v = (unat b0 mod 64) * 256 ^ length t + be_nat t"
    by (subst unat_varint_fold) (simp_all add: varint_first)
  also have "\<dots> = be_nat bs mod (256 ^ length t * 64)"
    using be_nat_bound [of t] assms(1) by (simp add: be_nat_Cons mod_mult2_eq)
  finally show ?thesis using r by (auto simp: mult.commute)
qed

lemma readVarint_append:
  assumes "readVarint b = Some (v, n)"
  shows "readVarint (b @ r) = Some (v, n)"
  using assms by (auto simp: readVarint_def Let_def split: list.splits if_splits)

lemma readVarint_less:
  assumes "readVarint b = Some (v, n)"
  shows "unat v < 2 ^ 62"
proof -
  obtain b0 u where b: "b = b0 # u" using assms by (cases b) (auto simp: readVarint_def)
  have n: "n = 2 ^ (unat b0 div 64)" "n \<le> length b"
    using assms b by (auto simp: readVarint_def Let_def varint_first split: if_splits)
  have "0 < n" using n by simp
  let ?bs = "take n b" and ?t = "take (n - 1) u"
  have bs: "?bs = b0 # ?t" using b \<open>0 < n\<close> by (cases n) auto
  have t: "length ?t \<le> 7"
  proof -
    have "(2 :: nat) ^ (unat b0 div 64) \<le> 2 ^ 3"
      by (intro power_increasing) (auto simp: less_Suc_eq_le [symmetric] less_mult_imp_div_less)
    then show ?thesis using n by simp
  qed
  obtain w where w: "readVarint (?bs @ drop n b) = Some (w, length ?bs)"
    "unat w = be_nat ?bs mod (64 * 256 ^ length ?t)"
    using readVarint_value [OF bs, of "drop n b"] n by auto
  have "unat w < 64 * 256 ^ length ?t" using w(2) by simp
  also have "\<dots> \<le> 64 * 256 ^ 7" using t by (intro mult_mono power_increasing) auto
  finally show ?thesis using w(1) assms by simp
qed

lemma length_u64_bytes [simp]: "length (u64_bytes w) = 8"
  by (simp add: u64_bytes_def)

lemma be_nat_u32_bytes: "be_nat (u32_bytes w) = unat w"
proof -
  have "rev [0..<4] = [3, 2, 1, 0 :: nat]" by code_simp
  then have "be_nat (u32_bytes w) = unat w mod 256 ^ 4"
    using be_nat_of_word [of w 4] by (simp add: u32_bytes_def)
  then show ?thesis using unsigned_less [of w, where ?'a = nat] by simp
qed

lemma be_nat_u64_bytes: "be_nat (u64_bytes w) = unat w"
proof -
  have "rev [0..<8] = [7, 6, 5, 4, 3, 2, 1, 0 :: nat]" by code_simp
  then have "be_nat (u64_bytes w) = unat w mod 256 ^ 8"
    using be_nat_of_word [of w 8] by (simp add: u64_bytes_def)
  then show ?thesis using unsigned_less [of w, where ?'a = nat] by simp
qed

lemma be_nat_u16: "be_nat (u16_bytes w) = unat w"
proof -
  have "rev [0..<2] = [1, 0 :: nat]" by code_simp
  then have "be_nat (u16_bytes w) = unat w mod 256 ^ 2"
    using be_nat_of_word [of w 2] by (simp add: u16_bytes_def)
  then show ?thesis using unsigned_less [of w, where ?'a = nat] by simp
qed

text \<open>
  The coding of \<open>x\<close> in \<open>2 ^ k\<close> bytes has \<open>k\<close> in its two top bits and \<open>x\<close> in the others, which is
  what decodes to \<open>x\<close>.
\<close>

lemma readVarint_encoded:
  assumes "length bs = 2 ^ k" and "k < 4"
    and "be_nat bs = k * (64 * 256 ^ (length bs - 1)) + unat v" and "unat v < 64 * 256 ^ (length bs - 1)"
  shows "readVarint (bs @ r) = Some (v, length bs)"
proof -
  obtain b0 t where bs: "bs = b0 # t" using assms(1) by (cases bs) auto
  have k: "unat b0 div 64 = k"
  proof -
    have "unat b0 = be_nat bs div 256 ^ length t"
      using be_nat_bound [of t] bs by (simp add: be_nat_Cons)
    then have "unat b0 div 64 = be_nat bs div (64 * 256 ^ length t)"
      by (simp add: div_mult2_eq mult.commute [of 64])
    with assms(3,4) bs show ?thesis by simp
  qed
  obtain w where w: "readVarint (bs @ r) = Some (w, length bs)"
    "unat w = be_nat bs mod (64 * 256 ^ length t)"
    using readVarint_value [OF bs, of r] assms(1) k by auto
  moreover have "unat w = unat v" using w(2) assms(3,4) bs by simp
  ultimately show ?thesis by (simp add: word_unat_eq_iff)
qed

lemma quicVarint_append: "quicVarint b v = b @ quicVarint [] v"
  by (simp add: quicVarint_def)

lemma varint_tag:
  "unat v < 2 ^ 14 \<Longrightarrow> unat (ucast v OR 0x4000 :: u16) = 1 * 2 ^ 14 + unat (v :: u64)"
  "unat v < 2 ^ 30 \<Longrightarrow> unat (ucast v OR 0x80000000 :: u32) = 2 * 2 ^ 30 + unat v"
  "unat v < 2 ^ 62 \<Longrightarrow> unat (v OR 0xc000000000000000) = 3 * 2 ^ 62 + unat v"
  using shl_or [of "unat v" 14 1] shl_or [of "unat v" 30 2] shl_or [of "unat v" 62 3]
  by (simp_all add: unsigned_or_eq unsigned_ucast_eq take_bit_eq_mod push_bit_eq_mult or.commute)

lemma varint_round_trip_lemma:
  assumes "unat v < 2 ^ 62"
  shows "readVarint (quicVarint [] v @ r) = Some (v, length (quicVarint [] v))"
proof -
  have lt: "v < 2 ^ 6 \<longleftrightarrow> unat v < 2 ^ 6" "v < 2 ^ 14 \<longleftrightarrow> unat v < 2 ^ 14"
    "v < 2 ^ 30 \<longleftrightarrow> unat v < 2 ^ 30"
    by (simp_all add: word_less_nat_alt)
  consider "unat v < 2 ^ 6" | "\<not> v < 2 ^ 6" "unat v < 2 ^ 14"
    | "\<not> v < 2 ^ 6" "\<not> v < 2 ^ 14" "unat v < 2 ^ 30"
    | "\<not> v < 2 ^ 6" "\<not> v < 2 ^ 14" "\<not> v < 2 ^ 30"
    using lt by blast
  then show ?thesis
  proof cases
    case 1
    then have "quicVarint [] v = [ucast v]" using lt by (simp add: quicVarint_def)
    then show ?thesis
      using 1 readVarint_encoded [of "[ucast v]" 0 v r]
      by (simp add: be_nat_Cons unsigned_ucast_eq take_bit_eq_mod)
  next
    case 2
    then have "quicVarint [] v = u16_bytes (ucast v OR 0x4000)"
      using lt by (simp add: quicVarint_def)
    then show ?thesis
      using 2 readVarint_encoded [of "u16_bytes (ucast v OR 0x4000)" 1 v r]
      by (simp add: be_nat_u16 varint_tag)
  next
    case 3
    then have "quicVarint [] v = u32_bytes (ucast v OR 0x80000000)"
      using lt by (simp add: quicVarint_def)
    then show ?thesis
      using 3 readVarint_encoded [of "u32_bytes (ucast v OR 0x80000000)" 2 v r]
      by (simp add: be_nat_u32_bytes varint_tag)
  next
    case 4
    then have "quicVarint [] v = u64_bytes (v OR 0xc000000000000000)" by (simp add: quicVarint_def)
    then show ?thesis
      using assms readVarint_encoded [of "u64_bytes (v OR 0xc000000000000000)" 3 v r]
      by (simp add: be_nat_u64_bytes varint_tag)
  qed
qed


subsection \<open>The frames of a payload\<close>

text \<open>
  One iteration: the frames it collects and the rest of the payload, or the return.
\<close>

definition frame_step :: "bytes \<Rightarrow> (CryptoFrame list \<times> bytes) option" where
  "frame_step b =
     (case readVarint b of
        None \<Rightarrow> None
      | Some (ty, n) \<Rightarrow>
          (let b = drop n b in
           if ty = 0x00 \<or> ty = 0x01 then Some ([], b)
           else if ty = 0x02 \<or> ty = 0x03 then
             map_option (\<lambda>r. ([], r)) (skipACK (ty = 0x03) b)
           else if ty = 0x06 then
             (case readVarint b of None \<Rightarrow> None | Some (offset, n) \<Rightarrow>
             (case readVarint (drop n b) of None \<Rightarrow> None | Some (len, m) \<Rightarrow>
               (let b = drop m (drop n b) in
                if unat len > length b then None
                else Some ([\<lparr>cf_Offset = offset, cf_Data = take (unat len) b\<rparr>], drop (unat len) b))))
           else None))"

lemma CryptoFrames_loop_step:
  "CryptoFrames_loop out b =
     (case frame_step b of None \<Rightarrow> out | Some (fs, r) \<Rightarrow> CryptoFrames_loop (out @ fs) r)"
  by (subst CryptoFrames_loop.simps)
    (auto simp: frame_step_def Let_def readVarint_def [of "[]"] split: option.splits)

lemma frame_step_length: "frame_step b = Some (fs, r) \<Longrightarrow> length r < length b"
  by (auto simp: frame_step_def Let_def split: option.splits if_splits
      dest!: readVarint_bounds skipACK_length; linarith)

lemma CryptoFrames_loop_acc: "CryptoFrames_loop out b = out @ CryptoFrames_loop [] b"
proof (induction b arbitrary: out rule: length_induct)
  case (1 b)
  show ?case
  proof (cases "frame_step b")
    case (Some p)
    obtain fs r where p: "p = (fs, r)" by (cases p)
    then have IH: "CryptoFrames_loop out r = out @ CryptoFrames_loop [] r" for out
      using 1 Some frame_step_length by blast
    show ?thesis
      using Some p IH [of "out @ fs"] IH [of fs]
      by (simp add: CryptoFrames_loop_step [of _ b])
  qed (simp add: CryptoFrames_loop_step [of _ b])
qed

lemma CryptoFrames_step:
  "CryptoFrames b = (case frame_step b of None \<Rightarrow> [] | Some (fs, r) \<Rightarrow> fs @ CryptoFrames r)"
proof (cases "frame_step b")
  case (Some p)
  then show ?thesis
    using CryptoFrames_loop_acc [of "fst p" "snd p"]
    by (auto simp: CryptoFrames_def CryptoFrames_loop_step [of _ b] split: prod.splits)
qed (simp add: CryptoFrames_def CryptoFrames_loop_step [of _ b])

text \<open>More bytes after a frame do not change how it is read.\<close>

lemma skipVarints_append: "skipVarints n b = Some r \<Longrightarrow> skipVarints n (b @ x) = Some (r @ x)"
proof (induction n arbitrary: b)
  case (Suc n)
  then obtain v k where k: "readVarint b = Some (v, k)" "skipVarints n (drop k b) = Some r"
    by (auto split: option.splits)
  with Suc.IH readVarint_bounds [OF k(1)] readVarint_append [OF k(1), of x] show ?case by simp
qed simp

lemma skipACK_append:
  assumes "skipACK e b = Some r"
  shows "skipACK e (b @ x) = Some (r @ x)"
proof -
  obtain b1 c k b2 b3 where
    steps: "skipVarints 2 b = Some b1" "readVarint b1 = Some (c, k)" "skipVarints 1 (drop k b1) = Some b2"
      "skipVarints (2 * unat c) b2 = Some b3" "(if e then skipVarints 3 b3 else Some b3) = Some r"
    using assms by (auto simp: skipACK_def split: option.splits)
  have k: "drop k (b1 @ x) = drop k b1 @ x" using readVarint_bounds [OF steps(2)] by simp
  have "(if e then skipVarints 3 (b3 @ x) else Some (b3 @ x)) = Some (r @ x)"
    using steps(5) skipVarints_append by (simp split: if_splits)
  then show ?thesis
    by (simp only: skipACK_def skipVarints_append [OF steps(1)] readVarint_append [OF steps(2)]
        skipVarints_append [OF steps(3)] skipVarints_append [OF steps(4)] k option.case prod.case)
qed

lemma frame_step_append:
  assumes "frame_step b = Some (fs, r)"
  shows "frame_step (b @ x) = Some (fs, r @ x)"
proof -
  obtain ty n where n: "readVarint b = Some (ty, n)"
    using assms by (auto simp: frame_step_def split: option.splits)
  define c where "c = drop n b"
  have c: "drop n (b @ x) = c @ x" using readVarint_bounds [OF n] by (simp add: c_def)
  note start = assms [unfolded frame_step_def n option.case prod.case Let_def, folded c_def]
  show ?thesis
  proof (cases "ty = 6")
    case False
    with start skipACK_append show ?thesis
      unfolding frame_step_def readVarint_append [OF n] option.case prod.case Let_def c
      by (auto split: if_splits)
  next
    case True
    with start obtain off k where k: "readVarint c = Some (off, k)"
      by (auto split: option.splits)
    define d where "d = drop k c"
    have d: "drop k (c @ x) = d @ x" using readVarint_bounds [OF k] by (simp add: d_def)
    from True start k obtain len m where m: "readVarint d = Some (len, m)"
      by (auto simp: d_def split: option.splits)
    have e: "drop m (d @ x) = drop m d @ x" using readVarint_bounds [OF m] by simp
    show ?thesis
      using True start [unfolded k option.case prod.case, folded d_def, unfolded m option.case prod.case]
      unfolding frame_step_def readVarint_append [OF n] option.case prod.case Let_def c
        readVarint_append [OF k] d readVarint_append [OF m] e
      by (auto split: if_splits)
  qed
qed

lemma CryptoFrames_prefix: "prefix (CryptoFrames b) (CryptoFrames (b @ x))"
proof (induction b rule: length_induct)
  case (1 b)
  show ?case
  proof (cases "frame_step b")
    case None
    then show ?thesis by (simp add: CryptoFrames_step [of b])
  next
    case (Some p)
    obtain fs r where p: "p = (fs, r)" by (cases p)
    then have "prefix (CryptoFrames r) (CryptoFrames (r @ x))"
      using 1 Some frame_step_length by blast
    with Some p frame_step_append [of b fs r x] show ?thesis
      by (simp add: CryptoFrames_step [of b] CryptoFrames_step [of "b @ x"])
  qed
qed

lemma CryptoFrames_Nil [simp]: "CryptoFrames [] = []"
  by (simp add: CryptoFrames_def CryptoFrames_loop.simps)

lemma readVarint_small: "b < 64 \<Longrightarrow> readVarint (b # bs) = Some (ucast b, 1)"
proof -
  assume b: "b < 64"
  then have "unat b < 64" by (simp add: word_less_nat_alt)
  moreover have "b AND 0x3f = b"
    using \<open>unat b < 64\<close> by (simp only: word_unat_eq_iff varint_first) simp
  ultimately show ?thesis by (simp add: readVarint_def varint_first Let_def)
qed

lemma CryptoFrames_padding: "CryptoFrames (replicate n 0 @ b) = CryptoFrames b"
proof (induction n)
  case (Suc n)
  have "readVarint (0 # replicate n 0 @ b) = Some (0, 1)" by (simp add: readVarint_small)
  with Suc.IH show ?case
    by (simp add: CryptoFrames_def CryptoFrames_loop.simps [of "[]" "0 # x" for x])
qed simp

lemma CryptoFrames_crypto:
  assumes "unat off < 2 ^ 62" and "length data < 2 ^ 62"
  shows "CryptoFrames (CryptoFrame_bytes off data @ b) =
    \<lparr>cf_Offset = off, cf_Data = data\<rparr> # CryptoFrames b"
proof -
  define len :: u64 where "len = word_of_nat (length data)"
  have len: "unat len = length data"
    using assms(2) by (simp add: len_def unat_of_nat)
  define e1 where "e1 = quicVarint [] off"
  define e2 where "e2 = quicVarint [] len"
  have eq: "CryptoFrame_bytes off data @ b = 0x06 # e1 @ e2 @ data @ b"
    by (simp add: CryptoFrame_bytes_def e1_def e2_def len_def Let_def
        quicVarint_append [of "b # bs" for b bs])
  have r0: "readVarint (0x06 # x) = Some (6, 1)" for x by (simp add: readVarint_small)
  have r1: "readVarint (e1 @ x) = Some (off, length e1)" for x
    unfolding e1_def by (rule varint_round_trip_lemma) (rule assms)
  have r2: "readVarint (e2 @ x) = Some (len, length e2)" for x
    unfolding e2_def by (rule varint_round_trip_lemma) (use assms(2) len in simp)
  show ?thesis
    unfolding eq CryptoFrames_def
    by (subst CryptoFrames_loop.simps)
      (simp add: r0 r1 r2 len CryptoFrames_loop_acc [of "[x]" for x])
qed

text \<open>
  A payload of CRYPTO frames with padding before each and after the last, as a client's first
  packets carry it.
\<close>

definition frames_payload :: "(nat \<times> CryptoFrame) list \<Rightarrow> nat \<Rightarrow> bytes" where
  "frames_payload fs n =
     concat (map (\<lambda>(p, f). replicate p 0 @ CryptoFrame_bytes (cf_Offset f) (cf_Data f)) fs) @
     replicate n 0"

lemma CryptoFrames_payload:
  assumes "\<And>p f. (p, f) \<in> set fs \<Longrightarrow> unat (cf_Offset f) < 2 ^ 62 \<and> length (cf_Data f) < 2 ^ 62"
  shows "CryptoFrames (frames_payload fs n) = map snd fs"
  using assms
proof (induction fs)
  case Nil
  show ?case using CryptoFrames_padding [of n "[]"] by (simp add: frames_payload_def)
next
  case (Cons a fs)
  obtain p f where a: "a = (p, f)" by (cases a)
  have "frames_payload (a # fs) n =
      replicate p 0 @ CryptoFrame_bytes (cf_Offset f) (cf_Data f) @ frames_payload fs n"
    by (simp add: a frames_payload_def)
  moreover have "unat (cf_Offset f) < 2 ^ 62" "length (cf_Data f) < 2 ^ 62"
    using Cons.prems [of p f] a by auto
  moreover have "CryptoFrames (frames_payload fs n) = map snd fs"
    by (rule Cons.IH) (use Cons.prems in auto)
  ultimately show ?case by (simp add: CryptoFrames_padding CryptoFrames_crypto a)
qed


subsection \<open>The cleartext header\<close>

lemma readCID_eq:
  "readCID b p =
     (if p \<ge> length b \<or> unat (b ! p) > 20 \<or> p + 1 + unat (b ! p) > length b then Inl ErrTruncatedQUIC
      else Inr (take (unat (b ! p)) (drop (p + 1) b), p + 1 + unat (b ! p)))"
  by (simp add: readCID_def Let_def)

lemma readCID_bounds:
  "readCID b p = Inr (cid, q) \<Longrightarrow>
   p < q \<and> q \<le> length b \<and> length cid \<le> 20 \<and> q = p + 1 + length cid \<and> cid = take (length cid) (drop (p + 1) b)"
  by (auto simp: readCID_eq split: if_splits)

definition header_within :: "bytes \<Rightarrow> LongHeader \<Rightarrow> bool" where
  "header_within b h \<longleftrightarrow>
     IsLongHeader b \<and> lh_Version h \<noteq> 0 \<and> lh_Version h = be32 (take 4 (drop 1 b)) \<and>
     length (lh_DCID h) \<le> 20 \<and> length (lh_SCID h) \<le> 20 \<and>
     0 < lh_End h \<and> lh_End h \<le> length b \<and>
     (lh_Type h \<noteq> TypeRetry \<longrightarrow>
        lh_PNOffset h + lh_Length h = lh_End h \<and>
        7 + length (lh_DCID h) + length (lh_SCID h) + length (lh_Token h) < lh_PNOffset h)"

lemma readToken_eq:
  assumes "p \<le> length b"
  shows "readToken ty b p =
     (if ty \<noteq> TypeInitial then Inr ([], p)
      else case readVarint (drop p b) of
             None \<Rightarrow> Inl ErrTruncatedQUIC
           | Some (tokenLen, n) \<Rightarrow>
               if unat tokenLen > length b - (p + n) then Inl ErrTruncatedQUIC
               else Inr (take (unat tokenLen) (drop (p + n) b), p + n + unat tokenLen))"
  using assms by (auto simp: readToken_def Let_def split: option.split dest!: readVarint_bounds)

lemma readToken_bounds:
  assumes "readToken ty b p = Inr (token, q)" and "p \<le> length b"
  shows "p + length token \<le> q \<and> q \<le> length b"
  using assms by (auto simp: readToken_eq split: if_splits option.splits dest!: readVarint_bounds)

text \<open>With every read inside its bounds, the header is what its fields say.\<close>

definition header_of :: "bytes \<Rightarrow> bytes \<times> bytes \<times> nat \<Rightarrow> quic_error + LongHeader" where
  "header_of b ids = (case ids of (dcid, scid, q) \<Rightarrow>
     (let ty = drop_bit 4 (b ! 0 AND 0x30); v = be32 (take 4 (drop 1 b)) in
      if ty = TypeRetry then
        Inr \<lparr>lh_Type = ty, lh_Version = v, lh_DCID = dcid, lh_SCID = scid, lh_Token = [],
             lh_PNOffset = 0, lh_Length = 0, lh_End = length b\<rparr>
      else (case readToken ty b q of Inl e \<Rightarrow> Inl e | Inr (token, r) \<Rightarrow>
       (case readVarint (drop r b) of None \<Rightarrow> Inl ErrTruncatedQUIC | Some (len, n) \<Rightarrow>
          if r + n + unat len > length b then Inl ErrTruncatedQUIC
          else Inr \<lparr>lh_Type = ty, lh_Version = v, lh_DCID = dcid, lh_SCID = scid, lh_Token = token,
             lh_PNOffset = r + n, lh_Length = unat len, lh_End = r + n + unat len\<rparr>))))"

lemma ParseLongHeader_eq:
  "ParseLongHeader b =
     (if \<not> IsLongHeader b then Inl ErrNotQUIC
      else if length b < 7 then Inl ErrTruncatedQUIC
      else if be32 (take 4 (drop 1 b)) = 0 then Inl ErrUnsupportedVersion
      else case readCID b 5 of Inl e \<Rightarrow> Inl e | Inr (dcid, p) \<Rightarrow>
          (case readCID b p of Inl e \<Rightarrow> Inl e | Inr (scid, q) \<Rightarrow> header_of b (dcid, scid, q)))"
proof (cases "IsLongHeader b \<and> \<not> length b < 7 \<and> be32 (take 4 (drop 1 b)) \<noteq> 0")
  case True
  then have guards: "IsLongHeader b" "7 \<le> length b" "b \<noteq> []" "be32 (take 4 (drop (Suc 0) b)) \<noteq> 0" by auto
  show ?thesis
  proof (cases "readCID b 5")
    case (Inl e)
    then show ?thesis using guards by (simp add: ParseLongHeader_def Let_def)
  next
    case (Inr x)
    obtain dcid p where x: "x = (dcid, p)" by (cases x)
    show ?thesis
    proof (cases "readCID b p")
      case (Inl e)
      then show ?thesis using guards Inr x by (simp add: ParseLongHeader_def Let_def)
    next
      case y: (Inr y)
      obtain scid q where y': "y = (scid, q)" by (cases y)
      have q: "q \<le> length b" using readCID_bounds [OF y [unfolded y']] by simp
      show ?thesis
      proof (cases "readToken (drop_bit 4 (b ! 0 AND 0x30)) b q")
        case (Inl e)
        then show ?thesis using guards Inr x y y' by (simp add: ParseLongHeader_def header_of_def Let_def)
      next
        case z: (Inr z)
        obtain token r where z': "z = (token, r)" by (cases z)
        have "r \<le> length b" using readToken_bounds [OF z [unfolded z'] q] by simp
        then show ?thesis
          using guards Inr x y y' z z' by (simp add: ParseLongHeader_def header_of_def Let_def split: option.split)
      qed
    qed
  qed
next
  case False
  then show ?thesis by (auto simp: ParseLongHeader_def IsLongHeader_def Let_def)
qed

lemma ParseLongHeader_within:
  assumes "ParseLongHeader b = Inr h"
  shows "header_within b h"
proof -
  obtain dcid p scid q where 1: "IsLongHeader b" "7 \<le> length b" "be32 (take 4 (drop 1 b)) \<noteq> 0"
    and c: "readCID b 5 = Inr (dcid, p)" "readCID b p = Inr (scid, q)" and h: "header_of b (dcid, scid, q) = Inr h"
    using assms by (auto simp: ParseLongHeader_eq split: if_splits sum.splits)
  note bounds = readCID_bounds [OF c(1)] readCID_bounds [OF c(2)]
  define ty where "ty = drop_bit 4 (b ! 0 AND 0x30)"
  show ?thesis
  proof (cases "ty = TypeRetry")
    case True
    with h 1 bounds show ?thesis by (auto simp: header_of_def header_within_def ty_def Let_def)
  next
    case False
    with h obtain token r where t: "readToken ty b q = Inr (token, r)"
      by (auto simp: header_of_def ty_def Let_def split: sum.splits)
    with False h obtain len n where l: "readVarint (drop r b) = Some (len, n)"
      by (auto simp: header_of_def ty_def Let_def split: option.splits)
    have "q + length token \<le> r" using readToken_bounds [OF t] bounds by simp
    moreover have "0 < n" using readVarint_bounds [OF l] by simp
    ultimately show ?thesis
      using False h t l 1 bounds by (auto simp: header_of_def header_within_def ty_def Let_def split: if_splits)
  qed
qed

text \<open>No byte outside the datagram is read, whatever it is.\<close>

lemma ParseLongHeader_no_panic: "ParseLongHeader b \<noteq> Inl QuicPanic"
proof
  have "readCID b p \<noteq> Inl QuicPanic" for p by (simp add: readCID_eq)
  moreover assume "ParseLongHeader b = Inl QuicPanic"
  ultimately obtain dcid p scid q where c: "readCID b p = Inr (scid, q)" and h: "header_of b (dcid, scid, q) = Inl QuicPanic"
    by (auto simp: ParseLongHeader_eq split: if_splits sum.splits prod.splits)
  have "q \<le> length b" using readCID_bounds [OF c] by simp
  then show False
    using h by (auto simp: header_of_def Let_def readToken_eq split: if_splits sum.splits option.splits prod.splits)
qed


subsection \<open>Properties\<close>

text \<open>
  the integer coding round-trips. What \<^verbatim>\<open>tlssynth.quicVarint\<close> appends for a value below
  \<open>2 ^ 62\<close> is read back as that value, consuming exactly the appended bytes, whatever follows; and
  no byte string decodes to a value of \<open>2 ^ 62\<close> or more or to more bytes than it has.
\<close>

theorem varint_round_trip:
  "(unat v < 2 ^ 62 \<longrightarrow> (\<exists>e. quicVarint b v = b @ e \<and> readVarint (e @ r) = Some (v, length e))) \<and>
   (readVarint s = Some (w, n) \<longrightarrow> unat w < 2 ^ 62 \<and> 0 < n \<and> n \<le> length s)"
  using varint_round_trip_lemma [of v r] quicVarint_append [of b v] readVarint_less [of s w n]
    readVarint_bounds [of s w n]
  by blast

theorem varint_round_trip_witness:
  "(\<exists>e. quicVarint [0x06] 15293 = [0x06] @ e \<and> readVarint (e @ [7]) = Some (15293, length e)) \<and>
   unat (15293 :: u64) < 2 ^ 62 \<and> 0 < (2 :: nat) \<and> 2 \<le> length [0x7b, 0xbd, 7 :: u8]"
  using varint_round_trip [of 15293 "[0x06]" "[7]" "[0x7b, 0xbd, 7]" 15293 2]
  by (simp add: readVarint_def)

text \<open>
  the CRYPTO frames of a payload are read back, offsets and data, in their order, through any
  padding before, between and after them.
\<close>

theorem crypto_frames_round_trip:
  assumes "\<forall>(p, f) \<in> set fs. unat (cf_Offset f) < 2 ^ 62 \<and> length (cf_Data f) < 2 ^ 62"
  shows "CryptoFrames (frames_payload fs n) = map snd fs"
  using assms by (intro CryptoFrames_payload) auto

theorem crypto_frames_round_trip_witness:
  "CryptoFrames (frames_payload
     [(2, \<lparr>cf_Offset = 1000, cf_Data = [9, 9]\<rparr>), (0, \<lparr>cf_Offset = 0, cf_Data = [1, 2, 3]\<rparr>)] 5) =
   [\<lparr>cf_Offset = 1000, cf_Data = [9, 9]\<rparr>, \<lparr>cf_Offset = 0, cf_Data = [1, 2, 3]\<rparr>]"
  using crypto_frames_round_trip
    [of "[(2, \<lparr>cf_Offset = 1000, cf_Data = [9, 9]\<rparr>), (0, \<lparr>cf_Offset = 0, cf_Data = [1, 2, 3]\<rparr>)]" 5]
  by simp

lemma skipVarints_suffix: "skipVarints n b = Some r \<Longrightarrow> suffix r b"
proof (induction n arbitrary: b)
  case (Suc n)
  then obtain k where "suffix r (drop k b)" by (auto split: option.splits)
  then show ?case using suffix_drop suffix_order.trans by blast
qed simp

lemma skipACK_suffix:
  assumes "skipACK e b = Some r"
  shows "suffix r b"
proof -
  obtain b1 c k b2 b3 where
    steps: "skipVarints 2 b = Some b1" "readVarint b1 = Some (c, k)" "skipVarints 1 (drop k b1) = Some b2"
    "skipVarints (2 * unat c) b2 = Some b3" and last: "(if e then skipVarints 3 b3 else Some b3) = Some r"
    using assms by (auto simp: skipACK_def split: option.splits)
  have "suffix r b3" using last skipVarints_suffix by (auto simp del: skipVarints.simps split: if_splits)
  moreover have "suffix b1 b" "suffix b2 (drop k b1)" "suffix b3 b2"
    using steps skipVarints_suffix by blast+
  ultimately show ?thesis by (meson suffix_drop suffix_order.trans)
qed

lemma frame_step_data:
  assumes "frame_step b = Some (fs, r)"
  shows "suffix r b" and "f \<in> set fs \<Longrightarrow> sublist (cf_Data f) b"
proof -
  have piece: "sublist (take l (drop n b)) b" for l n
    by (meson sublist_drop sublist_order.order.trans sublist_take)
  show "f \<in> set fs \<Longrightarrow> sublist (cf_Data f) b"
    using assms piece by (auto simp: frame_step_def Let_def split: option.splits if_splits)
  have ack: "skipACK e (drop n b) = Some r \<Longrightarrow> suffix r b" for e n
    by (meson skipACK_suffix suffix_drop suffix_order.trans)
  show "suffix r b"
    using assms ack by (auto simp: frame_step_def Let_def suffix_drop split: option.splits if_splits)
qed

lemma CryptoFrames_sublist: "f \<in> set (CryptoFrames b) \<Longrightarrow> sublist (cf_Data f) b"
proof (induction b rule: length_induct)
  case (1 b)
  then obtain fs r where s: "frame_step b = Some (fs, r)"
    by (cases "frame_step b") (auto simp: CryptoFrames_step [of b])
  with 1 have "f \<in> set fs \<or> sublist (cf_Data f) r"
    using frame_step_length by (auto simp: CryptoFrames_step [of b])
  then show ?case
    using frame_step_data [OF s] by (meson suffix_imp_sublist sublist_order.order.trans)
qed

text \<open>
  reading frames is safe on any payload: a payload cut short gives a prefix of the frames of the
  whole, and every frame's data is a contiguous piece of the payload.
\<close>

theorem crypto_frames_safe:
  "prefix (CryptoFrames b) (CryptoFrames (b @ r)) \<and> list_all (\<lambda>f. sublist (cf_Data f) b) (CryptoFrames b)"
  using CryptoFrames_prefix CryptoFrames_sublist by (auto simp: list_all_iff)

end
