(* ===== verification/Aes_Gcm.thy ===== *)
theory Aes_Gcm
  imports Sha256
begin

text \<open>
  The rest of the standard library's cryptography that the QUIC sources call: HMAC and HKDF over
  SHA-256 (RFC 2104, RFC 5869), the AES-128 block function (FIPS 197) and Galois/counter mode with
  a 12-byte nonce (NIST SP 800-38D), as \<^verbatim>\<open>crypto/hkdf\<close>, \<^verbatim>\<open>crypto/aes\<close> and
  \<^verbatim>\<open>crypto/cipher\<close> compute them.
\<close>


subsection \<open>HMAC and HKDF\<close>

definition xor_bytes :: "bytes \<Rightarrow> bytes \<Rightarrow> bytes" where
  "xor_bytes xs ys = map2 (XOR) xs ys"

definition hmac_sha256 :: "bytes \<Rightarrow> bytes \<Rightarrow> bytes" where
  "hmac_sha256 k m =
     (let k = (if length k > 64 then sha256 k else k);
          k = k @ replicate (64 - length k) 0
      in sha256 (map (\<lambda>b. b XOR 0x5c) k @ sha256 (map (\<lambda>b. b XOR 0x36) k @ m)))"

text \<open>\<^verbatim>\<open>hkdf.Extract(sha256, secret, salt)\<close>\<close>

definition hkdf_Extract :: "bytes \<Rightarrow> bytes \<Rightarrow> bytes" where
  "hkdf_Extract secret salt = hmac_sha256 salt secret"

text \<open>
  The blocks \<open>T(i)\<close> of the expansion; \<open>n\<close> of them, the first with counter \<open>i\<close> and previous block
  \<open>t\<close>.
\<close>

fun hkdf_blocks :: "bytes \<Rightarrow> bytes \<Rightarrow> bytes \<Rightarrow> u8 \<Rightarrow> nat \<Rightarrow> bytes" where
  "hkdf_blocks prk info t i 0 = []"
| "hkdf_blocks prk info t i (Suc n) =
     (let t = hmac_sha256 prk (t @ info @ [i]) in t @ hkdf_blocks prk info t (i + 1) n)"

text \<open>\<^verbatim>\<open>hkdf.Expand(sha256, prk, info, length)\<close>; more than 255 blocks are an error.\<close>

definition hkdf_Expand :: "bytes \<Rightarrow> bytes \<Rightarrow> nat \<Rightarrow> bytes option" where
  "hkdf_Expand prk info len =
     (if len > 255 * 32 then None
      else Some (take len (hkdf_blocks prk info [] 1 ((len + 31) div 32))))"


subsection \<open>AES-128\<close>

definition aes_sbox :: "u8 list" where
  "aes_sbox =
    [0x63, 0x7c, 0x77, 0x7b, 0xf2, 0x6b, 0x6f, 0xc5, 0x30, 0x01, 0x67, 0x2b, 0xfe, 0xd7, 0xab, 0x76,
     0xca, 0x82, 0xc9, 0x7d, 0xfa, 0x59, 0x47, 0xf0, 0xad, 0xd4, 0xa2, 0xaf, 0x9c, 0xa4, 0x72, 0xc0,
     0xb7, 0xfd, 0x93, 0x26, 0x36, 0x3f, 0xf7, 0xcc, 0x34, 0xa5, 0xe5, 0xf1, 0x71, 0xd8, 0x31, 0x15,
     0x04, 0xc7, 0x23, 0xc3, 0x18, 0x96, 0x05, 0x9a, 0x07, 0x12, 0x80, 0xe2, 0xeb, 0x27, 0xb2, 0x75,
     0x09, 0x83, 0x2c, 0x1a, 0x1b, 0x6e, 0x5a, 0xa0, 0x52, 0x3b, 0xd6, 0xb3, 0x29, 0xe3, 0x2f, 0x84,
     0x53, 0xd1, 0x00, 0xed, 0x20, 0xfc, 0xb1, 0x5b, 0x6a, 0xcb, 0xbe, 0x39, 0x4a, 0x4c, 0x58, 0xcf,
     0xd0, 0xef, 0xaa, 0xfb, 0x43, 0x4d, 0x33, 0x85, 0x45, 0xf9, 0x02, 0x7f, 0x50, 0x3c, 0x9f, 0xa8,
     0x51, 0xa3, 0x40, 0x8f, 0x92, 0x9d, 0x38, 0xf5, 0xbc, 0xb6, 0xda, 0x21, 0x10, 0xff, 0xf3, 0xd2,
     0xcd, 0x0c, 0x13, 0xec, 0x5f, 0x97, 0x44, 0x17, 0xc4, 0xa7, 0x7e, 0x3d, 0x64, 0x5d, 0x19, 0x73,
     0x60, 0x81, 0x4f, 0xdc, 0x22, 0x2a, 0x90, 0x88, 0x46, 0xee, 0xb8, 0x14, 0xde, 0x5e, 0x0b, 0xdb,
     0xe0, 0x32, 0x3a, 0x0a, 0x49, 0x06, 0x24, 0x5c, 0xc2, 0xd3, 0xac, 0x62, 0x91, 0x95, 0xe4, 0x79,
     0xe7, 0xc8, 0x37, 0x6d, 0x8d, 0xd5, 0x4e, 0xa9, 0x6c, 0x56, 0xf4, 0xea, 0x65, 0x7a, 0xae, 0x08,
     0xba, 0x78, 0x25, 0x2e, 0x1c, 0xa6, 0xb4, 0xc6, 0xe8, 0xdd, 0x74, 0x1f, 0x4b, 0xbd, 0x8b, 0x8a,
     0x70, 0x3e, 0xb5, 0x66, 0x48, 0x03, 0xf6, 0x0e, 0x61, 0x35, 0x57, 0xb9, 0x86, 0xc1, 0x1d, 0x9e,
     0xe1, 0xf8, 0x98, 0x11, 0x69, 0xd9, 0x8e, 0x94, 0x9b, 0x1e, 0x87, 0xe9, 0xce, 0x55, 0x28, 0xdf,
     0x8c, 0xa1, 0x89, 0x0d, 0xbf, 0xe6, 0x42, 0x68, 0x41, 0x99, 0x2d, 0x0f, 0xb0, 0x54, 0xbb, 0x16]"

definition aes_sub :: "u8 \<Rightarrow> u8" where
  "aes_sub b = aes_sbox ! unat b"

definition xtime :: "u8 \<Rightarrow> u8" where
  "xtime b = push_bit 1 b XOR (if bit b 7 then 0x1b else 0)"

text \<open>The round constants and the 44 words of the expanded key, latest word first.\<close>

definition aes_rcon :: "u8 list" where
  "aes_rcon = [0x01, 0x02, 0x04, 0x08, 0x10, 0x20, 0x40, 0x80, 0x1b, 0x36]"

fun aes_expand :: "nat \<Rightarrow> nat \<Rightarrow> bytes list \<Rightarrow> bytes list" where
  "aes_expand 0 i ws = ws"
| "aes_expand (Suc n) i ws =
     (let t = ws ! 0;
          t = (if i mod 4 = 0 then xor_bytes (map aes_sub (rotate1 t)) [aes_rcon ! (i div 4 - 1), 0, 0, 0] else t)
      in aes_expand n (i + 1) (xor_bytes (ws ! 3) t # ws))"

definition aes_round_keys :: "bytes \<Rightarrow> bytes list" where
  "aes_round_keys key = chunks 16 (concat (rev (aes_expand 40 4 (rev (chunks 4 key)))))"

text \<open>The state is column-major: byte \<open>i\<close> is in row \<open>i mod 4\<close> and column \<open>i div 4\<close>.\<close>

definition aes_add_key :: "bytes \<Rightarrow> bytes \<Rightarrow> bytes" where
  "aes_add_key k s = map (\<lambda>i. s ! i XOR k ! i) [0..<16]"

definition aes_sub_shift :: "bytes \<Rightarrow> bytes" where
  "aes_sub_shift s = map (\<lambda>i. aes_sub (s ! ((i + 4 * (i mod 4)) mod 16))) [0..<16]"

definition aes_mix :: "bytes \<Rightarrow> bytes" where
  "aes_mix s =
     map (\<lambda>i. let c = 4 * (i div 4); a = s ! i; b = s ! (c + (i + 1) mod 4);
                  d = s ! (c + (i + 2) mod 4); e = s ! (c + (i + 3) mod 4)
              in xtime a XOR (xtime b XOR b) XOR d XOR e) [0..<16]"

definition aes_encrypt :: "bytes \<Rightarrow> bytes \<Rightarrow> bytes" where
  "aes_encrypt key block =
     (let ks = aes_round_keys key;
          s = aes_add_key (ks ! 0) block;
          s = foldl (\<lambda>s k. aes_add_key k (aes_mix (aes_sub_shift s))) s (take 9 (drop 1 ks))
      in aes_add_key (ks ! 10) (aes_sub_shift s))"

text \<open>\<^verbatim>\<open>aes.NewCipher\<close> rejects keys of other sizes; the sources use 16 bytes only.\<close>

definition aes_NewCipher :: "bytes \<Rightarrow> (bytes \<Rightarrow> bytes) option" where
  "aes_NewCipher key = (if length key = 16 then Some (aes_encrypt key) else None)"


subsection \<open>Galois/counter mode\<close>

type_synonym u128 = "128 word"

fun ghash_mult_loop :: "nat \<Rightarrow> u128 \<Rightarrow> u128 \<Rightarrow> u128 \<Rightarrow> u128" where
  "ghash_mult_loop 0 x z v = z"
| "ghash_mult_loop (Suc n) x z v =
     ghash_mult_loop n x (if bit x n then z XOR v else z)
       (if bit v 0 then drop_bit 1 v XOR push_bit 120 0xe1 else drop_bit 1 v)"

definition ghash_mult :: "u128 \<Rightarrow> u128 \<Rightarrow> u128" where
  "ghash_mult x y = ghash_mult_loop 128 x 0 y"

definition be128 :: "bytes \<Rightarrow> u128" where
  "be128 bs = foldl (\<lambda>v b. push_bit 8 v OR ucast b) 0 bs"

definition u128_bytes :: "u128 \<Rightarrow> bytes" where
  "u128_bytes w = map (\<lambda>i. ucast (drop_bit (8 * i) w)) (rev [0..<16])"

definition pad16 :: "bytes \<Rightarrow> bytes" where
  "pad16 b = b @ replicate ((16 - length b mod 16) mod 16) 0"

definition ghash :: "u128 \<Rightarrow> bytes \<Rightarrow> bytes \<Rightarrow> u128" where
  "ghash h a c =
     foldl (\<lambda>y blk. ghash_mult (y XOR be128 blk) h) 0
       (chunks 16 (pad16 a @ pad16 c @ u64_bytes (word_of_nat (8 * length a)) @
                   u64_bytes (word_of_nat (8 * length c))))"

text \<open>The counter mode keystream from counter \<open>i\<close> on, applied block by block.\<close>

fun gctr :: "(bytes \<Rightarrow> bytes) \<Rightarrow> bytes \<Rightarrow> u32 \<Rightarrow> bytes list \<Rightarrow> bytes" where
  "gctr E nonce i [] = []"
| "gctr E nonce i (blk # blks) = xor_bytes blk (E (nonce @ u32_bytes i)) @ gctr E nonce (i + 1) blks"

definition gcm_tag :: "(bytes \<Rightarrow> bytes) \<Rightarrow> bytes \<Rightarrow> bytes \<Rightarrow> bytes \<Rightarrow> bytes" where
  "gcm_tag E nonce c a =
     xor_bytes (u128_bytes (ghash (be128 (E (replicate 16 0))) a c)) (E (nonce @ u32_bytes 1))"

text \<open>The largest plaintext, \<open>(2 ^ 32 - 2) * 16\<close> bytes: a longer one makes \<^verbatim>\<open>Seal\<close> panic.\<close>

definition gcm_max :: nat where
  "gcm_max = (2 ^ 32 - 2) * 16"

definition gcm_Seal :: "(bytes \<Rightarrow> bytes) \<Rightarrow> bytes \<Rightarrow> bytes \<Rightarrow> bytes \<Rightarrow> bytes option" where
  "gcm_Seal E nonce plaintext a =
     (if length plaintext > gcm_max then None
      else (let c = gctr E nonce 2 (chunks 16 plaintext) in Some (c @ gcm_tag E nonce c a)))"

definition gcm_Open :: "(bytes \<Rightarrow> bytes) \<Rightarrow> bytes \<Rightarrow> bytes \<Rightarrow> bytes \<Rightarrow> bytes option" where
  "gcm_Open E nonce ciphertext a =
     (if length ciphertext < 16 \<or> length ciphertext > gcm_max + 16 then None
      else (let c = take (length ciphertext - 16) ciphertext; tag = drop (length ciphertext - 16) ciphertext in
            if tag = gcm_tag E nonce c a then Some (gctr E nonce 2 (chunks 16 c)) else None))"


subsection \<open>Authenticated encryption\<close>

text \<open>
  What the packet protection relies on: a sealed plaintext opens to itself under the same nonce and
  associated data, and is 16 bytes longer.
\<close>

locale aead =
  fixes Seal Open :: "bytes \<Rightarrow> bytes \<Rightarrow> bytes \<Rightarrow> bytes option"
  assumes Open_Seal: "Seal nonce p a = Some c \<Longrightarrow> Open nonce c a = Some p"
    and Seal_length: "Seal nonce p a = Some c \<Longrightarrow> length c = length p + 16"
begin

lemma Seal_inj: "Seal nonce p a = Some c \<Longrightarrow> Seal nonce q a = Some c \<Longrightarrow> p = q"
  by (metis Open_Seal option.inject)

end

lemma length_xor_bytes [simp]: "length (xor_bytes xs ys) = min (length xs) (length ys)"
  by (simp add: xor_bytes_def)

lemma xor_bytes_twice: "length xs \<le> length ys \<Longrightarrow> xor_bytes (xor_bytes xs ys) ys = xs"
  by (induction xs ys rule: list_induct2') (simp_all add: xor_bytes_def xor.assoc)

lemma chunks_Nil [simp]: "chunks n [] = []"
  by (simp add: chunks.simps)

lemma chunks_full: "length x = n \<Longrightarrow> 0 < n \<Longrightarrow> chunks n (x @ y) = x # chunks n y"
  by (subst chunks.simps) auto

text \<open>Applying the keystream keeps the length, and a second application undoes the first.\<close>

lemma gctr_length:
  assumes E: "\<And>b. length (E b) = 16"
  shows "length (gctr E nonce i (chunks 16 p)) = length p"
proof (induction p arbitrary: i rule: length_induct)
  case (1 p)
  show ?case
  proof (cases "p = []")
    case False
    then have "length (drop 16 p) < length p" by simp
    with 1 have "length (gctr E nonce (i + 1) (chunks 16 (drop 16 p))) = length (drop 16 p)" by blast
    with False E show ?thesis by (subst chunks.simps) simp
  qed simp
qed

lemma gctr_twice:
  assumes E: "\<And>b. length (E b) = 16"
  shows "gctr E nonce i (chunks 16 (gctr E nonce i (chunks 16 p))) = p"
proof (induction p arbitrary: i rule: length_induct)
  case (1 p)
  show ?case
  proof (cases "p = []")
    case False
    then have short: "length (drop 16 p) < length p" by simp
    define k where "k = E (nonce @ u32_bytes i)"
    have k: "length k = 16" by (simp add: k_def E)
    define rest where "rest = gctr E nonce (i + 1) (chunks 16 (drop 16 p))"
    have IH: "gctr E nonce (i + 1) (chunks 16 rest) = drop 16 p"
      unfolding rest_def using 1 short by blast
    have enc: "gctr E nonce i (chunks 16 p) = xor_bytes (take 16 p) k @ rest"
      using False by (subst chunks.simps) (simp add: k_def rest_def)
    have twice: "xor_bytes (xor_bytes (take 16 p) k) k = take 16 p"
      by (rule xor_bytes_twice) (simp add: k)
    show ?thesis
    proof (cases "16 \<le> length p")
      case True
      then have "length (xor_bytes (take 16 p) k) = 16" by (simp add: k)
      then show ?thesis by (simp add: enc chunks_full k_def [symmetric] twice IH)
    next
      case short': False
      then have "rest = []" by (simp add: rest_def)
      moreover have "chunks 16 (xor_bytes (take 16 p) k) = [xor_bytes (take 16 p) k]"
        using short' False k by (subst chunks.simps) (auto simp: xor_bytes_def)
      ultimately show ?thesis using short' twice by (simp add: enc k_def [symmetric])
    qed
  qed simp
qed

lemma gcm_tag_length:
  assumes "\<And>b. length (E b) = 16"
  shows "length (gcm_tag E nonce c a) = 16"
  by (simp add: gcm_tag_def u128_bytes_def assms)

lemma length_aes_encrypt [simp]: "length (aes_encrypt key b) = 16"
  by (simp add: aes_encrypt_def aes_add_key_def Let_def)

lemma gcm_aead:
  assumes E: "\<And>b. length (E b) = 16"
  shows "aead (gcm_Seal E) (gcm_Open E)"
proof
  fix nonce p a c
  assume "gcm_Seal E nonce p a = Some c"
  then have p: "length p \<le> gcm_max"
    and c: "c = gctr E nonce 2 (chunks 16 p) @ gcm_tag E nonce (gctr E nonce 2 (chunks 16 p)) a"
    by (auto simp: gcm_Seal_def Let_def split: if_splits)
  note lens = gctr_length [of E, OF E] gcm_tag_length [of E, OF E]
  show "length c = length p + 16" by (simp add: c lens)
  show "gcm_Open E nonce c a = Some p"
    using p by (simp add: c gcm_Open_def lens gctr_twice [of E, OF E])
qed

interpretation gcm: aead "gcm_Seal (aes_encrypt key)" "gcm_Open (aes_encrypt key)" for key
  by (rule gcm_aead) simp

end
