(* ===== verification/Quic_Keys.thy ===== *)
theory Quic_Keys
  imports Quic_Wire Aes_Gcm Go_Text
begin

text \<open>
  \<^verbatim>\<open>internal/quic/keys.go\<close> and \<^verbatim>\<open>Open\<close> of \<^verbatim>\<open>packet.go\<close>: the derivation of the Initial keys
  from the client's connection ID and the removal of packet protection; with the independent
  builder of protected packets in \<^verbatim>\<open>internal/tlssynth/quic.go\<close>.
\<close>

definition Version1 :: u32 where [simp]: "Version1 = 0x00000001"
definition Version2 :: u32 where [simp]: "Version2 = 0x6b3343cf"

definition initialSaltV1 :: bytes where
  "initialSaltV1 =
    [0x38, 0x76, 0x2c, 0xf7, 0xf5, 0x59, 0x34, 0xb3, 0x4d, 0x17,
     0x9a, 0xe6, 0xa4, 0xc8, 0x0c, 0xad, 0xcc, 0xbb, 0x7f, 0x0a]"

definition initialSaltV2 :: bytes where
  "initialSaltV2 =
    [0x0d, 0xed, 0xe3, 0xde, 0xf7, 0x00, 0xa6, 0xdb, 0x81, 0x93,
     0x81, 0xbe, 0x6e, 0x26, 0x9d, 0xcb, 0xf9, 0xbd, 0x2e, 0xd9]"

definition Supported :: "u32 \<Rightarrow> bool" where
  "Supported version \<longleftrightarrow> version = Version1 \<or> version = Version2"

definition saltFor :: "u32 \<Rightarrow> bytes" where
  "saltFor version = (if version = Version2 then initialSaltV2 else initialSaltV1)"

definition labelsFor :: "u32 \<Rightarrow> string \<times> string \<times> string" where
  "labelsFor version =
     (if version = Version2 then (''quicv2 key'', ''quicv2 iv'', ''quicv2 hp'')
      else (''quic key'', ''quic iv'', ''quic hp''))"

text \<open>
  The AEAD of a direction is GCM over the block function \<open>k_aead\<close>; \<open>k_hp\<close> is the block function of
  the header protection.
\<close>

record Keys =
  k_aead :: "bytes \<Rightarrow> bytes"
  k_iv :: bytes
  k_hp :: "bytes \<Rightarrow> bytes"

text \<open>The library errors of this file are one value, \<open>ErrCrypto\<close>; none of them can occur.\<close>

definition expandLabel :: "bytes \<Rightarrow> string \<Rightarrow> nat \<Rightarrow> quic_error + bytes" where
  "expandLabel secret label len =
     (let full = ''tls13 '' @ label;
          info = u16_bytes (word_of_nat len);
          info = info @ [word_of_nat (length full)];
          info = info @ string_bytes full;
          info = info @ [0]
      in case hkdf_Expand secret info len of None \<Rightarrow> Inl ErrCrypto | Some out \<Rightarrow> Inr out)"

definition initialKeyMaterial :: "u32 \<Rightarrow> bytes \<Rightarrow> bool \<Rightarrow> quic_error + bytes \<times> bytes \<times> bytes" where
  "initialKeyMaterial version originalDCID server =
     (if \<not> Supported version then Inl ErrUnsupportedVersion
      else
        (let initialSecret = hkdf_Extract originalDCID (saltFor version);
             label = (if server then ''server in'' else ''client in'') in
         case expandLabel initialSecret label 32 of Inl e \<Rightarrow> Inl e | Inr secret \<Rightarrow>
        (case labelsFor version of (keyLabel, ivLabel, hpLabel) \<Rightarrow>
         case expandLabel secret keyLabel 16 of Inl e \<Rightarrow> Inl e | Inr key \<Rightarrow>
        (case expandLabel secret ivLabel 12 of Inl e \<Rightarrow> Inl e | Inr iv \<Rightarrow>
        (case expandLabel secret hpLabel 16 of Inl e \<Rightarrow> Inl e | Inr hp \<Rightarrow>
         Inr (key, iv, hp))))))"

definition DeriveInitialKeys :: "u32 \<Rightarrow> bytes \<Rightarrow> bool \<Rightarrow> quic_error + Keys" where
  "DeriveInitialKeys version originalDCID server =
     (case initialKeyMaterial version originalDCID server of Inl e \<Rightarrow> Inl e | Inr (keyBytes, iv, hpBytes) \<Rightarrow>
     (case aes_NewCipher keyBytes of None \<Rightarrow> Inl ErrCrypto | Some block \<Rightarrow>
     (case aes_NewCipher hpBytes of None \<Rightarrow> Inl ErrCrypto | Some hpBlock \<Rightarrow>
      Inr \<lparr>k_aead = block, k_iv = iv, k_hp = hpBlock\<rparr>)))"

text \<open>The packet number is combined with the last eight bytes of the IV.\<close>

definition be64 :: "bytes \<Rightarrow> u64" where
  "be64 bs = foldl (\<lambda>v b. push_bit 8 v OR ucast b) 0 bs"

definition iv_nonce :: "bytes \<Rightarrow> u64 \<Rightarrow> bytes" where
  "iv_nonce iv packetNumber =
     take (length iv - 8) iv @ u64_bytes (be64 (drop (length iv - 8) iv) XOR packetNumber)"

definition k_nonce :: "Keys \<Rightarrow> u64 \<Rightarrow> quic_error + bytes" where
  "k_nonce k packetNumber = (if length (k_iv k) < 8 then Inl QuicPanic else Inr (iv_nonce (k_iv k) packetNumber))"

text \<open>The block function panics on an input that is no full block.\<close>

definition headerMask :: "Keys \<Rightarrow> bytes \<Rightarrow> quic_error + bytes" where
  "headerMask k sample = (if length sample < 16 then Inl QuicPanic else Inr (take 5 (k_hp k sample)))"

text \<open>\<^verbatim>\<open>Open\<close> of the AEAD panics on a nonce that has not 12 bytes.\<close>

definition aead_Open :: "(bytes \<Rightarrow> bytes) \<Rightarrow> bytes \<Rightarrow> bytes \<Rightarrow> bytes \<Rightarrow> quic_error + bytes" where
  "aead_Open E nonce ciphertext a =
     (if length nonce \<noteq> 12 then Inl QuicPanic
      else case gcm_Open E nonce ciphertext a of None \<Rightarrow> Inl ErrAuthFailed | Some plaintext \<Rightarrow> Inr plaintext)"


subsection \<open>Opening a packet\<close>

text \<open>The loop over the packet number bytes: the header and the number so far.\<close>

definition unmask_pn :: "nat \<Rightarrow> bytes \<Rightarrow> quic_error + bytes \<times> u64 \<Rightarrow> nat \<Rightarrow> quic_error + bytes \<times> u64" where
  "unmask_pn off msk st i =
     and_then st (\<lambda>(header, packetNumber).
     and_then (go_index header (off + i)) (\<lambda>x.
     and_then (go_index msk (1 + i)) (\<lambda>m.
       let v = x XOR m
       in Inr (header[off + i := v], push_bit 8 packetNumber OR ucast v))))"

text \<open>Every read of the datagram, the mask and the header checks its bounds; \<open>Open_no_panic\<close> shows that none is outside.\<close>

definition Open :: "bytes \<Rightarrow> LongHeader \<Rightarrow> Keys \<Rightarrow> quic_error + u64 \<times> bytes" where
  "Open datagram h k =
     (if lh_PNOffset h + sampleOffset + sampleLen > length datagram then Inl ErrTruncatedQUIC
      else
        and_then (go_slice datagram (lh_PNOffset h + sampleOffset) (lh_PNOffset h + sampleOffset + sampleLen)) (\<lambda>sample.
        and_then (headerMask k sample) (\<lambda>msk.
        and_then (go_index datagram 0) (\<lambda>d0.
        and_then (go_index msk 0) (\<lambda>m0.
        let first = d0 XOR (m0 AND 0x0f);
            pnLen = unat (first AND 0x03) + 1 in
        if lh_PNOffset h + pnLen > lh_End h then Inl ErrTruncatedQUIC
        else
          and_then (go_slice datagram 0 (lh_PNOffset h + pnLen)) (\<lambda>header.
          and_then (foldl (unmask_pn (lh_PNOffset h) msk) (Inr (header[0 := first], 0)) [0..<pnLen]) (\<lambda>(header, packetNumber).
          and_then (go_slice datagram (lh_PNOffset h + pnLen) (lh_End h)) (\<lambda>ciphertext.
          and_then (k_nonce k packetNumber) (\<lambda>nonce.
          and_then (aead_Open (k_aead k) nonce ciphertext header) (\<lambda>plaintext.
            Inr (packetNumber, plaintext)))))))))))"


subsection \<open>Building a packet\<close>

definition quicInitialSaltV1 :: bytes where
  "quicInitialSaltV1 =
    [0x38, 0x76, 0x2c, 0xf7, 0xf5, 0x59, 0x34, 0xb3, 0x4d, 0x17,
     0x9a, 0xe6, 0xa4, 0xc8, 0x0c, 0xad, 0xcc, 0xbb, 0x7f, 0x0a]"

definition QUICVersion1 :: u32 where [simp]: "QUICVersion1 = 0x00000001"

text \<open>In the builder a library error panics, which is \<open>None\<close>.\<close>

definition quicHkdfLabel :: "bytes \<Rightarrow> string \<Rightarrow> nat \<Rightarrow> bytes option" where
  "quicHkdfLabel secret label n =
     (let full = ''tls13 '' @ label;
          info = u16_bytes (word_of_nat n);
          info = info @ [word_of_nat (length full)];
          info = info @ string_bytes full;
          info = info @ [0]
      in hkdf_Expand secret info n)"

definition quicInitialKeys :: "bytes \<Rightarrow> bool \<Rightarrow> Keys option" where
  "quicInitialKeys dcid server =
     (let initial = hkdf_Extract dcid quicInitialSaltV1;
          label = (if server then ''server in'' else ''client in'') in
      case quicHkdfLabel initial label 32 of None \<Rightarrow> None | Some secret \<Rightarrow>
     (case quicHkdfLabel secret ''quic key'' 16 of None \<Rightarrow> None | Some key \<Rightarrow>
     (case aes_NewCipher key of None \<Rightarrow> None | Some block \<Rightarrow>
     (case quicHkdfLabel secret ''quic hp'' 16 of None \<Rightarrow> None | Some hp \<Rightarrow>
     (case aes_NewCipher hp of None \<Rightarrow> None | Some hpBlock \<Rightarrow>
     (case quicHkdfLabel secret ''quic iv'' 12 of None \<Rightarrow> None | Some iv \<Rightarrow>
      Some \<lparr>k_aead = block, k_iv = iv, k_hp = hpBlock\<rparr>))))))"

text \<open>The payload with its PADDING frames.\<close>

definition pad_payload :: "bytes \<Rightarrow> bytes \<Rightarrow> bytes \<Rightarrow> int \<Rightarrow> bytes" where
  "pad_payload dcid scid frames padTo =
     (if padTo > 0 then
        (let overhead = 1 + 4 + 1 + int (length dcid) + 1 + int (length scid) + 1 + 2 + 2 + 16;
             n = padTo - overhead - int (length frames)
         in if n > 0 then frames @ replicate (nat n) 0 else frames)
      else frames)"

text \<open>
  The mask is applied to the finished packet in place. A packet too short to be sampled makes the
  slice expression panic.
\<close>

definition QUICInitial ::
  "bytes \<Rightarrow> bytes \<Rightarrow> bool \<Rightarrow> u32 \<Rightarrow> bytes \<Rightarrow> int \<Rightarrow> bytes option" where
  "QUICInitial dcid scid server packetNumber frames padTo =
     (case quicInitialKeys dcid server of None \<Rightarrow> None | Some k \<Rightarrow>
       (let pnLen = 2;
            payload = pad_payload dcid scid frames padTo;
            hdr = [0xc0 OR word_of_nat (pnLen - 1)];
            hdr = hdr @ u32_bytes QUICVersion1;
            hdr = hdr @ [word_of_nat (length dcid)];
            hdr = hdr @ dcid;
            hdr = hdr @ [word_of_nat (length scid)];
            hdr = hdr @ scid;
            hdr = hdr @ [0x00];
            hdr = quicVarint hdr (word_of_nat (pnLen + length payload + 16));
            pnOffset = length hdr;
            hdr = hdr @ drop (4 - pnLen) (u32_bytes packetNumber);
            nonce = iv_nonce (k_iv k) (ucast packetNumber) in
        case gcm_Seal (k_aead k) nonce payload hdr of None \<Rightarrow> None | Some sealed \<Rightarrow>
          (let pkt = hdr @ sealed in
           if pnOffset + 4 + 16 > length pkt then None
           else
             (let msk = k_hp k (take 16 (drop (pnOffset + 4) pkt));
                  pkt = pkt[0 := pkt ! 0 XOR (msk ! 0 AND 0x0f)]
              in Some (foldl (\<lambda>pkt i. pkt[pnOffset + i := pkt ! (pnOffset + i) XOR msk ! (1 + i)])
                         pkt [0..<pnLen])))))"



subsection \<open>The derivation\<close>

lemma length_hkdf_blocks [simp]: "length (hkdf_blocks prk info t i n) = 32 * n"
  by (induction n arbitrary: t i) (simp_all add: Let_def hmac_sha256_def)

lemma hkdf_Expand_short:
  assumes "n \<le> 32"
  shows "\<exists>out. hkdf_Expand prk info n = Some out \<and> length out = n"
  using assms by (simp add: hkdf_Expand_def)

lemma expandLabel_ok:
  assumes "n \<le> 32"
  obtains out where "expandLabel secret label n = Inr out" "quicHkdfLabel secret label n = Some out" "length out = n"
proof -
  let ?info = "((u16_bytes (word_of_nat n) @ [word_of_nat (length (''tls13 '' @ label))]) @
      string_bytes (''tls13 '' @ label)) @ [0]"
  obtain out where "hkdf_Expand secret ?info n = Some out" "length out = n"
    using hkdf_Expand_short [OF assms] by blast
  then show thesis
    by (intro that [of out]) (simp_all add: expandLabel_def quicHkdfLabel_def Let_def)
qed

text \<open>
  A supported version always has keys, with a 12-byte IV and 16-byte blocks; the independent
  derivation of the packet builder gives the same ones.
\<close>

definition sound_keys :: "Keys \<Rightarrow> bool" where
  "sound_keys k \<longleftrightarrow> length (k_iv k) = 12 \<and> (\<exists>key hp. k_aead k = aes_encrypt key \<and> k_hp k = aes_encrypt hp)"

lemma DeriveInitialKeys_sound:
  assumes "Supported version"
  obtains k where "DeriveInitialKeys version dcid server = Inr k" "sound_keys k"
    "version = Version1 \<Longrightarrow> quicInitialKeys dcid server = Some k"
proof -
  let ?label = "if server then ''server in'' else ''client in''"
  let ?initial = "hkdf_Extract dcid (saltFor version)"
  obtain kl il hl where l: "labelsFor version = (kl, il, hl)" by (cases "labelsFor version")
  obtain secret where s: "expandLabel ?initial ?label 32 = Inr secret" "quicHkdfLabel ?initial ?label 32 = Some secret"
    by (rule expandLabel_ok [of 32 ?initial ?label]) auto
  obtain key where key: "expandLabel secret kl 16 = Inr key" "quicHkdfLabel secret kl 16 = Some key" "length key = 16"
    by (rule expandLabel_ok [of 16 secret kl]) auto
  obtain iv where iv: "expandLabel secret il 12 = Inr iv" "quicHkdfLabel secret il 12 = Some iv" "length iv = 12"
    by (rule expandLabel_ok [of 12 secret il]) auto
  obtain hp where hp: "expandLabel secret hl 16 = Inr hp" "quicHkdfLabel secret hl 16 = Some hp" "length hp = 16"
    by (rule expandLabel_ok [of 16 secret hl]) auto
  let ?k = "\<lparr>k_aead = aes_encrypt key, k_iv = iv, k_hp = aes_encrypt hp\<rparr>"
  have "DeriveInitialKeys version dcid server = Inr ?k"
    using assms s key iv hp l
    by (simp add: DeriveInitialKeys_def initialKeyMaterial_def Let_def aes_NewCipher_def)
  moreover have "sound_keys ?k" using iv by (auto simp: sound_keys_def)
  moreover have "quicInitialKeys dcid server = Some ?k" if "version = Version1"
  proof -
    have "kl = ''quic key''" "il = ''quic iv''" "hl = ''quic hp''" "saltFor version = quicInitialSaltV1"
      using that l by (auto simp: labelsFor_def saltFor_def initialSaltV1_def quicInitialSaltV1_def)
    with s key iv hp show ?thesis
      by (simp add: quicInitialKeys_def Let_def aes_NewCipher_def)
  qed
  ultimately show thesis by (rule that)
qed


subsection \<open>Every read is inside its bounds\<close>

text \<open>The loop and \<open>Open\<close> without the checks.\<close>

definition unmask_plain :: "nat \<Rightarrow> bytes \<Rightarrow> bytes \<times> u64 \<Rightarrow> nat \<Rightarrow> bytes \<times> u64" where
  "unmask_plain off msk st i =
     (case st of (header, packetNumber) \<Rightarrow>
        (let v = header ! (off + i) XOR msk ! (1 + i)
         in (header[off + i := v], push_bit 8 packetNumber OR ucast v)))"

definition Open_plain :: "bytes \<Rightarrow> LongHeader \<Rightarrow> Keys \<Rightarrow> quic_error + u64 \<times> bytes" where
  "Open_plain datagram h k =
     (if lh_PNOffset h + sampleOffset + sampleLen > length datagram then Inl ErrTruncatedQUIC
      else
        (let msk = take 5 (k_hp k (take sampleLen (drop (lh_PNOffset h + sampleOffset) datagram)));
             first = datagram ! 0 XOR (msk ! 0 AND 0x0f);
             pnLen = unat (first AND 0x03) + 1 in
         if lh_PNOffset h + pnLen > lh_End h then Inl ErrTruncatedQUIC
         else
           (case foldl (unmask_plain (lh_PNOffset h) msk) ((take (lh_PNOffset h + pnLen) datagram)[0 := first], 0) [0..<pnLen] of
              (header, packetNumber) \<Rightarrow>
                (case gcm_Open (k_aead k) (iv_nonce (k_iv k) packetNumber)
                        (drop (lh_PNOffset h + pnLen) (take (lh_End h) datagram)) header of
                   None \<Rightarrow> Inl ErrAuthFailed
                 | Some plaintext \<Rightarrow> Inr (packetNumber, plaintext)))))"

lemma unmask_checked:
  assumes "off + n \<le> length header" and "n < length msk"
  shows "foldl (unmask_pn off msk) (Inr (header, 0)) [0..<n] = Inr (foldl (unmask_plain off msk) (header, 0) [0..<n]) \<and>
    length (fst (foldl (unmask_plain off msk) (header, 0) [0..<n])) = length header"
  using assms
proof (induction n)
  case (Suc n)
  obtain hd v where st: "foldl (unmask_plain off msk) (header, 0) [0..<n] = (hd, v)" by fastforce
  with Suc have "foldl (unmask_pn off msk) (Inr (header, 0)) [0..<n] = Inr (hd, v)" "length hd = length header" by simp_all
  with st Suc.prems show ?case by (simp add: unmask_pn_def [of _ _ "Inr (hd, v)"] unmask_plain_def [of _ _ "(hd, v)"] Let_def)
qed simp

lemma sound_keys_lengths:
  "sound_keys k \<Longrightarrow> length (k_hp k sample) = 16" "sound_keys k \<Longrightarrow> length (iv_nonce (k_iv k) packetNumber) = 12"
  by (auto simp: sound_keys_def iv_nonce_def)

lemma Open_checked:
  assumes "sound_keys k" and "lh_End h \<le> length datagram"
  shows "Open datagram h k = Open_plain datagram h k"
proof (cases "lh_PNOffset h + sampleOffset + sampleLen > length datagram")
  case False
  define msk where "msk = take 5 (k_hp k (take sampleLen (drop (lh_PNOffset h + sampleOffset) datagram)))"
  define first where "first = datagram ! 0 XOR (msk ! 0 AND 0x0f)"
  define pnLen where "pnLen = unat (first AND 0x03) + 1"
  have msk: "length msk = 5" using sound_keys_lengths(1) [OF assms(1)] by (simp add: msk_def)
  have pn: "pnLen < 5"
  proof -
    have "first AND 0x03 \<le> 0x03" by (rule word_and_le1)
    then show ?thesis by (simp add: pnLen_def word_le_nat_alt)
  qed
  have d: "datagram \<noteq> []" "lh_PNOffset h + pnLen \<le> length datagram" using False pn by auto
  have loop: "foldl (unmask_pn (lh_PNOffset h) msk) (Inr ((take (lh_PNOffset h + pnLen) datagram)[0 := first], 0)) [0..<pnLen] =
      Inr (foldl (unmask_plain (lh_PNOffset h) msk) ((take (lh_PNOffset h + pnLen) datagram)[0 := first], 0) [0..<pnLen])"
    using unmask_checked [of "lh_PNOffset h" pnLen "(take (lh_PNOffset h + pnLen) datagram)[0 := first]" msk] d msk pn by simp
  have iv: "length (k_iv k) = 12" using assms(1) by (simp add: sound_keys_def)
  have mask: "headerMask k (take sampleLen (drop (lh_PNOffset h + sampleOffset) datagram)) = Inr msk"
    using False by (simp add: headerMask_def msk_def)
  have sample: "go_slice datagram (lh_PNOffset h + sampleOffset) (lh_PNOffset h + sampleOffset + sampleLen) =
      Inr (take sampleLen (drop (lh_PNOffset h + sampleOffset) datagram))"
    using False by simp
  have reads: "go_index datagram 0 = Inr (datagram ! 0)" "go_index msk 0 = Inr (msk ! 0)"
    "go_slice datagram 0 (lh_PNOffset h + pnLen) = Inr (take (lh_PNOffset h + pnLen) datagram)"
    using d msk by simp_all
  have ct: "go_slice datagram (lh_PNOffset h + pnLen) (lh_End h) =
      Inr (drop (lh_PNOffset h + pnLen) (take (lh_End h) datagram))" if "lh_PNOffset h + pnLen \<le> lh_End h"
    using that assms(2) by (simp add: take_drop)
  show ?thesis
    unfolding Open_def Open_plain_def Let_def if_not_P [OF False] sample and_then_simps mask reads
      first_def [symmetric] pnLen_def [symmetric] loop msk_def [symmetric]
    by (auto simp: ct k_nonce_def iv aead_Open_def sound_keys_lengths(2) [OF assms(1)] case_prod_beta split: option.split)
qed (simp add: Open_def Open_plain_def)

lemma Open_no_panic:
  assumes "sound_keys k" and "lh_End h \<le> length datagram"
  shows "Open datagram h k \<noteq> Inl QuicPanic"
  unfolding Open_checked [OF assms] by (auto simp: Open_plain_def Let_def split: prod.split option.split)

lemma DeriveInitialKeys_keys:
  assumes "DeriveInitialKeys version dcid server = Inr k" shows "sound_keys k"
proof -
  have "Supported version"
    using assms by (auto simp: DeriveInitialKeys_def initialKeyMaterial_def split: if_splits)
  then show ?thesis using DeriveInitialKeys_sound [of version dcid server] assms by auto
qed


subsection \<open>Reading a built header\<close>

lemma be32_u32_bytes: "be32 (u32_bytes w) = w"
proof (rule bit_word_eqI)
  fix n
  assume "n < LENGTH(32)"
  then show "bit (be32 (u32_bytes w)) n = bit w n"
    by (cases "n < 8"; cases "n < 16"; cases "n < 24") (auto simp: be32_def u32_bytes_def bit_simps)
qed

lemma readCID_with_len8:
  assumes "length cid \<le> 20"
  shows "readCID (b @ with_len8 cid @ r) (length b) = Inr (cid, length b + 1 + length cid)"
  using assms by (auto simp: readCID_eq with_len8_def Let_def nth_append unat_of_nat)

lemma drop_at: "length x = n \<Longrightarrow> drop n (x @ y) = y"
  by simp

text \<open>The layout of an Initial header, with its token, and the fields that are read from it.\<close>

definition initial_header :: "u8 \<Rightarrow> u32 \<Rightarrow> bytes \<Rightarrow> bytes \<Rightarrow> bytes \<Rightarrow> u64 \<Rightarrow> bytes" where
  "initial_header f ver dcid scid token len =
     [f] @ u32_bytes ver @ with_len8 dcid @ with_len8 scid @
     quicVarint [] (word_of_nat (length token)) @ token @ quicVarint [] len"

lemma initial_header_round_trip:
  assumes "f AND 0xf0 = 0xc0" and "ver \<noteq> 0" and "length dcid \<le> 20" and "length scid \<le> 20"
    and "length token < 2 ^ 62" and "unat len < 2 ^ 62" and "unat len \<le> length x"
  defines "hdr \<equiv> initial_header f ver dcid scid token len"
  shows "ParseLongHeader (hdr @ x) =
    Inr \<lparr>lh_Type = TypeInitial, lh_Version = ver, lh_DCID = dcid, lh_SCID = scid, lh_Token = token,
         lh_PNOffset = length hdr, lh_Length = unat len, lh_End = length hdr + unat len\<rparr>"
proof -
  define tl :: u64 where "tl = word_of_nat (length token)"
  have tl: "unat tl = length token" "unat tl < 2 ^ 62"
    using assms(5) by (simp_all add: tl_def unat_of_nat)
  define b where "b = hdr @ x"
  define h5 where "h5 = [f] @ u32_bytes ver"
  define e1 where "e1 = quicVarint [] tl"
  define e2 where "e2 = quicVarint [] len"
  have b: "b = h5 @ with_len8 dcid @ with_len8 scid @ e1 @ token @ e2 @ x"
    by (simp add: b_def hdr_def initial_header_def h5_def e1_def e2_def tl_def)
  have h5: "length h5 = 5" by (simp add: h5_def)
  have lw: "length (with_len8 y) = 1 + length y" for y by (simp add: with_len8_def)
  define p q where "p = 6 + length dcid" and "q = p + 1 + length scid"
  have cid1: "readCID b 5 = Inr (dcid, p)"
    using readCID_with_len8 [OF assms(3), of h5] h5 by (simp add: b p_def)
  have cid2: "readCID b p = Inr (scid, q)"
    using readCID_with_len8 [OF assms(4), of "h5 @ with_len8 dcid"] h5 by (simp add: b p_def q_def lw)
  have dq: "drop q b = e1 @ token @ e2 @ x"
    using drop_at [of "h5 @ with_len8 dcid @ with_len8 scid" q] h5 by (simp add: b p_def q_def lw)
  have de: "drop (q + length e1) b = token @ e2 @ x"
    by (simp add: drop_drop [symmetric] add.commute [of q] dq del: drop_drop)
  have lenb: "length b = q + length e1 + length token + length e2 + length x"
    using h5 by (simp add: b p_def q_def lw)
  have v1: "readVarint (e1 @ y) = Some (tl, length e1)" for y
    unfolding e1_def by (rule varint_round_trip_lemma) (rule tl)
  have v2: "readVarint (e2 @ y) = Some (len, length e2)" for y
    unfolding e2_def by (rule varint_round_trip_lemma) (rule assms)
  have tok: "readToken TypeInitial b q = Inr (token, q + length e1 + length token)"
    using tl lenb by (simp add: readToken_eq dq v1 de)
  have de2: "drop (q + length e1 + length token) b = e2 @ x"
    using de drop_drop [of "length token" "q + length e1" b] by (simp add: add.commute)
  have f: "b ! 0 = f" "take 4 (drop 1 b) = u32_bytes ver" by (simp_all add: b h5_def)
  have ty: "f AND 0xc0 = 0xc0" "drop_bit 4 (f AND 0x30) = (0 :: u8)"
  proof -
    have "f AND 0xc0 = (f AND 0xf0) AND 0xc0" "f AND 0x30 = (f AND 0xf0) AND 0x30"
      by (simp_all add: and.assoc)
    then show "f AND 0xc0 = 0xc0" "drop_bit 4 (f AND 0x30) = (0 :: u8)" by (simp_all add: assms(1))
  qed
  have pos: "q + length e1 + length token + length e2 = length hdr"
    using lenb by (simp add: b_def)
  have "ParseLongHeader b = Inr \<lparr>lh_Type = TypeInitial, lh_Version = ver, lh_DCID = dcid, lh_SCID = scid,
      lh_Token = token, lh_PNOffset = length hdr, lh_Length = unat len, lh_End = length hdr + unat len\<rparr>"
  proof -
    have "IsLongHeader b" "\<not> length b < 7" using ty f lenb by (auto simp: IsLongHeader_def p_def q_def)
    moreover have "\<not> length hdr + unat len > length b" using assms(7) by (simp add: b_def)
    ultimately show ?thesis
      using assms(2) tok
      unfolding ParseLongHeader_eq header_of_def f be32_u32_bytes ty Let_def
      by (simp add: cid1 cid2 de2 v2 pos [symmetric])
  qed
  then show ?thesis by (simp add: b_def)
qed


subsection \<open>Opening what was built\<close>

text \<open>The shape of a built packet: the header with its first byte and packet number masked.\<close>

lemma quicVarint_0: "quicVarint [] 0 = [0]"
proof -
  have "(0 :: u64) < 2 ^ 6" by (simp add: word_less_nat_alt)
  then show ?thesis by (simp add: quicVarint_def)
qed

lemma QUICInitial_shape:
  assumes "QUICInitial dcid scid server pn frames padTo = Some pkt"
    and "quicInitialKeys dcid server = Some k" and "sound_keys k"
  defines "payload \<equiv> pad_payload dcid scid frames padTo"
  obtains m sealed p0 p1 where
    "drop 2 (u32_bytes pn) = [p0, p1]" and "length m = 16" and "2 \<le> length payload"
    and "gcm_Seal (k_aead k) (iv_nonce (k_iv k) (ucast pn)) payload
           (initial_header 0xc1 1 dcid scid [] (word_of_nat (18 + length payload)) @ [p0, p1]) = Some sealed"
    and "m = k_hp k (take 16 (drop 2 sealed))"
    and "pkt = initial_header (0xc1 XOR (m ! 0 AND 0x0f)) 1 dcid scid [] (word_of_nat (18 + length payload)) @
           [p0 XOR m ! 1, p1 XOR m ! 2] @ sealed"
proof -
  define len :: u64 where "len = word_of_nat (18 + length payload)"
  define ih where "ih = (\<lambda>f. initial_header f 1 dcid scid [] len)"
  obtain p0 p1 where p: "drop 2 (u32_bytes pn) = [p0, p1]" by (simp add: u32_bytes_def)
  obtain t where t: "ih f = f # t" for f by (simp add: ih_def initial_header_def)
  have hdr: "quicVarint (((((([0xc0 OR word_of_nat (2 - 1)] @ u32_bytes QUICVersion1) @
      [word_of_nat (length dcid)]) @ dcid) @ [word_of_nat (length scid)]) @ scid) @ [0x00])
      (word_of_nat (2 + length payload + 16)) = ih 0xc1"
    by (subst quicVarint_append)
      (simp add: ih_def initial_header_def with_len8_def len_def quicVarint_0 add.commute)
  obtain sealed where s: "gcm_Seal (k_aead k) (iv_nonce (k_iv k) (ucast pn)) payload (ih 0xc1 @ [p0, p1]) = Some sealed"
    and long: "\<not> length (ih 0xc1) + 4 + 16 > length ((ih 0xc1 @ [p0, p1]) @ sealed)"
    and pkt: "pkt = (let x = (ih 0xc1 @ [p0, p1]) @ sealed; m = k_hp k (take 16 (drop (length (ih 0xc1) + 4) x));
        x = x[0 := x ! 0 XOR (m ! 0 AND 0x0f)]
      in foldl (\<lambda>x i. x[length (ih 0xc1) + i := x ! (length (ih 0xc1) + i) XOR m ! (1 + i)]) x [0..<2])"
    using assms(1,2) p unfolding QUICInitial_def Let_def payload_def [symmetric] hdr
    by (auto split: option.splits if_splits)
  define m where "m = k_hp k (take 16 (drop 2 sealed))"
  have m: "length m = 16" using assms(3) by (auto simp: m_def sound_keys_def)
  obtain key where key: "k_aead k = aes_encrypt key" using assms(3) by (auto simp: sound_keys_def)
  have "length sealed = length payload + 16" using s unfolding key by (rule gcm.Seal_length)
  with long have "2 \<le> length payload" by simp
  moreover have "pkt = ih (0xc1 XOR (m ! 0 AND 0x0f)) @ [p0 XOR m ! 1, p1 XOR m ! 2] @ sealed"
  proof -
    have two: "[0..<2] = [0, 1 :: nat]" by code_simp
    have smp: "drop (length (ih 0xc1) + 4) ((ih 0xc1 @ [p0, p1]) @ sealed) = drop 2 sealed" by simp
    show ?thesis
      unfolding pkt Let_def two smp m_def [symmetric]
      by (simp add: t list_update_append nth_append numeral_2_eq_2)
  qed
  ultimately show thesis
    using that [OF p m _ _ m_def] s by (simp add: ih_def len_def)
qed

text \<open>
  Removing the protection of a datagram whose header was masked as the builder does.
\<close>

lemma xor_mask_twice: "(a XOR b) XOR b = (a :: 'a :: len word)"
  by (simp add: xor.assoc)

lemma Open_masked:
  fixes p0 p1 :: u8
  assumes "length hdr0 = n" and "0 < n" and "hdr0 ! 0 = f" and "f AND 0x03 = 1"
    and "2 \<le> length sealed - 16" and "m = k_hp k (take 16 (drop 2 sealed))" and "length m = 16"
    and "lh_PNOffset h = n" and "lh_End h = n + 2 + length sealed"
    and "gcm_Open (k_aead k) (iv_nonce (k_iv k) (push_bit 8 (ucast p0) OR ucast p1)) sealed (hdr0 @ [p0, p1]) = Some payload"
    and "sound_keys k"
  shows "Open (hdr0[0 := f XOR (m ! 0 AND 0x0f)] @ [p0 XOR m ! 1, p1 XOR m ! 2] @ sealed @ rest) h k =
    Inr (push_bit 8 (ucast p0) OR ucast p1, payload)"
proof -
  define d where "d = hdr0[0 := f XOR (m ! 0 AND 0x0f)] @ [p0 XOR m ! 1, p1 XOR m ! 2] @ sealed @ rest"
  have lens: "18 \<le> length sealed" "length d = n + 2 + length sealed + length rest"
    using assms(1,5) by (simp_all add: d_def)
  have "drop (n + 4) d = drop 2 (sealed @ rest)" using assms(1) by (simp add: d_def)
  then have "take 16 (drop (n + 4) d) = take 16 (drop 2 sealed)" using lens by simp
  then have mask: "take 5 (k_hp k (take sampleLen (drop (lh_PNOffset h + sampleOffset) d))) = take 5 m"
    using assms(6,8) by simp
  have m: "take 5 m ! 0 = m ! 0" "take 5 m ! (1 + 0) = m ! 1" "take 5 m ! (1 + 1) = m ! 2"
    using assms(7) by (simp_all add: numeral_2_eq_2)
  have "d ! 0 = f XOR (m ! 0 AND 0x0f)" using assms(1,2) by (simp add: d_def nth_append)
  then have first: "d ! 0 XOR (take 5 m ! 0 AND 0x0f) = f" by (simp add: m(1) xor_mask_twice)
  have two: "[0..<2] = [0, 1 :: nat]" by code_simp
  have len: "unat (f AND 0x03) + 1 = 2" using assms(4) by simp
  have "(take (n + 2) d)[0 := f] = hdr0 @ [p0 XOR m ! 1, p1 XOR m ! 2]"
    using assms(1,2,3) by (cases hdr0) (auto simp: d_def)
  then have pn: "foldl (unmask_plain (lh_PNOffset h) (take 5 m)) ((take (lh_PNOffset h + 2) d)[0 := f], 0) [0, 1] =
      (hdr0 @ [p0, p1], push_bit 8 (ucast p0) OR ucast p1)"
    using assms(1,8) by (simp add: unmask_plain_def m nth_append list_update_append xor_mask_twice
        numeral_2_eq_2 Let_def)
  have ct: "drop (n + 2) (take (n + 2 + length sealed) d) = sealed" using assms(1) by (simp add: d_def)
  have "Open d h k = Open_plain d h k" using assms(9,11) lens by (intro Open_checked) simp_all
  then show ?thesis
    unfolding d_def [symmetric] Open_plain_def Let_def mask first len two
    using assms(8-10) lens pn ct by simp
qed

lemma QUICInitial_total:
  assumes "2 \<le> length frames" and "length (pad_payload dcid scid frames padTo) \<le> gcm_max"
  shows "\<exists>pkt. QUICInitial dcid scid server pn frames padTo = Some pkt"
proof -
  obtain k where k: "quicInitialKeys dcid server = Some k" "sound_keys k"
    by (rule DeriveInitialKeys_sound [of Version1 dcid server]) (auto simp: Supported_def)
  obtain key where key: "k_aead k = aes_encrypt key" using k(2) by (auto simp: sound_keys_def)
  have pad: "length frames \<le> length (pad_payload dcid scid frames padTo)"
    by (simp add: pad_payload_def Let_def)
  define c where "c = (\<lambda>n a. the (gcm_Seal (aes_encrypt key) n (pad_payload dcid scid frames padTo) a))"
  have c: "gcm_Seal (aes_encrypt key) n (pad_payload dcid scid frames padTo) a = Some (c n a)" for n a
    using assms(2) by (simp add: c_def gcm_Seal_def Let_def)
  then have "length (c n a) = length (pad_payload dcid scid frames padTo) + 16" for n a
    by (rule gcm.Seal_length)
  then show ?thesis
    using c assms(1) pad unfolding QUICInitial_def Let_def k option.case key by simp
qed

lemma pn_bytes:
  assumes "drop 2 (u32_bytes pn) = [p0, p1]" and "unat pn < 65536"
  shows "push_bit 8 (ucast p0) OR ucast p1 = (ucast pn :: u64)"
proof -
  have p: "p0 = ucast (drop_bit 8 pn)" "p1 = ucast pn" using assms(1) by (auto simp: u32_bytes_def)
  have "pn = take_bit 16 pn"
    using assms(2) by (simp add: word_unat_eq_iff unsigned_take_bit_eq take_bit_nat_eq_self)
  then have high: "\<not> bit pn n" if "16 \<le> n" for n
    using that by (metis bit_take_bit_iff not_less)
  show ?thesis
  proof (rule bit_word_eqI)
    fix n
    assume "n < LENGTH(64)"
    then show "bit (push_bit 8 (ucast p0) OR ucast p1 :: u64) n = bit (ucast pn :: u64) n"
      using high [of n] by (cases "n < 8"; cases "n < 16") (auto simp: p bit_simps)
  qed
qed

lemma initial_round_trip:
  assumes "length dcid \<le> 20" and "length scid \<le> 20" and "unat pn < 65536"
    and "2 \<le> length frames" and "length (pad_payload dcid scid frames padTo) \<le> gcm_max"
  shows "\<exists>pkt h k. QUICInitial dcid scid server pn frames padTo = Some pkt \<and>
    ParseLongHeader (pkt @ rest) = Inr h \<and> lh_Type h = TypeInitial \<and> lh_Version h = Version1 \<and>
    lh_DCID h = dcid \<and> lh_SCID h = scid \<and> lh_Token h = [] \<and> lh_End h = length pkt \<and>
    DeriveInitialKeys (lh_Version h) dcid server = Inr k \<and>
    Open (pkt @ rest) h k = Inr (ucast pn, pad_payload dcid scid frames padTo)"
proof -
  define payload where "payload = pad_payload dcid scid frames padTo"
  define len :: u64 where "len = word_of_nat (18 + length payload)"
  have len: "unat len = 18 + length payload" "unat len < 2 ^ 62"
  proof -
    have "18 + length payload < 2 ^ 62" using assms(5) by (simp add: payload_def gcm_max_def)
    then show "unat len = 18 + length payload" "unat len < 2 ^ 62"
      unfolding len_def by (simp_all only: unat_of_nat) simp_all
  qed
  obtain k where k: "DeriveInitialKeys Version1 dcid server = Inr k" "quicInitialKeys dcid server = Some k" "sound_keys k"
    by (rule DeriveInitialKeys_sound [of Version1 dcid server]) (auto simp: Supported_def)
  obtain key where key: "k_aead k = aes_encrypt key" using k(3) by (auto simp: sound_keys_def)
  obtain pkt where pkt: "QUICInitial dcid scid server pn frames padTo = Some pkt"
    using QUICInitial_total [OF assms(4,5)] by blast
  obtain m sealed p0 p1 where p: "drop 2 (u32_bytes pn) = [p0, p1]" and m: "length m = 16"
    and pl: "2 \<le> length payload"
    and seal: "gcm_Seal (k_aead k) (iv_nonce (k_iv k) (ucast pn)) payload
        (initial_header 0xc1 1 dcid scid [] len @ [p0, p1]) = Some sealed"
    and mk: "m = k_hp k (take 16 (drop 2 sealed))"
    and shape: "pkt = initial_header (0xc1 XOR (m ! 0 AND 0x0f)) 1 dcid scid [] len @
           [p0 XOR m ! 1, p1 XOR m ! 2] @ sealed"
    by (rule QUICInitial_shape [OF pkt k(2,3), folded payload_def, folded len_def])
  define f where "f = 0xc1 XOR (m ! 0 AND 0x0f)"
  define hdr where "hdr = initial_header f 1 dcid scid [] len"
  have sl: "length sealed = length payload + 16" using seal unfolding key by (rule gcm.Seal_length)
  have "f AND 0xf0 = 0xc0"
    by (simp add: f_def bit.conj_xor_distrib2 and.assoc)
  then have parse: "ParseLongHeader (pkt @ rest) =
    Inr \<lparr>lh_Type = TypeInitial, lh_Version = 1, lh_DCID = dcid, lh_SCID = scid, lh_Token = [],
         lh_PNOffset = length hdr, lh_Length = unat len, lh_End = length hdr + unat len\<rparr>" (is "_ = Inr ?h")
    using initial_header_round_trip [of f 1 dcid scid "[]" len "[p0 XOR m ! 1, p1 XOR m ! 2] @ sealed @ rest"]
      assms(1,2) len sl
    by (simp add: shape hdr_def f_def)
  have opened: "Open (pkt @ rest) ?h k = Inr (ucast pn, payload)"
  proof -
    let ?hdr0 = "initial_header 0xc1 1 dcid scid [] len"
    have "gcm_Open (k_aead k) (iv_nonce (k_iv k) (push_bit 8 (ucast p0) OR ucast p1)) sealed (?hdr0 @ [p0, p1]) = Some payload"
      using gcm.Open_Seal [OF seal [unfolded key]] by (simp add: key pn_bytes [OF p assms(3)])
    moreover have "?hdr0[0 := 0xc1 XOR (m ! 0 AND 0x0f)] = hdr"
      by (simp add: hdr_def f_def initial_header_def)
    ultimately show ?thesis
      using Open_masked [of ?hdr0 "length hdr" "0xc1" sealed m k ?h p0 p1 payload rest] m mk sl pl len k(3)
      by (simp add: pn_bytes [OF p assms(3)] shape hdr_def f_def initial_header_def)
  qed
  have "lh_End ?h = length pkt" using sl len by (simp add: shape hdr_def f_def)
  with pkt parse opened k(1) show ?thesis by (intro exI [of _ pkt] exI [of _ ?h] exI [of _ k]) (simp add: payload_def)
qed

text \<open>
  C3: a protected Initial packet opens to what was put in. For every pair of connection IDs of at most
  20 bytes, direction, packet number of 16 bits and frame payload of at least two bytes, the packet
  that \<^verbatim>\<open>tlssynth.QUICInitial\<close> builds, followed by any other bytes of the datagram, has a header
  with these connection IDs that ends where the packet does; the keys derived from the connection
  ID exist, and opening the packet with them returns the packet number and the padded payload.
\<close>

theorem quic_initial_round_trip:
  assumes "length dcid \<le> 20" and "length scid \<le> 20" and "unat pn < 65536"
    and "2 \<le> length frames" and "length (pad_payload dcid scid frames padTo) \<le> gcm_max"
  shows "\<exists>pkt h k. QUICInitial dcid scid server pn frames padTo = Some pkt \<and>
    ParseLongHeader (pkt @ rest) = Inr h \<and> lh_Type h = TypeInitial \<and> lh_Version h = Version1 \<and>
    lh_DCID h = dcid \<and> lh_SCID h = scid \<and> lh_Token h = [] \<and> lh_End h = length pkt \<and>
    DeriveInitialKeys (lh_Version h) dcid server = Inr k \<and>
    Open (pkt @ rest) h k = Inr (ucast pn, pad_payload dcid scid frames padTo)"
  using assms by (rule initial_round_trip)

theorem quic_initial_round_trip_witness:
  "\<exists>pkt h k. QUICInitial [1, 2, 3, 4] [5] False 7 [6, 0, 1, 9] 1200 = Some pkt \<and>
    ParseLongHeader (pkt @ [0xff]) = Inr h \<and> lh_DCID h = [1, 2, 3, 4] \<and>
    DeriveInitialKeys (lh_Version h) [1, 2, 3, 4] False = Inr k \<and>
    Open (pkt @ [0xff]) h k = Inr (7, [6, 0, 1, 9] @ replicate 1163 0)"
  using quic_initial_round_trip [of "[1, 2, 3, 4]" "[5]" 7 "[6, 0, 1, 9]" 1200 False "[0xff]"]
  by (auto simp: pad_payload_def gcm_max_def)



end
