(* ===== verification/Crypto_Stream.thy ===== *)
theory Crypto_Stream
  imports Go_Text
begin

text \<open>
  The reassembly of CRYPTO frames, \<^verbatim>\<open>cryptoStream\<close> of \<^verbatim>\<open>internal/assemble/quic.go\<close>: the frames
  are kept by offset within bounds, and the bytes from offset zero up to the first gap are what the
  handshake parser reads.

  The Go map is the list of its entries, in the order they were stored; no key occurs twice.
  \<open>prefix\<close> sorts the keys it collects, so the iteration order of the map does not matter
  (\<open>cs_prefix_order\<close>).
\<close>

definition maxCryptoBytes :: nat where "maxCryptoBytes = 16 * 2 ^ 10"
definition maxCryptoFrames :: nat where "maxCryptoFrames = 64"

record cryptoStream =
  cs_segments :: "(u64 \<times> bytes) list"
  cs_total :: nat

definition empty_cryptoStream :: cryptoStream where
  "empty_cryptoStream = \<lparr>cs_segments = [], cs_total = 0\<rparr>"

definition cs_add :: "cryptoStream \<Rightarrow> u64 \<Rightarrow> bytes \<Rightarrow> cryptoStream" where
  "cs_add c offset data =
     (if length data = 0 \<or> cs_total c \<ge> maxCryptoBytes \<or> length (cs_segments c) \<ge> maxCryptoFrames then c
      else if unat offset > maxCryptoBytes then c
      else if map_of (cs_segments c) offset \<noteq> None then c
      else
        (let room = maxCryptoBytes - cs_total c;
             data = (if length data > room then take room data else data)
         in c\<lparr>cs_segments := cs_segments c @ [(offset, data)], cs_total := cs_total c + length data\<rparr>))"

text \<open>The loop of \<^verbatim>\<open>prefix\<close> over the sorted offsets, with the output and \<^verbatim>\<open>want\<close> so far.\<close>

fun cs_prefix_loop :: "(u64 \<Rightarrow> bytes) \<Rightarrow> u64 list \<Rightarrow> bytes \<Rightarrow> u64 \<Rightarrow> bytes" where
  "cs_prefix_loop seg [] out want = out"
| "cs_prefix_loop seg (off # offsets) out want =
     (let s = seg off in
      if off > want then out
      else if off + word_of_nat (length s) \<le> want then cs_prefix_loop seg offsets out want
      else cs_prefix_loop seg offsets (out @ drop (unat (want - off)) s) (off + word_of_nat (length s)))"

definition cs_prefix :: "cryptoStream \<Rightarrow> bytes" where
  "cs_prefix c =
     (if length (cs_segments c) = 0 then []
      else
        (let offsets = map fst (cs_segments c);
             offsets = sort_slice (<) offsets
         in cs_prefix_loop (\<lambda>off. the (map_of (cs_segments c) off)) offsets [] 0))"

interpretation u64_order: strict_weak_order "(<) :: u64 \<Rightarrow> u64 \<Rightarrow> bool"
  by unfold_locales auto


subsection \<open>Bounds\<close>

definition cs_inv :: "cryptoStream \<Rightarrow> bool" where
  "cs_inv c \<longleftrightarrow>
     distinct (map fst (cs_segments c)) \<and> length (cs_segments c) \<le> maxCryptoFrames \<and>
     cs_total c = sum_list (map (\<lambda>p. length (snd p)) (cs_segments c)) \<and> cs_total c \<le> maxCryptoBytes \<and>
     list_all (\<lambda>(off, d). unat off \<le> maxCryptoBytes \<and> d \<noteq> []) (cs_segments c)"

lemma cs_inv_empty [simp]: "cs_inv empty_cryptoStream"
  by (simp add: cs_inv_def empty_cryptoStream_def)

lemma cs_inv_add: "cs_inv c \<Longrightarrow> cs_inv (cs_add c offset data)"
  by (auto simp: cs_inv_def cs_add_def Let_def map_of_eq_None_iff)

lemma segment_bounds:
  assumes "cs_inv c" and "(off, d) \<in> set (cs_segments c)"
  shows "unat off \<le> maxCryptoBytes" and "length d \<le> maxCryptoBytes" and "d \<noteq> []"
proof -
  have "length d \<in> set (map (\<lambda>p. length (snd p)) (cs_segments c))" using assms(2) by force
  then have "length d \<le> sum_list (map (\<lambda>p. length (snd p)) (cs_segments c))"
    by (simp add: member_le_sum_list)
  then show "length d \<le> maxCryptoBytes" using assms(1) by (simp add: cs_inv_def)
  show "unat off \<le> maxCryptoBytes" "d \<noteq> []"
    using assms by (auto simp: cs_inv_def list_all_iff)
qed


subsection \<open>The contiguous run\<close>

text \<open>The positions of the handshake that the stored segments cover.\<close>

definition covers :: "(u64 \<times> bytes) list \<Rightarrow> nat \<Rightarrow> bool" where
  "covers segs i \<longleftrightarrow> (\<exists>(off, d) \<in> set segs. unat off \<le> i \<and> i < unat off + length d)"

text \<open>Segments that are pieces of one handshake \<open>s\<close>, each at its offset.\<close>

definition pieces_of :: "bytes \<Rightarrow> (u64 \<times> bytes) list \<Rightarrow> bool" where
  "pieces_of s segs \<longleftrightarrow> list_all (\<lambda>(off, d). d = take (length d) (drop (unat off) s)) segs"

lemma piece_end:
  assumes "unat off \<le> maxCryptoBytes" and "length d \<le> maxCryptoBytes"
  shows "unat (off + word_of_nat (length d) :: u64) = unat off + length d"
  using assms by (simp add: maxCryptoBytes_def unat_word_ariths unat_of_nat)

lemma cs_prefix_loop_spec:
  assumes "sorted_wrt (\<lambda>x y. \<not> y < x) offs"
    and "\<And>off. off \<in> set offs \<Longrightarrow> unat off \<le> maxCryptoBytes \<and> length (seg off) \<le> maxCryptoBytes"
    and "\<And>off. off \<in> set offs \<Longrightarrow> seg off = take (length (seg off)) (drop (unat off) s)"
    and "out = take (unat want) s" and "length out = unat want"
  shows "\<exists>n\<ge>unat want. cs_prefix_loop seg offs out want = take n s \<and> n \<le> length s \<and>
    (\<forall>i. unat want \<le> i \<longrightarrow> i < n \<longrightarrow> covers (map (\<lambda>x. (x, seg x)) offs) i) \<and>
    \<not> covers (map (\<lambda>x. (x, seg x)) offs) n"
  using assms
proof (induction offs arbitrary: out want)
  case Nil
  then show ?case by (intro exI [of _ "unat want"]) (auto simp: covers_def)
next
  case (Cons off offs)
  define e where "e = off + word_of_nat (length (seg off))"
  have e: "unat e = unat off + length (seg off)"
    unfolding e_def by (rule piece_end) (use Cons.prems(2) [of off] in auto)
  have le: "unat off \<le> unat o'" if "o' \<in> set offs" for o'
    using Cons.prems(1) that by (auto simp: word_le_nat_alt not_less)
  have cov: "covers ((off, seg off) # map (\<lambda>x. (x, seg x)) offs) i \<longleftrightarrow>
      unat off \<le> i \<and> i < unat e \<or> covers (map (\<lambda>x. (x, seg x)) offs) i" for i
    by (auto simp: covers_def e)
  note IH = Cons.IH [OF _ Cons.prems(2) Cons.prems(3)]
  consider "off > want" | "\<not> off > want" "e \<le> want" | "\<not> off > want" "\<not> e \<le> want" by blast
  then show ?case
  proof cases
    case 1
    then have "\<not> covers (map (\<lambda>x. (x, seg x)) (off # offs)) (unat want)"
      using le by (fastforce simp: covers_def word_less_nat_alt)
    with 1 Cons.prems(4,5) show ?thesis by (intro exI [of _ "unat want"]) auto
  next
    case 2
    obtain n where "unat want \<le> n" "cs_prefix_loop seg offs out want = take n s" "n \<le> length s"
      "\<forall>i. unat want \<le> i \<longrightarrow> i < n \<longrightarrow> covers (map (\<lambda>x. (x, seg x)) offs) i"
      "\<not> covers (map (\<lambda>x. (x, seg x)) offs) n"
      using IH [of out want] Cons.prems by auto
    with 2 show ?thesis
      by (intro exI [of _ n]) (auto simp: cov word_le_nat_alt e_def [symmetric] Let_def)
  next
    case 3
    then have w: "unat off \<le> unat want" "unat want < unat e" by (simp_all add: word_le_nat_alt word_less_nat_alt)
    have d: "unat (want - off) = unat want - unat off" using w by (simp add: unat_sub word_le_nat_alt)
    have sg: "seg off = take (length (seg off)) (drop (unat off) s)" using Cons.prems(3) by simp
    have lens: "length (seg off) \<le> length s - unat off" by (subst sg) simp
    have out: "out @ drop (unat (want - off)) (seg off) = take (unat e) s"
    proof -
      have "drop (unat want - unat off) (seg off) = take (unat e - unat want) (drop (unat want) s)"
        by (subst sg) (use w e in \<open>simp add: drop_take add.commute\<close>)
      then show ?thesis
        using Cons.prems(4) w take_add [of "unat want" "unat e - unat want" s] by (simp add: d)
    qed
    have "length (take (unat e) s) = unat e" using lens w e Cons.prems(5) by simp
    then obtain n where n: "unat e \<le> n" "cs_prefix_loop seg offs (take (unat e) s) e = take n s" "n \<le> length s"
      "\<forall>i. unat e \<le> i \<longrightarrow> i < n \<longrightarrow> covers (map (\<lambda>x. (x, seg x)) offs) i"
      "\<not> covers (map (\<lambda>x. (x, seg x)) offs) n"
      using IH [of "take (unat e) s" e] Cons.prems by auto
    with 3 w out show ?thesis
      by (intro exI [of _ n]) (auto simp: cov e_def [symmetric] Let_def not_less; meson not_le_imp_less)
  qed
qed


text \<open>
  The result is the handshake up to the first position that no segment covers.
\<close>

lemma map_of_entries:
  assumes "distinct (map fst segs)"
  shows "set (map (\<lambda>x. (x, the (map_of segs x))) (map fst segs)) = set segs"
proof -
  have "the (map_of segs (fst p)) = snd p" if "p \<in> set segs" for p
    using assms that by (cases p) simp
  then show ?thesis by (force simp: image_iff)
qed

lemma cs_prefix_spec:
  assumes inv: "cs_inv c" and pieces: "pieces_of s (cs_segments c)"
  shows "\<exists>n\<le>length s. cs_prefix c = take n s \<and> (\<forall>i<n. covers (cs_segments c) i) \<and> \<not> covers (cs_segments c) n"
proof -
  let ?segs = "cs_segments c" and ?seg = "\<lambda>off. the (map_of (cs_segments c) off)"
  let ?offs = "sort_slice (<) (map fst ?segs)"
  have dist: "distinct (map fst ?segs)" using inv by (simp add: cs_inv_def)
  have lookup: "(off, ?seg off) \<in> set ?segs" if "off \<in> set ?offs" for off
    using that map_of_entries [OF dist] by force
  have cov: "covers (map (\<lambda>x. (x, ?seg x)) ?offs) i = covers ?segs i" for i
  proof -
    have "set (map (\<lambda>x. (x, ?seg x)) ?offs) = set ?segs"
      unfolding set_map set_sort_slice using map_of_entries [OF dist] by (simp only: set_map)
    then show ?thesis by (simp only: covers_def)
  qed
  have sorted: "sorted_wrt (\<lambda>x y. \<not> y < x) ?offs"
    using u64_order.sort_slice_sorted by (auto simp: slice_sorted_def)
  have "\<exists>n\<ge>unat (0 :: u64). cs_prefix_loop ?seg ?offs [] 0 = take n s \<and> n \<le> length s \<and>
      (\<forall>i. unat (0 :: u64) \<le> i \<longrightarrow> i < n \<longrightarrow> covers (map (\<lambda>x. (x, ?seg x)) ?offs) i) \<and>
      \<not> covers (map (\<lambda>x. (x, ?seg x)) ?offs) n"
  proof (rule cs_prefix_loop_spec [OF sorted])
    show "unat off \<le> maxCryptoBytes \<and> length (?seg off) \<le> maxCryptoBytes" if "off \<in> set ?offs" for off
      using segment_bounds [OF inv lookup [OF that]] by simp
    show "?seg off = take (length (?seg off)) (drop (unat off) s)" if "off \<in> set ?offs" for off
      using pieces lookup [OF that] by (auto simp: pieces_of_def list_all_iff)
  qed simp_all
  then obtain n where "cs_prefix_loop ?seg ?offs [] 0 = take n s" "n \<le> length s"
    "\<forall>i<n. covers ?segs i" "\<not> covers ?segs n"
    by (auto simp: cov)
  then show ?thesis
    by (cases "?segs = []") (auto simp: cs_prefix_def Let_def covers_def sort_slice_def)
qed

text \<open>Storing all frames of a list, in order.\<close>

definition cs_add_all :: "cryptoStream \<Rightarrow> (u64 \<times> bytes) list \<Rightarrow> cryptoStream" where
  "cs_add_all c fs = foldl (\<lambda>c (off, d). cs_add c off d) c fs"

lemma cs_inv_add_all: "cs_inv c \<Longrightarrow> cs_inv (cs_add_all c fs)"
  by (induction fs arbitrary: c) (auto simp: cs_add_all_def intro: cs_inv_add)

text \<open>The result does not depend on the order the entries are stored or iterated in.\<close>

lemma cs_prefix_order:
  assumes "mset (cs_segments c) = mset (cs_segments c')" and "distinct (map fst (cs_segments c))"
  shows "cs_prefix c = cs_prefix c'"
proof -
  have "mset (map fst (cs_segments c)) = mset (map fst (cs_segments c'))"
    using assms(1) by (simp add: mset_map)
  then have "sort_slice (<) (map fst (cs_segments c)) = sort_slice (<) (map fst (cs_segments c'))"
    by (rule u64_order.slice_sorted_unique) (auto intro: u64_order.sort_slice_sorted)
  moreover have "map_of (cs_segments c) = map_of (cs_segments c')"
    using assms mset_eq_setD [OF assms(1)] map_of_inject_set
    by (metis (mono_tags, lifting) mset_eq_imp_distinct_iff mset_map)
  moreover have "length (cs_segments c) = length (cs_segments c')"
    using assms(1) by (metis size_mset)
  ultimately show ?thesis by (simp add: cs_prefix_def)
qed


subsection \<open>Arrival in any order\<close>

text \<open>Frames that fit the bounds, at different offsets.\<close>

definition frames_fit :: "(u64 \<times> bytes) list \<Rightarrow> bool" where
  "frames_fit fs \<longleftrightarrow>
     distinct (map fst fs) \<and> length fs \<le> maxCryptoFrames \<and>
     sum_list (map (\<lambda>p. length (snd p)) fs) \<le> maxCryptoBytes \<and>
     list_all (\<lambda>(off, d). unat off \<le> maxCryptoBytes \<and> d \<noteq> []) fs"

lemma cs_add_all_append: "cs_add_all c (fs @ gs) = cs_add_all (cs_add_all c fs) gs"
  by (simp add: cs_add_all_def)

lemma cs_add_all_fit:
  "frames_fit fs \<Longrightarrow> cs_add_all empty_cryptoStream fs =
     \<lparr>cs_segments = fs, cs_total = sum_list (map (\<lambda>p. length (snd p)) fs)\<rparr>"
proof (induction fs rule: rev_induct)
  case Nil
  show ?case by (simp add: cs_add_all_def empty_cryptoStream_def)
next
  case (snoc f fs)
  obtain off d where f: "f = (off, d)" by (cases f)
  from snoc f have IH: "cs_add_all empty_cryptoStream fs =
      \<lparr>cs_segments = fs, cs_total = sum_list (map (\<lambda>p. length (snd p)) fs)\<rparr>"
    by (auto simp: frames_fit_def)
  have "d \<noteq> []" "sum_list (map (\<lambda>p. length (snd p)) fs) + length d \<le> maxCryptoBytes"
    "unat off \<le> maxCryptoBytes" "length fs < maxCryptoFrames" "map_of fs off = None"
    using snoc.prems f by (auto simp: frames_fit_def map_of_eq_None_iff)
  then show ?case
    by (auto simp: cs_add_all_append IH) (auto simp: cs_add_all_def f cs_add_def Let_def)
qed

lemma frames_fit_mset: "mset fs = mset gs \<Longrightarrow> frames_fit fs = frames_fit gs"
proof -
  assume eq: "mset fs = mset gs"
  have "mset (map fst fs) = mset (map fst gs)" using eq by (simp add: mset_map)
  then have "distinct (map fst fs) = distinct (map fst gs)" by (rule mset_eq_imp_distinct_iff)
  moreover have "sum_list (map (\<lambda>p. length (snd p)) fs) = sum_list (map (\<lambda>p. length (snd p)) gs)"
    using eq by (simp only: sum_mset_sum_list [symmetric] mset_map)
  ultimately show ?thesis
    using mset_eq_setD [OF eq] mset_eq_length [OF eq] by (simp add: frames_fit_def list_all_iff)
qed

text \<open>Whatever was refused or cut, what is stored are pieces of the handshake.\<close>

lemma take_piece: "d = take (length d) x \<Longrightarrow> take r d = take (length (take r d)) x"
  by (metis length_take min.commute take_take)

lemma pieces_of_add:
  assumes "pieces_of s (cs_segments c)" and "d = take (length d) (drop (unat off) s)"
  shows "pieces_of s (cs_segments (cs_add c off d))"
proof -
  have p: "pieces_of s [(off, x)]" if "x = d \<or> (\<exists>r. x = take r d)" for x
  proof -
    have "x = take (length x) (drop (unat off) s)" using that assms(2) take_piece [OF assms(2)] by blast
    then show ?thesis by (auto simp: pieces_of_def)
  qed
  have "pieces_of s (cs_segments c @ [(off, x)])" if "x = d \<or> (\<exists>r. x = take r d)" for x
    using assms(1) p [OF that] by (simp add: pieces_of_def)
  then show ?thesis using assms(1) by (auto simp: cs_add_def Let_def)
qed

lemma pieces_of_add_all:
  "pieces_of s (cs_segments c) \<Longrightarrow> pieces_of s fs \<Longrightarrow> pieces_of s (cs_segments (cs_add_all c fs))"
proof (induction fs arbitrary: c)
  case (Cons f fs)
  then show ?case
    using pieces_of_add by (cases f) (auto simp: cs_add_all_def pieces_of_def)
qed (simp add: cs_add_all_def)

text \<open>
  C11: reassembling CRYPTO frames is sound and complete. Whatever frames of a handshake \<open>s\<close> arrive,
  in whatever order and however often, the stored pieces stay within 64 segments and 16 KiB, and
  the bytes handed to the parser are an initial part of \<open>s\<close>. When the frames have different
  offsets, are at most 64, none empty, start within the first 16 KiB and hold no more than 16 KiB together, the result is the same for every order of arrival, and
  it is all of \<open>s\<close> once the frames cover it. (Frames that share an offset can lose bytes:
  \<open>longer_retransmission_lost\<close>.)
\<close>

theorem crypto_reassembly:
  assumes "pieces_of s fs" and "mset gs = mset fs"
  shows "cs_inv (cs_add_all empty_cryptoStream fs) \<and> prefix (cs_prefix (cs_add_all empty_cryptoStream fs)) s \<and>
    (frames_fit fs \<longrightarrow>
       cs_prefix (cs_add_all empty_cryptoStream gs) = cs_prefix (cs_add_all empty_cryptoStream fs) \<and>
       ((\<forall>i<length s. covers fs i) \<longrightarrow> cs_prefix (cs_add_all empty_cryptoStream fs) = s))"
proof -
  let ?c = "cs_add_all empty_cryptoStream fs"
  have inv: "cs_inv ?c" by (intro cs_inv_add_all cs_inv_empty)
  have "pieces_of s (cs_segments ?c)"
    using assms(1) by (intro pieces_of_add_all) (simp_all add: empty_cryptoStream_def pieces_of_def)
  then obtain n where n: "n \<le> length s" "cs_prefix ?c = take n s" "\<not> covers (cs_segments ?c) n"
    using cs_prefix_spec [OF inv] by blast
  have "cs_prefix (cs_add_all empty_cryptoStream gs) = cs_prefix ?c" if "frames_fit fs"
  proof (rule cs_prefix_order)
    have "frames_fit gs" using that assms(2) by (simp only: frames_fit_mset [OF assms(2)])
    with that show "mset (cs_segments (cs_add_all empty_cryptoStream gs)) = mset (cs_segments ?c)"
      "distinct (map fst (cs_segments (cs_add_all empty_cryptoStream gs)))"
      using assms(2) by (simp_all add: cs_add_all_fit) (simp add: frames_fit_def)
  qed
  moreover have "cs_prefix ?c = s" if "frames_fit fs" "\<forall>i<length s. covers fs i"
    using n that by (cases "n = length s") (auto simp: cs_add_all_fit)
  moreover have "prefix (cs_prefix ?c) s" using n(2) prefix_take by simp
  ultimately show ?thesis using inv by blast
qed

theorem crypto_reassembly_witness:
  "prefix (cs_prefix (cs_add_all empty_cryptoStream [(2, [3, 4]), (0, [1, 2])])) [1, 2, 3, 4] \<and>
   cs_prefix (cs_add_all empty_cryptoStream [(0, [1, 2]), (2, [3, 4])]) =
   cs_prefix (cs_add_all empty_cryptoStream [(2, [3, 4]), (0, [1, 2])])"
  using crypto_reassembly [of "[1, 2, 3, 4]" "[(2, [3, 4]), (0, [1, 2])]" "[(0, [1, 2]), (2, [3, 4])]"]
  by (simp add: pieces_of_def frames_fit_def maxCryptoFrames_def maxCryptoBytes_def)

text \<open>
  a frame at an offset that is already stored is dropped even when it is longer, so a handshake
  whose first bytes were first seen in a shorter frame stays incomplete although every byte of it
  arrived.
\<close>

theorem longer_retransmission_lost:
  assumes "d \<noteq> []" and "length d \<le> maxCryptoBytes"
  shows "cs_prefix (cs_add_all empty_cryptoStream [(0, d), (0, d @ more_data)]) = d"
proof -
  have "unat (word_of_nat (length d) :: u64) = length d"
    using assms(2) by (simp add: unsigned_of_nat take_bit_nat_eq_self maxCryptoBytes_def)
  then have "(word_of_nat (length d) :: u64) \<noteq> 0" using assms(1) by (metis length_0_conv unsigned_0)
  with assms show ?thesis
    by (simp add: cs_add_all_def empty_cryptoStream_def cs_add_def cs_prefix_def sort_slice_def
        maxCryptoFrames_def maxCryptoBytes_def)
qed

theorem longer_retransmission_lost_witness:
  "cs_prefix (cs_add_all empty_cryptoStream [(0, [1]), (0, [1] @ [2, 3])]) = [1]"
  by (rule longer_retransmission_lost) (simp_all add: maxCryptoBytes_def)

end
