(* ===== verification/Samples.thy ===== *)
theory Samples
  imports Tls_Stream
begin

text \<open>
  A small handshake, evaluated once for the concrete instances of the properties: a ClientHello that
  offers one cipher suite and has no extensions, in one record.
\<close>

definition sample_hello :: ClientHello where
  "sample_hello = empty_ClientHello\<lparr>ch_LegacyVersion := 0x0303, ch_CipherSuites := [0x1301],
     ch_CompressionMethods := [0]\<rparr>"

definition sample_body :: bytes where
  "sample_body = [3, 3] @ replicate 32 0 @ [0] @ [0, 2, 0x13, 0x01] @ [1, 0]"

definition sample_record :: bytes where
  "sample_record = [22, 3, 1, 0, 45] @ [1, 0, 0, 41] @ sample_body"

lemma sample_parse: "ParseClientHello string_methods sample_body = Inr sample_hello"
  by (simp add: ParseClientHello_def sample_body_def sample_hello_def cb_simps length_prefixed_def split_at_def be_nat_def
     readUint16List_def collectUint16_def collectUint16_loop.simps stripGREASE_def stripGREASE_from.simps IsGREASE_def be16_def empty_ClientHello_def)

lemma sample_messages: "HandshakeMessages sample_record = Inr [\<lparr>msg_Type = 1, msg_Body = sample_body\<rparr>]"
proof -
  have l: "length sample_body = 41" by (simp add: sample_body_def)
  have "HandshakeMessages_loop True [] sample_record = Inr ([1, 0, 0, 41] @ sample_body)"
    using l by (simp add: HandshakeMessages_loop_unfold sample_record_def maxRecordPayload_def)
  moreover have "splitMessages ([1, 0, 0, 41] @ sample_body) = [\<lparr>msg_Type = 1, msg_Body = sample_body\<rparr>]"
    using l by (simp add: splitMessages_unfold)
  ultimately show ?thesis by (simp add: HandshakeMessages_def)
qed

lemma sample_found: "FindClientHello string_methods sample_record = Inr (Some sample_hello)"
  by (simp add: FindClientHello_def sample_messages sample_parse)

text \<open>A HelloRetryRequest without extensions, in one record.\<close>

definition sample_retry_body :: bytes where
  "sample_retry_body = [3, 3] @ helloRetryRequestRandom @ [0] @ [0x13, 0x01] @ [0]"

definition sample_retry_record :: bytes where
  "sample_retry_record = [22, 3, 3, 0, 42] @ [2, 0, 0, 38] @ sample_retry_body"

definition sample_retry :: ServerHello where
  "sample_retry = empty_ServerHello\<lparr>sh_LegacyVersion := 0x0303, sh_CipherSuite := 0x1301,
     sh_IsHelloRetryRequest := True\<rparr>"

lemma sample_retry_parse: "ParseServerHello string_methods sample_retry_body = Inr sample_retry"
  by (simp add: ParseServerHello_def sample_retry_body_def sample_retry_def helloRetryRequestRandom_def
      cb_simps length_prefixed_def split_at_def be_nat_def be16_def empty_ServerHello_def)

lemma sample_retry_messages:
  "HandshakeMessages sample_retry_record = Inr [\<lparr>msg_Type = 2, msg_Body = sample_retry_body\<rparr>]"
proof -
  have l: "length sample_retry_body = 38" by (simp add: sample_retry_body_def helloRetryRequestRandom_def)
  have "HandshakeMessages_loop True [] sample_retry_record = Inr ([2, 0, 0, 38] @ sample_retry_body)"
    using l by (simp add: HandshakeMessages_loop_unfold sample_retry_record_def maxRecordPayload_def)
  moreover have "splitMessages ([2, 0, 0, 38] @ sample_retry_body) = [\<lparr>msg_Type = 2, msg_Body = sample_retry_body\<rparr>]"
    using l by (simp add: splitMessages_unfold)
  ultimately show ?thesis by (simp add: HandshakeMessages_def)
qed

lemma sample_retry_found: "FindServerHello string_methods sample_retry_record = Inr (Some sample_retry)"
  by (simp add: FindServerHello_def sample_retry_messages findServerHelloIn_def sample_retry_parse)
    (simp add: sample_retry_def)

end
