(* ===== verification/Builder.thy ===== *)
theory Builder
  imports Tls_Extensions
begin

text \<open>
  The builder of \<^verbatim>\<open>golang.org/x/crypto/cryptobyte\<close>, which \<^verbatim>\<open>internal/tlssynth\<close> writes handshakes
  with. The package is not part of the repository: its operations are a parameter, a record of the
  methods in use over the type \<open>'b\<close> of builder states. A continuation of a length-prefixed method is
  a function on builders. \<open>BytesOrPanic\<close> is \<open>None\<close> where the method panics: a length-prefixed
  section was longer than its prefix can say.

  \<open>builder_laws\<close> states the documented behaviour and \<open>builder_methods\<close> is an implementation of it.
\<close>

record 'b builder =
  NewBuilder :: 'b
  AddUint8 :: "u8 \<Rightarrow> 'b \<Rightarrow> 'b"
  AddUint16 :: "u16 \<Rightarrow> 'b \<Rightarrow> 'b"
  AddBytes :: "bytes \<Rightarrow> 'b \<Rightarrow> 'b"
  AddUint8LengthPrefixed :: "('b \<Rightarrow> 'b) \<Rightarrow> 'b \<Rightarrow> 'b"
  AddUint16LengthPrefixed :: "('b \<Rightarrow> 'b) \<Rightarrow> 'b \<Rightarrow> 'b"
  AddUint24LengthPrefixed :: "('b \<Rightarrow> 'b) \<Rightarrow> 'b \<Rightarrow> 'b"
  BytesOrPanic :: "'b \<Rightarrow> bytes option"

definition with_len24 :: "bytes \<Rightarrow> bytes" where
  "with_len24 x = word_of_nat (drop_bit 16 (length x)) # u16_bytes (word_of_nat (length x)) @ x"

text \<open>
  A step of a builder that appends the given bytes to whatever was built before; an earlier error
  stays.
\<close>

definition appends :: "'b builder \<Rightarrow> ('b \<Rightarrow> 'b) \<Rightarrow> bytes \<Rightarrow> bool" where
  "appends bd f y \<longleftrightarrow> (\<forall>b. BytesOrPanic bd (f b) = map_option (\<lambda>x. x @ y) (BytesOrPanic bd b))"

lemma appendsD: "appends bd f y \<Longrightarrow> BytesOrPanic bd (f b) = map_option (\<lambda>x. x @ y) (BytesOrPanic bd b)"
  by (simp add: appends_def)

locale builder_laws =
  fixes bd :: "'b builder"
  assumes NewBuilder_law: "BytesOrPanic bd (NewBuilder bd) = Some []"
    and AddUint8_law: "appends bd (AddUint8 bd v8) [v8]"
    and AddUint16_law: "appends bd (AddUint16 bd v16) (u16_bytes v16)"
    and AddBytes_law: "appends bd (AddBytes bd bs) bs"
    and Prefixed8_law: "appends bd f y \<Longrightarrow> length y < 2 ^ 8 \<Longrightarrow> appends bd (AddUint8LengthPrefixed bd f) (with_len8 y)"
    and Prefixed16_law: "appends bd f y \<Longrightarrow> length y < 2 ^ 16 \<Longrightarrow> appends bd (AddUint16LengthPrefixed bd f) (with_len16 y)"
    and Prefixed24_law: "appends bd f y \<Longrightarrow> length y < 2 ^ 24 \<Longrightarrow> appends bd (AddUint24LengthPrefixed bd f) (with_len24 y)"
    and Overflow8_law: "appends bd f y \<Longrightarrow> 2 ^ 8 \<le> length y \<Longrightarrow> BytesOrPanic bd (AddUint8LengthPrefixed bd f b) = None"
begin

lemma built: "appends bd f y \<Longrightarrow> BytesOrPanic bd (f (NewBuilder bd)) = Some y"
  using NewBuilder_law by (auto simp: appends_def)

lemma appends_id: "appends bd (\<lambda>b. b) []"
  by (simp add: appends_def option.map_ident)

lemma appends_comp: "appends bd f y \<Longrightarrow> appends bd g z \<Longrightarrow> appends bd (\<lambda>b. g (f b)) (y @ z)"
  by (simp add: appends_def option.map_comp comp_def)

lemma appends_if:
  "(c \<Longrightarrow> appends bd f y) \<Longrightarrow> (\<not> c \<Longrightarrow> appends bd g z) \<Longrightarrow>
   appends bd (\<lambda>b. if c then f b else g b) (if c then y else z)"
  by auto

lemma appends_fold:
  "(\<And>v. v \<in> set vs \<Longrightarrow> appends bd (\<lambda>b. f b v) (enc v)) \<Longrightarrow>
   appends bd (\<lambda>b. foldl f b vs) (concat (map enc vs))"
proof (induction vs)
  case (Cons v vs)
  have "appends bd (\<lambda>b. foldl f (f b v) vs) (enc v @ concat (map enc vs))"
    by (rule appends_comp) (use Cons in auto)
  then show ?case by simp
qed (simp add: appends_id)

lemmas adds = AddUint8_law AddUint16_law AddBytes_law

end

text \<open>An implementation: the bytes built so far, or the error that \<^verbatim>\<open>BytesOrPanic\<close> panics on.\<close>

definition add_prefixed :: "nat \<Rightarrow> (bytes \<Rightarrow> bytes) \<Rightarrow> (bytes option \<Rightarrow> bytes option) \<Rightarrow> bytes option \<Rightarrow> bytes option" where
  "add_prefixed bits enc f b =
     (case (b, f (Some [])) of
        (Some x, Some y) \<Rightarrow> if length y < 2 ^ bits then Some (x @ enc y) else None
      | _ \<Rightarrow> None)"

definition builder_methods :: "bytes option builder" where
  "builder_methods =
     \<lparr>NewBuilder = Some [], AddUint8 = (\<lambda>v. map_option (\<lambda>x. x @ [v])),
      AddUint16 = (\<lambda>v. map_option (\<lambda>x. x @ u16_bytes v)), AddBytes = (\<lambda>bs. map_option (\<lambda>x. x @ bs)),
      AddUint8LengthPrefixed = add_prefixed 8 with_len8,
      AddUint16LengthPrefixed = add_prefixed 16 with_len16,
      AddUint24LengthPrefixed = add_prefixed 24 with_len24, BytesOrPanic = (\<lambda>b. b)\<rparr>"

lemma builder_methods_sel [simp]:
  "NewBuilder builder_methods = Some []" "AddUint8 builder_methods v8 = map_option (\<lambda>x. x @ [v8])"
  "AddUint16 builder_methods v16 = map_option (\<lambda>x. x @ u16_bytes v16)"
  "AddBytes builder_methods bs = map_option (\<lambda>x. x @ bs)"
  "AddUint8LengthPrefixed builder_methods = add_prefixed 8 with_len8"
  "AddUint16LengthPrefixed builder_methods = add_prefixed 16 with_len16"
  "AddUint24LengthPrefixed builder_methods = add_prefixed 24 with_len24"
  "BytesOrPanic builder_methods b = b"
  by (simp_all add: builder_methods_def)

lemma add_prefixed_eval:
  "appends builder_methods f y \<Longrightarrow>
   add_prefixed bits enc f b = (if length y < 2 ^ bits then map_option (\<lambda>x. x @ enc y) b else None)"
  by (drule appendsD [where b = "Some []"]) (simp add: add_prefixed_def split: option.split)

interpretation bm: builder_laws builder_methods
  by unfold_locales (simp_all add: appends_def [of _ _ "with_len8 y" for y] appends_def [of _ _ "with_len16 y" for y]
    appends_def [of _ _ "with_len24 y" for y] add_prefixed_eval, simp_all add: appends_def)

end
