(* ===== verification/Synth.thy ===== *)
theory Synth
  imports Builder Tls_Stream
begin

text \<open>
  \<^verbatim>\<open>internal/tlssynth/synth.go\<close>: the builders of hello messages, written independently of the parser
  that has to agree with them. A nil \<^verbatim>\<open>Compression\<close> is \<open>None\<close>. Every builder is a function on the
  builder state, in the order of the calls of the source; a message is \<open>None\<close> where \<^verbatim>\<open>BytesOrPanic\<close>
  panics.
\<close>

subsection \<open>Codepoints and specifications\<close>

definition extServerName :: u16 where [simp]: "extServerName = 0"
definition extSupportedGroups :: u16 where [simp]: "extSupportedGroups = 10"
definition extSignatureAlgorithms :: u16 where [simp]: "extSignatureAlgorithms = 13"
definition extALPN :: u16 where [simp]: "extALPN = 16"
definition extSupportedVersions :: u16 where [simp]: "extSupportedVersions = 43"
definition extKeyShare :: u16 where [simp]: "extKeyShare = 51"
definition extQUICTransportParams :: u16 where [simp]: "extQUICTransportParams = 57"
definition extEncryptedClientHello :: u16 where [simp]: "extEncryptedClientHello = 0xfe0d"

definition MsgClientHello :: u8 where [simp]: "MsgClientHello = 1"
definition MsgServerHello :: u8 where [simp]: "MsgServerHello = 2"
definition MsgCertificate :: u8 where [simp]: "MsgCertificate = 11"
definition MsgServerKeyExchange :: u8 where [simp]: "MsgServerKeyExchange = 12"
definition MsgServerHelloDone :: u8 where [simp]: "MsgServerHelloDone = 14"

definition HelloRetryRequestRandom :: bytes where
  "HelloRetryRequestRandom =
    [0xcf, 0x21, 0xad, 0x74, 0xe5, 0x9a, 0x61, 0x11,
     0xbe, 0x1d, 0x8c, 0x02, 0x1e, 0x65, 0xb8, 0x91,
     0xc2, 0xa2, 0x11, 0x16, 0x7a, 0xbb, 0x8c, 0x5e,
     0x07, 0x9e, 0x09, 0xe2, 0xc8, 0xa8, 0x33, 0x9c]"

record ClientHelloSpec =
  sp_LegacyVersion :: u16
  sp_Ciphers :: "u16 list"
  sp_Compression :: "bytes option"
  sp_SNI :: string
  sp_ALPN :: "string list"
  sp_SupportedVersions :: "u16 list"
  sp_Groups :: "u16 list"
  sp_KeyShares :: "u16 list"
  sp_SigAlgs :: "u16 list"
  sp_ECH :: bool
  sp_QUIC :: bool
  sp_OmitExtensions :: bool
  sp_NoGREASE :: bool

record ServerHelloSpec =
  ss_LegacyVersion :: u16
  ss_Cipher :: u16
  ss_SelectedVersion :: u16
  ss_Group :: u16
  ss_ALPN :: string
  ss_HelloRetry :: bool

definition KeyShareLen :: "u16 \<Rightarrow> nat" where
  "KeyShareLen grp =
     (if grp = 0x11ec then 1216
      else if grp = 0x11eb then 1249
      else if grp = 0x11ed then 1665
      else if grp = 0x6399 then 1216
      else if grp = 29 then 32
      else if grp = 30 then 56
      else if grp = 23 then 65
      else if grp = 24 then 97
      else if grp = 25 then 133
      else 32)"


subsection \<open>The ClientHello\<close>

definition addExt :: "'b builder \<Rightarrow> u16 \<Rightarrow> ('b \<Rightarrow> 'b) \<Rightarrow> 'b \<Rightarrow> 'b" where
  "addExt bd typ f b = AddUint16LengthPrefixed bd f (AddUint16 bd typ b)"

definition add_u16s :: "'b builder \<Rightarrow> u16 list \<Rightarrow> 'b \<Rightarrow> 'b" where
  "add_u16s bd vs b = foldl (\<lambda>b v. AddUint16 bd v b) b vs"

definition addU16Vector :: "'b builder \<Rightarrow> u16 list \<Rightarrow> 'b \<Rightarrow> 'b" where
  "addU16Vector bd vs = AddUint16LengthPrefixed bd (add_u16s bd vs)"

definition add_sni :: "'b builder \<Rightarrow> string \<Rightarrow> 'b \<Rightarrow> 'b" where
  "add_sni bd sni =
     AddUint16LengthPrefixed bd (\<lambda>b.
       AddUint16LengthPrefixed bd (AddBytes bd (string_bytes sni)) (AddUint8 bd 0 b))"

definition add_alpn :: "'b builder \<Rightarrow> string list \<Rightarrow> 'b \<Rightarrow> 'b" where
  "add_alpn bd ps =
     AddUint16LengthPrefixed bd (\<lambda>b.
       foldl (\<lambda>b p. AddUint8LengthPrefixed bd (AddBytes bd (string_bytes p)) b) b ps)"

definition add_versions :: "'b builder \<Rightarrow> bool \<Rightarrow> u16 list \<Rightarrow> 'b \<Rightarrow> 'b" where
  "add_versions bd noGREASE vs =
     AddUint8LengthPrefixed bd (\<lambda>b. add_u16s bd vs (if \<not> noGREASE then AddUint16 bd 0x3a3a b else b))"

definition add_groups :: "'b builder \<Rightarrow> bool \<Rightarrow> u16 list \<Rightarrow> 'b \<Rightarrow> 'b" where
  "add_groups bd noGREASE gs = addU16Vector bd (if \<not> noGREASE then 0x5a5a # gs else gs)"

definition add_share :: "'b builder \<Rightarrow> 'b \<Rightarrow> u16 \<Rightarrow> 'b" where
  "add_share bd b g =
     AddUint16LengthPrefixed bd (AddBytes bd (replicate (KeyShareLen g) 0)) (AddUint16 bd g b)"

definition add_key_shares :: "'b builder \<Rightarrow> bool \<Rightarrow> u16 list \<Rightarrow> 'b \<Rightarrow> 'b" where
  "add_key_shares bd noGREASE gs =
     AddUint16LengthPrefixed bd (\<lambda>b.
       foldl (add_share bd)
         (if \<not> noGREASE then AddUint16LengthPrefixed bd (AddUint8 bd 0) (AddUint16 bd 0xdada b) else b) gs)"

definition add_ech :: "'b builder \<Rightarrow> 'b \<Rightarrow> 'b" where
  "add_ech bd b =
     (let b = AddUint8 bd 0 b;
          b = AddUint16 bd 1 b;
          b = AddUint16 bd 1 b;
          b = AddUint8 bd 7 b;
          b = AddUint16LengthPrefixed bd (AddBytes bd (replicate 32 0)) b
      in AddUint16LengthPrefixed bd (AddBytes bd (replicate 128 0)) b)"

text \<open>The continuation of the extension block.\<close>

definition add_if :: "bool \<Rightarrow> ('b \<Rightarrow> 'b) \<Rightarrow> 'b \<Rightarrow> 'b" where
  "add_if c f b = (if c then f b else b)"

definition add_extensions :: "'b builder \<Rightarrow> ClientHelloSpec \<Rightarrow> 'b \<Rightarrow> 'b" where
  "add_extensions bd s b =
     (let b = add_if (\<not> sp_NoGREASE s) (addExt bd 0x1a1a (\<lambda>b. b)) b;
          b = add_if (sp_SNI s \<noteq> []) (addExt bd extServerName (add_sni bd (sp_SNI s))) b;
          b = add_if (length (sp_ALPN s) > 0) (addExt bd extALPN (add_alpn bd (sp_ALPN s))) b;
          b = add_if (length (sp_SupportedVersions s) > 0)
                (addExt bd extSupportedVersions (add_versions bd (sp_NoGREASE s) (sp_SupportedVersions s))) b;
          b = add_if (length (sp_Groups s) > 0)
                (addExt bd extSupportedGroups (add_groups bd (sp_NoGREASE s) (sp_Groups s))) b;
          b = add_if (length (sp_SigAlgs s) > 0)
                (addExt bd extSignatureAlgorithms (addU16Vector bd (sp_SigAlgs s))) b;
          b = add_if (length (sp_KeyShares s) > 0)
                (addExt bd extKeyShare (add_key_shares bd (sp_NoGREASE s) (sp_KeyShares s))) b;
          b = add_if (sp_ECH s) (addExt bd extEncryptedClientHello (add_ech bd)) b
      in add_if (sp_QUIC s) (addExt bd extQUICTransportParams (AddBytes bd [1, 2, 3])) b)"

definition build_ClientHello :: "'b builder \<Rightarrow> ClientHelloSpec \<Rightarrow> bytes option" where
  "build_ClientHello bd s =
     (let legacy = (if sp_LegacyVersion s = 0 then 0x0303 else sp_LegacyVersion s);
          compression = (case sp_Compression s of None \<Rightarrow> [0] | Some c \<Rightarrow> c);
          b = NewBuilder bd;
          b = AddUint16 bd legacy b;
          b = AddBytes bd (replicate 32 0) b;
          b = AddUint8LengthPrefixed bd (AddBytes bd (replicate 32 0)) b;
          b = AddUint16LengthPrefixed bd
                (\<lambda>b. add_u16s bd (sp_Ciphers s) (if \<not> sp_NoGREASE s then AddUint16 bd 0x0a0a b else b)) b;
          b = AddUint8LengthPrefixed bd (AddBytes bd compression) b
      in if sp_OmitExtensions s then BytesOrPanic bd b
         else BytesOrPanic bd (AddUint16LengthPrefixed bd (add_extensions bd s) b))"


subsection \<open>The server's messages\<close>

definition add_server_share :: "'b builder \<Rightarrow> ServerHelloSpec \<Rightarrow> 'b \<Rightarrow> 'b" where
  "add_server_share bd s b =
     (let b = AddUint16 bd (ss_Group s) b
      in if \<not> ss_HelloRetry s
         then AddUint16LengthPrefixed bd (AddBytes bd (replicate (KeyShareLen (ss_Group s)) 0)) b else b)"

definition add_server_extensions :: "'b builder \<Rightarrow> ServerHelloSpec \<Rightarrow> 'b \<Rightarrow> 'b" where
  "add_server_extensions bd s b =
     (let b = add_if (ss_SelectedVersion s \<noteq> 0)
                (addExt bd extSupportedVersions (AddUint16 bd (ss_SelectedVersion s))) b;
          b = add_if (ss_Group s \<noteq> 0) (addExt bd extKeyShare (add_server_share bd s)) b
      in add_if (ss_ALPN s \<noteq> [])
           (addExt bd extALPN (AddUint16LengthPrefixed bd
              (AddUint8LengthPrefixed bd (AddBytes bd (string_bytes (ss_ALPN s)))))) b)"

definition build_ServerHello :: "'b builder \<Rightarrow> ServerHelloSpec \<Rightarrow> bytes option" where
  "build_ServerHello bd s =
     (let b = NewBuilder bd;
          b = AddUint16 bd (if ss_LegacyVersion s = 0 then 0x0303 else ss_LegacyVersion s) b;
          b = (if ss_HelloRetry s then AddBytes bd HelloRetryRequestRandom b
               else AddBytes bd (replicate 32 0) b);
          b = AddUint8LengthPrefixed bd (AddBytes bd (replicate 32 0)) b;
          b = AddUint16 bd (ss_Cipher s) b;
          b = AddUint8 bd 0 b
      in BytesOrPanic bd (AddUint16LengthPrefixed bd (add_server_extensions bd s) b))"

definition ServerKeyExchangeECDHE :: "'b builder \<Rightarrow> u16 \<Rightarrow> bytes option" where
  "ServerKeyExchangeECDHE bd grp =
     (let b = NewBuilder bd;
          b = AddUint8 bd 3 b;
          b = AddUint16 bd grp b;
          b = AddUint8LengthPrefixed bd (AddBytes bd (replicate (KeyShareLen grp) 0)) b;
          b = AddUint16 bd 0x0401 b;
          b = AddUint16LengthPrefixed bd (AddBytes bd (replicate 256 0)) b
      in BytesOrPanic bd b)"

definition CertificateMsg :: "'b builder \<Rightarrow> bytes list \<Rightarrow> bytes option" where
  "CertificateMsg bd chain =
     BytesOrPanic bd (AddUint24LengthPrefixed bd (\<lambda>b.
       foldl (\<lambda>b der. AddUint24LengthPrefixed bd (AddBytes bd der) b) b chain) (NewBuilder bd))"

end
