(* ===== verification/Synth_Props.thy ===== *)
theory Synth_Props
  imports Synth
begin

text \<open>
  The parser reads what the builder wrote. First the bytes each builder appends, then what the
  parser makes of them, then the round trips of the messages.
\<close>

subsection \<open>What the builders write\<close>

definition ext_bytes :: "u16 \<times> bytes \<Rightarrow> bytes" where
  "ext_bytes e = u16_bytes (fst e) @ with_len16 (snd e)"

definition greased :: "bool \<Rightarrow> u16 \<Rightarrow> u16 list \<Rightarrow> u16 list" where
  "greased noGREASE g vs = (if noGREASE then vs else g # vs)"

definition sni_body :: "string \<Rightarrow> bytes" where
  "sni_body sni = with_len16 (0 # with_len16 (string_bytes sni))"

definition alpn_body :: "string list \<Rightarrow> bytes" where
  "alpn_body ps = with_len16 (concat (map (\<lambda>p. with_len8 (string_bytes p)) ps))"

definition share_bytes :: "u16 \<Rightarrow> bytes" where
  "share_bytes g = u16_bytes g @ with_len16 (replicate (KeyShareLen g) 0)"

definition shares_body :: "bool \<Rightarrow> u16 list \<Rightarrow> bytes" where
  "shares_body noGREASE gs =
     with_len16 ((if noGREASE then [] else u16_bytes 0xdada @ with_len16 [0]) @ concat (map share_bytes gs))"

definition ech_body :: bytes where
  "ech_body = 0 # u16_bytes 1 @ u16_bytes 1 @ 7 # with_len16 (replicate 32 0) @ with_len16 (replicate 128 0)"

definition opt :: "bool \<Rightarrow> 'a \<Rightarrow> 'a list" where
  "opt c x = (if c then [x] else [])"

text \<open>The extensions of a specification, in their order.\<close>

definition hello_exts :: "ClientHelloSpec \<Rightarrow> (u16 \<times> bytes) list" where
  "hello_exts s =
     opt (\<not> sp_NoGREASE s) (0x1a1a, []) @
     opt (sp_SNI s \<noteq> []) (extServerName, sni_body (sp_SNI s)) @
     opt (sp_ALPN s \<noteq> []) (extALPN, alpn_body (sp_ALPN s)) @
     opt (sp_SupportedVersions s \<noteq> [])
       (extSupportedVersions, with_len8 (u16s_bytes (greased (sp_NoGREASE s) 0x3a3a (sp_SupportedVersions s)))) @
     opt (sp_Groups s \<noteq> [])
       (extSupportedGroups, with_len16 (u16s_bytes (greased (sp_NoGREASE s) 0x5a5a (sp_Groups s)))) @
     opt (sp_SigAlgs s \<noteq> []) (extSignatureAlgorithms, with_len16 (u16s_bytes (sp_SigAlgs s))) @
     opt (sp_KeyShares s \<noteq> []) (extKeyShare, shares_body (sp_NoGREASE s) (sp_KeyShares s)) @
     opt (sp_ECH s) (extEncryptedClientHello, ech_body) @
     opt (sp_QUIC s) (extQUICTransportParams, [1, 2, 3])"

definition exts_bytes :: "(u16 \<times> bytes) list \<Rightarrow> bytes" where
  "exts_bytes es = concat (map ext_bytes es)"

lemma length_with_len [simp]:
  "length (with_len8 x) = Suc (length x)" "length (with_len16 x) = length x + 2" "length (with_len24 x) = length x + 3"
  by (simp_all add: with_len8_def with_len16_def with_len24_def)

lemma length_ext_bytes [simp]: "length (ext_bytes e) = length (snd e) + 4"
  by (simp add: ext_bytes_def)

lemma exts_bytes_append [simp]: "exts_bytes (es @ fs) = exts_bytes es @ exts_bytes fs"
  by (simp add: exts_bytes_def)

lemma opt_simps [simp]: "opt True x = [x]" "opt False x = []"
  by (simp_all add: opt_def)

lemma ext_body_less:
  assumes "(t, body) \<in> set es" shows "length body < length (exts_bytes es)"
  using assms by (induction es) (auto simp: exts_bytes_def)

definition spec_legacy :: "ClientHelloSpec \<Rightarrow> u16" where
  "spec_legacy s = (if sp_LegacyVersion s = 0 then 0x0303 else sp_LegacyVersion s)"

definition spec_compression :: "ClientHelloSpec \<Rightarrow> bytes" where
  "spec_compression s = (case sp_Compression s of None \<Rightarrow> [0] | Some c \<Rightarrow> c)"

definition hello_bytes :: "ClientHelloSpec \<Rightarrow> bytes" where
  "hello_bytes s =
     u16_bytes (spec_legacy s) @ replicate 32 0 @ with_len8 (replicate 32 0) @
     with_len16 (u16s_bytes (greased (sp_NoGREASE s) 0x0a0a (sp_Ciphers s))) @
     with_len8 (spec_compression s) @
     (if sp_OmitExtensions s then [] else with_len16 (exts_bytes (hello_exts s)))"

text \<open>The sizes the wire format has room for.\<close>

definition spec_fits :: "ClientHelloSpec \<Rightarrow> bool" where
  "spec_fits s \<longleftrightarrow>
     length (sp_Ciphers s) \<le> 32766 \<and> length (spec_compression s) \<le> 255 \<and>
     list_all (\<lambda>p. length p \<le> 255) (sp_ALPN s) \<and> length (sp_SupportedVersions s) \<le> 126 \<and>
     length (exts_bytes (hello_exts s)) \<le> 65535"

lemma KeyShareLen_le: "KeyShareLen g \<le> 1665"
  by (simp add: KeyShareLen_def)

context builder_laws
begin

lemma appends_addExt:
  "appends bd f body \<Longrightarrow> length body < 2 ^ 16 \<Longrightarrow> appends bd (addExt bd t f) (ext_bytes (t, body))"
  unfolding addExt_def ext_bytes_def fst_conv snd_conv
  by (rule appends_comp [OF AddUint16_law Prefixed16_law])

lemma appends_add_if: "(c \<Longrightarrow> appends bd f y) \<Longrightarrow> appends bd (add_if c f) (if c then y else [])"
  by (cases c) (simp_all add: add_if_def [abs_def] appends_id)

lemma appends_u16s: "appends bd (add_u16s bd vs) (u16s_bytes vs)"
  unfolding add_u16s_def [abs_def] u16s_bytes_def by (rule appends_fold) (rule AddUint16_law)

lemma appends_u16s_greased:
  "appends bd (\<lambda>b. add_u16s bd vs (if \<not> noGREASE then AddUint16 bd g b else b)) (u16s_bytes (greased noGREASE g vs))"
  using appends_comp [OF AddUint16_law [of g] appends_u16s [of vs]] appends_u16s [of vs]
  by (cases noGREASE) (simp_all add: greased_def u16s_bytes_Cons)

lemma appends_sni: "length (sni_body sni) < 2 ^ 16 \<Longrightarrow> appends bd (add_sni bd sni) (sni_body sni)"
  unfolding add_sni_def sni_body_def
  by (rule Prefixed16_law [OF appends_comp [OF AddUint8_law Prefixed16_law [OF AddBytes_law], simplified]]) simp_all

lemma appends_alpn:
  "list_all (\<lambda>p. length p < 256) ps \<Longrightarrow> length (alpn_body ps) < 2 ^ 16 \<Longrightarrow> appends bd (add_alpn bd ps) (alpn_body ps)"
  unfolding add_alpn_def alpn_body_def
  by (rule Prefixed16_law [OF appends_fold [OF Prefixed8_law [OF AddBytes_law]]]) (auto simp: list_all_iff)

lemma appends_share: "appends bd (\<lambda>b. add_share bd b g) (share_bytes g)"
  unfolding add_share_def share_bytes_def
  by (rule appends_comp [OF AddUint16_law Prefixed16_law [OF AddBytes_law]]) (use KeyShareLen_le [of g] in simp)

lemma appends_key_shares:
  assumes "length (shares_body noGREASE gs) < 2 ^ 16"
  shows "appends bd (add_key_shares bd noGREASE gs) (shares_body noGREASE gs)"
proof -
  let ?g = "\<lambda>b. if \<not> noGREASE then AddUint16LengthPrefixed bd (AddUint8 bd 0) (AddUint16 bd 0xdada b) else b"
  have "appends bd ?g (if noGREASE then [] else u16_bytes 0xdada @ with_len16 [0])"
    using appends_comp [OF AddUint16_law [of "0xdada"] Prefixed16_law [OF AddUint8_law [of 0]]]
    by (simp add: appends_id)
  moreover have "appends bd (\<lambda>b. foldl (add_share bd) b gs) (concat (map share_bytes gs))"
    by (rule appends_fold) (rule appends_share)
  ultimately show ?thesis
    using assms unfolding add_key_shares_def shares_body_def
    by (intro Prefixed16_law appends_comp [where f = ?g and g = "\<lambda>b. foldl (add_share bd) b gs"]) simp_all
qed

lemma appends_ech: "appends bd (add_ech bd) ech_body"
proof -
  have "appends bd (AddUint16LengthPrefixed bd (AddBytes bd (replicate n 0))) (with_len16 (replicate n 0))"
    if "n < 2 ^ 16" for n
    by (rule Prefixed16_law [OF AddBytes_law]) (use that in simp)
  from this [of 32] this [of 128] adds [THEN appendsD] show ?thesis
    by (simp add: appends_def add_ech_def ech_body_def Let_def option.map_comp comp_def)
qed

lemma appends_server_share:
  "appends bd (add_server_share bd s)
     (u16_bytes (ss_Group s) @ (if ss_HelloRetry s then [] else with_len16 (replicate (KeyShareLen (ss_Group s)) 0)))"
proof -
  have "appends bd (AddUint16LengthPrefixed bd (AddBytes bd (replicate (KeyShareLen (ss_Group s)) 0)))
      (with_len16 (replicate (KeyShareLen (ss_Group s)) 0))"
    by (rule Prefixed16_law [OF AddBytes_law]) (use KeyShareLen_le [of "ss_Group s"] in simp)
  with adds [THEN appendsD] show ?thesis
    by (simp add: appends_def add_server_share_def Let_def option.map_comp comp_def)
qed

lemma appends_versions:
  "length vs \<le> 126 \<Longrightarrow>
   appends bd (add_versions bd noGREASE vs) (with_len8 (u16s_bytes (greased noGREASE 0x3a3a vs)))"
  unfolding add_versions_def by (rule Prefixed8_law [OF appends_u16s_greased]) (simp add: greased_def)

lemma appends_vector:
  "length (with_len16 (u16s_bytes vs)) < 2 ^ 16 \<Longrightarrow> appends bd (addU16Vector bd vs) (with_len16 (u16s_bytes vs))"
  unfolding addU16Vector_def by (rule Prefixed16_law [OF appends_u16s]) simp

lemma appends_groups:
  "length (with_len16 (u16s_bytes (greased noGREASE 0x5a5a gs))) < 2 ^ 16 \<Longrightarrow>
   appends bd (add_groups bd noGREASE gs) (with_len16 (u16s_bytes (greased noGREASE 0x5a5a gs)))"
  unfolding add_groups_def
  using appends_vector [of "greased noGREASE 0x5a5a gs"] by (cases noGREASE) (simp_all add: greased_def)

text \<open>A sequence of optional extensions, each with its condition, builder and body.\<close>

definition ext_items :: "(bool \<times> u16 \<times> ('b \<Rightarrow> 'b) \<times> bytes) list \<Rightarrow> (u16 \<times> bytes) list" where
  "ext_items items = concat (map (\<lambda>(c, t, f, body). opt c (t, body)) items)"

lemma appends_items:
  assumes "list_all (\<lambda>(c, t, f, body). c \<longrightarrow> length body < 2 ^ 16 \<longrightarrow> appends bd f body) items"
    and "length (exts_bytes (ext_items items)) < 2 ^ 16"
  shows "appends bd (\<lambda>b. foldl (\<lambda>b (c, t, f, body). add_if c (addExt bd t f) b) b items) (exts_bytes (ext_items items))"
  using assms
proof (induction items)
  case Nil
  show ?case by (simp add: ext_items_def exts_bytes_def appends_id)
next
  case (Cons i items)
  obtain c t f body where i: "i = (c, t, f, body)" by (cases i)
  have split: "exts_bytes (ext_items (i # items)) = (if c then ext_bytes (t, body) else []) @ exts_bytes (ext_items items)"
    by (simp add: i ext_items_def exts_bytes_def opt_def)
  have "appends bd (add_if c (addExt bd t f)) (if c then ext_bytes (t, body) else [])"
    by (rule appends_add_if, rule appends_addExt) (use Cons.prems split in \<open>auto simp: i\<close>)
  moreover have "appends bd (\<lambda>b. foldl (\<lambda>b (c, t, f, body). add_if c (addExt bd t f) b) b items) (exts_bytes (ext_items items))"
    by (rule Cons.IH) (use Cons.prems split in auto)
  ultimately show ?case unfolding split by (simp only: i foldl_Cons prod.case) (rule appends_comp)
qed

lemma appends_extensions:
  assumes "length (exts_bytes (hello_exts s)) < 2 ^ 16" and "list_all (\<lambda>p. length p < 256) (sp_ALPN s)"
    and "length (sp_SupportedVersions s) \<le> 126"
  shows "appends bd (add_extensions bd s) (exts_bytes (hello_exts s))"
proof -
  let ?items = "[(\<not> sp_NoGREASE s, 0x1a1a, \<lambda>b. b, []),
    (sp_SNI s \<noteq> [], extServerName, add_sni bd (sp_SNI s), sni_body (sp_SNI s)),
    (sp_ALPN s \<noteq> [], extALPN, add_alpn bd (sp_ALPN s), alpn_body (sp_ALPN s)),
    (sp_SupportedVersions s \<noteq> [], extSupportedVersions, add_versions bd (sp_NoGREASE s) (sp_SupportedVersions s),
       with_len8 (u16s_bytes (greased (sp_NoGREASE s) 0x3a3a (sp_SupportedVersions s)))),
    (sp_Groups s \<noteq> [], extSupportedGroups, add_groups bd (sp_NoGREASE s) (sp_Groups s),
       with_len16 (u16s_bytes (greased (sp_NoGREASE s) 0x5a5a (sp_Groups s)))),
    (sp_SigAlgs s \<noteq> [], extSignatureAlgorithms, addU16Vector bd (sp_SigAlgs s), with_len16 (u16s_bytes (sp_SigAlgs s))),
    (sp_KeyShares s \<noteq> [], extKeyShare, add_key_shares bd (sp_NoGREASE s) (sp_KeyShares s),
       shares_body (sp_NoGREASE s) (sp_KeyShares s)),
    (sp_ECH s, extEncryptedClientHello, add_ech bd, ech_body),
    (sp_QUIC s, extQUICTransportParams, AddBytes bd [1, 2, 3], [1, 2, 3])]"
  have exts: "ext_items ?items = hello_exts s"
    by (simp add: ext_items_def hello_exts_def)
  have "appends bd (\<lambda>b. foldl (\<lambda>b (c, t, f, body). add_if c (addExt bd t f) b) b ?items) (exts_bytes (ext_items ?items))"
  proof (rule appends_items)
    show "list_all (\<lambda>(c, t, f, body). c \<longrightarrow> length body < 2 ^ 16 \<longrightarrow> appends bd f body) ?items"
      unfolding list.pred_inject prod.case
      using assms(2,3)
      by (intro conjI impI appends_id appends_sni appends_alpn appends_versions appends_groups appends_vector
        appends_key_shares appends_ech AddBytes_law) simp_all
  qed (use assms(1) exts in simp)
  then show ?thesis unfolding exts by (simp add: add_extensions_def [abs_def] Let_def)
qed

lemma build_ClientHello_bytes:
  assumes "spec_fits s"
  shows "build_ClientHello bd s = Some (hello_bytes s)"
proof -
  have le: "n \<le> 255 \<longleftrightarrow> n < 256" "n \<le> 65535 \<longleftrightarrow> n < 2 ^ 16" for n :: nat by auto
  let ?sid = "with_len8 (replicate 32 0)"
  let ?suites = "with_len16 (u16s_bytes (greased (sp_NoGREASE s) 0x0a0a (sp_Ciphers s)))"
  have sid: "appends bd (AddUint8LengthPrefixed bd (AddBytes bd (replicate 32 0))) ?sid"
    by (rule Prefixed8_law [OF AddBytes_law]) simp
  have suites: "appends bd (AddUint16LengthPrefixed bd
      (\<lambda>b. add_u16s bd (sp_Ciphers s) (if \<not> sp_NoGREASE s then AddUint16 bd 0x0a0a b else b))) ?suites"
    by (rule Prefixed16_law [OF appends_u16s_greased]) (use assms in \<open>simp add: spec_fits_def greased_def\<close>)
  have comp: "appends bd (AddUint8LengthPrefixed bd (AddBytes bd (spec_compression s))) (with_len8 (spec_compression s))"
    by (rule Prefixed8_law [OF AddBytes_law]) (use assms in \<open>simp add: spec_fits_def\<close>)
  have exts: "appends bd (AddUint16LengthPrefixed bd (add_extensions bd s)) (with_len16 (exts_bytes (hello_exts s)))"
    by (rule Prefixed16_law [OF appends_extensions]) (use assms in \<open>simp_all add: spec_fits_def le\<close>)
  show ?thesis
    unfolding build_ClientHello_def Let_def spec_legacy_def [symmetric] spec_compression_def [symmetric]
    by (simp only: sid [THEN appendsD] suites [THEN appendsD] comp [THEN appendsD] exts [THEN appendsD]
        adds [THEN appendsD] NewBuilder_law option.map hello_bytes_def append_assoc append_Nil)
      simp
qed

end


text \<open>What a specification says about the hello the parser should report.\<close>

definition expected_hello :: "ClientHelloSpec \<Rightarrow> ClientHello" where
  "expected_hello s =
     (let e = (\<not> sp_OmitExtensions s); strip = filter (\<lambda>v. \<not> IsGREASE v) in
      \<lparr>ch_LegacyVersion = spec_legacy s, ch_SessionIDLen = 32, ch_CipherSuites = strip (sp_Ciphers s),
       ch_CompressionMethods = spec_compression s,
       ch_Extensions =
         (if e then opt (sp_SNI s \<noteq> []) 0 @ opt (sp_ALPN s \<noteq> []) 16 @ opt (sp_SupportedVersions s \<noteq> []) 43 @
            opt (sp_Groups s \<noteq> []) 10 @ opt (sp_SigAlgs s \<noteq> []) 13 @ opt (sp_KeyShares s \<noteq> []) 51 @
            opt (sp_ECH s) 0xfe0d @ opt (sp_QUIC s) 57
          else []),
       ch_ServerName = (if e then sp_SNI s else []), ch_ALPN = (if e then sp_ALPN s else []),
       ch_SupportedVersions = (if e then strip (sp_SupportedVersions s) else []),
       ch_SupportedGroups = (if e then strip (sp_Groups s) else []),
       ch_KeyShareGroups = (if e then strip (sp_KeyShares s) else []),
       ch_SignatureAlgorithms = (if e then strip (sp_SigAlgs s) else []),
       ch_SignatureAlgorithmsCert = [], ch_PSKKeyExchangeModes = [], ch_HasPreSharedKey = False,
       ch_HasEarlyData = False, ch_HasSessionTicket = False, ch_HasExtendedMasterSecret = False,
       ch_HasRenegotiationInfo = False, ch_HasStatusRequest = False, ch_QUIC = (e \<and> sp_QUIC s),
       ch_ECH = (if e \<and> sp_ECH s then Some \<lparr>ech_Outer = True, ech_KDFID = 1, ech_AEADID = 1, ech_ConfigID = 7\<rparr> else None),
       ch_GREASE = (\<not> sp_NoGREASE s \<or> list_ex IsGREASE (sp_Ciphers s) \<or>
         (e \<and> list_ex IsGREASE (sp_SupportedVersions s @ sp_Groups s @ sp_SigAlgs s @ sp_KeyShares s))),
       ch_Truncated = False\<rparr>)"

subsection \<open>What the parser reads\<close>

context cryptobyte_laws
begin

definition ch_step :: "ClientHello \<Rightarrow> u16 \<times> bytes \<Rightarrow> ClientHello" where
  "ch_step ch e =
     (if IsGREASE (fst e) then ch\<lparr>ch_GREASE := True\<rparr>
      else ch_extension cb (ch\<lparr>ch_Extensions := ch_Extensions ch @ [fst e]\<rparr>) (fst e) (snd e))"

lemma ch_parseExtensions_list:
  "list_all (\<lambda>e. length (snd e) < 65536) es \<Longrightarrow> ch_parseExtensions cb ch (exts_bytes es) = foldl ch_step ch es"
proof (induction es arbitrary: ch)
  case Nil
  show ?case by (subst ch_parseExtensions.simps) (simp add: exts_bytes_def cb_simps)
next
  case (Cons e es)
  have "exts_bytes (e # es) = u16_bytes (fst e) @ with_len16 (snd e) @ exts_bytes es"
    by (simp add: exts_bytes_def ext_bytes_def)
  moreover have "\<not> Empty cb (u16_bytes (fst e) @ with_len16 (snd e) @ exts_bytes es)"
    by (simp add: cb_simps u16_bytes_def)
  ultimately show ?case
    using Cons by (subst ch_parseExtensions.simps) (simp add: prefixed_round_trip ch_step_def [of ch e])
qed

lemma ch_step_opt: "foldl ch_step ch (opt c e) = (if c then ch_step ch e else ch)"
  by (cases c) simp_all

lemma parseServerName_body: "length (sni_body sni) < 65536 \<Longrightarrow> parseServerName cb (sni_body sni) = Some sni"
proof -
  assume len: "length (sni_body sni) < 65536"
  have "ReadUint16LengthPrefixed cb (sni_body sni @ []) = Some (0 # with_len16 (string_bytes sni), [])"
    unfolding sni_body_def by (rule prefixed_round_trip) (use len in \<open>simp add: sni_body_def\<close>)
  moreover have "ReadUint16LengthPrefixed cb (with_len16 (string_bytes sni) @ []) = Some (string_bytes sni, [])"
    by (rule prefixed_round_trip) (use len in \<open>simp add: sni_body_def\<close>)
  ultimately show ?thesis
    by (simp add: parseServerName_def parseServerName_loop.simps [of _ "0 # x" for x] cb_simps)
qed

lemma parseALPN_loop_bytes:
  "list_all (\<lambda>p. length p < 256) ps \<Longrightarrow>
   parseALPN_loop cb out (concat (map (\<lambda>p. with_len8 (string_bytes p)) ps)) = Some (out @ ps)"
proof (induction ps arbitrary: out)
  case Nil
  show ?case by (subst parseALPN_loop.simps) (simp add: cb_simps)
next
  case (Cons p ps)
  let ?r = "concat (map (\<lambda>p. with_len8 (string_bytes p)) ps)"
  have "\<not> Empty cb (with_len8 (string_bytes p) @ ?r)" by (simp add: cb_simps with_len8_def)
  with Cons prefixed_round_trip(2) [of "string_bytes p" ?r] show ?case
    by (subst parseALPN_loop.simps) simp
qed

lemma parseALPN_body:
  "list_all (\<lambda>p. length p < 256) ps \<Longrightarrow> length (alpn_body ps) < 65536 \<Longrightarrow> parseALPN cb (alpn_body ps) = Some ps"
  using prefixed_round_trip(1) [of "concat (map (\<lambda>p. with_len8 (string_bytes p)) ps)" "[]"]
  by (simp add: parseALPN_def alpn_body_def parseALPN_loop_bytes)

lemma ch_parseKeyShare_loop_shares:
  "ch_parseKeyShare_loop cb ch groups (concat (map share_bytes gs)) =
   ch\<lparr>ch_KeyShareGroups := groups @ filter (\<lambda>g. \<not> IsGREASE g) gs, ch_GREASE := ch_GREASE ch \<or> list_ex IsGREASE gs\<rparr>"
proof (induction gs arbitrary: ch groups)
  case Nil
  show ?case by (subst ch_parseKeyShare_loop.simps) (simp add: cb_simps)
next
  case (Cons g gs)
  let ?r = "concat (map share_bytes gs)" and ?k = "with_len16 (replicate (KeyShareLen g) 0)"
  have "ReadUint16LengthPrefixed cb (?k @ ?r) = Some (replicate (KeyShareLen g) 0, ?r)"
    by (rule prefixed_round_trip) (use KeyShareLen_le [of g] in simp)
  moreover have "\<not> Empty cb (u16_bytes g @ ?k @ ?r)" by (simp add: cb_simps u16_bytes_def)
  moreover have "concat (map share_bytes (g # gs)) = u16_bytes g @ ?k @ ?r" by (simp add: share_bytes_def)
  ultimately show ?case
    using Cons.IH by (subst ch_parseKeyShare_loop.simps) simp
qed

lemma ch_parseKeyShare_body:
  assumes "length (shares_body noGREASE gs) < 65536"
  shows "ch_parseKeyShare cb ch (shares_body noGREASE gs) =
    ch\<lparr>ch_KeyShareGroups := filter (\<lambda>g. \<not> IsGREASE g) gs,
       ch_GREASE := ch_GREASE ch \<or> \<not> noGREASE \<or> list_ex IsGREASE gs\<rparr>"
proof -
  let ?g = "if noGREASE then [] else u16_bytes 0xdada @ with_len16 [0]" and ?r = "concat (map share_bytes gs)"
  have "ReadUint16LengthPrefixed cb (shares_body noGREASE gs @ []) = Some (?g @ ?r, [])"
    unfolding shares_body_def by (rule prefixed_round_trip) (use assms in \<open>simp add: shares_body_def\<close>)
  moreover have "ch_parseKeyShare_loop cb ch [] (?g @ ?r) =
      ch_parseKeyShare_loop cb (ch\<lparr>ch_GREASE := ch_GREASE ch \<or> \<not> noGREASE\<rparr>) [] ?r"
  proof (cases noGREASE)
    case False
    have "\<not> Empty cb (u16_bytes 0xdada @ with_len16 [0] @ ?r)" by (simp add: cb_simps u16_bytes_def)
    with False show ?thesis
      using prefixed_round_trip(1) [of "[0]" ?r]
      by (subst ch_parseKeyShare_loop.simps) (simp add: IsGREASE_def)
  qed simp
  ultimately show ?thesis by (simp add: ch_parseKeyShare_def ch_parseKeyShare_loop_shares)
qed

lemma parseECH_body:
  "parseECH cb ech_body = Some \<lparr>ech_Outer = True, ech_KDFID = 1, ech_AEADID = 1, ech_ConfigID = 7\<rparr>"
proof -
  let ?e = "with_len16 (replicate 32 0)" and ?p = "with_len16 (replicate 128 0)"
  have "ReadUint16LengthPrefixed cb (?e @ ?p) = Some (replicate 32 0, ?p)"
    "ReadUint16LengthPrefixed cb (?p @ []) = Some (replicate 128 0, [])"
    by (rule prefixed_round_trip; simp)+
  then show ?thesis
    by (simp add: parseECH_def ech_body_def ReadUint8_law)
qed

text \<open>The effect of each optional extension, as one update whether it is there or not.\<close>

lemma greased_filter [simp]:
  "IsGREASE g \<Longrightarrow> filter (\<lambda>v. \<not> IsGREASE v) (greased noGREASE g vs) = filter (\<lambda>v. \<not> IsGREASE v) vs"
  "IsGREASE g \<Longrightarrow> (\<exists>v \<in> set (greased noGREASE g vs). IsGREASE v) \<longleftrightarrow> \<not> noGREASE \<or> list_ex IsGREASE vs"
  by (auto simp: greased_def list_ex_iff)

lemma codepoints [simp]: "\<not> IsGREASE 0" "\<not> IsGREASE 10" "\<not> IsGREASE 13" "\<not> IsGREASE 16" "\<not> IsGREASE 43"
  "\<not> IsGREASE 51" "\<not> IsGREASE 57" "\<not> IsGREASE 0xfe0d"
  "IsGREASE 0x0a0a" "IsGREASE 0x1a1a" "IsGREASE 0x3a3a" "IsGREASE 0x5a5a"
  by (simp_all add: IsGREASE_def)

lemma step_sni:
  "length (sni_body sni) < 65536 \<Longrightarrow>
   ch_step ch (0, sni_body sni) = ch\<lparr>ch_Extensions := ch_Extensions ch @ [0], ch_ServerName := sni\<rparr>"
  by (simp add: ch_step_def ch_extension_def parseServerName_body)

lemma step_alpn:
  "list_all (\<lambda>p. length p < 256) ps \<Longrightarrow> length (alpn_body ps) < 65536 \<Longrightarrow>
   ch_step ch (16, alpn_body ps) = ch\<lparr>ch_Extensions := ch_Extensions ch @ [16], ch_ALPN := ps\<rparr>"
  by (simp add: ch_step_def ch_extension_def parseALPN_body)

lemma step_versions:
  "length vs \<le> 126 \<Longrightarrow>
   ch_step ch (43, with_len8 (u16s_bytes (greased noGREASE 0x3a3a vs))) =
   ch\<lparr>ch_Extensions := ch_Extensions ch @ [43], ch_SupportedVersions := filter (\<lambda>v. \<not> IsGREASE v) vs,
      ch_GREASE := ch_GREASE ch \<or> \<not> noGREASE \<or> list_ex IsGREASE vs\<rparr>"
  using readUint8PrefixedUint16List_round_trip [of "greased noGREASE 0x3a3a vs" "[]"]
  by (simp add: ch_step_def ch_extension_def stripGREASE_eq greased_def split: if_splits) (simp_all add: list_ex_iff)

lemma step_groups:
  "length gs \<le> 32766 \<Longrightarrow>
   ch_step ch (10, with_len16 (u16s_bytes (greased noGREASE 0x5a5a gs))) =
   ch\<lparr>ch_Extensions := ch_Extensions ch @ [10], ch_SupportedGroups := filter (\<lambda>v. \<not> IsGREASE v) gs,
      ch_GREASE := ch_GREASE ch \<or> \<not> noGREASE \<or> list_ex IsGREASE gs\<rparr>"
  using readUint16List_round_trip [of "greased noGREASE 0x5a5a gs" "[]"]
  by (simp add: ch_step_def ch_extension_def stripGREASE_eq greased_def split: if_splits) (simp_all add: list_ex_iff)

lemma step_sigalgs:
  "length sa \<le> 32767 \<Longrightarrow>
   ch_step ch (13, with_len16 (u16s_bytes sa)) =
   ch\<lparr>ch_Extensions := ch_Extensions ch @ [13], ch_SignatureAlgorithms := filter (\<lambda>v. \<not> IsGREASE v) sa,
      ch_GREASE := ch_GREASE ch \<or> list_ex IsGREASE sa\<rparr>"
  using readUint16List_round_trip [of sa "[]"]
  by (simp add: ch_step_def ch_extension_def stripGREASE_eq list_ex_iff)

lemma step_shares:
  "length (shares_body noGREASE gs) < 65536 \<Longrightarrow>
   ch_step ch (51, shares_body noGREASE gs) =
   ch\<lparr>ch_Extensions := ch_Extensions ch @ [51], ch_KeyShareGroups := filter (\<lambda>v. \<not> IsGREASE v) gs,
      ch_GREASE := ch_GREASE ch \<or> \<not> noGREASE \<or> list_ex IsGREASE gs\<rparr>"
  by (simp add: ch_step_def ch_extension_def ch_parseKeyShare_body)

lemma step_ech:
  "ch_step ch (0xfe0d, ech_body) =
   ch\<lparr>ch_Extensions := ch_Extensions ch @ [0xfe0d],
      ch_ECH := Some \<lparr>ech_Outer = True, ech_KDFID = 1, ech_AEADID = 1, ech_ConfigID = 7\<rparr>\<rparr>"
  by (simp add: ch_step_def ch_extension_def parseECH_body)

lemma step_quic: "ch_step ch (57, x) = ch\<lparr>ch_Extensions := ch_Extensions ch @ [57], ch_QUIC := True\<rparr>"
  by (simp add: ch_step_def ch_extension_def)

lemma step_grease: "ch_step ch (0x1a1a, x) = ch\<lparr>ch_GREASE := True\<rparr>"
  by (simp add: ch_step_def)

lemma nil_cases:
  "(if xs = [] then [] else xs) = xs" "(if xs = [] then [] else filter P xs) = filter P xs"
  "(xs \<noteq> [] \<and> (a \<or> list_ex P xs)) = (xs \<noteq> [] \<and> a \<or> list_ex P xs)" "(xs \<noteq> [] \<and> list_ex P xs) = list_ex P xs"
  by auto

lemma opt_updates:
  "(sni \<noteq> [] \<longrightarrow> length (sni_body sni) < 65536) \<Longrightarrow>
   foldl ch_step ch (opt (sni \<noteq> []) (0, sni_body sni)) =
     ch\<lparr>ch_Extensions := ch_Extensions ch @ opt (sni \<noteq> []) 0, ch_ServerName := if sni \<noteq> [] then sni else ch_ServerName ch\<rparr>"
  "list_all (\<lambda>p. length p < 256) ps \<Longrightarrow> (ps \<noteq> [] \<longrightarrow> length (alpn_body ps) < 65536) \<Longrightarrow>
   foldl ch_step ch (opt (ps \<noteq> []) (16, alpn_body ps)) =
     ch\<lparr>ch_Extensions := ch_Extensions ch @ opt (ps \<noteq> []) 16, ch_ALPN := if ps \<noteq> [] then ps else ch_ALPN ch\<rparr>"
  "length vs \<le> 126 \<Longrightarrow>
   foldl ch_step ch (opt (vs \<noteq> []) (43, with_len8 (u16s_bytes (greased n 0x3a3a vs)))) =
     ch\<lparr>ch_Extensions := ch_Extensions ch @ opt (vs \<noteq> []) 43,
        ch_SupportedVersions := if vs \<noteq> [] then filter (\<lambda>v. \<not> IsGREASE v) vs else ch_SupportedVersions ch,
        ch_GREASE := ch_GREASE ch \<or> vs \<noteq> [] \<and> (\<not> n \<or> list_ex IsGREASE vs)\<rparr>"
  "length gs \<le> 32766 \<Longrightarrow>
   foldl ch_step ch (opt (gs \<noteq> []) (10, with_len16 (u16s_bytes (greased n 0x5a5a gs)))) =
     ch\<lparr>ch_Extensions := ch_Extensions ch @ opt (gs \<noteq> []) 10,
        ch_SupportedGroups := if gs \<noteq> [] then filter (\<lambda>v. \<not> IsGREASE v) gs else ch_SupportedGroups ch,
        ch_GREASE := ch_GREASE ch \<or> gs \<noteq> [] \<and> (\<not> n \<or> list_ex IsGREASE gs)\<rparr>"
  "length sa \<le> 32767 \<Longrightarrow>
   foldl ch_step ch (opt (sa \<noteq> []) (13, with_len16 (u16s_bytes sa))) =
     ch\<lparr>ch_Extensions := ch_Extensions ch @ opt (sa \<noteq> []) 13,
        ch_SignatureAlgorithms := if sa \<noteq> [] then filter (\<lambda>v. \<not> IsGREASE v) sa else ch_SignatureAlgorithms ch,
        ch_GREASE := ch_GREASE ch \<or> sa \<noteq> [] \<and> list_ex IsGREASE sa\<rparr>"
  "(ks \<noteq> [] \<longrightarrow> length (shares_body n ks) < 65536) \<Longrightarrow>
   foldl ch_step ch (opt (ks \<noteq> []) (51, shares_body n ks)) =
     ch\<lparr>ch_Extensions := ch_Extensions ch @ opt (ks \<noteq> []) 51,
        ch_KeyShareGroups := if ks \<noteq> [] then filter (\<lambda>v. \<not> IsGREASE v) ks else ch_KeyShareGroups ch,
        ch_GREASE := ch_GREASE ch \<or> ks \<noteq> [] \<and> (\<not> n \<or> list_ex IsGREASE ks)\<rparr>"
  "foldl ch_step ch (opt e (0xfe0d, ech_body)) =
     ch\<lparr>ch_Extensions := ch_Extensions ch @ opt e 0xfe0d,
        ch_ECH := if e then Some \<lparr>ech_Outer = True, ech_KDFID = 1, ech_AEADID = 1, ech_ConfigID = 7\<rparr> else ch_ECH ch\<rparr>"
  "foldl ch_step ch (opt q (57, x)) =
     ch\<lparr>ch_Extensions := ch_Extensions ch @ opt q 57, ch_QUIC := q \<or> ch_QUIC ch\<rparr>"
  "foldl ch_step ch (opt g (0x1a1a, x)) = ch\<lparr>ch_GREASE := g \<or> ch_GREASE ch\<rparr>"
  by (simp_all add: ch_step_opt step_sni step_alpn step_versions step_groups step_sigalgs step_shares step_ech
      step_quic step_grease)

lemma foldl_hello_exts:
  assumes "spec_fits s" and "\<not> sp_OmitExtensions s"
    and "ch = empty_ClientHello\<lparr>ch_LegacyVersion := spec_legacy s, ch_SessionIDLen := 32,
      ch_CipherSuites := filter (\<lambda>v. \<not> IsGREASE v) (sp_Ciphers s),
      ch_GREASE := \<not> sp_NoGREASE s \<or> list_ex IsGREASE (sp_Ciphers s), ch_CompressionMethods := spec_compression s\<rparr>"
  shows "foldl ch_step ch (hello_exts s) = expected_hello s"
proof -
  have len: "length body < 65536" if "(t, body) \<in> set (hello_exts s)" for t body
    using ext_body_less [OF that] assms(1) by (simp add: spec_fits_def)
  have sni: "sp_SNI s \<noteq> [] \<longrightarrow> length (sni_body (sp_SNI s)) < 65536"
    by (intro impI len [of extServerName]) (simp add: hello_exts_def)
  have alpn: "sp_ALPN s \<noteq> [] \<longrightarrow> length (alpn_body (sp_ALPN s)) < 65536"
    by (intro impI len [of extALPN]) (simp add: hello_exts_def)
  have ks: "sp_KeyShares s \<noteq> [] \<longrightarrow> length (shares_body (sp_NoGREASE s) (sp_KeyShares s)) < 65536"
    by (intro impI len [of extKeyShare]) (simp add: hello_exts_def)
  have gs: "length (sp_Groups s) \<le> 32766"
    using len [of extSupportedGroups "with_len16 (u16s_bytes (greased (sp_NoGREASE s) 0x5a5a (sp_Groups s)))"]
    by (cases "sp_Groups s = []") (simp_all add: hello_exts_def greased_def split: if_splits)
  have sa: "length (sp_SigAlgs s) \<le> 32767"
    using len [of extSignatureAlgorithms "with_len16 (u16s_bytes (sp_SigAlgs s))"]
    by (cases "sp_SigAlgs s = []") (simp_all add: hello_exts_def)
  have names: "list_all (\<lambda>p. length p < 256) (sp_ALPN s)" "length (sp_SupportedVersions s) \<le> 126"
    using assms(1) by (auto simp: spec_fits_def list_all_iff)
  show ?thesis
    using assms(2)
    by (simp add: hello_exts_def opt_updates(1) [OF sni] opt_updates(2) [OF names(1) alpn] opt_updates(3) [OF names(2)]
        opt_updates(4) [OF gs] opt_updates(5) [OF sa] opt_updates(6) [OF ks] opt_updates(7-9)
        assms(3) expected_hello_def empty_ClientHello_def nil_cases Let_def cong: if_cong split del: if_split) auto
qed

lemma parse_hello_bytes:
  assumes "spec_fits s"
  shows "ParseClientHello cb (hello_bytes s) = Inr (expected_hello s)"
proof -
  define suites where "suites = greased (sp_NoGREASE s) 0x0a0a (sp_Ciphers s)"
  define rest where "rest = (if sp_OmitExtensions s then [] else with_len16 (exts_bytes (hello_exts s)))"
  have split: "hello_bytes s = u16_bytes (spec_legacy s) @ replicate 32 0 @ with_len8 (replicate 32 0) @
      with_len16 (u16s_bytes suites) @ with_len8 (spec_compression s) @ rest"
    by (simp add: hello_bytes_def suites_def rest_def)
  have skip: "Skip cb 32 (replicate 32 0 @ r) = Some r" for r
    by (simp add: cb_simps split_at_def)
  have sid: "ReadUint8LengthPrefixed cb (with_len8 (replicate 32 0) @ r) = Some (replicate 32 0, r)" for r
    by (rule prefixed_round_trip) simp
  have list: "readUint16List cb (with_len16 (u16s_bytes suites) @ r) = Some (suites, r)" for r
    by (rule readUint16List_round_trip) (use assms in \<open>simp add: suites_def greased_def spec_fits_def\<close>)
  have comp: "ReadUint8LengthPrefixed cb (with_len8 (spec_compression s) @ r) = Some (spec_compression s, r)" for r
    by (rule prefixed_round_trip) (use assms in \<open>simp add: spec_fits_def\<close>)
  have strip: "stripGREASE suites = (filter (\<lambda>v. \<not> IsGREASE v) (sp_Ciphers s), \<not> sp_NoGREASE s \<or> list_ex IsGREASE (sp_Ciphers s))"
    by (simp add: stripGREASE_eq suites_def)
  note reads = ReadUint16_u16_bytes skip sid list comp comp [of "[]", unfolded append_Nil2] strip
  show ?thesis
  proof (cases "sp_OmitExtensions s")
    case True
    then show ?thesis
      unfolding ParseClientHello_def split
      by (simp add: reads rest_def Empty_law expected_hello_def empty_ClientHello_def)
  next
    case False
    let ?es = "exts_bytes (hello_exts s)"
    have "ReadUint16LengthPrefixed cb (with_len16 ?es @ []) = Some (?es, [])"
      by (rule prefixed_round_trip) (use assms in \<open>simp add: spec_fits_def\<close>)
    moreover have "list_all (\<lambda>e. length (snd e) < 65536) (hello_exts s)"
      using ext_body_less [of _ _ "hello_exts s"] assms by (force simp: list_all_iff spec_fits_def)
    moreover have "with_len16 ?es \<noteq> []" by (simp add: with_len16_def u16_bytes_def)
    ultimately show ?thesis
      using False foldl_hello_exts [OF assms False refl]
      unfolding ParseClientHello_def split
      by (simp add: reads rest_def Empty_law ch_parseExtensions_list)
  qed
qed

end

end
