(* ===== verification/Synth_Server.thy ===== *)
theory Synth_Server
  imports Synth_Props
begin

text \<open>The round trips of the server's messages, as for the ClientHello.\<close>

definition server_legacy :: "ServerHelloSpec \<Rightarrow> u16" where
  "server_legacy s = (if ss_LegacyVersion s = 0 then 0x0303 else ss_LegacyVersion s)"

definition server_random :: "ServerHelloSpec \<Rightarrow> bytes" where
  "server_random s = (if ss_HelloRetry s then HelloRetryRequestRandom else replicate 32 0)"

definition server_share :: "ServerHelloSpec \<Rightarrow> bytes" where
  "server_share s =
     u16_bytes (ss_Group s) @ (if ss_HelloRetry s then [] else with_len16 (replicate (KeyShareLen (ss_Group s)) 0))"

definition server_exts :: "ServerHelloSpec \<Rightarrow> (u16 \<times> bytes) list" where
  "server_exts s =
     opt (ss_SelectedVersion s \<noteq> 0) (extSupportedVersions, u16_bytes (ss_SelectedVersion s)) @
     opt (ss_Group s \<noteq> 0) (extKeyShare, server_share s) @
     opt (ss_ALPN s \<noteq> []) (extALPN, with_len16 (with_len8 (string_bytes (ss_ALPN s))))"

definition server_bytes :: "ServerHelloSpec \<Rightarrow> bytes" where
  "server_bytes s =
     u16_bytes (server_legacy s) @ server_random s @ with_len8 (replicate 32 0) @
     u16_bytes (ss_Cipher s) @ 0 # with_len16 (exts_bytes (server_exts s))"

definition ske_bytes :: "u16 \<Rightarrow> bytes" where
  "ske_bytes grp =
     3 # u16_bytes grp @ with_len8 (replicate (KeyShareLen grp) 0) @ u16_bytes 0x0401 @ with_len16 (replicate 256 0)"

definition certs_bytes :: "bytes list \<Rightarrow> bytes" where
  "certs_bytes chain = concat (map with_len24 chain)"

lemma length_server_share: "length (server_share s) \<le> 1669"
  using KeyShareLen_le [of "ss_Group s"] by (simp add: server_share_def)

lemma length_server_exts:
  assumes "length (ss_ALPN s) \<le> 255" shows "length (exts_bytes (server_exts s)) < 65536"
  using assms length_server_share [of s] by (simp add: server_exts_def exts_bytes_def opt_def)

context builder_laws
begin

lemma appends_server_extensions:
  assumes "length (ss_ALPN s) \<le> 255"
  shows "appends bd (add_server_extensions bd s) (exts_bytes (server_exts s))"
proof -
  let ?alpn = "AddUint16LengthPrefixed bd (AddUint8LengthPrefixed bd (AddBytes bd (string_bytes (ss_ALPN s))))"
  let ?items = "[(ss_SelectedVersion s \<noteq> 0, extSupportedVersions, AddUint16 bd (ss_SelectedVersion s), u16_bytes (ss_SelectedVersion s)),
    (ss_Group s \<noteq> 0, extKeyShare, add_server_share bd s, server_share s),
    (ss_ALPN s \<noteq> [], extALPN, ?alpn, with_len16 (with_len8 (string_bytes (ss_ALPN s))))]"
  have exts: "ext_items ?items = server_exts s"
    by (simp add: ext_items_def server_exts_def)
  have "appends bd (\<lambda>b. foldl (\<lambda>b (c, t, f, body). add_if c (addExt bd t f) b) b ?items) (exts_bytes (ext_items ?items))"
  proof (rule appends_items)
    have "appends bd ?alpn (with_len16 (with_len8 (string_bytes (ss_ALPN s))))"
      by (intro Prefixed16_law Prefixed8_law AddBytes_law) (use assms in simp_all)
    then show "list_all (\<lambda>(c, t, f, body). c \<longrightarrow> length body < 2 ^ 16 \<longrightarrow> appends bd f body) ?items"
      using AddUint16_law appends_server_share [of s] by (simp add: server_share_def)
  qed (use length_server_exts [OF assms] exts in simp)
  then show ?thesis unfolding exts by (simp add: add_server_extensions_def [abs_def] Let_def)
qed

lemma build_ServerHello_bytes:
  assumes "length (ss_ALPN s) \<le> 255"
  shows "build_ServerHello bd s = Some (server_bytes s)"
proof -
  have sid: "appends bd (AddUint8LengthPrefixed bd (AddBytes bd (replicate 32 0))) (with_len8 (replicate 32 0))"
    by (rule Prefixed8_law [OF AddBytes_law]) simp
  have exts: "appends bd (AddUint16LengthPrefixed bd (add_server_extensions bd s)) (with_len16 (exts_bytes (server_exts s)))"
    by (rule Prefixed16_law [OF appends_server_extensions [OF assms]]) (use length_server_exts [OF assms] in simp)
  have random: "(if ss_HelloRetry s then AddBytes bd HelloRetryRequestRandom b else AddBytes bd (replicate 32 0) b) =
      AddBytes bd (server_random s) b" for b
    by (simp add: server_random_def)
  show ?thesis
    unfolding build_ServerHello_def Let_def server_legacy_def [symmetric] random
    by (simp add: sid [THEN appendsD] exts [THEN appendsD] adds [THEN appendsD] NewBuilder_law server_bytes_def)
qed

lemma ServerKeyExchangeECDHE_bytes:
  assumes "KeyShareLen grp \<le> 255"
  shows "ServerKeyExchangeECDHE bd grp = Some (ske_bytes grp)"
proof -
  have key: "appends bd (AddUint8LengthPrefixed bd (AddBytes bd (replicate (KeyShareLen grp) 0)))
      (with_len8 (replicate (KeyShareLen grp) 0))"
    by (rule Prefixed8_law [OF AddBytes_law]) (use assms in simp)
  have sig: "appends bd (AddUint16LengthPrefixed bd (AddBytes bd (replicate 256 0))) (with_len16 (replicate 256 0))"
    by (rule Prefixed16_law [OF AddBytes_law]) simp
  show ?thesis
    unfolding ServerKeyExchangeECDHE_def Let_def
    by (simp only: key [THEN appendsD] sig [THEN appendsD] adds [THEN appendsD] NewBuilder_law ske_bytes_def
        option.map append_assoc append_Nil append_Cons)
qed

lemma CertificateMsg_bytes:
  assumes "list_all (\<lambda>der. length der < 2 ^ 24) chain" and "length (certs_bytes chain) < 2 ^ 24"
  shows "CertificateMsg bd chain = Some (with_len24 (certs_bytes chain))"
proof -
  have "appends bd (\<lambda>b. foldl (\<lambda>b der. AddUint24LengthPrefixed bd (AddBytes bd der) b) b chain) (certs_bytes chain)"
    unfolding certs_bytes_def
    by (rule appends_fold [OF Prefixed24_law [OF AddBytes_law]]) (use assms(1) in \<open>simp add: list_all_iff\<close>)
  then show ?thesis
    unfolding CertificateMsg_def by (rule built [OF Prefixed24_law]) (rule assms(2))
qed

end


subsection \<open>What the parser reads\<close>

definition expected_server :: "ServerHelloSpec \<Rightarrow> ServerHello" where
  "expected_server s =
     \<lparr>sh_LegacyVersion = server_legacy s, sh_CipherSuite = ss_Cipher s, sh_CompressionMethod = 0,
      sh_Extensions = opt (ss_SelectedVersion s \<noteq> 0) 43 @ opt (ss_Group s \<noteq> 0) 51 @ opt (ss_ALPN s \<noteq> []) 16,
      sh_SelectedVersion = ss_SelectedVersion s, sh_Group = ss_Group s,
      sh_GroupSource = (if ss_Group s \<noteq> 0 then GroupSourceKeyShare else []), sh_SelectedALPN = ss_ALPN s,
      sh_IsHelloRetryRequest = ss_HelloRetry s, sh_HasPreSharedKey = False, sh_FlightComplete = False,
      sh_CertificateChain = [], sh_Truncated = False\<rparr>"

lemma HelloRetryRequestRandom_eq: "HelloRetryRequestRandom = helloRetryRequestRandom"
  by (simp add: HelloRetryRequestRandom_def helloRetryRequestRandom_def)

lemma be_nat_u16_word: "be_nat (u16_bytes v) = unat v"
  by (rule u16_bytes_cases [of v]) (simp add: be_nat_two)

lemma length_prefixed_24: "length x < 2 ^ 24 \<Longrightarrow> length_prefixed 3 (with_len24 x @ r) = Some (x, r)"
proof -
  assume len: "length x < 2 ^ 24"
  let ?l = "word_of_nat (drop_bit 16 (length x)) # u16_bytes (word_of_nat (length x))"
  have "be_nat ?l = unat (word_of_nat (drop_bit 16 (length x)) :: u8) * 65536 + unat (word_of_nat (length x) :: u16)"
    by (simp add: be_nat_Cons be_nat_u16_word)
  also have "\<dots> = length x div 65536 * 65536 + length x mod 65536"
    using len by (simp add: unsigned_of_nat drop_bit_eq_div take_bit_eq_mod)
  finally have "be_nat ?l = length x" by simp
  then have "with_len24 x @ r = ?l @ x @ r \<and> length ?l = 3 \<and> be_nat ?l = length x"
    by (simp add: with_len24_def)
  then show ?thesis by (subst length_prefixed_Some) blast
qed

context cryptobyte_laws
begin

definition sh_step :: "ServerHello \<Rightarrow> u16 \<times> bytes \<Rightarrow> ServerHello" where
  "sh_step sh e =
     (if IsGREASE (fst e) then sh
      else sh_extension cb (sh\<lparr>sh_Extensions := sh_Extensions sh @ [fst e]\<rparr>) (fst e) (snd e))"

lemma sh_parseExtensions_list:
  "list_all (\<lambda>e. length (snd e) < 65536) es \<Longrightarrow> sh_parseExtensions cb sh (exts_bytes es) = foldl sh_step sh es"
proof (induction es arbitrary: sh)
  case Nil
  show ?case by (subst sh_parseExtensions.simps) (simp add: exts_bytes_def cb_simps)
next
  case (Cons e es)
  have "exts_bytes (e # es) = u16_bytes (fst e) @ with_len16 (snd e) @ exts_bytes es"
    by (simp add: exts_bytes_def ext_bytes_def)
  moreover have "\<not> Empty cb (u16_bytes (fst e) @ with_len16 (snd e) @ exts_bytes es)"
    by (simp add: cb_simps u16_bytes_def)
  ultimately show ?case
    using Cons by (subst sh_parseExtensions.simps) (simp add: prefixed_round_trip sh_step_def [of sh e])
qed

lemma sh_step_version: "sh_step sh (43, u16_bytes v) = sh\<lparr>sh_Extensions := sh_Extensions sh @ [43], sh_SelectedVersion := v\<rparr>"
  using ReadUint16_u16_bytes [of v "[]"] by (simp add: sh_step_def sh_extension_def)

lemma sh_step_share:
  assumes "sh_IsHelloRetryRequest sh = ss_HelloRetry s"
  shows "sh_step sh (51, server_share s) =
    sh\<lparr>sh_Extensions := sh_Extensions sh @ [51], sh_Group := ss_Group s, sh_GroupSource := GroupSourceKeyShare\<rparr>"
proof -
  let ?k = "with_len16 (replicate (KeyShareLen (ss_Group s)) 0)"
  have "ReadUint16LengthPrefixed cb (?k @ []) = Some (replicate (KeyShareLen (ss_Group s)) 0, [])"
    by (rule prefixed_round_trip) (use KeyShareLen_le [of "ss_Group s"] in simp)
  with assms show ?thesis
    by (simp add: sh_step_def sh_extension_def sh_parseKeyShare_def server_share_def)
qed

lemma sh_step_alpn:
  "length p \<le> 255 \<Longrightarrow> sh_step sh (16, with_len16 (with_len8 (string_bytes p))) =
   sh\<lparr>sh_Extensions := sh_Extensions sh @ [16], sh_SelectedALPN := p\<rparr>"
  using parseALPN_body [of "[p]"] by (simp add: sh_step_def sh_extension_def alpn_body_def)

lemma foldl_server_exts:
  assumes "length (ss_ALPN s) \<le> 255"
  shows "foldl sh_step (empty_ServerHello\<lparr>sh_LegacyVersion := server_legacy s, sh_IsHelloRetryRequest := ss_HelloRetry s,
      sh_CipherSuite := ss_Cipher s, sh_CompressionMethod := 0\<rparr>) (server_exts s) = expected_server s"
proof -
  have o: "foldl sh_step sh (opt c e) = (if c then sh_step sh e else sh)" for sh c e by (cases c) simp_all
  show ?thesis
    using assms by (simp add: server_exts_def o sh_step_version sh_step_share sh_step_alpn expected_server_def empty_ServerHello_def)
qed

lemma parse_server_bytes:
  assumes "length (ss_ALPN s) \<le> 255"
  shows "ParseServerHello cb (server_bytes s) = Inr (expected_server s)"
proof -
  let ?es = "exts_bytes (server_exts s)"
  have random: "ReadBytes cb 32 (server_random s @ r) = Some (server_random s, r)" for r
    by (simp add: cb_simps split_at_def server_random_def HelloRetryRequestRandom_def)
  have hrr: "(server_random s = helloRetryRequestRandom) = ss_HelloRetry s"
    by (simp add: server_random_def HelloRetryRequestRandom_eq) (simp add: helloRetryRequestRandom_def numeral_eq_Suc)
  have sid: "ReadUint8LengthPrefixed cb (with_len8 (replicate 32 0) @ r) = Some (replicate 32 0, r)" for r
    by (rule prefixed_round_trip) simp
  have exts: "ReadUint16LengthPrefixed cb (with_len16 ?es @ []) = Some (?es, [])"
    by (rule prefixed_round_trip) (rule length_server_exts [OF assms])
  have small: "list_all (\<lambda>e. length (snd e) < 65536) (server_exts s)"
    using ext_body_less [of _ _ "server_exts s"] length_server_exts [OF assms] by (force simp: list_all_iff)
  have "with_len16 ?es \<noteq> []" by (simp add: with_len16_def u16_bytes_def)
  then show ?thesis
    using exts foldl_server_exts [OF assms] hrr
    unfolding ParseServerHello_def server_bytes_def
    by (simp add: random sid ReadUint8_law Empty_law sh_parseExtensions_list [OF small])
qed

lemma parse_ske_bytes: "ParseServerKeyExchangeGroup cb (ske_bytes grp) = Some grp"
  by (simp add: ParseServerKeyExchangeGroup_def ske_bytes_def ReadUint8_law)

lemma ReadUint24_with_len: "length x < 2 ^ 24 \<Longrightarrow> ReadUint24LengthPrefixed cb (with_len24 x @ r) = Some (x, r)"
  by (simp only: ReadUint24LengthPrefixed_law length_prefixed_24)

lemma ParseCertificateChain_loop_bytes:
  "list_all (\<lambda>der. length der < 2 ^ 24) chain \<Longrightarrow>
   ParseCertificateChain_loop cb acc (certs_bytes chain) = (acc @ chain, True)"
proof (induction chain arbitrary: acc)
  case Nil
  show ?case by (subst ParseCertificateChain_loop.simps) (simp add: certs_bytes_def cb_simps)
next
  case (Cons der chain)
  have "certs_bytes (der # chain) = with_len24 der @ certs_bytes chain" by (simp add: certs_bytes_def)
  moreover have "\<not> Empty cb (with_len24 der @ certs_bytes chain)" by (simp add: cb_simps with_len24_def)
  ultimately show ?case
    using Cons ReadUint24_with_len [of der "certs_bytes chain"]
    by (subst ParseCertificateChain_loop.simps) (simp del: power_numeral)
qed

lemma parse_certs_bytes:
  assumes "list_all (\<lambda>der. length der < 2 ^ 24) chain" and "length (certs_bytes chain) < 2 ^ 24"
  shows "ParseCertificateChain cb (with_len24 (certs_bytes chain)) = (chain, True)"
  using ReadUint24_with_len [OF assms(2), of "[]"] ParseCertificateChain_loop_bytes [OF assms(1), of "[]"]
  by (simp add: ParseCertificateChain_def)

end


subsection \<open>Round trips through the record layer\<close>

text \<open>Handshake messages in a row, cut into records of at most \<open>chunk\<close> bytes.\<close>

definition message_stream :: "(u8 \<times> bytes) list \<Rightarrow> int \<Rightarrow> bytes" where
  "message_stream ms chunk = Records RecordHandshake (concat (map (\<lambda>(t, body). HandshakeMsg t body) ms)) chunk"

lemma message_stream_messages:
  assumes "ms \<noteq> []" and "list_all (\<lambda>m. length (snd m) < 2 ^ 24) ms" and "0 < chunk" and "chunk \<le> 16640"
  shows "HandshakeMessages (message_stream ms chunk) = Inr (map (\<lambda>(t, body). \<lparr>msg_Type = t, msg_Body = body\<rparr>) ms)"
proof -
  let ?ms = "map (\<lambda>(t, body). \<lparr>msg_Type = t, msg_Body = body\<rparr>) ms"
  let ?p = "concat (map (\<lambda>(t, body). HandshakeMsg t body) ms)"
  have p: "?p = concat (map (\<lambda>m. HandshakeMsg (msg_Type m) (msg_Body m)) ?ms)"
    by (induction ms) auto
  have "splitMessages ?p = ?ms"
    unfolding p by (rule splitMessages_concat) (use assms(2) in \<open>auto simp: list_all_iff\<close>)
  moreover have "?p \<noteq> []" using assms(1) by (cases ms) (auto simp: HandshakeMsg_def)
  ultimately show ?thesis
    using Records_handshake [of ?p chunk] assms(3,4) by (simp add: message_stream_def maxRecordPayload_def)
qed

text \<open>
  C6: the parser agrees with the independent builder. For every specification of a ClientHello within the
  sizes of \<open>spec_fits\<close> (its lists leave room for the GREASE values the builder may add), with GREASE or without,
  building the message, framing it and cutting it into records of 1 to 16640 bytes, the most the record layer
  accepts, and then looking for a ClientHello, gives exactly the hello the specification describes, with every
  GREASE value removed and noted.
\<close>

theorem client_hello_round_trip:
  assumes "cryptobyte_laws cb" and "builder_laws bd" and "spec_fits s" and "0 < chunk" and "chunk \<le> 16640"
  shows "\<exists>body. build_ClientHello bd s = Some body \<and> ParseClientHello cb body = Inr (expected_hello s) \<and>
    FindClientHello cb (message_stream [(MsgClientHello, body)] chunk) = Inr (Some (expected_hello s))"
proof (intro exI conjI)
  show "build_ClientHello bd s = Some (hello_bytes s)"
    using builder_laws.build_ClientHello_bytes [OF assms(2,3)] .
  show parse: "ParseClientHello cb (hello_bytes s) = Inr (expected_hello s)"
    using cryptobyte_laws.parse_hello_bytes [OF assms(1,3)] .
  have "length (hello_bytes s) < 2 ^ 24"
    using assms(3) by (simp add: hello_bytes_def spec_fits_def greased_def)
  then show "FindClientHello cb (message_stream [(MsgClientHello, hello_bytes s)] chunk) = Inr (Some (expected_hello s))"
    using message_stream_messages [OF _ _ assms(4,5), of "[(1, hello_bytes s)]"] parse
    by (simp add: FindClientHello_def)
qed

definition sample_spec :: ClientHelloSpec where
  "sample_spec = \<lparr>sp_LegacyVersion = 0, sp_Ciphers = [0x1301, 0x1302], sp_Compression = None, sp_SNI = ''a.example'',
     sp_ALPN = [''h2''], sp_SupportedVersions = [0x0304], sp_Groups = [0x11ec, 29], sp_KeyShares = [29],
     sp_SigAlgs = [0x0403], sp_ECH = True, sp_QUIC = False, sp_OmitExtensions = False, sp_NoGREASE = False\<rparr>"

lemma sample_spec_fits: "spec_fits sample_spec"
  by (simp add: spec_fits_def sample_spec_def spec_compression_def hello_exts_def exts_bytes_def sni_body_def
      alpn_body_def shares_body_def share_bytes_def KeyShareLen_def ech_body_def greased_def)

theorem client_hello_round_trip_witness:
  "\<exists>body. build_ClientHello builder_methods sample_spec = Some body \<and>
     ParseClientHello string_methods body = Inr (expected_hello sample_spec) \<and>
     ch_ServerName (expected_hello sample_spec) = ''a.example'' \<and> ch_GREASE (expected_hello sample_spec)"
  using client_hello_round_trip [OF sm.cryptobyte_laws_axioms bm.builder_laws_axioms sample_spec_fits, of 100]
  by (auto simp: expected_hello_def sample_spec_def Let_def)

text \<open>
  C7: a TLS 1.2 server flight is read whole. A ServerHello without a key share, a certificate chain,
  an ECDHE key exchange and a ServerHelloDone, cut into records of any admissible size, are reported
  as the ServerHello of the specification with the chain as sent, the group of the key exchange and
  the flight complete.
\<close>

theorem server_flight_round_trip:
  assumes "cryptobyte_laws cb" and "builder_laws bd" and "length (ss_ALPN s) \<le> 255"
    and "ss_Group s = 0" and "\<not> ss_HelloRetry s" and "KeyShareLen grp \<le> 255"
    and "chain \<noteq> []" and "list_all (\<lambda>der. length der < 2 ^ 24) chain" and "length (certs_bytes chain) < 2 ^ 24 - 3"
    and "0 < chunk" and "chunk \<le> 16640"
  shows "\<exists>sh cert ske. build_ServerHello bd s = Some sh \<and> CertificateMsg bd chain = Some cert \<and>
    ServerKeyExchangeECDHE bd grp = Some ske \<and>
    FindServerHello cb (message_stream
        [(MsgServerHello, sh), (MsgCertificate, cert), (MsgServerKeyExchange, ske), (MsgServerHelloDone, [])] chunk) =
      Inr (Some ((expected_server s)\<lparr>sh_CertificateChain := chain, sh_Group := grp,
        sh_GroupSource := GroupSourceServerKeyExchange, sh_FlightComplete := True\<rparr>))"
proof (intro exI conjI)
  have certs: "length (certs_bytes chain) < 2 ^ 24" using assms(9) by simp
  show "build_ServerHello bd s = Some (server_bytes s)"
    "CertificateMsg bd chain = Some (with_len24 (certs_bytes chain))"
    "ServerKeyExchangeECDHE bd grp = Some (ske_bytes grp)"
    using builder_laws.build_ServerHello_bytes [OF assms(2,3)] builder_laws.CertificateMsg_bytes [OF assms(2,8) certs]
      builder_laws.ServerKeyExchangeECDHE_bytes [OF assms(2,6)] by auto
  let ?ms = "[(2, server_bytes s), (11, with_len24 (certs_bytes chain)), (12, ske_bytes grp), (14 :: u8, [])]"
  have "length (server_bytes s) < 2 ^ 24"
    using length_server_exts [OF assms(3)] by (simp add: server_bytes_def server_random_def HelloRetryRequestRandom_def)
  moreover have "length (ske_bytes grp) < 2 ^ 24" using assms(6) by (simp add: ske_bytes_def)
  ultimately have msgs: "HandshakeMessages (message_stream ?ms chunk) = Inr (map (\<lambda>(t, body). \<lparr>msg_Type = t, msg_Body = body\<rparr>) ?ms)"
    by (intro message_stream_messages) (use assms(9-11) in simp_all)
  note parse = cryptobyte_laws.parse_server_bytes [OF assms(1,3)] cryptobyte_laws.parse_ske_bytes [OF assms(1)]
    cryptobyte_laws.parse_certs_bytes [OF assms(1,8) certs]
  show "FindServerHello cb (message_stream
        [(MsgServerHello, server_bytes s), (MsgCertificate, with_len24 (certs_bytes chain)),
         (MsgServerKeyExchange, ske_bytes grp), (MsgServerHelloDone, [])] chunk) =
      Inr (Some ((expected_server s)\<lparr>sh_CertificateChain := chain, sh_Group := grp,
        sh_GroupSource := GroupSourceServerKeyExchange, sh_FlightComplete := True\<rparr>))"
    using msgs assms(4,5,7)
    by (simp add: FindServerHello_def findServerHelloIn_def parse expected_server_def)
qed

theorem server_flight_round_trip_witness:
  "\<exists>sh cert ske. build_ServerHello builder_methods \<lparr>ss_LegacyVersion = 0x0303, ss_Cipher = 0xc02f, ss_SelectedVersion = 0,
       ss_Group = 0, ss_ALPN = ''h2'', ss_HelloRetry = False\<rparr> = Some sh \<and>
     CertificateMsg builder_methods [[1, 2, 3]] = Some cert \<and> ServerKeyExchangeECDHE builder_methods 29 = Some ske"
  using server_flight_round_trip [OF sm.cryptobyte_laws_axioms bm.builder_laws_axioms, of
    "\<lparr>ss_LegacyVersion = 0x0303, ss_Cipher = 0xc02f, ss_SelectedVersion = 0, ss_Group = 0, ss_ALPN = ''h2'',
      ss_HelloRetry = False\<rparr>" 29 "[[1, 2, 3]]" 64]
  by (auto simp: KeyShareLen_def certs_bytes_def)

end
