(* ===== verification/Assemble.thy ===== *)
theory Assemble
  imports Tls_Stream Quic_Keys Crypto_Stream
begin

text \<open>
  \<^verbatim>\<open>internal/assemble\<close>: the assembler that pairs the two directions of a connection into one
  handshake observation, over TCP streams (\<^verbatim>\<open>assembler.go\<close>) and QUIC flows (\<^verbatim>\<open>quic.go\<close>).

  Packet decoding and TCP reassembly are gopacket's, which is not part of the sources. The record
  \<open>gopacket\<close> is a parameter: \<open>gp_decode\<close> is what \<^verbatim>\<open>gopacket.NewPacket\<close> finds in a packet, and
  \<open>gp_callbacks\<close> gives, for the calls made on the reassembler so far, the callbacks the last of them
  makes. The handler of the assembler is represented by the list \<open>a_handled\<close> of the flows it was
  called with, in order. Times are nanoseconds from Go's zero time, so \<^verbatim>\<open>IsZero\<close> is \<open>= 0\<close>.
\<close>


subsection \<open>Addresses\<close>

text \<open>
  \<^verbatim>\<open>netip.Addr\<close> without zones: \<^verbatim>\<open>Compare\<close> orders by bit length, then by value.
\<close>

datatype addr = AddrNone | Addr4 u32 | Addr6 u128

fun addr_key :: "addr \<Rightarrow> nat \<times> nat" where
  "addr_key AddrNone = (0, 0)"
| "addr_key (Addr4 w) = (32, unat w)"
| "addr_key (Addr6 w) = (128, unat w)"

lemma addr_key_inj: "addr_key a = addr_key b \<longleftrightarrow> a = b"
  by (cases a; cases b) (simp_all add: word_unat_eq_iff)

instantiation addr :: linorder
begin

definition less_eq_addr :: "addr \<Rightarrow> addr \<Rightarrow> bool" where
  "less_eq_addr a b \<longleftrightarrow>
     fst (addr_key a) < fst (addr_key b) \<or>
     fst (addr_key a) = fst (addr_key b) \<and> snd (addr_key a) \<le> snd (addr_key b)"

definition less_addr :: "addr \<Rightarrow> addr \<Rightarrow> bool" where
  "less_addr a b \<longleftrightarrow> a \<le> b \<and> \<not> b \<le> (a :: addr)"

instance
proof
  fix a b c :: addr
  show "a < b \<longleftrightarrow> a \<le> b \<and> \<not> b \<le> a" by (simp add: less_addr_def)
  show "a \<le> a" by (simp add: less_eq_addr_def)
  show "a \<le> b \<Longrightarrow> b \<le> c \<Longrightarrow> a \<le> c" by (auto simp: less_eq_addr_def)
  show "a \<le> b \<Longrightarrow> b \<le> a \<Longrightarrow> a = b"
    by (auto simp: less_eq_addr_def addr_key_inj [symmetric] intro: prod_eqI)
  show "a \<le> b \<or> b \<le> a" by (auto simp: less_eq_addr_def)
qed

end

definition addr_Compare :: "addr \<Rightarrow> addr \<Rightarrow> int" where
  "addr_Compare a b = (if a < b then -1 else if a = b then 0 else 1)"

definition AddrFromSlice :: "bytes \<Rightarrow> addr" where
  "AddrFromSlice b =
     (if length b = 4 then Addr4 (be32 b) else if length b = 16 then Addr6 (be128 b) else AddrNone)"

text \<open>An IPv4-mapped IPv6 address is the IPv4 address.\<close>

fun Unmap :: "addr \<Rightarrow> addr" where
  "Unmap (Addr6 w) = (if drop_bit 32 w = 0xffff then Addr4 (ucast w) else Addr6 w)"
| "Unmap a = a"

text \<open>An endpoint is its raw bytes.\<close>

definition addrOf :: "bytes \<Rightarrow> addr" where
  "addrOf ep = Unmap (AddrFromSlice ep)"

definition portOf :: "bytes \<Rightarrow> u16" where
  "portOf ep = (if length ep \<noteq> 2 then 0 else push_bit 8 (ucast (ep ! 0)) OR ucast (ep ! 1))"


subsection \<open>Data\<close>

definition TransportTCP :: string where [simp]: "TransportTCP = ''tcp''"
definition TransportQUIC :: string where [simp]: "TransportQUIC = ''quic''"

record Flow =
  fl_Transport :: string
  fl_ClientIP :: addr
  fl_ServerIP :: addr
  fl_ClientPort :: u16
  fl_ServerPort :: u16
  fl_FirstSeen :: int
  fl_LastSeen :: int
  fl_Client :: "ClientHello option"
  fl_Server :: "ServerHello option"
  fl_PrefixTruncated :: bool

record Options =
  o_MaxStreamPrefix :: int
  o_CloseTimeout :: int
  o_MaxStreams :: int

definition DefaultMaxStreamPrefix :: int where "DefaultMaxStreamPrefix = 32 * 2 ^ 10"
definition DefaultCloseTimeout :: int where "DefaultCloseTimeout = 2 * 60 * 10 ^ 9"
definition minBytesBeforeReject :: nat where "minBytesBeforeReject = 16"
definition DefaultMaxStreams :: int where "DefaultMaxStreams = 8192"
definition pageBytes :: int where "pageBytes = 1900"
definition maxBufferedPagesTotal :: int where "maxBufferedPagesTotal = 4096"
definition minBufferedPagesPerConn :: int where "minBufferedPagesPerConn = 8"

definition setDefaults :: "Options \<Rightarrow> Options" where
  "setDefaults op =
     (let op = (if o_MaxStreamPrefix op \<le> 0 then op\<lparr>o_MaxStreamPrefix := DefaultMaxStreamPrefix\<rparr> else op);
          op = (if o_CloseTimeout op \<le> 0 then op\<lparr>o_CloseTimeout := DefaultCloseTimeout\<rparr> else op)
      in if o_MaxStreams op \<le> 0 then op\<lparr>o_MaxStreams := DefaultMaxStreams\<rparr> else op)"

record Stats =
  s_Packets :: int
  s_TCPPackets :: int
  s_UDPPackets :: int
  s_Streams :: int
  s_TLSFlows :: int
  s_RejectedTCP :: int
  s_StreamsDropped :: int
  s_LiveStreams :: int

definition zero_Stats :: Stats where
  "zero_Stats = \<lparr>s_Packets = 0, s_TCPPackets = 0, s_UDPPackets = 0, s_Streams = 0, s_TLSFlows = 0,
     s_RejectedTCP = 0, s_StreamsDropped = 0, s_LiveStreams = 0\<rparr>"

text \<open>The two directions of a stream are entries 0 and 1 of its arrays.\<close>

record stream =
  st_flow :: Flow
  st_buf :: "bytes list"
  st_full :: "bool list"
  st_clientIdx :: nat
  st_haveCH :: bool
  st_haveSH :: bool
  st_rejected :: bool
  st_emitted :: bool
  st_counted :: bool

record quicKey =
  qk_loAddr :: addr
  qk_hiAddr :: addr
  qk_loPort :: u16
  qk_hiPort :: u16

record quicFlow =
  q_flow :: Flow
  q_version :: u32
  q_origDCID :: bytes
  q_client :: cryptoStream
  q_server :: cryptoStream
  q_clientAddr :: addr
  q_clientPort :: u16
  q_haveCH :: bool
  q_haveSH :: bool
  q_emitted :: bool
  q_rejected :: bool

text \<open>What the assembler uses of a decoded packet, and of a TCP segment handed to reassembly.\<close>

record tcp =
  tcp_SYN :: bool
  tcp_Payload :: bytes
  tcp_SrcPort :: bytes
  tcp_DstPort :: bytes

record decoded =
  pk_net :: "(bytes \<times> bytes) option"
  pk_udp :: "(u16 \<times> u16 \<times> bytes) option"
  pk_tcp :: "tcp option"

datatype call = AssembleWithContext "bytes \<times> bytes" tcp int | FlushCloseOlderThan int | FlushAll

text \<open>
  The callbacks of a reassembler. A stream is named by its position among the streams the factory
  returned; \<open>ReassembledSG\<close> carries the direction (\<open>True\<close> from the client), the available bytes and
  the capture time of its context.
\<close>

datatype callback =
  CbNew "bytes \<times> bytes" "bytes \<times> bytes" "tcp option" int
| CbReassembledSG nat bool bytes int
| CbReassemblyComplete nat

record gopacket =
  gp_decode :: "bytes \<Rightarrow> nat \<Rightarrow> decoded"
  gp_callbacks :: "call list \<Rightarrow> callback list"

record Assembler =
  a_opts :: Options
  a_stats :: Stats
  a_streams :: "stream list"
  a_quicFlows :: "(quicKey \<times> quicFlow) list"
  a_lastTS :: int
  a_lastFlush :: int
  a_perConn :: int
  a_pagesTotal :: int
  a_calls :: "call list"
  a_handled :: "Flow list"

definition Assembler_New :: "Options \<Rightarrow> Assembler" where
  "Assembler_New opts =
     (let opts = setDefaults opts;
          perConn = o_MaxStreamPrefix opts div pageBytes + 2;
          perConn = (if perConn < minBufferedPagesPerConn then minBufferedPagesPerConn else perConn)
      in \<lparr>a_opts = opts, a_stats = zero_Stats, a_streams = [], a_quicFlows = [], a_lastTS = 0, a_lastFlush = 0,
          a_perConn = perConn, a_pagesTotal = maxBufferedPagesTotal, a_calls = [], a_handled = []\<rparr>)"


subsection \<open>TCP streams\<close>

definition st_emit :: "stream \<Rightarrow> Assembler \<Rightarrow> stream \<times> Assembler" where
  "st_emit s a =
     (if st_emitted s \<or> fl_Client (st_flow s) = None then (s, a)
      else (s\<lparr>st_emitted := True\<rparr>,
            a\<lparr>a_stats := (a_stats a)\<lparr>s_TLSFlows := s_TLSFlows (a_stats a) + 1\<rparr>,
              a_handled := a_handled a @ [st_flow s]\<rparr>))"

definition st_reject :: "stream \<Rightarrow> Assembler \<Rightarrow> stream \<times> Assembler" where
  "st_reject s a =
     (s\<lparr>st_rejected := True, st_buf := [[], []]\<rparr>,
      a\<lparr>a_stats := (a_stats a)\<lparr>s_RejectedTCP := s_RejectedTCP (a_stats a) + 1\<rparr>\<rparr>)"

text \<open>The factory returns no stream for a payload-free packet that is not a SYN.\<close>

definition factory_New ::
  "Assembler \<Rightarrow> bytes \<times> bytes \<Rightarrow> bytes \<times> bytes \<Rightarrow> tcp option \<Rightarrow> int \<Rightarrow> stream option \<times> Assembler" where
  "factory_New a netFlow tcpFlow t ts =
     (if (case t of None \<Rightarrow> False | Some t \<Rightarrow> \<not> tcp_SYN t \<and> length (tcp_Payload t) = 0) then (None, a)
      else
        (let st = a_stats a;
             st = st\<lparr>s_Streams := s_Streams st + 1\<rparr>;
             over = s_LiveStreams st \<ge> o_MaxStreams (a_opts a);
             st = (if over then st\<lparr>s_StreamsDropped := s_StreamsDropped st + 1\<rparr>
                   else st\<lparr>s_LiveStreams := s_LiveStreams st + 1\<rparr>)
         in (Some \<lparr>st_flow = \<lparr>fl_Transport = TransportTCP, fl_ClientIP = addrOf (fst netFlow),
                     fl_ServerIP = addrOf (snd netFlow), fl_ClientPort = portOf (fst tcpFlow),
                     fl_ServerPort = portOf (snd tcpFlow), fl_FirstSeen = ts, fl_LastSeen = ts,
                     fl_Client = None, fl_Server = None, fl_PrefixTruncated = False\<rparr>,
                   st_buf = [[], []], st_full = [False, False], st_clientIdx = 0, st_haveCH = False,
                   st_haveSH = False, st_rejected = over, st_emitted = False, st_counted = \<not> over\<rparr>,
             a\<lparr>a_stats := st\<rparr>)))"

text \<open>The first part of \<^verbatim>\<open>parse\<close>: the direction that carries a ClientHello, tried in order.\<close>

fun st_findClient :: "cryptobyte \<Rightarrow> nat list \<Rightarrow> stream \<Rightarrow> stream" where
  "st_findClient cb [] s = s"
| "st_findClient cb (i # is) s =
     (case FindClientHello cb (st_buf s ! i) of
        Inr (Some ch) \<Rightarrow>
          (let f = (st_flow s)\<lparr>fl_Client := Some ch\<rparr>;
               f = (if i \<noteq> 0 then
                      f\<lparr>fl_ClientIP := fl_ServerIP f, fl_ServerIP := fl_ClientIP f,
                        fl_ClientPort := fl_ServerPort f, fl_ServerPort := fl_ClientPort f\<rparr>
                    else f)
           in s\<lparr>st_haveCH := True, st_clientIdx := i, st_flow := f\<rparr>)
      | _ \<Rightarrow> st_findClient cb is s)"

definition st_findServer :: "cryptobyte \<Rightarrow> stream \<Rightarrow> Assembler \<Rightarrow> stream \<times> Assembler" where
  "st_findServer cb s a =
     (let j = 1 - st_clientIdx s in
      case FindServerHello cb (st_buf s ! j) of
        Inr (Some sh) \<Rightarrow>
          (let s = s\<lparr>st_haveSH := True, st_flow := (st_flow s)\<lparr>fl_Server := Some sh\<rparr>\<rparr>
           in if sh_FlightComplete sh then st_emit s a else (s, a))
      | _ \<Rightarrow> (s, a))"

definition st_parse :: "cryptobyte \<Rightarrow> stream \<Rightarrow> Assembler \<Rightarrow> stream \<times> Assembler" where
  "st_parse cb s a =
     (let s = (if \<not> st_haveCH s then st_findClient cb [0, 1] s else s);
          (s, a) = (if st_haveCH s \<and> \<not> st_haveSH s then st_findServer cb s a else (s, a))
      in if st_haveCH s then (s, a)
         else if st_full s ! 0 \<and> st_full s ! 1 then st_reject s a
         else if list_all (\<lambda>i. \<not> length (st_buf s ! i) < minBytesBeforeReject \<and>
                               FindClientHello cb (st_buf s ! i) = Inl ErrNotTLS) [0, 1]
              then st_reject s a
              else (s, a))"

definition dirIndex :: "bool \<Rightarrow> nat" where
  "dirIndex clientToServer = (if clientToServer then 0 else 1)"

definition st_ReassembledSG ::
  "cryptobyte \<Rightarrow> stream \<Rightarrow> Assembler \<Rightarrow> bool \<Rightarrow> bytes \<Rightarrow> int \<Rightarrow> stream \<times> Assembler" where
  "st_ReassembledSG cb s a dir data ts =
     (if length data = 0 \<or> st_rejected s \<or> (st_haveCH s \<and> st_haveSH s) then (s, a)
      else
        (let i = dirIndex dir;
             s = (if ts > fl_LastSeen (st_flow s) then s\<lparr>st_flow := (st_flow s)\<lparr>fl_LastSeen := ts\<rparr>\<rparr> else s);
             room = o_MaxStreamPrefix (a_opts a) - int (length (st_buf s ! i));
             truncate = (\<lambda>s. s\<lparr>st_full := (st_full s)[i := True],
                               st_flow := (st_flow s)\<lparr>fl_PrefixTruncated := True\<rparr>\<rparr>);
             s = (if room > 0 then
                    (if int (length data) > room then
                       (truncate s)\<lparr>st_buf := (st_buf s)[i := st_buf s ! i @ take (nat room) data]\<rparr>
                     else s\<lparr>st_buf := (st_buf s)[i := st_buf s ! i @ data]\<rparr>)
                  else truncate s)
         in st_parse cb s a))"

definition st_ReassemblyComplete :: "stream \<Rightarrow> Assembler \<Rightarrow> stream \<times> Assembler" where
  "st_ReassemblyComplete s a =
     (let (s, a) = st_emit s a in
      if st_counted s then
        (s\<lparr>st_counted := False\<rparr>,
         a\<lparr>a_stats := (a_stats a)\<lparr>s_LiveStreams := s_LiveStreams (a_stats a) - 1\<rparr>\<rparr>)
      else (s, a))"

definition run_callback :: "cryptobyte \<Rightarrow> Assembler \<Rightarrow> callback \<Rightarrow> Assembler" where
  "run_callback cb a c =
     (case c of
        CbNew netFlow tcpFlow t ts \<Rightarrow>
          (case factory_New a netFlow tcpFlow t ts of
             (None, a) \<Rightarrow> a
           | (Some s, a) \<Rightarrow> a\<lparr>a_streams := a_streams a @ [s]\<rparr>)
      | CbReassembledSG i dir data ts \<Rightarrow>
          if i < length (a_streams a) then
            (case st_ReassembledSG cb (a_streams a ! i) a dir data ts of
               (s, a) \<Rightarrow> a\<lparr>a_streams := (a_streams a)[i := s]\<rparr>)
          else a
      | CbReassemblyComplete i \<Rightarrow>
          if i < length (a_streams a) then
            (case st_ReassemblyComplete (a_streams a ! i) a of
               (s, a) \<Rightarrow> a\<lparr>a_streams := (a_streams a)[i := s]\<rparr>)
          else a)"

text \<open>A call on gopacket's assembler runs the callbacks it makes.\<close>

definition run_call :: "cryptobyte \<Rightarrow> gopacket \<Rightarrow> Assembler \<Rightarrow> call \<Rightarrow> Assembler" where
  "run_call cb gp a c =
     (let a = a\<lparr>a_calls := a_calls a @ [c]\<rparr>
      in foldl (run_callback cb) a (gp_callbacks gp (a_calls a)))"


subsection \<open>QUIC flows\<close>

definition makeQUICKey :: "addr \<Rightarrow> u16 \<Rightarrow> addr \<Rightarrow> u16 \<Rightarrow> quicKey" where
  "makeQUICKey a ap b bp =
     (let (a, b, ap, bp) =
            (if addr_Compare a b > 0 \<or> (a = b \<and> ap > bp) then (b, a, bp, ap) else (a, b, ap, bp))
      in \<lparr>qk_loAddr = a, qk_hiAddr = b, qk_loPort = ap, qk_hiPort = bp\<rparr>)"

definition emitQUIC :: "Assembler \<Rightarrow> quicFlow \<Rightarrow> quicFlow \<times> Assembler" where
  "emitQUIC a f =
     (if q_emitted f \<or> fl_Client (q_flow f) = None then (f, a)
      else (f\<lparr>q_emitted := True\<rparr>,
            a\<lparr>a_stats := (a_stats a)\<lparr>s_TLSFlows := s_TLSFlows (a_stats a) + 1\<rparr>,
              a_handled := a_handled a @ [q_flow f]\<rparr>))"

definition quicParse :: "cryptobyte \<Rightarrow> Assembler \<Rightarrow> quicFlow \<Rightarrow> quicFlow \<times> Assembler" where
  "quicParse cb a f =
     (let f = (if \<not> q_haveCH f then
                 (case FindClientHelloRaw cb (cs_prefix (q_client f)) of
                    Inr (Some ch) \<Rightarrow> f\<lparr>q_haveCH := True, q_flow := (q_flow f)\<lparr>fl_Client := Some ch\<rparr>\<rparr>
                  | _ \<Rightarrow> f)
               else f)
      in if q_haveCH f \<and> \<not> q_haveSH f then
           (case FindServerHelloRaw cb (cs_prefix (q_server f)) of
              Inr (Some sh) \<Rightarrow>
                (let f = f\<lparr>q_haveSH := True, q_flow := (q_flow f)\<lparr>fl_Server := Some sh\<rparr>\<rparr>
                 in if sh_FlightComplete sh then emitQUIC a f else (f, a))
            | _ \<Rightarrow> (f, a))
         else (f, a))"

text \<open>
  What \<^verbatim>\<open>quicPacket\<close> does with the flow of a packet once it is known: the part after the lookup
  or creation of the flow.
\<close>

definition quicFlowPacket ::
  "cryptobyte \<Rightarrow> Assembler \<Rightarrow> quicFlow \<Rightarrow> LongHeader \<Rightarrow> addr \<Rightarrow> u16 \<Rightarrow> bytes \<Rightarrow> int \<Rightarrow> quicFlow \<times> Assembler" where
  "quicFlowPacket cb a f h src sport payload ts =
     (if q_rejected f \<or> q_emitted f then (f, a)
      else
        (let f = (if ts > fl_LastSeen (q_flow f) then f\<lparr>q_flow := (q_flow f)\<lparr>fl_LastSeen := ts\<rparr>\<rparr> else f);
             fromClient = (src = q_clientAddr f \<and> sport = q_clientPort f)
         in case DeriveInitialKeys (q_version f) (q_origDCID f) (\<not> fromClient) of
              Inl _ \<Rightarrow> (f\<lparr>q_rejected := True\<rparr>, a)
            | Inr keys \<Rightarrow>
                (case Open payload h keys of
                   Inl _ \<Rightarrow> (f, a)
                 | Inr (_, plaintext) \<Rightarrow>
                     (let fs = map (\<lambda>fr. (cf_Offset fr, cf_Data fr)) (CryptoFrames plaintext);
                          f = (if fromClient then f\<lparr>q_client := cs_add_all (q_client f) fs\<rparr>
                               else f\<lparr>q_server := cs_add_all (q_server f) fs\<rparr>)
                      in quicParse cb a f))))"

definition new_quicFlow :: "LongHeader \<Rightarrow> addr \<Rightarrow> addr \<Rightarrow> u16 \<Rightarrow> u16 \<Rightarrow> int \<Rightarrow> quicFlow" where
  "new_quicFlow h src dst sport dport ts =
     \<lparr>q_flow = \<lparr>fl_Transport = TransportQUIC, fl_ClientIP = src, fl_ServerIP = dst, fl_ClientPort = sport,
        fl_ServerPort = dport, fl_FirstSeen = ts, fl_LastSeen = ts, fl_Client = None, fl_Server = None,
        fl_PrefixTruncated = False\<rparr>,
      q_version = lh_Version h, q_origDCID = lh_DCID h, q_client = empty_cryptoStream,
      q_server = empty_cryptoStream, q_clientAddr = src, q_clientPort = sport, q_haveCH = False,
      q_haveSH = False, q_emitted = False, q_rejected = False\<rparr>"

definition quicPacket ::
  "cryptobyte \<Rightarrow> Assembler \<Rightarrow> addr \<Rightarrow> addr \<Rightarrow> u16 \<Rightarrow> u16 \<Rightarrow> bytes \<Rightarrow> int \<Rightarrow> Assembler" where
  "quicPacket cb a src dst sport dport payload ts =
     (if \<not> IsLongHeader payload then a
      else
        (case ParseLongHeader payload of
           Inl _ \<Rightarrow> a
         | Inr h \<Rightarrow>
             if lh_Type h \<noteq> TypeInitial \<or> \<not> Supported (lh_Version h) then a
             else
               (let key = makeQUICKey src sport dst dport in
                case map_of (a_quicFlows a) key of
                  Some f \<Rightarrow>
                    (case quicFlowPacket cb a f h src sport payload ts of
                       (f, a) \<Rightarrow> a\<lparr>a_quicFlows := map_put key f (a_quicFlows a)\<rparr>)
                | None \<Rightarrow>
                    if int (length (a_quicFlows a)) \<ge> o_MaxStreams (a_opts a) then
                      a\<lparr>a_stats := (a_stats a)\<lparr>s_StreamsDropped := s_StreamsDropped (a_stats a) + 1\<rparr>\<rparr>
                    else
                      (let f = new_quicFlow h src dst sport dport ts;
                           a = a\<lparr>a_stats := (a_stats a)\<lparr>s_Streams := s_Streams (a_stats a) + 1,
                                   s_LiveStreams := s_LiveStreams (a_stats a) + 1\<rparr>\<rparr>
                       in case quicFlowPacket cb a f h src sport payload ts of
                            (f, a) \<Rightarrow> a\<lparr>a_quicFlows := map_put key f (a_quicFlows a)\<rparr>))))"

text \<open>
  Deleting while ranging over the map visits every entry once, in an unspecified order; here it is
  the order of the list.
\<close>

fun flushQUIC_loop :: "(quicKey \<times> quicFlow) list \<Rightarrow> int \<Rightarrow> Assembler \<Rightarrow> (quicKey \<times> quicFlow) list \<times> Assembler" where
  "flushQUIC_loop [] t a = ([], a)"
| "flushQUIC_loop ((key, f) # m) t a =
     (if fl_LastSeen (q_flow f) > t then
        (case flushQUIC_loop m t a of (m, a) \<Rightarrow> ((key, f) # m, a))
      else
        (case emitQUIC a f of
           (_, a) \<Rightarrow> flushQUIC_loop m t (a\<lparr>a_stats := (a_stats a)\<lparr>s_LiveStreams := s_LiveStreams (a_stats a) - 1\<rparr>\<rparr>)))"

definition flushQUIC :: "Assembler \<Rightarrow> int \<Rightarrow> Assembler" where
  "flushQUIC a t = (case flushQUIC_loop (a_quicFlows a) t a of (m, a) \<Rightarrow> a\<lparr>a_quicFlows := m\<rparr>)"


subsection \<open>The assembler\<close>

definition trackTime :: "Assembler \<Rightarrow> int \<Rightarrow> Assembler" where
  "trackTime a ts =
     (let a = (if ts > a_lastTS a then a\<lparr>a_lastTS := ts\<rparr> else a)
      in if a_lastFlush a = 0 then a\<lparr>a_lastFlush := ts\<rparr> else a)"

definition Packet :: "cryptobyte \<Rightarrow> gopacket \<Rightarrow> Assembler \<Rightarrow> bytes \<Rightarrow> int \<Rightarrow> nat \<Rightarrow> Assembler" where
  "Packet cb gp a data ts linkType =
     (let a = a\<lparr>a_stats := (a_stats a)\<lparr>s_Packets := s_Packets (a_stats a) + 1\<rparr>\<rparr>;
          pkt = gp_decode gp data linkType
      in case pk_net pkt of
           None \<Rightarrow> a
         | Some net \<Rightarrow>
             (case pk_udp pkt of
                Some (sport, dport, payload) \<Rightarrow>
                  if length payload = 0 then a
                  else
                    (let a = a\<lparr>a_stats := (a_stats a)\<lparr>s_UDPPackets := s_UDPPackets (a_stats a) + 1\<rparr>\<rparr>;
                         a = quicPacket cb a (addrOf (fst net)) (addrOf (snd net)) sport dport payload ts
                     in trackTime a ts)
              | None \<Rightarrow>
                  (case pk_tcp pkt of
                     None \<Rightarrow> a
                   | Some t \<Rightarrow>
                       (let a = a\<lparr>a_stats := (a_stats a)\<lparr>s_TCPPackets := s_TCPPackets (a_stats a) + 1\<rparr>\<rparr>;
                            a = trackTime a ts;
                            a = run_call cb gp a (AssembleWithContext net t ts);
                            a = (if a_lastFlush a = 0 then a\<lparr>a_lastFlush := ts\<rparr> else a)
                        in if ts - a_lastFlush a \<ge> o_CloseTimeout (a_opts a) then
                             (let a = run_call cb gp a (FlushCloseOlderThan (ts - o_CloseTimeout (a_opts a)));
                                  a = flushQUIC a (ts - o_CloseTimeout (a_opts a))
                              in a\<lparr>a_lastFlush := ts\<rparr>)
                           else a))))"

definition FlushOlderThan :: "cryptobyte \<Rightarrow> gopacket \<Rightarrow> Assembler \<Rightarrow> int \<Rightarrow> Assembler" where
  "FlushOlderThan cb gp a t = flushQUIC (run_call cb gp a (FlushCloseOlderThan t)) t"

definition Close :: "cryptobyte \<Rightarrow> gopacket \<Rightarrow> Assembler \<Rightarrow> int \<Rightarrow> Assembler" where
  "Close cb gp a now = flushQUIC (run_call cb gp a FlushAll) (now + 3600 * 10 ^ 9)"

end
