(* ===== verification/Assemble_Inv.thy ===== *)
theory Assemble_Inv
  imports Assemble
begin

text \<open>
  Invariants of the assembler: what every callback of the reassembler and every operation keeps of
  a stream, of a QUIC flow and of the whole, for any behaviour of the reassembler.
\<close>


subsection \<open>One stream\<close>

definition stream_inv :: "Options \<Rightarrow> stream \<Rightarrow> bool" where
  "stream_inv op s \<longleftrightarrow>
     length (st_buf s) = 2 \<and> length (st_full s) = 2 \<and> st_clientIdx s < 2 \<and>
     int (length (st_buf s ! 0)) \<le> o_MaxStreamPrefix op \<and> int (length (st_buf s ! 1)) \<le> o_MaxStreamPrefix op \<and>
     (st_rejected s \<longrightarrow> st_buf s = [[], []] \<and> \<not> st_haveCH s) \<and>
     (st_haveCH s \<longleftrightarrow> fl_Client (st_flow s) \<noteq> None) \<and>
     (st_haveSH s \<longleftrightarrow> fl_Server (st_flow s) \<noteq> None) \<and>
     (st_haveSH s \<longrightarrow> st_haveCH s) \<and> (st_emitted s \<longrightarrow> st_haveCH s) \<and>
     fl_Transport (st_flow s) = TransportTCP \<and> fl_FirstSeen (st_flow s) \<le> fl_LastSeen (st_flow s)"

text \<open>
  The effect of an operation of a stream on the assembler: at most one call of the handler, with the
  flow as it is then, and only when the stream was not emitted before.
\<close>

definition st_effect :: "stream \<Rightarrow> Assembler \<Rightarrow> stream \<Rightarrow> Assembler \<Rightarrow> bool" where
  "st_effect s a s' a' \<longleftrightarrow>
     (let new = st_emitted s' \<and> \<not> st_emitted s in
      (st_emitted s \<longrightarrow> st_emitted s') \<and> (st_counted s' \<longrightarrow> st_counted s) \<and>
      a_opts a' = a_opts a \<and> a_streams a' = a_streams a \<and> a_quicFlows a' = a_quicFlows a \<and>
      a_handled a' = a_handled a @ (if new then [st_flow s'] else []) \<and>
      s_TLSFlows (a_stats a') = s_TLSFlows (a_stats a) + (if new then 1 else 0) \<and>
      a_calls a' = a_calls a \<and> s_Streams (a_stats a') = s_Streams (a_stats a) \<and>
      s_LiveStreams (a_stats a') =
        s_LiveStreams (a_stats a) - (if st_counted s \<and> \<not> st_counted s' then 1 else 0))"

lemma st_effect_refl [simp]: "st_effect s a s a"
  by (simp add: st_effect_def)

lemma st_emit_ok:
  assumes "stream_inv op s" and "st_emit s a = (s', a')"
  shows "stream_inv op s' \<and> st_effect s a s' a' \<and> s' = s\<lparr>st_emitted := st_emitted s \<or> st_haveCH s\<rparr>"
proof (cases "st_emitted s \<or> fl_Client (st_flow s) = None")
  case True
  then have "s' = s" "a' = a" using assms(2) by (simp_all add: st_emit_def)
  with True assms(1) show ?thesis by (cases s) (auto simp: stream_inv_def)
next
  case False
  then have eq: "s' = s\<lparr>st_emitted := True\<rparr>"
    "a' = a\<lparr>a_stats := (a_stats a)\<lparr>s_TLSFlows := s_TLSFlows (a_stats a) + 1\<rparr>,
            a_handled := a_handled a @ [st_flow s]\<rparr>"
    using assms(2) unfolding st_emit_def by (simp_all only: if_False prod.inject)
  have CH: "st_haveCH s" using False assms(1) by (simp add: stream_inv_def)
  then have "stream_inv op s'" using assms(1) by (simp add: eq stream_inv_def)
  moreover have "st_effect s a s' a'" using False by (simp add: eq st_effect_def)
  ultimately show ?thesis using CH by (simp add: eq)
qed

lemma st_reject_ok:
  assumes "stream_inv op s" and "\<not> st_haveCH s" and "0 < o_MaxStreamPrefix op" and "st_reject s a = (s', a')"
  shows "stream_inv op s' \<and> st_effect s a s' a'"
  using assms by (auto simp: st_reject_def stream_inv_def st_effect_def)

lemma st_findClient_ok:
  "stream_inv op s \<Longrightarrow> \<not> st_haveCH s \<Longrightarrow> \<not> st_rejected s \<Longrightarrow> set is \<subseteq> {0, 1} \<Longrightarrow>
   stream_inv op (st_findClient cb is s) \<and> st_emitted (st_findClient cb is s) = st_emitted s \<and>
   st_counted (st_findClient cb is s) = st_counted s \<and> \<not> st_rejected (st_findClient cb is s)"
  by (induction cb "is" s rule: st_findClient.induct)
    (auto simp: Let_def stream_inv_def split: sum.splits option.splits)

lemma st_findServer_ok:
  assumes "stream_inv op s" and "st_haveCH s" and "st_findServer cb s a = (s', a')"
  shows "stream_inv op s' \<and> st_effect s a s' a' \<and> st_haveCH s'"
proof (cases "FindServerHello cb (st_buf s ! (1 - st_clientIdx s))")
  case (Inr r)
  show ?thesis
  proof (cases r)
    case (Some sh)
    let ?s = "s\<lparr>st_haveSH := True, st_flow := (st_flow s)\<lparr>fl_Server := Some sh\<rparr>\<rparr>"
    have inv: "stream_inv op ?s" using assms(1,2) by (auto simp: stream_inv_def)
    show ?thesis
    proof (cases "sh_FlightComplete sh")
      case True
      then have "st_emit ?s a = (s', a')" using assms(3) Inr Some by (simp add: st_findServer_def)
      with inv have e: "stream_inv op s' \<and> st_effect ?s a s' a' \<and> s' = ?s\<lparr>st_emitted := st_emitted ?s \<or> st_haveCH ?s\<rparr>"
        by (rule st_emit_ok)
      then show ?thesis using assms(2) by (auto simp: st_effect_def)
    next
      case False
      then show ?thesis using assms Inr Some inv by (auto simp: st_findServer_def st_effect_def)
    qed
  qed (use assms Inr in \<open>simp add: st_findServer_def\<close>)
qed (use assms in \<open>simp add: st_findServer_def\<close>)

lemma st_parse_ok:
  assumes "stream_inv op s" and "\<not> st_rejected s" and "0 < o_MaxStreamPrefix op" and "st_parse cb s a = (s', a')"
  shows "stream_inv op s' \<and> st_effect s a s' a'"
proof -
  define t where "t = (if \<not> st_haveCH s then st_findClient cb [0, 1] s else s)"
  have t: "stream_inv op t" "st_emitted t = st_emitted s" "st_counted t = st_counted s"
    using st_findClient_ok [OF assms(1) _ assms(2), of "[0, 1]" cb] assms(1) by (auto simp: t_def)
  have eff: "st_effect t a x b \<Longrightarrow> st_effect s a x b" for x b
    using t by (simp add: st_effect_def)
  obtain u b where u: "(if st_haveCH t \<and> \<not> st_haveSH t then st_findServer cb t a else (t, a)) = (u, b)"
    by fastforce
  have ub: "stream_inv op u \<and> st_effect t a u b \<and> st_haveCH u = st_haveCH t \<and> (\<not> st_haveCH t \<longrightarrow> u = t \<and> b = a)"
    using u t st_findServer_ok [of op t cb a u b] by (auto split: if_splits)
  have res: "(s', a') = (u, b) \<or> \<not> st_haveCH u \<and> st_reject u b = (s', a')"
    using assms(4) u unfolding st_parse_def t_def [symmetric] Let_def by (auto split: if_splits)
  then show ?thesis
  proof
    assume "(s', a') = (u, b)"
    with ub eff show ?thesis by auto
  next
    assume r: "\<not> st_haveCH u \<and> st_reject u b = (s', a')"
    then have "stream_inv op s' \<and> st_effect u b s' a'" using st_reject_ok ub assms(3) by blast
    with r ub eff show ?thesis by auto
  qed
qed

lemma st_ReassembledSG_ok:
  assumes "stream_inv (a_opts a) s" and "0 < o_MaxStreamPrefix (a_opts a)"
    and "st_ReassembledSG cb s a dir data ts = (s', a')"
  shows "stream_inv (a_opts a) s' \<and> st_effect s a s' a'"
proof (cases "length data = 0 \<or> st_rejected s \<or> (st_haveCH s \<and> st_haveSH s)")
  case True
  then show ?thesis using assms by (simp add: st_ReassembledSG_def)
next
  case False
  let ?op = "a_opts a" and ?i = "dirIndex dir"
  have i: "?i = 0 \<or> ?i = 1" by (simp add: dirIndex_def)
  define t where "t = (if ts > fl_LastSeen (st_flow s) then s\<lparr>st_flow := (st_flow s)\<lparr>fl_LastSeen := ts\<rparr>\<rparr> else s)"
  have t: "stream_inv ?op t" "st_emitted t = st_emitted s" "st_counted t = st_counted s" "\<not> st_rejected t"
    using assms(1) False by (auto simp: t_def stream_inv_def)
  define room where "room = o_MaxStreamPrefix ?op - int (length (st_buf t ! ?i))"
  define trunc where "trunc = (\<lambda>s :: stream. s\<lparr>st_full := (st_full s)[?i := True],
      st_flow := (st_flow s)\<lparr>fl_PrefixTruncated := True\<rparr>\<rparr>)"
  define u where "u = (if room > 0 then
       (if int (length data) > room then (trunc t)\<lparr>st_buf := (st_buf t)[?i := st_buf t ! ?i @ take (nat room) data]\<rparr>
        else t\<lparr>st_buf := (st_buf t)[?i := st_buf t ! ?i @ data]\<rparr>)
     else trunc t)"
  have trunc: "stream_inv ?op x \<Longrightarrow> stream_inv ?op (trunc x)"
    "st_emitted (trunc x) = st_emitted x" "st_counted (trunc x) = st_counted x"
    "st_rejected (trunc x) = st_rejected x" "st_buf (trunc x) = st_buf x" for x
    by (auto simp: trunc_def stream_inv_def)
  have buf: "stream_inv ?op (x\<lparr>st_buf := (st_buf t)[?i := d]\<rparr>)"
    if "stream_inv ?op x" "st_buf x = st_buf t" "\<not> st_rejected x" "int (length d) \<le> o_MaxStreamPrefix ?op" for x d
    using that i by (auto simp: stream_inv_def)
  have fits: "int (length (st_buf t ! ?i @ take (nat room) data)) \<le> o_MaxStreamPrefix ?op"
    "int (length data) \<le> room \<Longrightarrow> int (length (st_buf t ! ?i @ data)) \<le> o_MaxStreamPrefix ?op" if "room > 0"
    using that by (auto simp: room_def)
  have "stream_inv ?op u" "st_emitted u = st_emitted s" "st_counted u = st_counted s" "\<not> st_rejected u"
    using t trunc fits buf [of t] buf [of "trunc t"] by (auto simp: u_def)
  moreover have "st_parse cb u a = (s', a')"
    using assms(3) False unfolding st_ReassembledSG_def Let_def t_def [symmetric] room_def [symmetric]
    by (simp only: if_False u_def trunc_def)
  ultimately show ?thesis
    using st_parse_ok [of ?op u cb a s' a'] assms(2) by (auto simp: st_effect_def Let_def)
qed

lemma st_ReassemblyComplete_ok:
  assumes "stream_inv op s" and "st_ReassemblyComplete s a = (s', a')"
  shows "stream_inv op s' \<and> st_effect s a s' a' \<and> \<not> st_counted s'"
proof -
  obtain t b where t: "st_emit s a = (t, b)" by fastforce
  then have e: "stream_inv op t \<and> st_effect s a t b \<and> t = s\<lparr>st_emitted := st_emitted s \<or> st_haveCH s\<rparr>"
    using assms(1) st_emit_ok by blast
  then have "stream_inv op (t\<lparr>st_counted := False\<rparr>)" by (auto simp: stream_inv_def)
  with e t assms(2) show ?thesis
    by (auto simp: st_ReassemblyComplete_def st_effect_def Let_def split: if_splits)
qed



subsection \<open>One QUIC flow\<close>

definition quic_inv :: "quicFlow \<Rightarrow> bool" where
  "quic_inv f \<longleftrightarrow>
     cs_inv (q_client f) \<and> cs_inv (q_server f) \<and>
     (q_haveCH f \<longleftrightarrow> fl_Client (q_flow f) \<noteq> None) \<and> (q_haveSH f \<longleftrightarrow> fl_Server (q_flow f) \<noteq> None) \<and>
     (q_haveSH f \<longrightarrow> q_haveCH f) \<and> (q_emitted f \<longrightarrow> q_haveCH f) \<and>
     fl_Transport (q_flow f) = TransportQUIC \<and> fl_FirstSeen (q_flow f) \<le> fl_LastSeen (q_flow f)"

definition q_effect :: "quicFlow \<Rightarrow> Assembler \<Rightarrow> quicFlow \<Rightarrow> Assembler \<Rightarrow> bool" where
  "q_effect f a f' a' \<longleftrightarrow>
     (let new = q_emitted f' \<and> \<not> q_emitted f in
      (q_emitted f \<longrightarrow> q_emitted f') \<and>
      a_opts a' = a_opts a \<and> a_streams a' = a_streams a \<and> a_quicFlows a' = a_quicFlows a \<and>
      a_handled a' = a_handled a @ (if new then [q_flow f'] else []) \<and>
      s_TLSFlows (a_stats a') = s_TLSFlows (a_stats a) + (if new then 1 else 0) \<and>
      a_calls a' = a_calls a \<and> s_Streams (a_stats a') = s_Streams (a_stats a) \<and>
      s_LiveStreams (a_stats a') = s_LiveStreams (a_stats a))"

lemma q_effect_refl [simp]: "q_effect f a f a"
  by (simp add: q_effect_def)

lemma emitQUIC_ok:
  assumes "quic_inv f" and "emitQUIC a f = (f', a')"
  shows "quic_inv f' \<and> q_effect f a f' a'"
proof (cases "q_emitted f \<or> fl_Client (q_flow f) = None")
  case True
  then show ?thesis using assms by (simp add: emitQUIC_def)
next
  case False
  then have eq: "f' = f\<lparr>q_emitted := True\<rparr>"
    "a' = a\<lparr>a_stats := (a_stats a)\<lparr>s_TLSFlows := s_TLSFlows (a_stats a) + 1\<rparr>,
            a_handled := a_handled a @ [q_flow f]\<rparr>"
    using assms(2) unfolding emitQUIC_def by (simp_all only: if_False prod.inject)
  have "quic_inv f'" using assms(1) False by (simp add: eq quic_inv_def)
  moreover have "q_effect f a f' a'" using False by (simp add: eq q_effect_def)
  ultimately show ?thesis by blast
qed

lemma quicParse_ok:
  assumes "quic_inv f" and "quicParse cb a f = (f', a')"
  shows "quic_inv f' \<and> q_effect f a f' a'"
proof -
  define t where "t = (if \<not> q_haveCH f then
                 (case FindClientHelloRaw cb (cs_prefix (q_client f)) of
                    Inr (Some ch) \<Rightarrow> f\<lparr>q_haveCH := True, q_flow := (q_flow f)\<lparr>fl_Client := Some ch\<rparr>\<rparr>
                  | _ \<Rightarrow> f)
               else f)"
  have t: "quic_inv t" "q_emitted t = q_emitted f"
    using assms(1) by (auto simp: t_def quic_inv_def split: sum.splits option.splits)
  have "quic_inv f' \<and> q_effect t a f' a'"
  proof (cases "q_haveCH t \<and> \<not> q_haveSH t")
    case True
    show ?thesis
    proof (cases "\<exists>sh. FindServerHelloRaw cb (cs_prefix (q_server t)) = Inr (Some sh)")
      case sh: True
      then obtain sh where sh: "FindServerHelloRaw cb (cs_prefix (q_server t)) = Inr (Some sh)" by blast
      let ?u = "t\<lparr>q_haveSH := True, q_flow := (q_flow t)\<lparr>fl_Server := Some sh\<rparr>\<rparr>"
      have u: "quic_inv ?u" using t True by (simp add: quic_inv_def)
      have "(if sh_FlightComplete sh then emitQUIC a ?u else (?u, a)) = (f', a')"
        using assms(2) True sh unfolding quicParse_def t_def [symmetric] Let_def by simp
      then have "quic_inv f' \<and> q_effect ?u a f' a'"
        using emitQUIC_ok [OF u, of a] u by (auto split: if_splits)
      then show ?thesis by (simp add: q_effect_def)
    next
      case False
      then have "(f', a') = (t, a)"
        using assms(2) True unfolding quicParse_def t_def [symmetric] Let_def
        by (auto split: sum.splits option.splits)
      with t show ?thesis by simp
    qed
  next
    case False
    then have "(f', a') = (t, a)"
      using assms(2) unfolding quicParse_def t_def [symmetric] Let_def by auto
    with t show ?thesis by simp
  qed
  with t(2) show ?thesis by (simp add: q_effect_def)
qed

lemma quicFlowPacket_ok:
  assumes "quic_inv f" and "quicFlowPacket cb a f h src sport payload ts = (f', a')"
  shows "quic_inv f' \<and> q_effect f a f' a' \<and> (q_emitted f \<longrightarrow> f' = f)"
proof (cases "q_rejected f \<or> q_emitted f")
  case True
  then show ?thesis using assms by (simp add: quicFlowPacket_def)
next
  case False
  define t where "t = (if ts > fl_LastSeen (q_flow f) then f\<lparr>q_flow := (q_flow f)\<lparr>fl_LastSeen := ts\<rparr>\<rparr> else f)"
  have t: "quic_inv t" "q_emitted t = q_emitted f" using assms(1) by (auto simp: t_def quic_inv_def)
  have rej: "quic_inv (t\<lparr>q_rejected := True\<rparr>)" using t by (auto simp: quic_inv_def)
  have add: "quic_inv (t\<lparr>q_client := cs_add_all (q_client t) fs\<rparr>)" "quic_inv (t\<lparr>q_server := cs_add_all (q_server t) fs\<rparr>)" for fs
    using t by (auto simp: quic_inv_def cs_inv_add_all)
  let ?c = "src = q_clientAddr t \<and> sport = q_clientPort t"
  note res = assms(2) [unfolded quicFlowPacket_def if_not_P [OF False] Let_def, folded t_def]
  show ?thesis
  proof (cases "DeriveInitialKeys (q_version t) (q_origDCID t) (\<not> ?c)")
    case (Inl e)
    then show ?thesis using res rej t(2) False by (auto simp: q_effect_def)
  next
    case keys: (Inr k)
    show ?thesis
    proof (cases "Open payload h k")
      case (Inl e)
      then show ?thesis using res keys t False by (auto simp: q_effect_def)
    next
      case (Inr p)
      define fs where "fs = map (\<lambda>fr. (cf_Offset fr, cf_Data fr)) (CryptoFrames (snd p))"
      define u where "u = (if ?c then t\<lparr>q_client := cs_add_all (q_client t) fs\<rparr> else t\<lparr>q_server := cs_add_all (q_server t) fs\<rparr>)"
      have "quic_inv u" "q_emitted u = q_emitted f" using add t(2) by (auto simp: u_def)
      moreover have "quicParse cb a u = (f', a')"
        using res unfolding keys Inr sum.case u_def fs_def by (simp add: case_prod_beta)
      ultimately show ?thesis using quicParse_ok [of u cb a f' a'] False by (auto simp: q_effect_def)
    qed
  qed
qed


subsection \<open>The assembler\<close>

definition is_tcp :: "Flow \<Rightarrow> bool" where
  "is_tcp f \<longleftrightarrow> fl_Transport f = TransportTCP"

text \<open>
  The ledger of QUIC flows: of those created so far, which the counter of streams counts beside the TCP ones,
  some were dropped and the others are in the table; the flows handed to the handler that are not of TCP are
  those of the emitted ones, each once.
\<close>

definition quic_ledger :: "Assembler \<Rightarrow> bool" where
  "quic_ledger a \<longleftrightarrow>
     (\<exists>gone. s_Streams (a_stats a) = int (length (a_streams a)) + int (length gone) + int (length (a_quicFlows a)) \<and>
        mset (filter (\<lambda>f. \<not> is_tcp f) (a_handled a)) = mset (map q_flow (filter q_emitted (gone @ map snd (a_quicFlows a)))))"

lemma quic_ledger_cong:
  assumes "s_Streams (a_stats b) - int (length (a_streams b)) = s_Streams (a_stats a) - int (length (a_streams a))"
    and "a_quicFlows b = a_quicFlows a" and "filter (\<lambda>f. \<not> is_tcp f) (a_handled b) = filter (\<lambda>f. \<not> is_tcp f) (a_handled a)"
  shows "quic_ledger b = quic_ledger a"
proof -
  have "s_Streams (a_stats b) = int (length (a_streams b)) + x + y \<longleftrightarrow> s_Streams (a_stats a) = int (length (a_streams a)) + x + y" for x y
    using assms(1) by linarith
  then show ?thesis using assms(2,3) by (simp add: quic_ledger_def)
qed

lemma map_put_split:
  assumes "map_of m k = Some v"
  obtains xs ys where "m = xs @ (k, v) # ys" "map_put k v' m = xs @ (k, v') # ys"
proof -
  have "\<exists>xs ys. m = xs @ (k, v) # ys \<and> map_put k v' m = xs @ (k, v') # ys"
    using assms
  proof (induction m)
    case (Cons e m)
    obtain k' w where e: "e = (k', w)" by (cases e)
    show ?case
    proof (cases "k' = k")
      case True
      then show ?thesis using Cons.prems e by (intro exI [of _ "[]"] exI [of _ m]) simp
    next
      case False
      then obtain xs ys where "m = xs @ (k, v) # ys" "map_put k v' m = xs @ (k, v') # ys"
        using Cons e by auto
      then show ?thesis using False e by (intro exI [of _ "e # xs"] exI [of _ ys]) simp
    qed
  qed simp
  then show thesis using that by blast
qed

lemma map_put_new: "k \<notin> fst ` set m \<Longrightarrow> map_put k v m = m @ [(k, v)]"
  by (induction k v m rule: map_put.induct) auto

text \<open>A flow that is created or that takes a packet.\<close>

lemma quic_ledger_put:
  assumes "quic_ledger a" and "quic_inv f'" and "a_streams b' = a_streams a" and "a_quicFlows b' = a_quicFlows a"
    and "a_handled b' = a_handled a @ (if q_emitted f' \<and> \<not> q_emitted f then [q_flow f'] else [])"
    and "map_of (a_quicFlows a) key = Some f \<and> (q_emitted f \<longrightarrow> f' = f) \<and> s_Streams (a_stats b') = s_Streams (a_stats a) \<or>
      key \<notin> fst ` set (a_quicFlows a) \<and> \<not> q_emitted f \<and> s_Streams (a_stats b') = s_Streams (a_stats a) + 1"
  shows "quic_ledger (b'\<lparr>a_quicFlows := map_put key f' (a_quicFlows b')\<rparr>)"
proof -
  obtain gone where g: "s_Streams (a_stats a) = int (length (a_streams a)) + int (length gone) + int (length (a_quicFlows a))"
    "mset (filter (\<lambda>f. \<not> is_tcp f) (a_handled a)) = mset (map q_flow (filter q_emitted (gone @ map snd (a_quicFlows a))))"
    using assms(1) by (auto simp: quic_ledger_def)
  have quic: "\<not> is_tcp (q_flow f')" using assms(2) by (simp add: quic_inv_def is_tcp_def)
  show ?thesis
    using assms(6)
  proof
    assume m: "map_of (a_quicFlows a) key = Some f \<and> (q_emitted f \<longrightarrow> f' = f) \<and> s_Streams (a_stats b') = s_Streams (a_stats a)"
    then obtain xs ys where "a_quicFlows a = xs @ (key, f) # ys" "map_put key f' (a_quicFlows a) = xs @ (key, f') # ys"
      using map_put_split by metis
    then show ?thesis
      unfolding quic_ledger_def using m g quic by (intro exI [of _ gone]) (auto simp: assms(3-5))
  next
    assume m: "key \<notin> fst ` set (a_quicFlows a) \<and> \<not> q_emitted f \<and> s_Streams (a_stats b') = s_Streams (a_stats a) + 1"
    then show ?thesis
      unfolding quic_ledger_def using g quic by (intro exI [of _ gone]) (auto simp: assms(3-5) map_put_new)
  qed
qed

text \<open>
  The flows handed to the handler have a ClientHello and are counted; the TCP flows among them are
  one per emitted stream, the others one per emitted QUIC flow; the live streams are the counted TCP streams
  and the QUIC flows, each kind within the limit.
\<close>

definition asm_inv :: "Assembler \<Rightarrow> bool" where
  "asm_inv a \<longleftrightarrow>
     0 < o_MaxStreamPrefix (a_opts a) \<and> 0 < o_CloseTimeout (a_opts a) \<and> 0 < o_MaxStreams (a_opts a) \<and>
     list_all (stream_inv (a_opts a)) (a_streams a) \<and>
     distinct (map fst (a_quicFlows a)) \<and> list_all (\<lambda>(k, f). quic_inv f) (a_quicFlows a) \<and>
     list_all (\<lambda>f. fl_Client f \<noteq> None) (a_handled a) \<and>
     s_TLSFlows (a_stats a) = int (length (a_handled a)) \<and>
     length (filter is_tcp (a_handled a)) = length (filter st_emitted (a_streams a)) \<and> quic_ledger a \<and>
     s_LiveStreams (a_stats a) = int (length (filter st_counted (a_streams a))) + int (length (a_quicFlows a)) \<and>
     int (length (filter st_counted (a_streams a))) \<le> o_MaxStreams (a_opts a) \<and>
     int (length (a_quicFlows a)) \<le> o_MaxStreams (a_opts a)"

lemma asm_inv_New: "asm_inv (Assembler_New opts)"
  by (simp add: Assembler_New_def asm_inv_def quic_ledger_def setDefaults_def zero_Stats_def Let_def
      DefaultMaxStreamPrefix_def DefaultCloseTimeout_def DefaultMaxStreams_def)

text \<open>An operation of one stream that has the effect of \<open>st_effect\<close> keeps the invariant.\<close>

lemma asm_inv_stream:
  assumes inv: "asm_inv a" and i: "i < length (a_streams a)"
    and ok: "stream_inv (a_opts a) s'" and eff: "st_effect (a_streams a ! i) a s' a'"
  shows "asm_inv (a'\<lparr>a_streams := (a_streams a')[i := s']\<rparr>)"
proof -
  let ?s = "a_streams a ! i" and ?n = "st_emitted s' \<and> \<not> st_emitted (a_streams a ! i)"
  have e: "a_opts a' = a_opts a" "a_streams a' = a_streams a" "a_quicFlows a' = a_quicFlows a"
    "a_handled a' = a_handled a @ (if ?n then [st_flow s'] else [])"
    "s_TLSFlows (a_stats a') = s_TLSFlows (a_stats a) + (if ?n then 1 else 0)"
    "s_LiveStreams (a_stats a') = s_LiveStreams (a_stats a) - (if st_counted ?s \<and> \<not> st_counted s' then 1 else 0)"
    "st_emitted ?s \<longrightarrow> st_emitted s'" "st_counted s' \<longrightarrow> st_counted ?s"
    using eff by (simp_all add: st_effect_def Let_def)
  have flow: "?n \<Longrightarrow> fl_Client (st_flow s') \<noteq> None" "is_tcp (st_flow s')"
    using ok by (auto simp: stream_inv_def is_tcp_def)
  have em: "length (filter st_emitted ((a_streams a)[i := s'])) = length (filter st_emitted (a_streams a)) + (if ?n then 1 else 0)"
    using length_filter_update [OF i, of st_emitted s'] e(7) by (auto split: if_splits)
  have co: "int (length (filter st_counted ((a_streams a)[i := s']))) =
      int (length (filter st_counted (a_streams a))) - (if st_counted ?s \<and> \<not> st_counted s' then 1 else 0)"
    using length_filter_update [OF i, of st_counted s'] e(8) by (auto split: if_splits)
  have "s_Streams (a_stats a') = s_Streams (a_stats a)" using eff by (simp add: st_effect_def Let_def)
  then have "quic_ledger (a'\<lparr>a_streams := (a_streams a')[i := s']\<rparr>) = quic_ledger a"
    using flow(2) by (intro quic_ledger_cong) (simp_all add: e)
  then show ?thesis
    using inv ok flow unfolding asm_inv_def
    by (auto simp: e em co list_all_update)
qed

lemma asm_inv_callback:
  assumes "asm_inv a"
  shows "asm_inv (run_callback cb a c)"
proof (cases c)
  case (CbNew netFlow tcpFlow t ts)
  show ?thesis
  proof (cases "case t of None \<Rightarrow> False | Some t \<Rightarrow> \<not> tcp_SYN t \<and> length (tcp_Payload t) = 0")
    case True
    then show ?thesis using assms CbNew by (simp add: run_callback_def factory_New_def)
  next
    case False
    then show ?thesis
      using assms unfolding run_callback_def CbNew callback.case factory_New_def if_not_P [OF False] Let_def
      by (simp add: asm_inv_def stream_inv_def) (simp add: quic_ledger_def add.assoc)
  qed
next
  case (CbReassembledSG i dir data ts)
  show ?thesis
  proof (cases "i < length (a_streams a)")
    case True
    obtain s' a' where r: "st_ReassembledSG cb (a_streams a ! i) a dir data ts = (s', a')" by fastforce
    have "stream_inv (a_opts a) (a_streams a ! i)" "0 < o_MaxStreamPrefix (a_opts a)"
      using assms True by (auto simp: asm_inv_def list_all_length)
    then have "stream_inv (a_opts a) s' \<and> st_effect (a_streams a ! i) a s' a'"
      using r by (rule st_ReassembledSG_ok)
    then show ?thesis
      using asm_inv_stream [OF assms True] r True by (simp add: run_callback_def CbReassembledSG)
  qed (use assms in \<open>simp add: run_callback_def CbReassembledSG\<close>)
next
  case (CbReassemblyComplete i)
  show ?thesis
  proof (cases "i < length (a_streams a)")
    case True
    obtain s' a' where r: "st_ReassemblyComplete (a_streams a ! i) a = (s', a')" by fastforce
    have "stream_inv (a_opts a) (a_streams a ! i)"
      using assms True by (auto simp: asm_inv_def list_all_length)
    then have "stream_inv (a_opts a) s' \<and> st_effect (a_streams a ! i) a s' a' \<and> \<not> st_counted s'"
      using r by (rule st_ReassemblyComplete_ok)
    then show ?thesis
      using asm_inv_stream [OF assms True] r True by (simp add: run_callback_def CbReassemblyComplete)
  qed (use assms in \<open>simp add: run_callback_def CbReassemblyComplete\<close>)
qed

text \<open>The fields the invariant does not read.\<close>

lemma asm_inv_fields [emit_simps]:
  "asm_inv (a\<lparr>a_calls := x\<rparr>) = asm_inv a"
  "asm_inv (a\<lparr>a_lastTS := t\<rparr>) = asm_inv a"
  "asm_inv (a\<lparr>a_lastFlush := t\<rparr>) = asm_inv a"
  "asm_inv (a\<lparr>a_stats := (a_stats a)\<lparr>s_Packets := n\<rparr>\<rparr>) = asm_inv a"
  "asm_inv (a\<lparr>a_stats := (a_stats a)\<lparr>s_TCPPackets := n\<rparr>\<rparr>) = asm_inv a"
  "asm_inv (a\<lparr>a_stats := (a_stats a)\<lparr>s_UDPPackets := n\<rparr>\<rparr>) = asm_inv a"
  "asm_inv (a\<lparr>a_stats := (a_stats a)\<lparr>s_StreamsDropped := n\<rparr>\<rparr>) = asm_inv a"
  "asm_inv (a\<lparr>a_stats := (a_stats a)\<lparr>s_Packets := n, s_TCPPackets := k\<rparr>\<rparr>) = asm_inv a"
  "asm_inv (a\<lparr>a_stats := (a_stats a)\<lparr>s_Packets := n, s_UDPPackets := k\<rparr>\<rparr>) = asm_inv a"
  by (simp_all add: asm_inv_def quic_ledger_def)

lemma asm_inv_call: "asm_inv a \<Longrightarrow> asm_inv (run_call cb gp a c)"
proof -
  assume "asm_inv a"
  moreover have "asm_inv b \<Longrightarrow> asm_inv (foldl (run_callback cb) b cs)" for b cs
    by (induction cs arbitrary: b) (auto intro: asm_inv_callback)
  ultimately show ?thesis by (simp add: run_call_def emit_simps)
qed

lemma is_tcp_quic: "quic_inv f \<Longrightarrow> \<not> is_tcp (q_flow f)"
  by (simp add: quic_inv_def is_tcp_def)

text \<open>A QUIC flow whose operation has the effect of \<open>q_effect\<close> and is stored under its key.\<close>

lemma asm_inv_quic:
  assumes inv: "asm_inv a" and ok: "quic_inv f'"
    and eff: "q_effect f b f' b'" and b: "b = a \<and> map_of (a_quicFlows a) key = Some f \<and> (q_emitted f \<longrightarrow> f' = f) \<or>
      b = a\<lparr>a_stats := (a_stats a)\<lparr>s_Streams := s_Streams (a_stats a) + 1, s_LiveStreams := s_LiveStreams (a_stats a) + 1\<rparr>\<rparr> \<and>
      key \<notin> fst ` set (a_quicFlows a) \<and> \<not> q_emitted f \<and> int (length (a_quicFlows a)) < o_MaxStreams (a_opts a)"
  shows "asm_inv (b'\<lparr>a_quicFlows := map_put key f' (a_quicFlows b')\<rparr>)"
proof -
  let ?n = "q_emitted f' \<and> \<not> q_emitted f"
  have some: "key \<in> fst ` set (a_quicFlows a)" if "map_of (a_quicFlows a) key = Some f"
    using map_of_SomeD [OF that] by force
  have e: "a_opts b' = a_opts a" "a_streams b' = a_streams a" "a_quicFlows b' = a_quicFlows a"
    "a_handled b' = a_handled a @ (if ?n then [q_flow f'] else [])"
    "s_TLSFlows (a_stats b') = s_TLSFlows (a_stats a) + (if ?n then 1 else 0)"
    "s_LiveStreams (a_stats b') = s_LiveStreams (a_stats a) + (if key \<in> fst ` set (a_quicFlows a) then 0 else 1)"
    using eff b some by (auto simp: q_effect_def Let_def)
  have ledger: "quic_ledger (b'\<lparr>a_quicFlows := map_put key f' (a_quicFlows b')\<rparr>)"
  proof (rule quic_ledger_put [of a f' b' f])
    show "map_of (a_quicFlows a) key = Some f \<and> (q_emitted f \<longrightarrow> f' = f) \<and> s_Streams (a_stats b') = s_Streams (a_stats a) \<or>
        key \<notin> fst ` set (a_quicFlows a) \<and> \<not> q_emitted f \<and> s_Streams (a_stats b') = s_Streams (a_stats a) + 1"
      using b eff by (elim disjE) (simp_all add: q_effect_def Let_def)
  qed (use inv ok e in \<open>simp_all add: asm_inv_def\<close>)
  have flow: "?n \<Longrightarrow> fl_Client (q_flow f') \<noteq> None" "\<not> is_tcp (q_flow f')"
    using ok is_tcp_quic by (auto simp: quic_inv_def)
  have keys: "distinct (map fst (map_put key f' (a_quicFlows a)))"
    using inv by (auto simp: asm_inv_def map_put_keys)
  have all: "list_all (\<lambda>(k, f). quic_inv f) (map_put key f' (a_quicFlows a))"
    using inv ok by (auto simp: asm_inv_def intro: list_all_map_put)
  have len: "int (length (map_put key f' (a_quicFlows a))) \<le> o_MaxStreams (a_opts a)"
    using inv b some by (auto simp: asm_inv_def length_map_put)
  show ?thesis
    using inv flow keys all len ledger unfolding asm_inv_def
    by (auto simp: e length_map_put)
qed

lemma new_quicFlow_inv [simp]: "quic_inv (new_quicFlow h src dst sport dport ts)"
  by (simp add: new_quicFlow_def quic_inv_def)

lemma new_quicFlow_emitted [simp]: "\<not> q_emitted (new_quicFlow h src dst sport dport ts)"
  by (simp add: new_quicFlow_def)

lemma asm_inv_quicPacket:
  assumes "asm_inv a"
  shows "asm_inv (quicPacket cb a src dst sport dport payload ts)"
proof (cases "ParseLongHeader payload")
  case (Inr h)
  let ?key = "makeQUICKey src sport dst dport"
  show ?thesis
  proof (cases "\<not> IsLongHeader payload \<or> lh_Type h \<noteq> TypeInitial \<or> \<not> Supported (lh_Version h)")
    case True
    then show ?thesis using assms Inr by (auto simp: quicPacket_def)
  next
    case ok: False
    show ?thesis
    proof (cases "map_of (a_quicFlows a) ?key")
      case (Some f)
      obtain f' a' where p: "quicFlowPacket cb a f h src sport payload ts = (f', a')" by fastforce
      have "(?key, f) \<in> set (a_quicFlows a)" using Some by (rule map_of_SomeD)
      then have "quic_inv f" using assms by (force simp: asm_inv_def list_all_iff)
      moreover have "quic_inv f' \<and> q_effect f a f' a' \<and> (q_emitted f \<longrightarrow> f' = f)"
        using p \<open>quic_inv f\<close> quicFlowPacket_ok by blast
      ultimately have "asm_inv (a'\<lparr>a_quicFlows := map_put ?key f' (a_quicFlows a')\<rparr>)"
        using asm_inv_quic [OF assms, of f' f a a' ?key] Some by blast
      then show ?thesis using ok Inr Some p by (simp add: quicPacket_def)
    next
      case None
      show ?thesis
      proof (cases "int (length (a_quicFlows a)) \<ge> o_MaxStreams (a_opts a)")
        case True
        then show ?thesis using ok Inr None assms by (simp add: quicPacket_def emit_simps)
      next
        case False
        let ?f = "new_quicFlow h src dst sport dport ts"
        let ?b = "a\<lparr>a_stats := (a_stats a)\<lparr>s_Streams := s_Streams (a_stats a) + 1,
            s_LiveStreams := s_LiveStreams (a_stats a) + 1\<rparr>\<rparr>"
        obtain f' b' where p: "quicFlowPacket cb ?b ?f h src sport payload ts = (f', b')" by fastforce
        have "quic_inv f' \<and> q_effect ?f ?b f' b'" using quicFlowPacket_ok [OF _ p] by simp
        moreover have "?key \<notin> fst ` set (a_quicFlows a)" using None by (simp add: map_of_eq_None_iff)
        ultimately have "asm_inv (b'\<lparr>a_quicFlows := map_put ?key f' (a_quicFlows b')\<rparr>)"
          using asm_inv_quic [OF assms, of f' ?f ?b b' ?key] False by (simp add: not_le)
        then show ?thesis using ok Inr None False p by (simp add: quicPacket_def)
      qed
    qed
  qed
qed (use assms in \<open>simp add: quicPacket_def\<close>)

text \<open>
  The sweep releases exactly the flows idle since \<open>t\<close>, and hands those of them with an unreported
  ClientHello to the handler.
\<close>

definition idle :: "int \<Rightarrow> quicKey \<times> quicFlow \<Rightarrow> bool" where
  "idle t e \<longleftrightarrow> \<not> fl_LastSeen (q_flow (snd e)) > t"

definition unreported :: "quicKey \<times> quicFlow \<Rightarrow> bool" where
  "unreported e \<longleftrightarrow> \<not> q_emitted (snd e) \<and> fl_Client (q_flow (snd e)) \<noteq> None"

definition flushed :: "int \<Rightarrow> (quicKey \<times> quicFlow) list \<Rightarrow> Flow list" where
  "flushed t m = map (\<lambda>e. q_flow (snd e)) (filter unreported (filter (idle t) m))"

lemma flushQUIC_loop_spec:
  "flushQUIC_loop m t a = (m', a') \<Longrightarrow>
   m' = filter (\<lambda>e. \<not> idle t e) m \<and> a_handled a' = a_handled a @ flushed t m \<and>
   s_TLSFlows (a_stats a') = s_TLSFlows (a_stats a) + int (length (flushed t m)) \<and>
   s_LiveStreams (a_stats a') = s_LiveStreams (a_stats a) - int (length (filter (idle t) m)) \<and>
   a_opts a' = a_opts a \<and> a_streams a' = a_streams a \<and> a_calls a' = a_calls a \<and> s_Streams (a_stats a') = s_Streams (a_stats a)"
proof (induction m arbitrary: a m' a')
  case (Cons e m)
  obtain key f where e: "e = (key, f)" by (cases e)
  show ?case
  proof (cases "idle t e")
    case False
    obtain m1 a1 where l: "flushQUIC_loop m t a = (m1, a1)" by fastforce
    with Cons.prems False have "m' = e # m1" "a' = a1" by (simp_all add: e idle_def)
    with Cons.IH [OF l] False show ?thesis by (simp add: flushed_def)
  next
    case True
    obtain b where b: "snd (emitQUIC a f) = b" by simp
    have eb: "a_opts b = a_opts a" "a_streams b = a_streams a" "a_calls b = a_calls a" "s_Streams (a_stats b) = s_Streams (a_stats a)"
      "s_LiveStreams (a_stats b) = s_LiveStreams (a_stats a)"
      "a_handled b = a_handled a @ (if unreported e then [q_flow f] else [])"
      "s_TLSFlows (a_stats b) = s_TLSFlows (a_stats a) + (if unreported e then 1 else 0)"
      by (auto simp: b [symmetric] emitQUIC_def unreported_def e)
    let ?b = "b\<lparr>a_stats := (a_stats b)\<lparr>s_LiveStreams := s_LiveStreams (a_stats b) - 1\<rparr>\<rparr>"
    have "flushQUIC_loop m t ?b = (m', a')"
      using Cons.prems True b by (simp add: e idle_def split: prod.splits)
    from Cons.IH [OF this] True show ?thesis
      by (simp add: eb flushed_def e)
  qed
qed (simp add: flushed_def)

text \<open>The ledger after a sweep: the idle flows are gone, those with a ClientHello as emitted ones.\<close>

lemma flushed_simps [simp]:
  "flushed t [] = []"
  "flushed t (e # m) = (if idle t e \<and> unreported e then q_flow (snd e) # flushed t m else flushed t m)"
  by (simp_all add: flushed_def)

lemma unreported_emitted: "unreported e \<Longrightarrow> \<not> q_emitted (snd e)"
  by (simp add: unreported_def)

lemma flushed_emitted:
  "mset (map q_flow (filter q_emitted (map (\<lambda>e. (snd e)\<lparr>q_emitted := q_emitted (snd e) \<or> unreported e\<rparr>) (filter (idle t) m) @
      map snd (filter (\<lambda>e. \<not> idle t e) m)))) =
   mset (map q_flow (filter q_emitted (map snd m))) + mset (flushed t m)"
  by (induction m) (auto dest: unreported_emitted)

lemma quic_ledger_flush:
  assumes "quic_ledger a" and "list_all (\<lambda>(k, f). quic_inv f) (a_quicFlows a)" and "a_streams a' = a_streams a"
    and "s_Streams (a_stats a') = s_Streams (a_stats a)" and "a_handled a' = a_handled a @ flushed t (a_quicFlows a)"
  shows "quic_ledger (a'\<lparr>a_quicFlows := filter (\<lambda>e. \<not> idle t e) (a_quicFlows a)\<rparr>)"
proof -
  obtain gone where g: "s_Streams (a_stats a) = int (length (a_streams a)) + int (length gone) + int (length (a_quicFlows a))"
    "mset (filter (\<lambda>f. \<not> is_tcp f) (a_handled a)) = mset (map q_flow (filter q_emitted (gone @ map snd (a_quicFlows a))))"
    using assms(1) by (auto simp: quic_ledger_def)
  have quic: "filter (\<lambda>f. \<not> is_tcp f) (flushed t (a_quicFlows a)) = flushed t (a_quicFlows a)"
    using assms(2) by (auto simp: filter_id_conv flushed_def list_all_iff dest!: is_tcp_quic)
  show ?thesis
    unfolding quic_ledger_def
    using g flushed_emitted [of t "a_quicFlows a"] sum_length_filter_compl [of "idle t" "a_quicFlows a"]
    by (intro exI [of _ "gone @ map (\<lambda>e. (snd e)\<lparr>q_emitted := q_emitted (snd e) \<or> unreported e\<rparr>) (filter (idle t) (a_quicFlows a))"])
      (simp add: assms(3-5) quic)
qed

lemma asm_inv_flushQUIC:
  assumes "asm_inv a"
  shows "asm_inv (flushQUIC a t)"
proof -
  obtain m' a' where l: "flushQUIC_loop (a_quicFlows a) t a = (m', a')" by fastforce
  note e = flushQUIC_loop_spec [OF l]
  have q: "list_all (\<lambda>(k, f). quic_inv f) (a_quicFlows a)" using assms by (simp add: asm_inv_def)
  have "list_all (\<lambda>f. fl_Client f \<noteq> None) (flushed t (a_quicFlows a))"
    by (auto simp: list_all_iff flushed_def unreported_def)
  moreover have "filter is_tcp (flushed t (a_quicFlows a)) = []"
    using q by (auto simp: filter_empty_conv flushed_def list_all_iff dest!: is_tcp_quic)
  moreover have "int (length m') = int (length (a_quicFlows a)) - int (length (filter (idle t) (a_quicFlows a)))"
    using e sum_length_filter_compl [of "idle t" "a_quicFlows a"] by simp
  moreover have "distinct (map fst m')" "list_all (\<lambda>(k, f). quic_inv f) m'"
    using e assms q by (auto simp: asm_inv_def distinct_map_filter list_all_iff)
  moreover have "quic_ledger (a'\<lparr>a_quicFlows := m'\<rparr>)"
    using quic_ledger_flush [of a a' t] assms e q by (simp add: asm_inv_def)
  ultimately show ?thesis
    using assms e unfolding flushQUIC_def l prod.case asm_inv_def by auto
qed

lemma asm_inv_trackTime: "asm_inv a \<Longrightarrow> asm_inv (trackTime a ts)"
  by (simp add: trackTime_def Let_def emit_simps)

lemma asm_inv_Packet: "asm_inv a \<Longrightarrow> asm_inv (Packet cb gp a data ts linkType)"
  unfolding Packet_def Let_def
  by (auto simp: emit_simps intro!: asm_inv_trackTime asm_inv_quicPacket asm_inv_flushQUIC asm_inv_call
      split: option.splits)

lemma asm_inv_FlushOlderThan: "asm_inv a \<Longrightarrow> asm_inv (FlushOlderThan cb gp a t)"
  by (simp add: FlushOlderThan_def asm_inv_flushQUIC asm_inv_call)

lemma asm_inv_Close: "asm_inv a \<Longrightarrow> asm_inv (Close cb gp a now)"
  by (simp add: Close_def asm_inv_flushQUIC asm_inv_call)


subsection \<open>Reachable assemblers\<close>

text \<open>
  The assemblers a client of the package can get to, for every reassembler, options, packets and
  times.
\<close>

inductive reachable :: "cryptobyte \<Rightarrow> gopacket \<Rightarrow> Assembler \<Rightarrow> bool" for cb gp where
  new: "reachable cb gp (Assembler_New opts)"
| packet: "reachable cb gp a \<Longrightarrow> reachable cb gp (Packet cb gp a data ts linkType)"
| flush: "reachable cb gp a \<Longrightarrow> reachable cb gp (FlushOlderThan cb gp a t)"
| close: "reachable cb gp a \<Longrightarrow> reachable cb gp (Close cb gp a now)"

lemma reachable_inv: "reachable cb gp a \<Longrightarrow> asm_inv a"
  by (induction rule: reachable.induct)
    (auto intro: asm_inv_New asm_inv_Packet asm_inv_FlushOlderThan asm_inv_Close)

end
