(* ===== verification/Assemble_Props.thy ===== *)
theory Assemble_Props
  imports Assemble_Inv Samples
begin

text \<open>
  Properties of the assembler: what a client of the package can rely on, for every reassembler and
  every sequence of packets, flushes and closes; and the handshake it finds in a connection for
  every segmentation and interleaving of the two directions.
\<close>


subsection \<open>Segmentation\<close>

definition feed :: "cryptobyte \<Rightarrow> stream \<times> Assembler \<Rightarrow> (bool \<times> bytes \<times> int) list \<Rightarrow> stream \<times> Assembler" where
  "feed cb = foldl (\<lambda>(s, a) (dir, data, ts). st_ReassembledSG cb s a dir data ts)"

text \<open>The bytes of one direction among the delivered segments.\<close>

definition dir_bytes :: "bool \<Rightarrow> (bool \<times> bytes \<times> int) list \<Rightarrow> bytes" where
  "dir_bytes d evs = concat (map (\<lambda>(_, data, _). data) (filter (\<lambda>(dir, _, _). dir = d) evs))"

lemma dir_bytes_snoc: "dir_bytes d (evs @ [(dir, data, ts)]) = dir_bytes d evs @ (if dir = d then data else [])"
  by (simp add: dir_bytes_def)

lemma feed_snoc: "feed cb sa (evs @ [(dir, data, ts)]) =
  (case feed cb sa evs of (s, a) \<Rightarrow> st_ReassembledSG cb s a dir data ts)"
  by (simp add: feed_def split: prod.splits)

definition endpoints :: "Flow \<Rightarrow> (addr \<times> u16) \<times> (addr \<times> u16)" where
  "endpoints f = ((fl_ClientIP f, fl_ClientPort f), (fl_ServerIP f, fl_ServerPort f))"

lemma st_emit_keeps: "st_emit s a = (s', a') \<Longrightarrow> st_flow s' = st_flow s \<and> st_haveCH s' = st_haveCH s \<and>
    st_clientIdx s' = st_clientIdx s \<and> a_opts a' = a_opts a \<and> st_buf s' = st_buf s \<and> st_haveSH s' = st_haveSH s"
  by (auto simp: st_emit_def split: if_splits)

lemma st_findServer_keeps:
  "st_findServer cb s a = (s', a') \<Longrightarrow> fl_Client (st_flow s') = fl_Client (st_flow s) \<and>
    st_haveCH s' = st_haveCH s \<and> st_clientIdx s' = st_clientIdx s \<and> a_opts a' = a_opts a \<and>
    endpoints (st_flow s') = endpoints (st_flow s)"
  by (auto simp: endpoints_def st_findServer_def Let_def split: sum.splits option.splits if_splits dest!: st_emit_keeps)

lemma st_parse_found:
  assumes "st_haveCH s" and "st_parse cb s a = (s', a')"
  shows "fl_Client (st_flow s') = fl_Client (st_flow s) \<and> st_haveCH s' \<and> st_clientIdx s' = st_clientIdx s \<and>
    a_opts a' = a_opts a \<and> endpoints (st_flow s') = endpoints (st_flow s)"
proof (cases "st_haveSH s")
  case True
  then show ?thesis using assms by (simp add: st_parse_def)
next
  case False
  obtain t b where t: "st_findServer cb s a = (t, b)" by fastforce
  then have "(s', a') = (t, b)"
    using assms False st_findServer_keeps [OF t] by (simp add: st_parse_def)
  then show ?thesis using st_findServer_keeps [OF t] assms(1) by simp
qed

text \<open>What a segment makes of the stream before it is parsed.\<close>

definition append_segment :: "stream \<Rightarrow> Options \<Rightarrow> bool \<Rightarrow> bytes \<Rightarrow> int \<Rightarrow> stream" where
  "append_segment s op dir data ts =
     (let i = dirIndex dir;
          s = (if ts > fl_LastSeen (st_flow s) then s\<lparr>st_flow := (st_flow s)\<lparr>fl_LastSeen := ts\<rparr>\<rparr> else s);
          room = o_MaxStreamPrefix op - int (length (st_buf s ! i));
          truncate = (\<lambda>s. s\<lparr>st_full := (st_full s)[i := True],
                            st_flow := (st_flow s)\<lparr>fl_PrefixTruncated := True\<rparr>\<rparr>)
      in if room > 0 then
           (if int (length data) > room then
              (truncate s)\<lparr>st_buf := (st_buf s)[i := st_buf s ! i @ take (nat room) data]\<rparr>
            else s\<lparr>st_buf := (st_buf s)[i := st_buf s ! i @ data]\<rparr>)
         else truncate s)"

lemma ReassembledSG_append:
  "st_ReassembledSG cb s a dir data ts =
     (if data = [] \<or> st_rejected s \<or> (st_haveCH s \<and> st_haveSH s) then (s, a)
      else st_parse cb (append_segment s (a_opts a) dir data ts) a)"
  unfolding st_ReassembledSG_def append_segment_def Let_def by (simp only: length_0_conv)

lemma append_segment_keeps:
  "fl_Client (st_flow (append_segment s op dir data ts)) = fl_Client (st_flow s)"
  "st_haveCH (append_segment s op dir data ts) = st_haveCH s"
  "st_haveSH (append_segment s op dir data ts) = st_haveSH s"
  "st_clientIdx (append_segment s op dir data ts) = st_clientIdx s"
  "st_rejected (append_segment s op dir data ts) = st_rejected s"
  "endpoints (st_flow (append_segment s op dir data ts)) = endpoints (st_flow s)"
  by (simp_all add: append_segment_def Let_def endpoints_def)

lemma append_segment_fits:
  assumes "int (length (st_buf s ! dirIndex dir) + length data) \<le> o_MaxStreamPrefix op" and "data \<noteq> []"
  shows "st_buf (append_segment s op dir data ts) = (st_buf s)[dirIndex dir := st_buf s ! dirIndex dir @ data]"
    and "st_full (append_segment s op dir data ts) = st_full s"
proof -
  have "int (length (st_buf s ! dirIndex dir)) < o_MaxStreamPrefix op"
    using assms by (cases data) auto
  then show "st_buf (append_segment s op dir data ts) = (st_buf s)[dirIndex dir := st_buf s ! dirIndex dir @ data]"
    "st_full (append_segment s op dir data ts) = st_full s"
    using assms by (auto simp: append_segment_def Let_def)
qed

text \<open>A parsable stream and its prefixes.\<close>

lemma FindClientHello_prefix:
  assumes "prefix b c" and "HandshakeMessages c = Inr msgs"
  shows "FindClientHello cb b = Inr None \<or> FindClientHello cb b = FindClientHello cb c"
proof -
  obtain ms where "HandshakeMessages b = Inr ms" "prefix ms msgs"
    using HandshakeMessages_prefix [OF assms] by blast
  then show ?thesis
    using findClientHelloIn_prefix [of ms msgs cb] assms(2)
    by (cases "findClientHelloIn cb ms = Inr None") (auto simp: FindClientHello_def)
qed

text \<open>
  While the two directions arrive: the ClientHello was found, or it is not complete yet and both
  buffers hold what arrived.
\<close>

definition watching ::
  "cryptobyte \<Rightarrow> bool \<Rightarrow> ClientHello \<Rightarrow> (addr \<times> u16) \<times> (addr \<times> u16) \<Rightarrow> bytes \<Rightarrow> bytes \<Rightarrow> stream \<Rightarrow> bool" where
  "watching cb d ch e c srv s \<longleftrightarrow>
     st_haveCH s \<and> fl_Client (st_flow s) = Some ch \<and> st_clientIdx s = dirIndex d \<and>
       endpoints (st_flow s) = (if d then e else prod.swap e) \<or>
     \<not> st_haveCH s \<and> endpoints (st_flow s) = e \<and> \<not> st_rejected s \<and> length (st_buf s) = 2 \<and> st_full s = [False, False] \<and>
     st_buf s ! dirIndex d = c \<and> st_buf s ! dirIndex (\<not> d) = srv \<and> FindClientHello cb c = Inr None"

lemma findClient_none:
  assumes "\<forall>i \<in> set is. \<forall>ch. FindClientHello cb (st_buf s ! i) \<noteq> Inr (Some ch)"
  shows "st_findClient cb is s = s"
  using assms by (induction "is") (auto split: sum.splits option.splits)

lemma watching_step:
  assumes w: "watching cb d ch e c srv s"
    and whole: "HandshakeMessages C = Inr cm" "FindClientHello cb C = Inr (Some ch)"
      "HandshakeMessages S = Inr sm" "FindClientHello cb S = Inr None"
    and fit: "int (length C) \<le> o_MaxStreamPrefix (a_opts a)" "int (length S) \<le> o_MaxStreamPrefix (a_opts a)"
    and pre: "prefix (c @ (if dir = d then data else [])) C" "prefix (srv @ (if dir = d then [] else data)) S"
    and step: "st_ReassembledSG cb s a dir data ts = (s', a')"
  shows "watching cb d ch e (c @ (if dir = d then data else [])) (srv @ (if dir = d then [] else data)) s' \<and>
    a_opts a' = a_opts a"
proof (cases "st_haveCH s")
  case True
  let ?t = "append_segment s (a_opts a) dir data ts"
  have "st_parse cb ?t a = (s', a') \<or> (s', a') = (s, a)"
    using step by (auto simp: ReassembledSG_append split: if_splits)
  then show ?thesis
    using w True st_parse_found [of ?t cb a s' a'] by (auto simp: watching_def append_segment_keeps)
next
  case False
  show ?thesis
  proof (cases "data = []")
    case True
    then show ?thesis using w step by (simp add: ReassembledSG_append)
  next
    case data: False
    let ?t = "append_segment s (a_opts a) dir data ts" and ?c = "c @ (if dir = d then data else [])"
      and ?s = "srv @ (if dir = d then [] else data)"
    have st: "\<not> st_rejected s" "length (st_buf s) = 2" "st_full s = [False, False]" "st_buf s ! dirIndex d = c"
      "st_buf s ! dirIndex (\<not> d) = srv" "endpoints (st_flow s) = e"
      using w False by (simp_all add: watching_def)
    have len: "int (length ?c) \<le> o_MaxStreamPrefix (a_opts a)" "int (length ?s) \<le> o_MaxStreamPrefix (a_opts a)"
      using fit prefix_length_le [OF pre(1)] prefix_length_le [OF pre(2)] by linarith+
    have "int (length (st_buf s ! dirIndex dir) + length data) \<le> o_MaxStreamPrefix (a_opts a)"
      using len st by (cases "dir = d") auto
    note app = append_segment_fits [OF this data, of ts]
    have buf: "length (st_buf ?t) = 2" "st_buf ?t ! dirIndex d = ?c" "st_buf ?t ! dirIndex (\<not> d) = ?s" "st_full ?t = [False, False]"
      using st by (auto simp: app dirIndex_def nth_list_update split: if_splits)
    have srv: "FindClientHello cb ?s = Inr None"
      using FindClientHello_prefix [OF pre(2) whole(3), of cb] whole(4) by auto
    have parse: "st_parse cb ?t a = (s', a')"
      using step st(1) False data by (simp add: ReassembledSG_append)
    have idx: "st_buf ?t ! 0 = (if d then ?c else ?s)" "st_buf ?t ! 1 = (if d then ?s else ?c)"
      using buf by (cases d; simp add: dirIndex_def)+
    have keep: "\<not> st_haveCH ?t" "\<not> st_rejected ?t" "endpoints (st_flow ?t) = e"
      using False st by (simp_all add: append_segment_keeps)
    show ?thesis
    proof (cases "FindClientHello cb ?c = Inr None")
      case True
      then have "st_findClient cb [0, 1] ?t = ?t"
        using srv idx by (intro findClient_none) auto
      then have "(s', a') = (?t, a)"
        using parse keep buf True idx by (auto simp: st_parse_def split: if_splits)
      then show ?thesis using keep buf True by (simp add: watching_def)
    next
      case found: False
      then have eq: "FindClientHello cb ?c = Inr (Some ch)"
        using FindClientHello_prefix [OF pre(1) whole(1), of cb] whole(2) by auto
      obtain u where u: "st_findClient cb [0, 1] ?t = u" "st_haveCH u" "fl_Client (st_flow u) = Some ch"
        "st_clientIdx u = dirIndex d" "endpoints (st_flow u) = (if d then e else prod.swap e)"
        using eq srv idx keep(3) by (cases d) (auto simp: dirIndex_def Let_def endpoints_def)
      have "st_parse cb u a = (s', a')"
        using parse u keep by (simp add: st_parse_def)
      then show ?thesis using st_parse_found [OF u(2)] u by (auto simp: watching_def)
    qed
  qed
qed

lemma feed_watching:
  assumes fresh: "watching cb d ch e [] [] s"
    and whole: "HandshakeMessages C = Inr cm" "FindClientHello cb C = Inr (Some ch)"
      "HandshakeMessages S = Inr sm" "FindClientHello cb S = Inr None"
    and fit: "int (length C) \<le> o_MaxStreamPrefix (a_opts a)" "int (length S) \<le> o_MaxStreamPrefix (a_opts a)"
    and pre: "prefix (dir_bytes d evs) C" "prefix (dir_bytes (\<not> d) evs) S"
  shows "\<exists>s' a'. feed cb (s, a) evs = (s', a') \<and>
    watching cb d ch e (dir_bytes d evs) (dir_bytes (\<not> d) evs) s' \<and> a_opts a' = a_opts a"
  using pre
proof (induction evs rule: rev_induct)
  case Nil
  show ?case using fresh by (simp add: feed_def dir_bytes_def)
next
  case (snoc ev evs)
  obtain dir data ts where ev: "ev = (dir, data, ts)" by (cases ev) auto
  have pre: "prefix (dir_bytes d evs @ (if dir = d then data else [])) C"
    "prefix (dir_bytes (\<not> d) evs @ (if dir = d then [] else data)) S"
    using snoc.prems by (auto simp: ev dir_bytes_snoc split: if_splits)
  obtain s1 a1 where s1: "feed cb (s, a) evs = (s1, a1)"
    "watching cb d ch e (dir_bytes d evs) (dir_bytes (\<not> d) evs) s1" "a_opts a1 = a_opts a"
    using snoc.IH pre append_prefixD by blast
  obtain s2 a2 where s2: "st_ReassembledSG cb s1 a1 dir data ts = (s2, a2)" by fastforce
  have "watching cb d ch e (dir_bytes d evs @ (if dir = d then data else []))
      (dir_bytes (\<not> d) evs @ (if dir = d then [] else data)) s2 \<and> a_opts a2 = a_opts a1"
    by (rule watching_step [OF s1(2) whole _ _ pre s2]) (use fit s1(3) in simp_all)
  then show ?case using s1 s2 by (auto simp: ev feed_snoc dir_bytes_snoc)
qed

text \<open>
  C1: the ClientHello of a connection is found for every segmentation and interleaving. Take a
  stream that the factory tracks, and segments of both directions, in any order and of any sizes,
  that fit the retained prefix. When one direction as a whole carries a ClientHello and the other is
  a handshake without one, then after the segments the stream has exactly that ClientHello, and the
  recorded client is the endpoint that sent it, whichever side the capture saw first.
\<close>

theorem client_hello_found:
  assumes "factory_New a0 netFlow tcpFlow t ts = (Some s, a)" and "\<not> st_rejected s"
    and "HandshakeMessages (dir_bytes d evs) = Inr cm" and "FindClientHello cb (dir_bytes d evs) = Inr (Some ch)"
    and "HandshakeMessages (dir_bytes (\<not> d) evs) = Inr sm" and "FindClientHello cb (dir_bytes (\<not> d) evs) = Inr None"
    and "int (length (dir_bytes d evs)) \<le> o_MaxStreamPrefix (a_opts a)"
    and "int (length (dir_bytes (\<not> d) evs)) \<le> o_MaxStreamPrefix (a_opts a)"
  shows "\<exists>s' a'. feed cb (s, a) evs = (s', a') \<and> fl_Client (st_flow s') = Some ch \<and>
    fl_ClientIP (st_flow s') = addrOf (if d then fst netFlow else snd netFlow) \<and>
    fl_ClientPort (st_flow s') = portOf (if d then fst tcpFlow else snd tcpFlow)"
proof -
  define e where "e = ((addrOf (fst netFlow), portOf (fst tcpFlow)), (addrOf (snd netFlow), portOf (snd tcpFlow)))"
  have "FindClientHello cb [] = Inr None"
    by (simp add: FindClientHello_def HandshakeMessages_def HandshakeMessages_loop_unfold)
  then have fresh: "watching cb d ch e [] [] s"
    using assms(1,2)
    by (auto simp: factory_New_def Let_def watching_def e_def endpoints_def dirIndex_def split: if_splits)
  obtain s' a' where r: "feed cb (s, a) evs = (s', a')"
    "watching cb d ch e (dir_bytes d evs) (dir_bytes (\<not> d) evs) s'"
    using feed_watching [OF fresh assms(3-8) prefix_order.refl prefix_order.refl] by blast
  then have "fl_Client (st_flow s') = Some ch" "endpoints (st_flow s') = (if d then e else prod.swap e)"
    using assms(4) by (auto simp: watching_def)
  with r(1) show ?thesis by (auto simp: endpoints_def e_def split: if_splits)
qed

definition sample_stream :: "stream option \<times> Assembler" where
  "sample_stream = factory_New (Assembler_New \<lparr>o_MaxStreamPrefix = 0, o_CloseTimeout = 0, o_MaxStreams = 0\<rparr>)
     ([10, 0, 0, 1], [10, 0, 0, 2]) ([0x1f, 0x90], [1, 0xbb]) None 5"

theorem client_hello_found_witness:
  "\<exists>s' a'. feed string_methods (the (fst sample_stream), snd sample_stream)
      [(False, take 20 sample_record, 6), (True, [], 7), (False, drop 20 sample_record, 8)] = (s', a') \<and>
    fl_Client (st_flow s') = Some sample_hello \<and>
    fl_ClientIP (st_flow s') = addrOf [10, 0, 0, 2] \<and> fl_ClientPort (st_flow s') = portOf [1, 0xbb]"
proof -
  let ?evs = "[(False, take 20 sample_record, 6 :: int), (True, [], 7), (False, drop 20 sample_record, 8)]"
  let ?net = "([10, 0, 0, 1], [10, 0, 0, 2]) :: bytes \<times> bytes" and ?tcp = "([0x1f, 0x90], [1, 0xbb]) :: bytes \<times> bytes"
  have bytes: "dir_bytes False ?evs = sample_record" "dir_bytes (\<not> False) ?evs = []"
    by (simp_all add: dir_bytes_def)
  have none: "HandshakeMessages [] = Inr []" "FindClientHello string_methods [] = Inr None"
    by (simp_all add: FindClientHello_def HandshakeMessages_def HandshakeMessages_loop_unfold)
  have len: "length sample_record = 50" by (simp add: sample_record_def sample_body_def)
  obtain s a where sa: "sample_stream = (Some s, a)" "\<not> st_rejected s" "o_MaxStreamPrefix (a_opts a) = 32768"
    by (simp add: sample_stream_def factory_New_def Assembler_New_def setDefaults_def zero_Stats_def Let_def
        DefaultMaxStreamPrefix_def DefaultCloseTimeout_def DefaultMaxStreams_def)
  have "\<exists>s' a'. feed string_methods (s, a) ?evs = (s', a') \<and> fl_Client (st_flow s') = Some sample_hello \<and>
    fl_ClientIP (st_flow s') = addrOf (if False then fst ?net else snd ?net) \<and>
    fl_ClientPort (st_flow s') = portOf (if False then fst ?tcp else snd ?tcp)"
    by (rule client_hello_found [OF sa(1) [unfolded sample_stream_def] sa(2)])
      (simp_all only: bytes sample_messages sample_found none, simp_all add: len sa(3))
  then show ?thesis by (simp add: sa(1))
qed


subsection \<open>What is reported, retained and released\<close>

text \<open>
  C4: every flow is reported at most once, over TCP and over QUIC, and only with a ClientHello. In every
  reachable assembler, the number of TCP flows the handler was called with is the number of streams marked
  as emitted; the other flows it was called with are, each exactly once, the flows of the emitted ones among all
  QUIC flows ever created, be they still in the table or dropped by a sweep (the counter of streams says how
  many were created); every reported flow has a ClientHello, and the statistics count the calls, which
  are no more than the streams.
\<close>

theorem flows_reported_once:
  assumes "reachable cb gp a"
  shows "length (filter is_tcp (a_handled a)) = length (filter st_emitted (a_streams a)) \<and>
    (\<exists>gone. s_Streams (a_stats a) = int (length (a_streams a)) + int (length gone) + int (length (a_quicFlows a)) \<and>
       mset (filter (\<lambda>f. \<not> is_tcp f) (a_handled a)) = mset (map q_flow (filter q_emitted (gone @ map snd (a_quicFlows a))))) \<and>
    list_all (\<lambda>f. fl_Client f \<noteq> None) (a_handled a) \<and>
    s_TLSFlows (a_stats a) = int (length (a_handled a)) \<and> s_TLSFlows (a_stats a) \<le> s_Streams (a_stats a)"
proof -
  have inv: "asm_inv a" using assms by (rule reachable_inv)
  then have tcp: "length (filter is_tcp (a_handled a)) = length (filter st_emitted (a_streams a))"
    and all: "list_all (\<lambda>f. fl_Client f \<noteq> None) (a_handled a)" "s_TLSFlows (a_stats a) = int (length (a_handled a))"
    by (simp_all add: asm_inv_def)
  obtain gone where g: "s_Streams (a_stats a) = int (length (a_streams a)) + int (length gone) + int (length (a_quicFlows a))"
    "mset (filter (\<lambda>f. \<not> is_tcp f) (a_handled a)) = mset (map q_flow (filter q_emitted (gone @ map snd (a_quicFlows a))))"
    using inv by (auto simp: asm_inv_def quic_ledger_def)
  have "length (filter (\<lambda>f. \<not> is_tcp f) (a_handled a)) = length (filter q_emitted (gone @ map snd (a_quicFlows a)))"
    using arg_cong [OF g(2), of size] unfolding size_mset length_map .
  also have "\<dots> \<le> length gone + length (a_quicFlows a)"
    using length_filter_le [of q_emitted "gone @ map snd (a_quicFlows a)"] by simp
  finally have "length (a_handled a) \<le> length (a_streams a) + (length gone + length (a_quicFlows a))"
    using sum_length_filter_compl [of is_tcp "a_handled a"] tcp length_filter_le [of st_emitted "a_streams a"] by linarith
  then have "s_TLSFlows (a_stats a) \<le> s_Streams (a_stats a)" using all(2) g(1) by simp
  with tcp all g show ?thesis by blast
qed

definition no_packets :: gopacket where
  "no_packets = \<lparr>gp_decode = (\<lambda>_ _. \<lparr>pk_net = None, pk_udp = None, pk_tcp = None\<rparr>), gp_callbacks = (\<lambda>_. [])\<rparr>"

definition sample_opts :: Options where
  "sample_opts = \<lparr>o_MaxStreamPrefix = 0, o_CloseTimeout = 0, o_MaxStreams = 0\<rparr>"

text \<open>
  A reassembler that makes one stream of a packet, at the time \<open>t\<close>, and delivers its ClientHello and completes
  it with the call given by \<open>now\<close>: the packet itself or the final flush.
\<close>

definition hello_gopacket :: "(call list \<Rightarrow> bool) \<Rightarrow> int \<Rightarrow> gopacket" where
  "hello_gopacket now t =
     \<lparr>gp_decode = (\<lambda>_ _. \<lparr>pk_net = Some ([10, 0, 0, 1], [10, 0, 0, 2]), pk_udp = None,
        pk_tcp = Some \<lparr>tcp_SYN = True, tcp_Payload = [], tcp_SrcPort = [1, 0], tcp_DstPort = [1, 0xbb]\<rparr>\<rparr>),
      gp_callbacks = (\<lambda>cs.
        (if last cs \<noteq> FlushAll then [CbNew ([10, 0, 0, 1], [10, 0, 0, 2]) ([1, 0], [1, 0xbb]) None t] else []) @
        (if now cs then [CbReassembledSG 0 True sample_record t, CbReassemblyComplete 0] else []))\<rparr>"

lemmas sample_eval = Packet_def Assembler_New_def setDefaults_def sample_opts_def Let_def
  trackTime_def run_call_def run_callback_def factory_New_def zero_Stats_def
  DefaultMaxStreamPrefix_def DefaultCloseTimeout_def DefaultMaxStreams_def

definition sample_new_stream :: "int \<Rightarrow> stream" where
  "sample_new_stream t = \<lparr>st_flow = \<lparr>fl_Transport = TransportTCP, fl_ClientIP = addrOf [10, 0, 0, 1],
       fl_ServerIP = addrOf [10, 0, 0, 2], fl_ClientPort = portOf [1, 0], fl_ServerPort = portOf [1, 0xbb],
       fl_FirstSeen = t, fl_LastSeen = t, fl_Client = None, fl_Server = None, fl_PrefixTruncated = False\<rparr>,
     st_buf = [[], []], st_full = [False, False], st_clientIdx = 0, st_haveCH = False, st_haveSH = False,
     st_rejected = False, st_emitted = False, st_counted = True\<rparr>"

text \<open>The flow it reports.\<close>

definition sample_flow :: "int \<Rightarrow> Flow" where
  "sample_flow t = (st_flow (sample_new_stream t))\<lparr>fl_Client := Some sample_hello\<rparr>"

lemma sample_heard:
  assumes "o_MaxStreamPrefix (a_opts a) = 32768"
  shows "st_ReassembledSG string_methods (sample_new_stream t) a True sample_record t =
    ((sample_new_stream t)\<lparr>st_flow := sample_flow t, st_buf := [sample_record, []], st_haveCH := True\<rparr>, a)"
proof -
  have none: "FindServerHello string_methods [] = Inr None"
    by (simp add: FindServerHello_def findServerHelloIn_def HandshakeMessages_def HandshakeMessages_loop_unfold)
  have len: "length sample_record = 50" by (simp add: sample_record_def sample_body_def)
  then have "sample_record \<noteq> []" by auto
  then show ?thesis
    using assms
    by (simp add: st_ReassembledSG_def st_parse_def st_findServer_def dirIndex_def sample_found none len sample_new_stream_def
        sample_flow_def Let_def)
qed

lemma sample_delivered:
  assumes "a_streams a = [sample_new_stream t]" and "o_MaxStreamPrefix (a_opts a) = 32768"
  defines "b \<equiv> foldl (run_callback string_methods) a [CbReassembledSG 0 True sample_record t, CbReassemblyComplete 0]"
  shows "a_handled b = a_handled a @ [sample_flow t] \<and> length (a_streams b) = 1 \<and> a_quicFlows b = a_quicFlows a \<and>
    a_opts b = a_opts a \<and> a_lastFlush b = a_lastFlush a \<and> s_Streams (a_stats b) = s_Streams (a_stats a) \<and>
    s_StreamsDropped (a_stats b) = s_StreamsDropped (a_stats a)"
proof -
  have flags: "\<not> st_emitted (sample_new_stream t)" "st_counted (sample_new_stream t)" "fl_Client (sample_flow t) \<noteq> None"
    by (simp_all add: sample_new_stream_def sample_flow_def)
  show ?thesis
    unfolding b_def
    by (simp add: run_callback_def assms(1,2) sample_heard st_ReassemblyComplete_def st_emit_def flags Let_def)
qed

text \<open>Its first packet, up to the delivery.\<close>

definition sample_first :: "int \<Rightarrow> Assembler" where
  "sample_first t = run_callback string_methods
     ((trackTime ((Assembler_New sample_opts)\<lparr>a_stats := zero_Stats\<lparr>s_Packets := 1, s_TCPPackets := 1\<rparr>\<rparr>) t)
       \<lparr>a_calls := [AssembleWithContext ([10, 0, 0, 1], [10, 0, 0, 2])
          \<lparr>tcp_SYN = True, tcp_Payload = [], tcp_SrcPort = [1, 0], tcp_DstPort = [1, 0xbb]\<rparr> t]\<rparr>)
     (CbNew ([10, 0, 0, 1], [10, 0, 0, 2]) ([1, 0], [1, 0xbb]) None t)"

lemma sample_first_fields:
  assumes "0 < t"
  shows "a_streams (sample_first t) = [sample_new_stream t]" "o_MaxStreamPrefix (a_opts (sample_first t)) = 32768"
    "a_handled (sample_first t) = []" "a_quicFlows (sample_first t) = []" "a_lastFlush (sample_first t) = t"
    "s_Streams (a_stats (sample_first t)) = 1" "s_StreamsDropped (a_stats (sample_first t)) = 0"
    "0 < o_CloseTimeout (a_opts (sample_first t))"
  using assms by (simp_all add: sample_first_def sample_eval sample_new_stream_def)

lemma sample_Packet:
  assumes "0 < t"
  defines "c \<equiv> AssembleWithContext ([10, 0, 0, 1], [10, 0, 0, 2])
          \<lparr>tcp_SYN = True, tcp_Payload = [], tcp_SrcPort = [1, 0], tcp_DstPort = [1, 0xbb]\<rparr> t"
  shows "Packet string_methods (hello_gopacket now t) (Assembler_New sample_opts) [1] t 1 =
    (if now [c] then foldl (run_callback string_methods) (sample_first t) [CbReassembledSG 0 True sample_record t, CbReassemblyComplete 0]
     else sample_first t)"
proof -
  let ?ds = "if now [c] then [CbReassembledSG 0 True sample_record t, CbReassemblyComplete 0] else []"
  define a where "a = foldl (run_callback string_methods) (sample_first t) ?ds"
  have f: "a_lastFlush a = t" "0 < o_CloseTimeout (a_opts a)"
    using sample_delivered [OF sample_first_fields(1,2) [OF assms(1)]] sample_first_fields [OF assms(1)]
    by (auto simp: a_def split: if_split)
  have "a_calls (Assembler_New sample_opts) = []" "a_stats (Assembler_New sample_opts) = zero_Stats"
    by (simp_all add: Assembler_New_def Let_def)
  then have call: "run_call string_methods (hello_gopacket now t)
      (trackTime ((Assembler_New sample_opts)\<lparr>a_stats := zero_Stats\<lparr>s_Packets := 1, s_TCPPackets := 1\<rparr>\<rparr>) t) c = a"
    by (simp add: run_call_def hello_gopacket_def a_def sample_first_def c_def trackTime_def Let_def zero_Stats_def)
  have "Packet string_methods (hello_gopacket now t) (Assembler_New sample_opts) [1] t 1 = a"
    using call f \<open>0 < t\<close> \<open>a_stats (Assembler_New sample_opts) = zero_Stats\<close>
    by (simp add: Packet_def hello_gopacket_def [of now t, THEN arg_cong, of gp_decode] c_def Let_def zero_Stats_def)
  then show ?thesis by (simp add: a_def)
qed

lemma sample_reported:
  assumes "0 < t" and "\<forall>c. now [c]"
  defines "a \<equiv> Packet string_methods (hello_gopacket now t) (Assembler_New sample_opts) [1] t 1"
  shows "a_handled a = [sample_flow t] \<and> length (a_streams a) = 1 \<and> a_quicFlows a = [] \<and> s_Streams (a_stats a) = 1 \<and>
    s_StreamsDropped (a_stats a) = 0"
  using sample_delivered [OF sample_first_fields(1,2) [OF assms(1)]] assms(2)
  unfolding a_def sample_Packet [OF assms(1)] by (simp add: sample_first_fields [OF assms(1)])

theorem flows_reported_once_witness:
  "let a = Packet string_methods (hello_gopacket (\<lambda>_. True) 5) (Assembler_New sample_opts) [1] 5 1 in
   a_handled a = [sample_flow 5] \<and> length (filter st_emitted (a_streams a)) = 1 \<and> s_TLSFlows (a_stats a) = 1"
proof -
  let ?a = "Packet string_methods (hello_gopacket (\<lambda>_. True) 5) (Assembler_New sample_opts) [1] 5 1"
  have h: "a_handled ?a = [sample_flow 5]" using sample_reported [of 5 "\<lambda>_. True"] by simp
  have "is_tcp (sample_flow 5)" by (simp add: sample_flow_def sample_new_stream_def is_tcp_def)
  with h show ?thesis
    using flows_reported_once [OF reachable.packet [OF reachable.new],
        of string_methods "hello_gopacket (\<lambda>_. True) 5" sample_opts "[1]" 5 1]
    by (simp add: Let_def)
qed

text \<open>The bytes a stream and a QUIC flow retain.\<close>

definition stream_bytes :: "stream \<Rightarrow> nat" where
  "stream_bytes s = length (st_buf s ! 0) + length (st_buf s ! 1)"

definition quic_bytes :: "quicFlow \<Rightarrow> nat" where
  "quic_bytes f = sum_list (map (\<lambda>p. length (snd p)) (cs_segments (q_client f))) +
     sum_list (map (\<lambda>p. length (snd p)) (cs_segments (q_server f)))"

lemma sum_list_bound: "(\<And>x. x \<in> set xs \<Longrightarrow> f x \<le> b) \<Longrightarrow> sum_list (map f xs) \<le> length xs * (b :: nat)"
  by (induction xs) (auto simp: add_mono)

text \<open>
  C9: memory is bounded whatever the traffic. In every reachable assembler, the tracked TCP streams
  retain at most \<open>2 * MaxStreams * MaxStreamPrefix\<close> bytes, the QUIC flows at most
  \<open>2 * MaxStreams * 16 KiB\<close>, a rejected stream retains nothing, and the counter of live streams is
  exactly the tracked streams and the QUIC flows.
\<close>

theorem memory_bounded:
  assumes "reachable cb gp a"
  defines "op \<equiv> a_opts a"
  shows "int (sum_list (map stream_bytes (filter st_counted (a_streams a)))) \<le> 2 * o_MaxStreams op * o_MaxStreamPrefix op \<and>
    int (sum_list (map (\<lambda>e. quic_bytes (snd e)) (a_quicFlows a))) \<le> 2 * o_MaxStreams op * int maxCryptoBytes \<and>
    list_all (\<lambda>s. st_rejected s \<longrightarrow> stream_bytes s = 0) (a_streams a) \<and>
    s_LiveStreams (a_stats a) = int (length (filter st_counted (a_streams a))) + int (length (a_quicFlows a))"
proof -
  have inv: "asm_inv a" using reachable_inv [OF assms(1)] .
  let ?p = "o_MaxStreamPrefix op" and ?n = "o_MaxStreams op"
  let ?ss = "filter st_counted (a_streams a)"
  have pos: "0 < ?p" "int (length ?ss) \<le> ?n" "int (length (a_quicFlows a)) \<le> ?n"
    using inv by (simp_all add: asm_inv_def op_def)
  have "stream_bytes s \<le> 2 * nat ?p" if "s \<in> set ?ss" for s
    using inv that by (auto simp: asm_inv_def list_all_iff stream_inv_def stream_bytes_def op_def)
  then have "sum_list (map stream_bytes ?ss) \<le> length ?ss * (2 * nat ?p)" by (rule sum_list_bound)
  then have "int (sum_list (map stream_bytes ?ss)) \<le> int (length ?ss * (2 * nat ?p))"
    by (simp only: of_nat_le_iff)
  also have "\<dots> = int (length ?ss) * (2 * ?p)" using pos(1) by simp
  also have "\<dots> \<le> ?n * (2 * ?p)" using pos by (intro mult_right_mono) auto
  finally have tcp: "int (sum_list (map stream_bytes ?ss)) \<le> 2 * ?n * ?p" by (simp add: algebra_simps)
  have "quic_bytes (snd e) \<le> 2 * maxCryptoBytes" if "e \<in> set (a_quicFlows a)" for e
    using inv that by (force simp: asm_inv_def list_all_iff quic_inv_def quic_bytes_def cs_inv_def)
  then have "sum_list (map (\<lambda>e. quic_bytes (snd e)) (a_quicFlows a)) \<le> length (a_quicFlows a) * (2 * maxCryptoBytes)"
    by (rule sum_list_bound)
  then have "int (sum_list (map (\<lambda>e. quic_bytes (snd e)) (a_quicFlows a))) \<le>
      int (length (a_quicFlows a) * (2 * maxCryptoBytes))"
    by (simp only: of_nat_le_iff)
  also have "\<dots> = int (length (a_quicFlows a)) * (2 * int maxCryptoBytes)" by simp
  also have "\<dots> \<le> ?n * (2 * int maxCryptoBytes)" using pos by (intro mult_right_mono) auto
  finally have quic: "int (sum_list (map (\<lambda>e. quic_bytes (snd e)) (a_quicFlows a))) \<le> 2 * ?n * int maxCryptoBytes"
    by (simp add: algebra_simps)
  have "list_all (\<lambda>s. st_rejected s \<longrightarrow> stream_bytes s = 0) (a_streams a)"
    using inv by (auto simp: asm_inv_def list_all_iff stream_inv_def stream_bytes_def)
  with tcp quic inv show ?thesis by (simp add: asm_inv_def)
qed

theorem memory_bounded_witness:
  "s_LiveStreams (a_stats (Packet string_methods no_packets (Assembler_New sample_opts) [1] 5 1)) = 0"
  using memory_bounded [OF reachable.packet [OF reachable.new], of string_methods no_packets sample_opts "[1]" 5 1]
  by (simp add: Packet_def no_packets_def Assembler_New_def Let_def)


subsection \<open>Closing\<close>

text \<open>The stream a callback is for, and a sequence of callbacks that completes a stream for good.\<close>

fun names :: "nat \<Rightarrow> callback \<Rightarrow> bool" where
  "names i (CbNew _ _ _ _) = False"
| "names i (CbReassembledSG j _ _ _) = (i = j)"
| "names i (CbReassemblyComplete j) = (i = j)"

definition makes_stream :: "callback \<Rightarrow> bool" where
  "makes_stream c \<longleftrightarrow> (case c of
     CbNew _ _ (Some t) _ \<Rightarrow> tcp_SYN t \<or> tcp_Payload t \<noteq> []
   | CbNew _ _ None _ \<Rightarrow> True
   | _ \<Rightarrow> False)"

definition created :: "callback list \<Rightarrow> nat" where
  "created cs = length (filter makes_stream cs)"

definition completes :: "callback list \<Rightarrow> nat \<Rightarrow> bool" where
  "completes cs i \<longleftrightarrow>
     (\<exists>xs ys. cs = xs @ CbReassemblyComplete i # ys \<and> i < created xs \<and> (\<forall>c \<in> set ys. \<not> names i c))"

lemma created_snoc: "created (cs @ [c]) = created cs + (if makes_stream c then 1 else 0)"
  by (simp add: created_def)

lemma completes_snoc:
  "completes (cs @ [c]) i \<longleftrightarrow> c = CbReassemblyComplete i \<and> i < created cs \<or> completes cs i \<and> \<not> names i c"
proof
  assume "completes (cs @ [c]) i"
  then obtain xs ys where d: "cs @ [c] = xs @ CbReassemblyComplete i # ys" "i < created xs" "\<forall>c \<in> set ys. \<not> names i c"
    by (auto simp: completes_def)
  then show "c = CbReassemblyComplete i \<and> i < created cs \<or> completes cs i \<and> \<not> names i c"
    by (cases ys rule: rev_cases) (auto simp: completes_def)
next
  assume "c = CbReassemblyComplete i \<and> i < created cs \<or> completes cs i \<and> \<not> names i c"
  then show "completes (cs @ [c]) i"
  proof
    assume "c = CbReassemblyComplete i \<and> i < created cs"
    then show ?thesis unfolding completes_def by (intro exI [of _ cs] exI [of _ "[]"]) simp
  next
    assume c: "completes cs i \<and> \<not> names i c"
    then obtain xs ys where "cs = xs @ CbReassemblyComplete i # ys" "i < created xs" "\<forall>c \<in> set ys. \<not> names i c"
      by (auto simp: completes_def)
    with c show ?thesis unfolding completes_def by (intro exI [of _ xs] exI [of _ "ys @ [c]"]) auto
  qed
qed

text \<open>The callbacks of a sequence of calls, in order: those each call makes.\<close>

definition history :: "gopacket \<Rightarrow> call list \<Rightarrow> callback list" where
  "history gp calls = concat (map (\<lambda>n. gp_callbacks gp (take (Suc n) calls)) [0..<length calls])"

lemma history_Nil [simp]: "history gp [] = []"
  by (simp add: history_def)

lemma history_snoc: "history gp (calls @ [c]) = history gp calls @ gp_callbacks gp (calls @ [c])"
proof -
  have "map (\<lambda>n. gp_callbacks gp (take (Suc n) (calls @ [c]))) [0..<length calls] =
      map (\<lambda>n. gp_callbacks gp (take (Suc n) calls)) [0..<length calls]"
    by (rule map_cong) auto
  then show ?thesis by (simp add: history_def del: take_append map_eq_conv)
qed

lemma asm_inv_callbacks: "asm_inv a \<Longrightarrow> asm_inv (foldl (run_callback cb) a cs)"
  by (induction cs arbitrary: a) (auto intro: asm_inv_callback)

lemma st_effect_streams:
  assumes "asm_inv a" and "i < length (a_streams a)"
  shows "a_streams (snd (st_ReassembledSG cb (a_streams a ! i) a dir data ts)) = a_streams a"
    and "a_streams (snd (st_ReassemblyComplete (a_streams a ! i) a)) = a_streams a"
    and "a_quicFlows (snd (st_ReassembledSG cb (a_streams a ! i) a dir data ts)) = a_quicFlows a"
    and "a_quicFlows (snd (st_ReassemblyComplete (a_streams a ! i) a)) = a_quicFlows a"
    and "a_calls (snd (st_ReassembledSG cb (a_streams a ! i) a dir data ts)) = a_calls a"
    and "a_calls (snd (st_ReassemblyComplete (a_streams a ! i) a)) = a_calls a"
proof -
  have inv: "stream_inv (a_opts a) (a_streams a ! i)" "0 < o_MaxStreamPrefix (a_opts a)"
    using assms by (auto simp: asm_inv_def list_all_length)
  obtain s1 a1 s2 a2 where r: "st_ReassembledSG cb (a_streams a ! i) a dir data ts = (s1, a1)"
    "st_ReassemblyComplete (a_streams a ! i) a = (s2, a2)" by fastforce
  note e = st_ReassembledSG_ok [OF inv r(1)] st_ReassemblyComplete_ok [OF inv(1) r(2)]
  show "a_streams (snd (st_ReassembledSG cb (a_streams a ! i) a dir data ts)) = a_streams a"
    "a_streams (snd (st_ReassemblyComplete (a_streams a ! i) a)) = a_streams a"
    "a_quicFlows (snd (st_ReassembledSG cb (a_streams a ! i) a dir data ts)) = a_quicFlows a"
    "a_quicFlows (snd (st_ReassemblyComplete (a_streams a ! i) a)) = a_quicFlows a"
    "a_calls (snd (st_ReassembledSG cb (a_streams a ! i) a dir data ts)) = a_calls a"
    "a_calls (snd (st_ReassemblyComplete (a_streams a ! i) a)) = a_calls a"
    using e r by (simp_all add: st_effect_def Let_def)
qed

lemma run_callback_quic:
  assumes "asm_inv a"
  shows "a_quicFlows (run_callback cb a c) = a_quicFlows a"
proof (cases c)
  case (CbNew netFlow tcpFlow t ts)
  have "a_quicFlows (snd (factory_New a netFlow tcpFlow t ts)) = a_quicFlows a"
    by (simp add: factory_New_def Let_def)
  then show ?thesis by (auto simp: CbNew run_callback_def split: prod.splits option.splits)
next
  case (CbReassembledSG j dir data ts)
  then show ?thesis
    using st_effect_streams(3) [OF assms(1), of j cb dir data ts] by (auto simp: run_callback_def split: prod.splits)
next
  case (CbReassemblyComplete j)
  then show ?thesis
    using st_effect_streams(4) [OF assms(1), of j] by (auto simp: run_callback_def split: prod.splits)
qed

lemma run_callback_other:
  assumes "asm_inv a" and "i < length (a_streams a)" and "\<not> names i c"
  shows "i < length (a_streams (run_callback cb a c)) \<and> a_streams (run_callback cb a c) ! i = a_streams a ! i"
proof (cases c)
  case (CbNew netFlow tcpFlow t ts)
  have "a_streams (snd (factory_New a netFlow tcpFlow t ts)) = a_streams a"
    by (simp add: factory_New_def Let_def)
  with assms(2) show ?thesis
    by (auto simp: CbNew run_callback_def nth_append split: prod.splits option.splits)
next
  case (CbReassembledSG j dir data ts)
  then show ?thesis
    using assms st_effect_streams(1) [OF assms(1), of j cb dir data ts]
    by (auto simp: run_callback_def split: prod.splits)
next
  case (CbReassemblyComplete j)
  then show ?thesis
    using assms st_effect_streams(2) [OF assms(1), of j]
    by (auto simp: run_callback_def split: prod.splits)
qed

lemma run_callback_length:
  assumes "asm_inv a"
  shows "length (a_streams (run_callback cb a c)) = length (a_streams a) + (if makes_stream c then 1 else 0) \<and>
    a_calls (run_callback cb a c) = a_calls a"
proof (cases c)
  case (CbNew netFlow tcpFlow t ts)
  have "a_streams (snd (factory_New a netFlow tcpFlow t ts)) = a_streams a \<and> a_calls (snd (factory_New a netFlow tcpFlow t ts)) = a_calls a \<and>
      (fst (factory_New a netFlow tcpFlow t ts) \<noteq> None \<longleftrightarrow> makes_stream c)"
    by (auto simp: factory_New_def Let_def makes_stream_def CbNew split: option.split)
  then show ?thesis by (auto simp: CbNew run_callback_def split: prod.splits option.splits)
next
  case (CbReassembledSG j dir data ts)
  then show ?thesis
    using st_effect_streams(1,5) [OF assms(1), of j cb dir data ts] by (auto simp: makes_stream_def run_callback_def split: prod.splits)
next
  case (CbReassemblyComplete j)
  then show ?thesis
    using st_effect_streams(2,6) [OF assms(1), of j] by (auto simp: makes_stream_def run_callback_def split: prod.splits)
qed

text \<open>A completed stream with a ClientHello was reported and no longer counts as live.\<close>

definition released :: "stream \<Rightarrow> bool" where
  "released s \<longleftrightarrow> \<not> st_counted s \<and> (st_haveCH s \<longrightarrow> st_emitted s)"

lemma complete_released:
  assumes "asm_inv a" and "i < length (a_streams a)"
  shows "released (a_streams (run_callback cb a (CbReassemblyComplete i)) ! i)"
proof -
  obtain s' a' where r: "st_ReassemblyComplete (a_streams a ! i) a = (s', a')" by fastforce
  have sinv: "stream_inv (a_opts a) (a_streams a ! i)" using assms by (auto simp: asm_inv_def list_all_length)
  have str: "a_streams a' = a_streams a" using st_effect_streams(2) [OF assms] r by simp
  obtain t d where t: "st_emit (a_streams a ! i) a = (t, d)" by fastforce
  then have "t = (a_streams a ! i)\<lparr>st_emitted := st_emitted (a_streams a ! i) \<or> st_haveCH (a_streams a ! i)\<rparr>"
    using st_emit_ok [OF sinv t] by blast
  then have "released s'"
    using r t by (auto simp: released_def st_ReassemblyComplete_def Let_def split: if_splits)
  with r str assms(2) show ?thesis by (simp add: run_callback_def)
qed

text \<open>
  An assembler follows the callbacks made so far: it has a stream for each one that makes one, and the
  completed ones are released.
\<close>

definition follows :: "callback list \<Rightarrow> Assembler \<Rightarrow> bool" where
  "follows cs a \<longleftrightarrow> length (a_streams a) = created cs \<and> (\<forall>i. completes cs i \<longrightarrow> released (a_streams a ! i))"

definition tracked :: "gopacket \<Rightarrow> Assembler \<Rightarrow> bool" where
  "tracked gp a \<longleftrightarrow> follows (history gp (a_calls a)) a"

lemma completes_created: "completes cs i \<Longrightarrow> i < created cs"
  by (auto simp: completes_def created_def)

lemma follows_callback:
  assumes "asm_inv a" and "follows cs a"
  shows "follows (cs @ [c]) (run_callback cb a c)"
proof -
  have "released (a_streams (run_callback cb a c) ! i)" if "completes (cs @ [c]) i" for i
    using that unfolding completes_snoc
  proof
    assume "c = CbReassemblyComplete i \<and> i < created cs"
    then show ?thesis using complete_released [OF assms(1), of i cb] assms(2) by (simp add: follows_def)
  next
    assume c: "completes cs i \<and> \<not> names i c"
    then have "i < length (a_streams a)" using completes_created assms(2) by (auto simp: follows_def)
    with c show ?thesis using run_callback_other [OF assms(1), of i c cb] assms(2) by (simp add: follows_def)
  qed
  then show ?thesis
    using assms run_callback_length [OF assms(1), of cb c] by (simp add: follows_def created_snoc)
qed

lemma follows_callbacks:
  "asm_inv a \<Longrightarrow> follows cs a \<Longrightarrow>
   follows (cs @ ds) (foldl (run_callback cb) a ds) \<and> a_calls (foldl (run_callback cb) a ds) = a_calls a"
proof (induction ds arbitrary: a cs)
  case (Cons d ds)
  have "asm_inv (run_callback cb a d)" using Cons.prems(1) by (rule asm_inv_callback)
  from Cons.IH [OF this follows_callback [OF Cons.prems]] show ?case
    using run_callback_length [OF Cons.prems(1), of cb d] by simp
qed simp

lemma tracked_call:
  assumes "asm_inv a" and "tracked gp a"
  shows "tracked gp (run_call cb gp a c) \<and> a_calls (run_call cb gp a c) = a_calls a @ [c]"
proof -
  let ?a = "a\<lparr>a_calls := a_calls a @ [c]\<rparr>"
  have "asm_inv ?a" "follows (history gp (a_calls a)) ?a"
    using assms by (simp_all add: emit_simps tracked_def follows_def)
  from follows_callbacks [OF this, of "gp_callbacks gp (a_calls a @ [c])" cb]
  show ?thesis by (simp add: run_call_def Let_def tracked_def history_snoc)
qed

lemma tracked_cong: "tracked gp a \<Longrightarrow> a_streams b = a_streams a \<Longrightarrow> a_calls b = a_calls a \<Longrightarrow> tracked gp b"
  by (simp add: tracked_def follows_def)

lemma quicPacket_keeps:
  assumes "asm_inv a"
  shows "a_streams (quicPacket cb a src dst sport dport payload ts) = a_streams a \<and>
    a_calls (quicPacket cb a src dst sport dport payload ts) = a_calls a"
proof -
  have step: "a_streams b' = a_streams b \<and> a_calls b' = a_calls b"
    if "quicFlowPacket cb b f h src sport payload ts = (f', b')" "quic_inv f" for b f h f' b'
    using quicFlowPacket_ok [OF that(2,1)] by (simp add: q_effect_def Let_def)
  have "quic_inv f" if "map_of (a_quicFlows a) k = Some f" for k f
    using assms map_of_SomeD [OF that] by (force simp: asm_inv_def list_all_iff)
  then show ?thesis
    unfolding quicPacket_def Let_def by (auto split: sum.split option.split prod.split dest!: step)
qed

lemma flushQUIC_keeps: "a_streams (flushQUIC a t) = a_streams a \<and> a_calls (flushQUIC a t) = a_calls a"
proof -
  obtain m' a' where l: "flushQUIC_loop (a_quicFlows a) t a = (m', a')" by fastforce
  show ?thesis using flushQUIC_loop_spec [OF l] unfolding flushQUIC_def l prod.case by simp
qed

lemma tracked_flush: "tracked gp a \<Longrightarrow> tracked gp (flushQUIC a t)"
  using flushQUIC_keeps tracked_cong by blast

lemma tracked_time: "tracked gp (trackTime a ts) = tracked gp a"
  by (simp add: trackTime_def Let_def tracked_def follows_def)

lemma tracked_fields [simp]:
  "tracked gp (a\<lparr>a_stats := st\<rparr>) = tracked gp a" "tracked gp (a\<lparr>a_lastFlush := n\<rparr>) = tracked gp a"
  by (simp_all add: tracked_def follows_def)

lemma tracked_Packet:
  assumes "asm_inv a" and "tracked gp a"
  shows "tracked gp (Packet cb gp a data ts linkType)"
proof -
  have quic: "tracked gp (quicPacket cb b src dst sport dport payload ts)"
    if "asm_inv b" "tracked gp b" for b src dst sport dport payload
    using quicPacket_keeps [OF that(1)] tracked_cong [OF that(2)] by blast
  note step = conjunct1 [OF tracked_call]
  show ?thesis
    unfolding Packet_def Let_def
    by (auto simp: emit_simps tracked_time assms intro!: quic tracked_flush step asm_inv_call asm_inv_trackTime split: option.splits)
qed

lemma reachable_tracked: "reachable cb gp a \<Longrightarrow> tracked gp a"
proof (induction rule: reachable.induct)
  case (new opts)
  show ?case by (simp add: Assembler_New_def tracked_def follows_def created_def completes_def Let_def)
next
  case (packet a data ts linkType)
  then show ?case using tracked_Packet reachable_inv by blast
next
  case (flush a t)
  then show ?case using tracked_call tracked_flush reachable_inv unfolding FlushOlderThan_def by blast
next
  case (close a now)
  then show ?case using tracked_call tracked_flush reachable_inv unfolding Close_def by blast
qed

lemma callbacks_quic: "asm_inv a \<Longrightarrow> a_quicFlows (foldl (run_callback cb) a cs) = a_quicFlows a"
  by (induction cs arbitrary: a) (simp_all add: run_callback_quic asm_inv_callback)

text \<open>
  C10: closing reports everything. Whatever gopacket's reassembler does, and whenever it completes a stream
  (before, on a sweep or the end of the connection, or in the final flush of \<^verbatim>\<open>Close\<close>), after \<^verbatim>\<open>Close\<close> every
  stream it has completed is released and, if a ClientHello was seen on it, reported. When no QUIC flow was
  seen more than an hour after the wall clock, then no QUIC flow is left, the flows of those with an unreported
  ClientHello were handed to the handler, and, once the reassembler has completed every stream, no connection
  is counted as live.
\<close>

theorem close_reports_all:
  assumes "reachable cb gp a"
    and "\<forall>e \<in> set (a_quicFlows a). fl_LastSeen (q_flow (snd e)) \<le> now + 3600 * 10 ^ 9"
  shows "let b = Close cb gp a now; made = history gp (a_calls a @ [FlushAll]) in
    length (a_streams b) = created made \<and>
    (\<forall>i. completes made i \<longrightarrow> i < length (a_streams b) \<and> released (a_streams b ! i)) \<and>
    a_quicFlows b = [] \<and>
    (\<exists>pre. a_handled b = pre @ map (\<lambda>e. q_flow (snd e)) (filter unreported (a_quicFlows a))) \<and>
    ((\<forall>i < created made. completes made i) \<longrightarrow> s_LiveStreams (a_stats b) = 0)"
proof -
  define made where "made = history gp (a_calls a @ [FlushAll])"
  define c where "c = Close cb gp a now"
  have inv: "asm_inv a" using reachable_inv [OF assms(1)] .
  define b where "b = run_call cb gp a FlushAll"
  have b: "tracked gp b" "a_calls b = a_calls a @ [FlushAll]"
    using tracked_call [OF inv reachable_tracked [OF assms(1)], of cb FlushAll] by (simp_all add: b_def)
  have quic: "a_quicFlows b = a_quicFlows a"
    unfolding b_def run_call_def Let_def by (subst callbacks_quic) (simp_all add: inv emit_simps)
  obtain m' a' where l: "flushQUIC_loop (a_quicFlows b) (now + 3600 * 10 ^ 9) b = (m', a')" by fastforce
  note f = flushQUIC_loop_spec [OF l]
  have idle: "filter (idle (now + 3600 * 10 ^ 9)) (a_quicFlows a) = a_quicFlows a"
    using assms(2) by (auto simp: filter_id_conv idle_def)
  have "m' = []" using f assms(2) by (auto simp: quic filter_empty_conv idle_def)
  moreover have "c = a'\<lparr>a_quicFlows := m'\<rparr>"
    unfolding c_def Close_def flushQUIC_def b_def [symmetric] l prod.case ..
  moreover have "a_handled a' = a_handled b @ map (\<lambda>e. q_flow (snd e)) (filter unreported (a_quicFlows a))"
    using f unfolding quic flushed_def idle by blast
  ultimately have q: "a_quicFlows c = []"
    "\<exists>pre. a_handled c = pre @ map (\<lambda>e. q_flow (snd e)) (filter unreported (a_quicFlows a))" "a_streams c = a_streams b"
    using f by auto
  have len: "length (a_streams c) = created made" and rel: "\<And>i. completes made i \<Longrightarrow> released (a_streams c ! i)"
    using b q(3) by (simp_all add: tracked_def follows_def made_def)
  have "s_LiveStreams (a_stats c) = 0" if "\<forall>i < created made. completes made i"
  proof -
    have "filter st_counted (a_streams c) = []"
      using that rel len by (auto simp: filter_empty_conv in_set_conv_nth released_def)
    then show ?thesis using asm_inv_Close [OF inv, of cb gp now] q(1) by (simp add: asm_inv_def c_def)
  qed
  with q len rel completes_created show ?thesis unfolding made_def [symmetric] c_def [symmetric] Let_def by auto
qed

text \<open>A reassembler that makes one stream of the first packet and completes it at the final flush.\<close>

definition one_stream :: gopacket where
  "one_stream =
     \<lparr>gp_decode = (\<lambda>_ _. \<lparr>pk_net = Some ([10, 0, 0, 1], [10, 0, 0, 2]), pk_udp = None,
        pk_tcp = Some \<lparr>tcp_SYN = True, tcp_Payload = [], tcp_SrcPort = [1, 0], tcp_DstPort = [1, 0xbb]\<rparr>\<rparr>),
      gp_callbacks = (\<lambda>cs. if last cs = FlushAll then [CbReassemblyComplete 0]
        else [CbNew ([10, 0, 0, 1], [10, 0, 0, 2]) ([1, 0], [1, 0xbb]) None 5])\<rparr>"

theorem close_reports_all_witness:
  "let a = Packet string_methods (hello_gopacket (\<lambda>cs. last cs = FlushAll) 5) (Assembler_New sample_opts) [1] 5 1;
       b = Close string_methods (hello_gopacket (\<lambda>cs. last cs = FlushAll) 5) a 5
   in st_counted (a_streams a ! 0) \<and> released (a_streams b ! 0) \<and> s_LiveStreams (a_stats b) = 0"
proof -
  let ?g = "hello_gopacket (\<lambda>cs. last cs = FlushAll) 5"
  let ?a = "Packet string_methods ?g (Assembler_New sample_opts) [1] 5 1"
  have a: "a_quicFlows ?a = []" "st_counted (a_streams ?a ! 0)" "length (a_calls ?a) = 1" "last (a_calls ?a) \<noteq> FlushAll"
    by (simp_all add: sample_eval hello_gopacket_def)
  then obtain c where c: "a_calls ?a = [c]" "c \<noteq> FlushAll" by (cases "a_calls ?a") auto
  have made: "history ?g (a_calls ?a @ [FlushAll]) =
      [CbNew ([10, 0, 0, 1], [10, 0, 0, 2]) ([1, 0], [1, 0xbb]) None 5,
       CbReassembledSG 0 True sample_record 5, CbReassemblyComplete 0]"
    using c(2) unfolding c(1) history_snoc [of _ "[c]"] history_snoc [of _ "[]", simplified]
    by (simp add: hello_gopacket_def)
  have "completes (history ?g (a_calls ?a @ [FlushAll])) 0 \<and> created (history ?g (a_calls ?a @ [FlushAll])) = 1"
    unfolding made completes_snoc [of "[_, _]", simplified] by (simp add: created_def makes_stream_def)
  then show ?thesis
    using close_reports_all [OF reachable.packet [OF reachable.new], of string_methods ?g sample_opts "[1]" 5 1 5] a(1,2)
    by (simp add: Let_def)
qed


subsection \<open>The life of a stream\<close>

text \<open>
  The abstract state of a stream: it is watched for a ClientHello, waits for the server, is
  understood, or was ruled out. The two last are final, and a hello that was found stays.
\<close>

datatype phase = Watching | Have_Client | Understood | Ruled_Out

definition st_phase :: "stream \<Rightarrow> phase" where
  "st_phase s =
     (if st_rejected s then Ruled_Out
      else if st_haveCH s then (if st_haveSH s then Understood else Have_Client)
      else Watching)"

inductive phase_step :: "phase \<Rightarrow> phase \<Rightarrow> bool" where
  stay: "phase_step p p"
| client: "phase_step Watching Have_Client"
| both: "phase_step Watching Understood"
| rule_out: "phase_step Watching Ruled_Out"
| server: "phase_step Have_Client Understood"

inductive_simps phase_step_simps: "phase_step p q"

text \<open>
  C8: the callbacks of a stream refine the phases. Delivering a segment moves a stream only forward
  in its phase; a stream that is understood or ruled out does not change any more, nor does the
  assembler, so a flow reported on a complete flight is final; and a ClientHello that was found is
  never replaced. Completing a stream keeps its phase.
\<close>

theorem stream_refines_phases:
  assumes "stream_inv (a_opts a) s" and "st_ReassembledSG cb s a dir data ts = (s', a')"
    and "st_ReassemblyComplete s a = (s'', a'')"
  shows "phase_step (st_phase s) (st_phase s') \<and>
    (st_phase s \<in> {Understood, Ruled_Out} \<longrightarrow> s' = s \<and> a' = a) \<and>
    (fl_Client (st_flow s) \<noteq> None \<longrightarrow> fl_Client (st_flow s') = fl_Client (st_flow s)) \<and>
    st_phase s'' = st_phase s"
proof -
  have CH: "st_haveCH s \<longleftrightarrow> fl_Client (st_flow s) \<noteq> None" "st_haveSH s \<longrightarrow> st_haveCH s"
    using assms(1) by (auto simp: stream_inv_def)
  have comp: "st_phase s'' = st_phase s"
    using assms(3)
    by (auto simp: st_ReassemblyComplete_def Let_def st_emit_def st_phase_def split: if_splits prod.splits)
  show ?thesis
  proof (cases "data = [] \<or> st_rejected s \<or> (st_haveCH s \<and> st_haveSH s)")
    case True
    then have "(s', a') = (s, a)" using assms(2) by (simp add: ReassembledSG_append)
    with comp show ?thesis by (simp add: phase_step.stay)
  next
    case False
    define t where "t = append_segment s (a_opts a) dir data ts"
    have p: "st_parse cb t a = (s', a')" using assms(2) False by (auto simp: ReassembledSG_append t_def)
    have keep: "st_phase t = st_phase s" "st_haveCH t = st_haveCH s" "st_haveSH t = st_haveSH s"
      "st_rejected t = st_rejected s" "fl_Client (st_flow t) = fl_Client (st_flow s)"
      by (simp_all add: t_def append_segment_keeps st_phase_def)
    have fin: "st_phase s \<notin> {Understood, Ruled_Out}" using False by (auto simp: st_phase_def)
    show ?thesis
    proof (cases "st_haveCH t")
      case True
      then have "phase_step (st_phase t) (st_phase s') \<and> fl_Client (st_flow s') = fl_Client (st_flow t)"
        using p st_parse_found [OF True p] keep False
        by (auto simp: st_phase_def phase_step_simps st_parse_def Let_def st_findServer_def st_emit_def
            split: if_splits sum.splits option.splits prod.splits)
      with keep fin comp show ?thesis by simp
    next
      case no: False
      then have "st_phase t = Watching" "fl_Client (st_flow s) = None" using keep False CH by (auto simp: st_phase_def)
      with keep fin comp show ?thesis by (auto simp: phase_step_simps) (metis phase.exhaust)+
    qed
  qed
qed

theorem stream_refines_phases_witness:
  "let (s, a) = (the (fst sample_stream), snd sample_stream) in
   phase_step (st_phase s) (st_phase (fst (st_ReassembledSG string_methods s a True sample_record 9))) \<and>
   st_phase (fst (st_ReassemblyComplete s a)) = Watching"
proof -
  obtain s a where sa: "sample_stream = (Some s, a)" "stream_inv (a_opts a) s" "st_phase s = Watching"
    by (simp add: sample_stream_def factory_New_def Assembler_New_def setDefaults_def zero_Stats_def Let_def
        DefaultMaxStreamPrefix_def DefaultCloseTimeout_def DefaultMaxStreams_def stream_inv_def st_phase_def)
  show ?thesis
    using stream_refines_phases [OF sa(2) surjective_pairing surjective_pairing, of string_methods True sample_record 9] sa(3)
    unfolding sa(1) by (simp add: Let_def)
qed


subsection \<open>QUIC flow keys\<close>

text \<open>
  both directions of a UDP conversation, and only they, have the same key: two packets fall into
  one flow exactly when their endpoint pairs are the same or swapped.
\<close>

theorem quic_key_pairs_directions:
  "makeQUICKey a ap b bp = makeQUICKey c cp d dp \<longleftrightarrow>
     (a, ap, b, bp) = (c, cp, d, dp) \<or> (a, ap, b, bp) = (d, dp, c, cp)"
proof -
  have cmp: "addr_Compare x y > 0 \<longleftrightarrow> y < x" for x y by (auto simp: addr_Compare_def)
  have key: "makeQUICKey x xp y yp =
      (if y < x \<or> x = y \<and> yp < xp then \<lparr>qk_loAddr = y, qk_hiAddr = x, qk_loPort = yp, qk_hiPort = xp\<rparr>
       else \<lparr>qk_loAddr = x, qk_hiAddr = y, qk_loPort = xp, qk_hiPort = yp\<rparr>)" for x xp y yp
    by (simp add: makeQUICKey_def cmp)
  show ?thesis unfolding key by (auto simp: not_less)
qed


subsection \<open>Where the assembler falls short of its documentation\<close>

text \<open>
  C39: a server's hello that does not complete the flight ends the observation. Once the bytes of the
  server show a HelloRetryRequest, or a TLS 1.2 ServerHello whose ServerHelloDone has not arrived,
  the stream counts as understood: it is not reported yet, and every later segment, with it the real
  ServerHello or the certificates, is ignored.
\<close>

theorem retry_hides_server_hello:
  assumes "st_haveCH s" and "\<not> st_haveSH s"
    and "FindServerHello cb (st_buf s ! (1 - st_clientIdx s)) = Inr (Some sh)" and "\<not> sh_FlightComplete sh"
    and "st_parse cb s a = (s', a')"
  shows "fl_Server (st_flow s') = Some sh \<and> st_emitted s' = st_emitted s \<and> feed cb (s', a') evs = (s', a')"
proof -
  have s': "(s', a') = (s\<lparr>st_haveSH := True, st_flow := (st_flow s)\<lparr>fl_Server := Some sh\<rparr>\<rparr>, a)"
    using assms by (simp add: st_parse_def st_findServer_def Let_def)
  have "st_ReassembledSG cb s' a' dir data ts = (s', a')" for dir data ts
    using s' assms(1) by (simp add: ReassembledSG_append)
  then have "feed cb (s', a') evs = (s', a')"
    unfolding feed_def by (induction evs) auto
  with s' show ?thesis by simp
qed

theorem retry_hides_server_hello_witness:
  "let s = (the (fst sample_stream))\<lparr>st_haveCH := True, st_buf := [[], sample_retry_record]\<rparr>;
       (s', a') = st_parse string_methods s (snd sample_stream)
   in fl_Server (st_flow s') = Some sample_retry \<and>
      feed string_methods (s', a') [(False, sample_record, 7)] = (s', a')"
proof -
  obtain s0 a where sa: "sample_stream = (Some s0, a)" "\<not> st_haveSH s0" "st_clientIdx s0 = 0"
    by (simp add: sample_stream_def factory_New_def Assembler_New_def setDefaults_def zero_Stats_def Let_def
        DefaultMaxStreamPrefix_def DefaultCloseTimeout_def DefaultMaxStreams_def)
  let ?s = "s0\<lparr>st_haveCH := True, st_buf := [[], sample_retry_record]\<rparr>"
  obtain s' a' where p: "st_parse string_methods ?s a = (s', a')" by fastforce
  have "fl_Server (st_flow s') = Some sample_retry \<and> st_emitted s' = st_emitted ?s \<and>
      feed string_methods (s', a') [(False, sample_record, 7)] = (s', a')"
    by (rule retry_hides_server_hello [OF _ _ _ _ p])
      (simp_all add: sa sample_retry_found, simp add: sample_retry_def empty_ServerHello_def)
  with p show ?thesis by (simp add: sa(1))
qed

lemma quicPacket_new_live:
  assumes "ParseLongHeader payload = Inr h" and "lh_Type h = TypeInitial" and "Supported (lh_Version h)"
    and "IsLongHeader payload" and "a_quicFlows a = []" and "0 < o_MaxStreams (a_opts a)"
  shows "s_LiveStreams (a_stats (quicPacket cb a src dst sport dport payload ts)) = s_LiveStreams (a_stats a) + 1"
proof -
  let ?f = "new_quicFlow h src dst sport dport ts"
  let ?b = "a\<lparr>a_stats := (a_stats a)\<lparr>s_Streams := s_Streams (a_stats a) + 1,
            s_LiveStreams := s_LiveStreams (a_stats a) + 1\<rparr>\<rparr>"
  obtain f' b' where p: "quicFlowPacket cb ?b ?f h src sport payload ts = (f', b')" by fastforce
  have "q_effect ?f ?b f' b'" using quicFlowPacket_ok [OF _ p] by simp
  then have "s_LiveStreams (a_stats b') = s_LiveStreams (a_stats a) + 1" by (simp add: q_effect_def Let_def)
  with p assms show ?thesis by (simp add: quicPacket_def)
qed

text \<open>
  the limit on tracked connections is not shared. An assembler with a limit of one that tracks a
  TCP stream also tracks a first QUIC flow, so two connections are live.
\<close>

theorem limit_not_shared:
  assumes "reachable cb gp a" and "o_MaxStreams (a_opts a) = 1" and "s_LiveStreams (a_stats a) = 1"
    and "a_quicFlows a = []"
    and "ParseLongHeader payload = Inr h" and "lh_Type h = TypeInitial" and "Supported (lh_Version h)"
    and "IsLongHeader payload"
  shows "s_LiveStreams (a_stats (quicPacket cb a src dst sport dport payload ts)) = 2"
  using quicPacket_new_live [OF assms(5-8,4)] assms(2,3) by simp

theorem limit_not_shared_witness:
  "let a = Packet string_methods one_stream (Assembler_New (sample_opts\<lparr>o_MaxStreams := 1\<rparr>)) [1] 5 1 in
   s_LiveStreams (a_stats a) = 1 \<and>
   s_LiveStreams (a_stats (quicPacket string_methods a (addrOf [10, 0, 0, 3]) (addrOf [10, 0, 0, 4]) 50000 443 [0xc0, 0, 0, 0, 1, 0, 0, 0, 1, 0xaa] 6)) = 2"
proof -
  let ?a = "Packet string_methods one_stream (Assembler_New (sample_opts\<lparr>o_MaxStreams := 1\<rparr>)) [1] 5 1"
  let ?pkt = "[0xc0, 0, 0, 0, 1, 0, 0, 0, 1, 0xaa] :: bytes"
  let ?h = "\<lparr>lh_Type = 0, lh_Version = 1, lh_DCID = [], lh_SCID = [], lh_Token = [],
      lh_PNOffset = 9, lh_Length = 1, lh_End = 10\<rparr>"
  have a: "o_MaxStreams (a_opts ?a) = 1" "s_LiveStreams (a_stats ?a) = 1" "a_quicFlows ?a = []"
    by (simp_all add: sample_eval one_stream_def)
  have h: "ParseLongHeader ?pkt = Inr ?h" "IsLongHeader ?pkt"
    by (simp_all add: ParseLongHeader_eq header_of_def IsLongHeader_def be32_def readCID_eq readToken_eq readVarint_def)
  have "s_LiveStreams (a_stats (quicPacket string_methods ?a (addrOf [10, 0, 0, 3]) (addrOf [10, 0, 0, 4]) 50000 443 ?pkt 6)) = 2"
    by (rule limit_not_shared [OF reachable.packet [OF reachable.new] a h(1) _ _ h(2)])
      (simp_all add: TypeInitial_def Supported_def Version1_def)
  with a show ?thesis by (simp add: Let_def)
qed

end
