(* ===== verification/Go_Float.thy ===== *)
theory Go_Float
  imports Complex_Main "HOL-Library.Log_Nat"
begin

text \<open>
  The \<^verbatim>\<open>float64\<close> figures of the report: conversions of integers, quotients and products, each rounded to the
  nearest number of 53 significant bits, ties to even. The value of a \<^verbatim>\<open>float64\<close> is the rational it stands
  for. The operands are counts of 64 bits and quotients of them, so no operation underflows or overflows,
  and the exponent is not bounded here.
\<close>

definition round_even :: "rat \<Rightarrow> int" where
  "round_even x =
     (let n = \<lfloor>x\<rfloor>; r = x - of_int n in
      if r < 1 / 2 \<or> (r = 1 / 2 \<and> even n) then n else n + 1)"

text \<open>The exponent of the last bit of a positive number: with it the number has 53 digits.\<close>

definition float_exp :: "rat \<Rightarrow> int" where
  "float_exp q =
     (let (n, d) = quotient_of q; k = bitlen n - bitlen d in (if q < 2 powi k then k - 1 else k) - 52)"

definition float_pos :: "rat \<Rightarrow> rat" where
  "float_pos q = of_int (round_even (q / 2 powi float_exp q)) * 2 powi float_exp q"

definition float64 :: "rat \<Rightarrow> rat" where
  "float64 q = (if q = 0 then 0 else if q < 0 then - float_pos (- q) else float_pos q)"

definition float_div :: "rat \<Rightarrow> rat \<Rightarrow> rat" where "float_div x y = float64 (x / y)"

definition float_mul :: "rat \<Rightarrow> rat \<Rightarrow> rat" where "float_mul x y = float64 (x * y)"


subsection \<open>The rounding error\<close>

lemma round_even_error: "\<bar>of_int (round_even x) - x\<bar> \<le> 1 / 2"
proof -
  have "of_int \<lfloor>x\<rfloor> \<le> x" "x < of_int \<lfloor>x\<rfloor> + 1" by linarith+
  then show ?thesis unfolding round_even_def Let_def by (auto simp: abs_le_iff)
qed

lemma round_even_int [simp]: "round_even (of_int n) = n"
  by (simp add: round_even_def Let_def)

lemma round_even_mono:
  assumes "x \<le> y"
  shows "round_even x \<le> round_even y"
proof (cases "\<lfloor>x\<rfloor> = \<lfloor>y\<rfloor>")
  case True
  then show ?thesis using assms unfolding round_even_def Let_def by auto
next
  case False
  then have "\<lfloor>x\<rfloor> + 1 \<le> \<lfloor>y\<rfloor>" using floor_mono [OF assms] by linarith
  then show ?thesis unfolding round_even_def Let_def by auto
qed

lemma bitlen_pos_bounds: "0 < n \<Longrightarrow> 2 powi (bitlen n - 1) \<le> (of_int n :: rat) \<and> (of_int n :: rat) < 2 powi bitlen n"
proof -
  assume n: "0 < n"
  have l: "0 < bitlen n" using n by (metis bitlen_eq_zero_iff bitlen_nonneg le_less not_le)
  have "2 ^ nat (bitlen n - 1) \<le> n" "n < 2 ^ nat (bitlen n)" using bitlen_bounds [OF n] by auto
  then have "(of_int (2 ^ nat (bitlen n - 1)) :: rat) \<le> of_int n" "(of_int n :: rat) < of_int (2 ^ nat (bitlen n))"
    by (simp_all only: of_int_le_iff of_int_less_iff)
  then show ?thesis using l by (simp add: power_int_def)
qed

lemma float_exp_bounds:
  assumes "0 < q"
  shows "2 powi (float_exp q + 52) \<le> q \<and> q < 2 powi (float_exp q + 53)"
proof -
  obtain n d where nd: "quotient_of q = (n, d)" by fastforce
  have q: "q = of_int n / of_int d" "0 < d" using quotient_of_div [OF nd] quotient_of_denom_pos [OF nd] by simp_all
  then have n: "0 < n" using assms by (simp add: zero_less_divide_iff)
  define k where "k = bitlen n - bitlen d"
  note bn = bitlen_pos_bounds [OF n] and bd = bitlen_pos_bounds [OF q(2)]
  have d0: "(0 :: rat) < of_int d" using q(2) by simp
  have "q < 2 powi (k + 1)"
  proof -
    have "2 powi (k + 1) * 2 powi (bitlen d - 1) = (2 powi bitlen n :: rat)"
      by (subst power_int_add [symmetric]) (simp_all add: k_def)
    then have "of_int n < 2 powi (k + 1) * (of_int d :: rat)"
      using bn bd mult_left_mono [of "2 powi (bitlen d - 1)" "of_int d" "2 powi (k + 1) :: rat"] by simp
    then show ?thesis using d0 by (simp add: q(1) divide_less_eq)
  qed
  moreover have "2 powi (k - 1) \<le> q"
  proof -
    have "2 powi (k - 1) * 2 powi bitlen d = (2 powi (bitlen n - 1) :: rat)"
      by (subst power_int_add [symmetric]) (simp_all add: k_def)
    then have "2 powi (k - 1) * (of_int d :: rat) \<le> of_int n"
      using bn bd mult_left_mono [of "of_int d" "2 powi bitlen d" "2 powi (k - 1) :: rat"] by simp
    then show ?thesis using d0 by (simp add: q(1) le_divide_eq)
  qed
  moreover have "float_exp q = (if q < 2 powi k then k - 1 else k) - 52" by (simp add: float_exp_def nd k_def)
  ultimately show ?thesis by (auto simp: add.commute)
qed

lemma float64_error: "\<bar>float64 q - q\<bar> \<le> \<bar>q\<bar> / 2 ^ 53"
proof -
  have pos: "\<bar>float_pos q - q\<bar> \<le> q / 2 ^ 53" if "0 < q" for q
  proof -
    define u where "u = (2 :: rat) powi float_exp q"
    have u: "0 < u" by (simp add: u_def)
    have "2 ^ 52 * u \<le> q"
    proof -
      have "(2 :: rat) powi (float_exp q + 52) = u * 2 ^ 52" unfolding u_def by (subst power_int_add) simp_all
      then show ?thesis using float_exp_bounds [OF that] by simp
    qed
    moreover have "float_pos q - q = (of_int (round_even (q / u)) - q / u) * u"
      using u by (simp add: float_pos_def u_def [symmetric] left_diff_distrib)
    then have "\<bar>float_pos q - q\<bar> = \<bar>of_int (round_even (q / u)) - q / u\<bar> * u"
      using u by (simp add: abs_mult)
    moreover have "\<dots> \<le> 1 / 2 * u" using round_even_error u by (intro mult_right_mono) auto
    ultimately show ?thesis by simp
  qed
  show ?thesis
  proof (cases "0 < q")
    case True
    then show ?thesis using pos [of q] by (simp add: float64_def)
  next
    case False
    then show ?thesis using pos [of "- q"] by (auto simp: float64_def abs_le_iff)
  qed
qed

lemma float64_0 [simp]: "float64 0 = 0"
  by (simp add: float64_def)

lemma float_pos_mono:
  assumes "0 < x" "x \<le> y"
  shows "float_pos x \<le> float_pos y"
proof -
  have y: "0 < y" using assms by simp
  note bx = float_exp_bounds [OF assms(1)] and by' = float_exp_bounds [OF y]
  have exps: "float_exp x \<le> float_exp y"
  proof (rule ccontr)
    assume "\<not> ?thesis"
    then have "(2 :: rat) powi (float_exp y + 53) \<le> 2 powi (float_exp x + 52)" by (intro power_int_increasing) auto
    then show False using bx by' assms(2) by simp
  qed
  show ?thesis
  proof (cases "float_exp x = float_exp y")
    case True
    have "x / 2 powi float_exp y \<le> y / 2 powi float_exp y" using assms(2) by (intro divide_right_mono) auto
    from round_even_mono [OF this] show ?thesis by (simp add: float_pos_def True)
  next
    case False
    let ?u = "(2 :: rat) powi float_exp x" and ?v = "(2 :: rat) powi float_exp y"
    have sx: "x / ?u \<le> of_int (2 ^ 53)" 
      using bx power_int_add [of "2 :: rat" "float_exp x" 53] by (simp add: divide_le_eq mult.commute)
    have "of_int (2 ^ 52) \<le> y / ?v"
      using by' power_int_add [of "2 :: rat" "float_exp y" 52] by (simp add: le_divide_eq mult.commute)
    then have "2 ^ 52 \<le> round_even (y / ?v)" using round_even_mono round_even_int by metis
    then have "(of_int (2 ^ 52) :: rat) \<le> of_int (round_even (y / ?v))" by (simp only: of_int_le_iff)
    then have "of_int (2 ^ 52) * ?v \<le> float_pos y" unfolding float_pos_def by (intro mult_right_mono) auto
    moreover have "round_even (x / ?u) \<le> 2 ^ 53" using round_even_mono [OF sx] by (simp only: round_even_int)
    then have "(of_int (round_even (x / ?u)) :: rat) \<le> of_int (2 ^ 53)" by (simp only: of_int_le_iff)
    then have "float_pos x \<le> of_int (2 ^ 53) * ?u" unfolding float_pos_def by (intro mult_right_mono) auto
    moreover have "(2 :: rat) powi (float_exp x + 53) \<le> 2 powi (float_exp y + 52)"
      using exps False by (intro power_int_increasing) auto
    then have "2 ^ 53 * ?u \<le> 2 ^ 52 * ?v" by (simp add: power_int_add mult.commute)
    ultimately show ?thesis by simp
  qed
qed

lemma float_pos_nonneg: "0 < x \<Longrightarrow> 0 \<le> float_pos x"
proof -
  assume "0 < x"
  then have "0 \<le> round_even (x / 2 powi float_exp x)"
    using round_even_mono [of 0] round_even_int [of 0] by simp
  then show ?thesis by (simp add: float_pos_def)
qed

lemma float64_nonneg: "0 \<le> x \<Longrightarrow> 0 \<le> float64 x"
  using float_pos_nonneg [of x] by (simp add: float64_def)

lemma float64_mono: "0 \<le> x \<Longrightarrow> x \<le> y \<Longrightarrow> float64 x \<le> float64 y"
  using float_pos_mono [of x y] float_pos_nonneg [of y] by (auto simp: float64_def)

lemma float64_1 [simp]: "float64 1 = 1"
  by code_simp

lemma float64_100 [simp]: "float64 100 = 100"
  by code_simp

text \<open>A percentage as the report computes it: \<^verbatim>\<open>float64(n) / float64(total) * 100\<close>.\<close>

definition percent :: "int \<Rightarrow> int \<Rightarrow> rat" where
  "percent n tot = float_mul (float_div (float64 (of_int n)) (float64 (of_int tot))) 100"

definition roundoff :: rat where "roundoff = 1 / 2 ^ 53"

lemma float64_rel:
  assumes "0 \<le> x"
  shows "x * (1 - roundoff) \<le> float64 x \<and> float64 x \<le> x * (1 + roundoff)"
proof -
  have "\<bar>float64 x - x\<bar> \<le> x * roundoff" using float64_error [of x] assms by (simp add: roundoff_def)
  then show ?thesis by (simp add: abs_le_iff right_diff_distrib distrib_left)
qed

lemma float64_pos: "0 < x \<Longrightarrow> 0 < float64 x"
proof -
  assume "0 < x"
  then have "0 < x * (1 - roundoff)" by (simp add: roundoff_def)
  with \<open>0 < x\<close> show ?thesis using float64_rel [of x] by linarith
qed

lemma fraction_bounds:
  assumes "0 \<le> n" and "n \<le> tot" and "0 < tot"
  shows "0 \<le> float_div (float64 n) (float64 tot) \<and> float_div (float64 n) (float64 tot) \<le> 1"
proof -
  have t: "0 < float64 tot" using assms(3) by (rule float64_pos)
  have "float64 n / float64 tot \<le> 1" using float64_mono [OF assms(1,2)] t by simp
  moreover have "0 \<le> float64 n / float64 tot" using float64_nonneg [OF assms(1)] t by simp
  ultimately show ?thesis unfolding float_div_def using float64_mono float64_nonneg float64_1 by metis
qed

lemma fraction_error:
  assumes "0 \<le> n" and "0 < tot"
  shows "n / tot * (1 - 4 * roundoff) \<le> float_div (float64 n) (float64 tot) \<and>
    float_div (float64 n) (float64 tot) \<le> n / tot * (1 + 4 * roundoff)"
proof -
  let ?u = roundoff
  note n = float64_rel [OF assms(1)] and t = float64_rel [OF less_imp_le [OF assms(2)]]
  have pos: "0 < tot * (1 - ?u)" "0 < tot * (1 + ?u)" "0 \<le> n * (1 - ?u)" using assms by (simp_all add: roundoff_def)
  have b: "0 < float64 tot" using assms(2) by (rule float64_pos)
  have q: "n * (1 - ?u) / (tot * (1 + ?u)) \<le> float64 n / float64 tot" "float64 n / float64 tot \<le> n * (1 + ?u) / (tot * (1 - ?u))"
    using n t pos b float64_nonneg [OF assms(1)] by (auto intro!: frac_le simp del: times_divide_eq_right)
  have "0 \<le> float64 n / float64 tot" using q(1) pos by (meson divide_nonneg_pos order_trans)
  from float64_rel [OF this]
  have c: "float64 n / float64 tot * (1 - ?u) \<le> float_div (float64 n) (float64 tot)"
    "float_div (float64 n) (float64 tot) \<le> float64 n / float64 tot * (1 + ?u)" by (simp_all add: float_div_def)
  have f: "0 \<le> n / tot" using assms by simp
  have "n / tot * (1 - 4 * roundoff) \<le> n / tot * ((1 - ?u) / (1 + ?u) * (1 - ?u))" using f by (intro mult_left_mono) (simp_all add: roundoff_def)
  also have "\<dots> = n * (1 - ?u) / (tot * (1 + ?u)) * (1 - ?u)" by simp
  also have "\<dots> \<le> float64 n / float64 tot * (1 - ?u)" using q(1) by (rule mult_right_mono) (simp add: roundoff_def)
  also note c(1)
  finally have low: "n / tot * (1 - 4 * roundoff) \<le> float_div (float64 n) (float64 tot)" .
  note c(2)
  also have "float64 n / float64 tot * (1 + ?u) \<le> n * (1 + ?u) / (tot * (1 - ?u)) * (1 + ?u)" using q(2) by (rule mult_right_mono) (simp add: roundoff_def)
  also have "\<dots> = n / tot * ((1 + ?u) / (1 - ?u) * (1 + ?u))" by simp
  also have "\<dots> \<le> n / tot * (1 + 4 * roundoff)" using f by (intro mult_left_mono) (simp_all add: roundoff_def)
  finally show ?thesis using low by blast
qed

lemma percent_bounds:
  assumes "0 \<le> n" and "n \<le> tot" and "0 < tot"
  shows "0 \<le> percent n tot \<and> percent n tot \<le> 100"
proof -
  let ?q = "float_div (float64 (of_int n)) (float64 (of_int tot))"
  have "0 \<le> ?q * 100 \<and> ?q * 100 \<le> 100" using fraction_bounds [of "of_int n" "of_int tot"] assms by simp
  then show ?thesis unfolding percent_def float_mul_def using float64_mono float64_nonneg float64_100 by metis
qed

lemma percent_error:
  assumes "0 \<le> n" and "0 < tot"
  shows "\<bar>percent n tot - 100 * of_int n / of_int tot\<bar> \<le> of_int n / of_int tot / 10 ^ 13"
proof -
  let ?q = "float_div (float64 (of_int n)) (float64 (of_int tot))" and ?r = "of_int n / of_int tot :: rat"
  note e = fraction_error [of "of_int n" "of_int tot"]
  have r: "0 \<le> ?r" using assms by simp
  have q: "?r * (1 - 4 * roundoff) \<le> ?q" "?q \<le> ?r * (1 + 4 * roundoff)" using e assms by simp_all
  have "0 \<le> ?r * (1 - 4 * roundoff)" using r by (intro mult_nonneg_nonneg) (simp_all add: roundoff_def)
  then have "0 \<le> ?q * 100" using q(1) by simp
  from float64_rel [OF this]
  have p: "?q * 100 * (1 - roundoff) \<le> percent n tot" "percent n tot \<le> ?q * 100 * (1 + roundoff)"
    by (simp_all add: percent_def float_mul_def)
  have "?r * (1 - 4 * roundoff) * (100 * (1 - roundoff)) \<le> ?q * (100 * (1 - roundoff))" using q(1) by (rule mult_right_mono) (simp add: roundoff_def)
  moreover have "?q * (100 * (1 + roundoff)) \<le> ?r * (1 + 4 * roundoff) * (100 * (1 + roundoff))" using q(2) by (rule mult_right_mono) (simp add: roundoff_def)
  moreover have "?r * (100 - 1 / 10 ^ 13) \<le> ?r * ((1 - 4 * roundoff) * (100 * (1 - roundoff)))" using r by (intro mult_left_mono) (simp_all add: roundoff_def)
  moreover have "?r * ((1 + 4 * roundoff) * (100 * (1 + roundoff))) \<le> ?r * (100 + 1 / 10 ^ 13)" using r by (intro mult_left_mono) (simp_all add: roundoff_def)
  ultimately have "?r * (100 - 1 / 10 ^ 13) \<le> percent n tot" "percent n tot \<le> ?r * (100 + 1 / 10 ^ 13)"
    using p by (simp_all only: mult.assoc)
  then show ?thesis by (simp add: abs_le_iff right_diff_distrib distrib_left)
qed

lemma float64_third: "float64 (1 / 3) = 6004799503160661 / 18014398509481984"
  by code_simp

end
