(* ===== verification/Go_Format.thy ===== *)
theory Go_Format
  imports Go_Text Assemble
begin

text \<open>
  Formatting of the standard library's values that the reports use: addresses as
  \<^verbatim>\<open>netip.Addr.String\<close> writes them, dates, and the byte-wise order of strings.
\<close>


subsection \<open>String order\<close>

fun str_less :: "string \<Rightarrow> string \<Rightarrow> bool" where
  "str_less s [] = False"
| "str_less [] (d # t) = True"
| "str_less (c # s) (d # t) =
     ((of_char c :: nat) < of_char d \<or> c = d \<and> str_less s t)"

lemma of_char_eq: "(of_char c :: nat) = of_char d \<longleftrightarrow> c = d"
  by (simp add: of_char_eq_iff)

lemma str_less_irrefl [simp]: "\<not> str_less s s"
  by (induction s) auto

lemma str_less_asym: "str_less s t \<Longrightarrow> \<not> str_less t s"
  by (induction s t rule: str_less.induct) auto

lemma str_less_total: "str_less s t \<or> s = t \<or> str_less t s"
proof (induction s t rule: str_less.induct)
  case (1 s)
  then show ?case by (cases s) auto
next
  case (3 c s d t)
  then show ?case using of_char_eq [of c d] by (auto simp: not_less_iff_gr_or_eq)
qed simp

lemma str_less_trans: "str_less s t \<Longrightarrow> str_less t u \<Longrightarrow> str_less s u"
proof (induction s t arbitrary: u rule: str_less.induct)
  case (2 d t)
  then show ?case by (cases u) auto
next
  case (3 c s d t)
  then show ?case by (cases u) auto
qed simp

interpretation str_order: strict_weak_order str_less
proof
  show "str_less x y \<Longrightarrow> \<not> str_less y x" for x y by (rule str_less_asym)
  show "str_less x z \<Longrightarrow> str_less x y \<or> str_less y z" for x y z
    using str_less_total [of x y] str_less_trans [of y x z] by blast
qed

text \<open>\<^verbatim>\<open>sort.Strings\<close>\<close>

definition sort_strings :: "string list \<Rightarrow> string list" where
  "sort_strings xs = sort_slice str_less xs"


subsection \<open>Addresses\<close>

definition v4_string :: "u32 \<Rightarrow> string" where
  "v4_string w = Join (map (\<lambda>b. dec (unat b)) (u32_bytes w)) ''.''"

definition v6_groups :: "u128 \<Rightarrow> u16 list" where
  "v6_groups w = map (\<lambda>i. ucast (drop_bit (16 * i) w)) (rev [0..<8])"

text \<open>Hexadecimal without leading zeros.\<close>

definition hex_short :: "u16 \<Rightarrow> string" where
  "hex_short v = (let d = hex04 v; e = dropWhile (\<lambda>c. c = CHR ''0'') d in if e = [] then ''0'' else e)"

text \<open>The longest run of at least two zero groups, the first one of that length.\<close>

definition zero_run :: "u16 list \<Rightarrow> (nat \<times> nat) option" where
  "zero_run gs =
     foldl (\<lambda>best i.
        (let l = length (takeWhile (\<lambda>g. g = 0) (drop i gs)) in
         if l \<ge> 2 \<and> (case best of None \<Rightarrow> True | Some (_, m) \<Rightarrow> l > m) then Some (i, l) else best))
       None [0..<length gs]"

definition v6_string :: "u128 \<Rightarrow> string" where
  "v6_string w =
     (let gs = v6_groups w in
      case zero_run gs of
        None \<Rightarrow> Join (map hex_short gs) '':''
      | Some (i, l) \<Rightarrow> Join (map hex_short (take i gs)) '':'' @ ''::'' @ Join (map hex_short (drop (i + l) gs)) '':'')"

fun addr_String :: "addr \<Rightarrow> string" where
  "addr_String AddrNone = ''invalid IP''"
| "addr_String (Addr4 w) = v4_string w"
| "addr_String (Addr6 w) =
     (if drop_bit 32 w = 0xffff then ''::ffff:'' @ v4_string (ucast w) else v6_string w)"


subsection \<open>Dates\<close>

text \<open>
  The proleptic Gregorian date of a time in nanoseconds from the start of year 1, in UTC: the days
  are counted from the first of March of year 0, in cycles of 400 years.
\<close>

definition civil :: "int \<Rightarrow> int \<times> int \<times> int" where
  "civil t =
     (let z = t div (86400 * 10 ^ 9) + 306;
          era = z div 146097; doe = z mod 146097;
          yoe = (doe - doe div 1460 + doe div 36524 - doe div 146096) div 365;
          doy = doe - (365 * yoe + yoe div 4 - yoe div 100);
          mp = (5 * doy + 2) div 153;
          m = (if mp < 10 then mp + 3 else mp - 9)
      in (yoe + era * 400 + (if m \<le> 2 then 1 else 0), m, doy - (153 * mp + 2) div 5 + 1))"

definition dec_pad :: "nat \<Rightarrow> int \<Rightarrow> string" where
  "dec_pad n i = (let d = dec (nat \<bar>i\<bar>) in (if i < 0 then ''-'' else []) @ replicate (n - length d) CHR ''0'' @ d)"

definition date_only :: "int \<Rightarrow> string" where
  "date_only t = (case civil t of (y, m, d) \<Rightarrow> dec_pad 4 y @ ''-'' @ dec_pad 2 m @ ''-'' @ dec_pad 2 d)"

end
