(* ===== verification/Inventory.thy ===== *)
theory Inventory
  imports Registry Ja4 Go_Format
begin

text \<open>
  \<^verbatim>\<open>internal/inventory/inventory.go\<close> and \<^verbatim>\<open>findings.go\<close>: a flow is named and judged.

  \<open>inv_env\<close> holds what comes from outside: certificate parsing (\<^verbatim>\<open>crypto/x509\<close>), the clock, and
  \<^verbatim>\<open>strconv.Quote\<close>, whose treatment of non-ASCII text depends on Unicode tables. A certificate is
  what the sources read of a parsed one.
\<close>

type_synonym PQStatus = string
type_synonym Severity = string

definition PQNegotiated :: PQStatus where "PQNegotiated = ''post_quantum''"
definition PQOffered :: PQStatus where "PQOffered = ''offered_not_selected''"
definition PQAdvertised :: PQStatus where "PQAdvertised = ''advertised_only''"
definition PQClassical :: PQStatus where "PQClassical = ''classical''"
definition PQUnknown :: PQStatus where "PQUnknown = ''unknown''"

definition SevCritical :: Severity where "SevCritical = ''critical''"
definition SevHigh :: Severity where "SevHigh = ''high''"
definition SevMedium :: Severity where "SevMedium = ''medium''"
definition SevLow :: Severity where "SevLow = ''low''"
definition SevInfo :: Severity where "SevInfo = ''info''"

lemmas pq_defs = PQNegotiated_def PQOffered_def PQAdvertised_def PQClassical_def PQUnknown_def
lemmas sev_defs = SevCritical_def SevHigh_def SevMedium_def SevLow_def SevInfo_def

text \<open>Indexing a Go map with an absent key gives zero.\<close>

definition severityRank :: "Severity \<Rightarrow> nat" where
  "severityRank s =
     (case map_of [(SevCritical, 4), (SevHigh, 3), (SevMedium, 2), (SevLow, 1), (SevInfo, 0)] s of
        Some n \<Rightarrow> n | None \<Rightarrow> 0)"

record Finding =
  fi_ID :: string
  fi_Severity :: Severity
  fi_Detail :: string

record CertInfo =
  ci_Subject :: string
  ci_Issuer :: string
  ci_NotAfter :: int
  ci_PublicKeyAlgorithm :: string
  ci_KeyBits :: int
  ci_SignatureAlgorithm :: string
  ci_SelfSigned :: bool

datatype pubkey = RSAKey nat | ECDSAKey nat | Ed25519Key | OtherKey

record certificate =
  x_SubjectCN :: string
  x_IssuerCN :: string
  x_Subject :: string
  x_Issuer :: string
  x_NotAfter :: int
  x_PublicKeyAlgorithm :: string
  x_SignatureAlgorithm :: string
  x_PublicKey :: pubkey

record inv_env =
  env_ParseCertificate :: "bytes \<Rightarrow> certificate option"
  env_now :: int
  env_quote :: "string \<Rightarrow> string"

record Record =
  r_FirstSeen :: int
  r_LastSeen :: int
  r_Transport :: string
  r_ClientIP :: addr
  r_ClientPort :: u16
  r_ServerIP :: addr
  r_ServerPort :: u16
  r_ServerName :: string
  r_ECH :: bool
  r_ECHConfigID :: u8
  r_VersionOffered :: string
  r_Version :: string
  r_CipherSuite :: string
  r_CipherSuitesOffered :: "string list"
  r_ForwardSecrecy :: "bool option"
  r_Group :: string
  r_GroupSource :: string
  r_KeyShareGroups :: "string list"
  r_SupportedGroups :: "string list"
  r_SignatureAlgorithms :: "string list"
  r_ALPNOffered :: "string list"
  r_ALPN :: string
  r_JA4 :: string
  r_JA4S :: string
  r_PQ :: PQStatus
  r_Findings :: "Finding list"
  r_Certificates :: "CertInfo list"
  r_ServerObserved :: bool
  r_Truncated :: bool

definition MaxSeverity :: "Record \<Rightarrow> Severity" where
  "MaxSeverity r =
     foldl (\<lambda>worst f. if severityRank (fi_Severity f) > severityRank worst then fi_Severity f else worst)
       SevInfo (r_Findings r)"


subsection \<open>Post-quantum readiness\<close>

definition anyPQ :: "u16 list \<Rightarrow> bool" where
  "anyPQ groups = list_ex (\<lambda>g. gp_PostQuantum (Group g)) groups"

text \<open>The flow's client hello is an argument: a flow without one makes the source panic.\<close>

definition pqStatus :: "Flow \<Rightarrow> ClientHello \<Rightarrow> PQStatus" where
  "pqStatus f ch =
     (let client_only =
            (if anyPQ (ch_KeyShareGroups ch) then PQOffered
             else if anyPQ (ch_SupportedGroups ch) then PQAdvertised
             else if length (ch_SupportedGroups ch) > 0 then PQClassical
             else PQUnknown)
      in case fl_Server f of
           Some sh \<Rightarrow>
             if sh_Group sh \<noteq> 0 then
               (if gp_PostQuantum (Group (sh_Group sh)) then PQNegotiated
                else if anyPQ (ch_KeyShareGroups ch) then PQOffered
                else if anyPQ (ch_SupportedGroups ch) then PQAdvertised
                else PQClassical)
             else client_only
         | None \<Rightarrow> client_only)"


subsection \<open>Certificates\<close>

definition certInfo :: "certificate \<Rightarrow> CertInfo" where
  "certInfo c =
     \<lparr>ci_Subject = x_SubjectCN c, ci_Issuer = x_IssuerCN c, ci_NotAfter = x_NotAfter c,
      ci_PublicKeyAlgorithm = x_PublicKeyAlgorithm c,
      ci_KeyBits = (case x_PublicKey c of RSAKey n \<Rightarrow> int n | ECDSAKey n \<Rightarrow> int n | Ed25519Key \<Rightarrow> 256 | OtherKey \<Rightarrow> 0),
      ci_SignatureAlgorithm = x_SignatureAlgorithm c,
      ci_SelfSigned = (x_Subject c = x_Issuer c)\<rparr>"

fun analyzeCerts :: "inv_env \<Rightarrow> bytes list \<Rightarrow> CertInfo list" where
  "analyzeCerts env [] = []"
| "analyzeCerts env (der # chain) =
     (case env_ParseCertificate env der of
        None \<Rightarrow> analyzeCerts env chain
      | Some c \<Rightarrow> certInfo c # analyzeCerts env chain)"


subsection \<open>Findings\<close>

definition FindingObsoleteProtocol :: string where "FindingObsoleteProtocol = ''obsolete_protocol''"
definition FindingLegacyProtocol :: string where "FindingLegacyProtocol = ''legacy_protocol''"
definition FindingBrokenCipher :: string where "FindingBrokenCipher = ''broken_cipher''"
definition FindingWeakCipher :: string where "FindingWeakCipher = ''weak_cipher''"
definition FindingNoForwardSecrecy :: string where "FindingNoForwardSecrecy = ''no_forward_secrecy''"
definition FindingAnonymousKeyExch :: string where "FindingAnonymousKeyExch = ''anonymous_key_exchange''"
definition FindingExportCipher :: string where "FindingExportCipher = ''export_cipher''"
definition FindingNullEncryption :: string where "FindingNullEncryption = ''null_encryption''"
definition FindingSHA1Signature :: string where "FindingSHA1Signature = ''sha1_signature''"
definition FindingCompressionOffered :: string where "FindingCompressionOffered = ''compression_offered''"
definition FindingClassicalKeyExch :: string where "FindingClassicalKeyExch = ''classical_key_exchange''"
definition FindingECHOffered :: string where "FindingECHOffered = ''ech_offered''"
definition FindingWeakCertKey :: string where "FindingWeakCertKey = ''weak_certificate_key''"
definition FindingCertExpired :: string where "FindingCertExpired = ''certificate_expired''"
definition FindingCertSHA1 :: string where "FindingCertSHA1 = ''certificate_sha1_signature''"
definition FindingUnknownCipher :: string where "FindingUnknownCipher = ''unknown_cipher''"

lemmas finding_defs = FindingObsoleteProtocol_def FindingLegacyProtocol_def FindingBrokenCipher_def
  FindingWeakCipher_def FindingNoForwardSecrecy_def FindingAnonymousKeyExch_def FindingExportCipher_def
  FindingNullEncryption_def FindingSHA1Signature_def FindingCompressionOffered_def FindingClassicalKeyExch_def
  FindingECHOffered_def FindingWeakCertKey_def FindingCertExpired_def FindingCertSHA1_def FindingUnknownCipher_def

text \<open>The closure \<^verbatim>\<open>add\<close> on a formatted detail.\<close>

definition mk :: "string \<Rightarrow> Severity \<Rightarrow> string \<Rightarrow> Finding list" where
  "mk v sev detail = [\<lparr>fi_ID = v, fi_Severity = sev, fi_Detail = detail\<rparr>]"

definition version_findings :: "Flow \<Rightarrow> ClientHello \<Rightarrow> Finding list" where
  "version_findings f ch =
     (let version = (case fl_Server f of None \<Rightarrow> ch_NegotiatedVersion ch | Some sh \<Rightarrow> sh_NegotiatedVersion sh) in
      if version < 0x0303 then
        mk FindingObsoleteProtocol SevCritical (VersionName version @ '' is deprecated and prohibited by RFC 8996'')
      else if version = 0x0303 then
        mk FindingLegacyProtocol SevLow
          ''TLS 1.2 in use; TLS 1.3 removes the negotiable-weakness surface entirely''
      else [])"

definition cipher_findings :: "CipherProperties \<Rightarrow> Finding list" where
  "cipher_findings c =
     (if \<not> cp_Known c then
        mk FindingUnknownCipher SevInfo
          (''negotiated cipher suite '' @ cp_Name c @ '' is not in this build's registry'')
      else if cp_Anonymous c then
        mk FindingAnonymousKeyExch SevCritical (cp_Name c @ '' performs no server authentication'')
      else if cp_Export c then
        mk FindingExportCipher SevCritical (cp_Name c @ '' is export-grade (FREAK/Logjam class)'')
      else []) @
     (if Contains (cp_Encryption c) ''NULL'' then
        mk FindingNullEncryption SevCritical (cp_Name c @ '' provides no confidentiality'')
      else []) @
     (if HasPrefix (cp_Encryption c) ''RC4'' \<or> Contains (cp_Encryption c) ''DES40'' \<or>
         cp_Encryption c = ''DES_CBC'' \<or> cp_Encryption c = ''RC2_CBC_40'' then
        mk FindingBrokenCipher SevCritical (cp_Name c @ '' uses broken primitive '' @ cp_Encryption c)
      else if HasPrefix (cp_Encryption c) ''3DES'' then
        mk FindingWeakCipher SevHigh (cp_Name c @ '' uses 3DES (64-bit block, Sweet32)'')
      else []) @
     (if cp_MAC c = ''MD5'' then
        mk FindingWeakCipher SevHigh (cp_Name c @ '' authenticates with MD5'')
      else if cp_MAC c = ''SHA'' then
        mk FindingSHA1Signature SevMedium
          (cp_Name c @ '' authenticates with SHA-1 in a MAC-then-encrypt construction'')
      else []) @
     (if cp_Known c \<and> \<not> cp_ForwardSecrecy c \<and> \<not> cp_Anonymous c \<and> \<not> cp_Signalling c then
        mk FindingNoForwardSecrecy SevHigh
          (cp_Name c @ '' has no forward secrecy; recorded traffic is decryptable if the server key leaks'')
      else [])"

definition compression_findings :: "bytes \<Rightarrow> Finding list" where
  "compression_findings ms =
     (case find (\<lambda>m. m \<noteq> 0) ms of
        None \<Rightarrow> []
      | Some m \<Rightarrow>
          mk FindingCompressionOffered SevMedium
            (''client offered TLS compression method '' @ dec (unat m) @ '' (CRIME)''))"

definition pq_findings :: "PQStatus \<Rightarrow> Finding list" where
  "pq_findings pq =
     (if pq = PQClassical then
        mk FindingClassicalKeyExch SevInfo
          ''key exchange is classical only; not resistant to harvest-now-decrypt-later''
      else if pq = PQAdvertised then
        mk FindingClassicalKeyExch SevInfo
          ''post-quantum groups advertised but no key share sent; no PQ handshake will occur''
      else if pq = PQOffered then
        mk FindingClassicalKeyExch SevInfo
          ''client offered a post-quantum key share; the server did not select it''
      else [])"

definition ech_findings :: "inv_env \<Rightarrow> ClientHello \<Rightarrow> Finding list" where
  "ech_findings env ch =
     (case ch_ECH ch of
        None \<Rightarrow> []
      | Some _ \<Rightarrow>
          mk FindingECHOffered SevInfo
            (''encrypted_client_hello present for '' @ env_quote env (ch_ServerName ch) @
             ''; real ECH is indistinguishable from GREASE to a passive observer, so this may or may not be the destination''))"

definition cert_findings :: "inv_env \<Rightarrow> bool \<Rightarrow> CertInfo \<Rightarrow> Finding list" where
  "cert_findings env leaf c =
     (if ci_PublicKeyAlgorithm c = ''RSA'' \<and> ci_KeyBits c > 0 \<and> ci_KeyBits c < 2048 then
        mk FindingWeakCertKey SevHigh
          (''certificate '' @ env_quote env (ci_Subject c) @ '' has a '' @ dec_pad 0 (ci_KeyBits c) @ ''-bit RSA key'')
      else []) @
     (if leaf \<and> ci_NotAfter c < env_now env then
        mk FindingCertExpired SevMedium
          (''certificate '' @ env_quote env (ci_Subject c) @ '' expired '' @ date_only (ci_NotAfter c))
      else []) @
     (if Contains (ToUpper (ci_SignatureAlgorithm c)) ''SHA1'' \<and> \<not> ci_SelfSigned c then
        mk FindingCertSHA1 SevHigh (''certificate '' @ env_quote env (ci_Subject c) @ '' is signed with SHA-1'')
      else [])"

fun certs_findings :: "inv_env \<Rightarrow> bool \<Rightarrow> CertInfo list \<Rightarrow> Finding list" where
  "certs_findings env leaf [] = []"
| "certs_findings env leaf (c # cs) = cert_findings env leaf c @ certs_findings env False cs"

definition findings :: "inv_env \<Rightarrow> Flow \<Rightarrow> ClientHello \<Rightarrow> Record \<Rightarrow> CipherProperties \<Rightarrow> Finding list" where
  "findings env f ch r cipher =
     version_findings f ch @
     (if fl_Server f \<noteq> None then cipher_findings cipher else []) @
     compression_findings (ch_CompressionMethods ch) @
     pq_findings (r_PQ r) @
     ech_findings env ch @
     certs_findings env True (r_Certificates r)"


subsection \<open>Analysis\<close>

text \<open>The fields the server's hello fills in, and the properties of its cipher suite.\<close>

definition analyze_server :: "inv_env \<Rightarrow> ClientHello \<Rightarrow> ServerHello \<Rightarrow> Record \<Rightarrow> Record \<times> CipherProperties" where
  "analyze_server env ch sh r =
     (let cipher = Cipher (sh_CipherSuite sh);
          r = r\<lparr>r_Version := VersionName (sh_NegotiatedVersion sh), r_CipherSuite := cp_Name cipher,
                r_ForwardSecrecy := Some (cp_ForwardSecrecy cipher), r_ALPN := sh_SelectedALPN sh,
                r_JA4S := JA4S sh (ch_QUIC ch)\<rparr>;
          r = (if sh_Group sh \<noteq> 0 then
                 r\<lparr>r_Group := GroupName (sh_Group sh), r_GroupSource := sh_GroupSource sh\<rparr>
               else r)
      in (r\<lparr>r_Certificates := analyzeCerts env (sh_CertificateChain sh)\<rparr>, cipher))"

text \<open>\<open>None\<close> is the nil dereference of a flow without a client hello.\<close>

definition Analyze :: "inv_env \<Rightarrow> Flow \<Rightarrow> Record option" where
  "Analyze env f =
     (case fl_Client f of
        None \<Rightarrow> None
      | Some ch \<Rightarrow>
          (let r = \<lparr>r_FirstSeen = fl_FirstSeen f, r_LastSeen = fl_LastSeen f, r_Transport = fl_Transport f,
                    r_ClientIP = fl_ClientIP f, r_ClientPort = fl_ClientPort f, r_ServerIP = fl_ServerIP f,
                    r_ServerPort = fl_ServerPort f, r_ServerName = ch_ServerName ch,
                    r_ECH = (ch_ECH ch \<noteq> None), r_ECHConfigID = 0,
                    r_VersionOffered = VersionName (ch_NegotiatedVersion ch), r_Version = [],
                    r_CipherSuite = [], r_CipherSuitesOffered = map CipherName (ch_CipherSuites ch),
                    r_ForwardSecrecy = None, r_Group = [], r_GroupSource = [],
                    r_KeyShareGroups = map GroupName (ch_KeyShareGroups ch),
                    r_SupportedGroups = map GroupName (ch_SupportedGroups ch),
                    r_SignatureAlgorithms = map SigAlgName (ch_SignatureAlgorithms ch),
                    r_ALPNOffered = ch_ALPN ch, r_ALPN = [], r_JA4 = JA4 ch, r_JA4S = [], r_PQ = [],
                    r_Findings = [], r_Certificates = [], r_ServerObserved = (fl_Server f \<noteq> None),
                    r_Truncated = (fl_PrefixTruncated f \<or> ch_Truncated ch)\<rparr>;
               (r, cipher) = (case fl_Server f of
                                None \<Rightarrow> (r, zero_CipherProperties)
                              | Some sh \<Rightarrow> analyze_server env ch sh r);
               r = (case ch_ECH ch of None \<Rightarrow> r | Some e \<Rightarrow> r\<lparr>r_ECHConfigID := ech_ConfigID e\<rparr>);
               r = r\<lparr>r_PQ := pqStatus f ch\<rparr>
           in Some (r\<lparr>r_Findings := findings env f ch r cipher\<rparr>)))"

end
