(* ===== verification/Accumulator.thy ===== *)
theory Accumulator
  imports Go_Float Inventory
begin

text \<open>
  \<^verbatim>\<open>internal/inventory/aggregate.go\<close> and \<^verbatim>\<open>summary.go\<close>: the running roll-up over the records.

  A Go map is the list of its entries, one per key, in the order the keys were first stored; the
  sets of the sources are distinct lists. Go ranges over a map in an unspecified order, so what is
  proved of the results does not depend on the order of these lists unless it says so.
\<close>


subsection \<open>Counting maps\<close>

fun map_inc :: "'k \<Rightarrow> ('k \<times> int) list \<Rightarrow> ('k \<times> int) list" where
  "map_inc k [] = [(k, 1)]"
| "map_inc k ((k', n) # m) = (if k' = k then (k', n + 1) # m else (k', n) # map_inc k m)"

definition set_add :: "'a \<Rightarrow> 'a list \<Rightarrow> 'a list" where
  "set_add x xs = (if x \<in> set xs then xs else xs @ [x])"


subsection \<open>Aggregates\<close>

definition maxAggregates :: nat where "maxAggregates = 20000"
definition maxTrackedClients :: nat where "maxTrackedClients = 256"

record Aggregate =
  ag_Transport :: string
  ag_ServerName :: string
  ag_ServerIP :: addr
  ag_ServerPort :: u16
  ag_Version :: string
  ag_CipherSuite :: string
  ag_Group :: string
  ag_ALPN :: string
  ag_JA4s :: "string list"
  ag_PQ :: PQStatus
  ag_ECH :: bool
  ag_ECHConfigIDs :: nat
  ag_ECHLikelyGREASE :: bool
  ag_ServerObserved :: bool
  ag_Count :: int
  ag_Clients :: nat
  ag_ClientsCapped :: bool
  ag_FirstSeen :: int
  ag_LastSeen :: int
  ag_Severity :: Severity
  ag_Findings :: "string list"

record aggKey =
  k_transport :: string
  k_name :: string
  k_port :: u16
  k_version :: string
  k_cipher :: string
  k_group :: string
  k_alpn :: string
  k_pq :: PQStatus
  k_ech :: bool

record aggEntry =
  e_agg :: Aggregate
  e_clients :: "addr list"
  e_findings :: "string list"
  e_ja4s :: "string list"
  e_echConfig :: "u8 list"

definition keyOf :: "Record \<Rightarrow> aggKey" where
  "keyOf r =
     (let name = r_ServerName r;
          name = (if name = [] then addr_String (r_ServerIP r) else name)
      in \<lparr>k_transport = r_Transport r, k_name = name, k_port = r_ServerPort r, k_version = r_Version r,
          k_cipher = r_CipherSuite r, k_group = r_Group r, k_alpn = r_ALPN r, k_pq = r_PQ r, k_ech = r_ECH r\<rparr>)"

definition new_aggEntry :: "Record \<Rightarrow> aggEntry" where
  "new_aggEntry r =
     \<lparr>e_agg = \<lparr>ag_Transport = r_Transport r, ag_ServerName = r_ServerName r, ag_ServerIP = r_ServerIP r,
        ag_ServerPort = r_ServerPort r, ag_Version = r_Version r, ag_CipherSuite = r_CipherSuite r,
        ag_Group = r_Group r, ag_ALPN = r_ALPN r, ag_JA4s = [], ag_PQ = r_PQ r, ag_ECH = r_ECH r,
        ag_ECHConfigIDs = 0, ag_ECHLikelyGREASE = False, ag_ServerObserved = r_ServerObserved r,
        ag_Count = 0, ag_Clients = 0, ag_ClientsCapped = False, ag_FirstSeen = r_FirstSeen r,
        ag_LastSeen = r_LastSeen r, ag_Severity = [], ag_Findings = []\<rparr>,
      e_clients = [], e_findings = [], e_ja4s = [], e_echConfig = []\<rparr>"

text \<open>The part of \<^verbatim>\<open>addAggregate\<close> after the entry was found or made.\<close>

definition update_entry :: "Record \<Rightarrow> aggEntry \<Rightarrow> aggEntry" where
  "update_entry r e =
     (let e = e\<lparr>e_agg := (e_agg e)\<lparr>ag_Count := ag_Count (e_agg e) + 1\<rparr>\<rparr>;
          e = (if r_FirstSeen r < ag_FirstSeen (e_agg e) then e\<lparr>e_agg := (e_agg e)\<lparr>ag_FirstSeen := r_FirstSeen r\<rparr>\<rparr> else e);
          e = (if r_LastSeen r > ag_LastSeen (e_agg e) then e\<lparr>e_agg := (e_agg e)\<lparr>ag_LastSeen := r_LastSeen r\<rparr>\<rparr> else e);
          e = (if length (e_clients e) < maxTrackedClients then e\<lparr>e_clients := set_add (r_ClientIP r) (e_clients e)\<rparr>
               else if r_ClientIP r \<notin> set (e_clients e) then e\<lparr>e_agg := (e_agg e)\<lparr>ag_ClientsCapped := True\<rparr>\<rparr> else e);
          e = (if r_ECH r \<and> length (e_echConfig e) < maxTrackedClients
               then e\<lparr>e_echConfig := set_add (r_ECHConfigID r) (e_echConfig e)\<rparr> else e);
          e = (if r_JA4 r \<noteq> [] \<and> length (e_ja4s e) < maxTrackedClients
               then e\<lparr>e_ja4s := set_add (r_JA4 r) (e_ja4s e)\<rparr> else e);
          sev = MaxSeverity r;
          e = (if severityRank sev > severityRank (ag_Severity (e_agg e))
               then e\<lparr>e_agg := (e_agg e)\<lparr>ag_Severity := sev\<rparr>\<rparr> else e)
      in e\<lparr>e_findings := foldl (\<lambda>s f. set_add (fi_ID f) s) (e_findings e) (r_Findings r)\<rparr>)"


subsection \<open>The accumulator\<close>

record Count =
  co_Name :: string
  co_Count :: int

record FindingCount =
  fc_ID :: string
  fc_Severity :: Severity
  fc_Count :: int
  fc_Example :: string

text \<open>\<open>su_PQReadiness\<close> is the value of a \<^verbatim>\<open>float64\<close>.\<close>

record Summary =
  su_Flows :: int
  su_ServerObserved :: int
  su_FirstSeen :: int
  su_LastSeen :: int
  su_Versions :: "Count list"
  su_Ciphers :: "Count list"
  su_Groups :: "Count list"
  su_ALPN :: "Count list"
  su_Transports :: "Count list"
  su_JA4 :: "Count list"
  su_ServerName :: "Count list"
  su_PQ :: "Count list"
  su_PQReadiness :: rat
  su_ECHOffered :: int
  su_ECHLikelyGREASE :: int
  su_Findings :: "FindingCount list"
  su_DistinctFindings :: nat
  su_AggregatesDropped :: int

record Accumulator =
  acc_s :: Summary
  acc_versions :: "(string \<times> int) list"
  acc_ciphers :: "(string \<times> int) list"
  acc_groups :: "(string \<times> int) list"
  acc_alpn :: "(string \<times> int) list"
  acc_transport :: "(string \<times> int) list"
  acc_ja4 :: "(string \<times> int) list"
  acc_names :: "(string \<times> int) list"
  acc_pq :: "(PQStatus \<times> int) list"
  acc_findings :: "(string \<times> FindingCount) list"
  acc_pqDecided :: int
  acc_pqDone :: int
  acc_aggs :: "(aggKey \<times> aggEntry) list"
  acc_aggDropped :: int

definition zero_Summary :: Summary where
  "zero_Summary =
     \<lparr>su_Flows = 0, su_ServerObserved = 0, su_FirstSeen = 0, su_LastSeen = 0, su_Versions = [], su_Ciphers = [],
      su_Groups = [], su_ALPN = [], su_Transports = [], su_JA4 = [], su_ServerName = [], su_PQ = [],
      su_PQReadiness = 0, su_ECHOffered = 0, su_ECHLikelyGREASE = 0, su_Findings = [],
      su_DistinctFindings = 0, su_AggregatesDropped = 0\<rparr>"

definition NewAccumulator :: Accumulator where
  "NewAccumulator =
     \<lparr>acc_s = zero_Summary, acc_versions = [], acc_ciphers = [], acc_groups = [], acc_alpn = [],
      acc_transport = [], acc_ja4 = [], acc_names = [], acc_pq = [], acc_findings = [],
      acc_pqDecided = 0, acc_pqDone = 0, acc_aggs = [], acc_aggDropped = 0\<rparr>"

definition addAggregate :: "Accumulator \<Rightarrow> Record \<Rightarrow> Accumulator" where
  "addAggregate a r =
     (let k = keyOf r in
      case map_of (acc_aggs a) k of
        Some e \<Rightarrow> a\<lparr>acc_aggs := map_put k (update_entry r e) (acc_aggs a)\<rparr>
      | None \<Rightarrow>
          if length (acc_aggs a) \<ge> maxAggregates then a\<lparr>acc_aggDropped := acc_aggDropped a + 1\<rparr>
          else a\<lparr>acc_aggs := map_put k (update_entry r (new_aggEntry r)) (acc_aggs a)\<rparr>)"

text \<open>The loop over the findings of a record, on the map of counts by ID.\<close>

definition count_finding :: "(string \<times> FindingCount) list \<Rightarrow> Finding \<Rightarrow> (string \<times> FindingCount) list" where
  "count_finding m f =
     (let fc = (case map_of m (fi_ID f) of
                  Some fc \<Rightarrow> fc
                | None \<Rightarrow> \<lparr>fc_ID = fi_ID f, fc_Severity = fi_Severity f, fc_Count = 0, fc_Example = fi_Detail f\<rparr>);
          fc = (if severityRank (fi_Severity f) > severityRank (fc_Severity fc)
                then fc\<lparr>fc_Severity := fi_Severity f, fc_Example := fi_Detail f\<rparr> else fc)
      in map_put (fi_ID f) (fc\<lparr>fc_Count := fc_Count fc + 1\<rparr>) m)"

text \<open>The steps of \<^verbatim>\<open>Add\<close>, in their order: the time range, the server's side, the other tables.\<close>

definition add_seen :: "Record \<Rightarrow> Accumulator \<Rightarrow> Accumulator" where
  "add_seen r a =
     (let a = (if su_FirstSeen (acc_s a) = 0 \<or> r_FirstSeen r < su_FirstSeen (acc_s a)
               then a\<lparr>acc_s := (acc_s a)\<lparr>su_FirstSeen := r_FirstSeen r\<rparr>\<rparr> else a)
      in if r_LastSeen r > su_LastSeen (acc_s a)
         then a\<lparr>acc_s := (acc_s a)\<lparr>su_LastSeen := r_LastSeen r\<rparr>\<rparr> else a)"

definition add_server :: "Record \<Rightarrow> Accumulator \<Rightarrow> Accumulator" where
  "add_server r a =
     (if r_ServerObserved r then
        (let a = a\<lparr>acc_s := (acc_s a)\<lparr>su_ServerObserved := su_ServerObserved (acc_s a) + 1\<rparr>,
                   acc_versions := map_inc (r_Version r) (acc_versions a),
                   acc_ciphers := map_inc (r_CipherSuite r) (acc_ciphers a)\<rparr>;
             a = (if r_Group r \<noteq> [] then a\<lparr>acc_groups := map_inc (r_Group r) (acc_groups a)\<rparr> else a);
             a = a\<lparr>acc_pqDecided := acc_pqDecided a + 1\<rparr>
         in if r_PQ r = PQNegotiated then a\<lparr>acc_pqDone := acc_pqDone a + 1\<rparr> else a)
      else a\<lparr>acc_versions := map_inc (r_VersionOffered r @ '' (offered)'') (acc_versions a)\<rparr>)"

definition add_tables :: "Record \<Rightarrow> Accumulator \<Rightarrow> Accumulator" where
  "add_tables r a =
     (let a = (if r_ALPN r \<noteq> [] then a\<lparr>acc_alpn := map_inc (r_ALPN r) (acc_alpn a)\<rparr> else a);
          a = (if r_Transport r \<noteq> [] then a\<lparr>acc_transport := map_inc (r_Transport r) (acc_transport a)\<rparr> else a);
          a = (if r_JA4 r \<noteq> [] then a\<lparr>acc_ja4 := map_inc (r_JA4 r) (acc_ja4 a)\<rparr> else a);
          a = (if r_ECH r then a\<lparr>acc_s := (acc_s a)\<lparr>su_ECHOffered := su_ECHOffered (acc_s a) + 1\<rparr>\<rparr> else a);
          a = (if r_ServerName r \<noteq> [] then a\<lparr>acc_names := map_inc (r_ServerName r) (acc_names a)\<rparr> else a)
      in a\<lparr>acc_pq := map_inc (r_PQ r) (acc_pq a)\<rparr>)"

definition acc_Add :: "Accumulator \<Rightarrow> Record \<Rightarrow> Accumulator" where
  "acc_Add a r =
     (let a = a\<lparr>acc_s := (acc_s a)\<lparr>su_Flows := su_Flows (acc_s a) + 1\<rparr>\<rparr>;
          a = addAggregate a r;
          a = add_seen r a;
          a = add_server r a;
          a = add_tables r a
      in a\<lparr>acc_findings := foldl count_finding (acc_findings a) (r_Findings r)\<rparr>)"


subsection \<open>Rankings\<close>

definition count_less :: "Count \<Rightarrow> Count \<Rightarrow> bool" where
  "count_less x y \<longleftrightarrow>
     (if co_Count x \<noteq> co_Count y then co_Count x > co_Count y else str_less (co_Name x) (co_Name y))"

definition top :: "int \<Rightarrow> 'a list \<Rightarrow> 'a list" where
  "top topN out = (if topN > 0 \<and> int (length out) > topN then take (nat topN) out else out)"

definition rank :: "(string \<times> int) list \<Rightarrow> int \<Rightarrow> Count list" where
  "rank m topN =
     top topN (sort_slice count_less
       (map (\<lambda>(k, v). \<lparr>co_Name = k, co_Count = v\<rparr>) (filter (\<lambda>(k, v). k \<noteq> []) m)))"

definition agg_view :: "aggEntry \<Rightarrow> Aggregate" where
  "agg_view e =
     (let agg = e_agg e;
          agg = agg\<lparr>ag_Clients := length (e_clients e), ag_ECHConfigIDs := length (e_echConfig e)\<rparr>;
          agg = agg\<lparr>ag_ECHLikelyGREASE := (ag_ECH agg \<and> ag_Count agg > 1 \<and> ag_ECHConfigIDs agg > 1)\<rparr>
      in agg\<lparr>ag_JA4s := sort_strings (e_ja4s e), ag_Findings := sort_strings (e_findings e)\<rparr>)"

definition agg_less :: "Aggregate \<Rightarrow> Aggregate \<Rightarrow> bool" where
  "agg_less x y \<longleftrightarrow>
     (let ri = severityRank (ag_Severity x); rj = severityRank (ag_Severity y) in
      if ri \<noteq> rj then ri > rj
      else if ag_Count x \<noteq> ag_Count y then ag_Count x > ag_Count y
      else if ag_ServerName x \<noteq> ag_ServerName y then str_less (ag_ServerName x) (ag_ServerName y)
      else str_less (ag_CipherSuite x) (ag_CipherSuite y))"

definition Aggregates :: "Accumulator \<Rightarrow> int \<Rightarrow> Aggregate list" where
  "Aggregates a topN = top topN (sort_slice agg_less (map (\<lambda>(k, e). agg_view e) (acc_aggs a)))"

definition finding_less :: "FindingCount \<Rightarrow> FindingCount \<Rightarrow> bool" where
  "finding_less x y \<longleftrightarrow>
     (let ri = severityRank (fc_Severity x); rj = severityRank (fc_Severity y) in
      if ri \<noteq> rj then ri > rj
      else if fc_Count x \<noteq> fc_Count y then fc_Count x > fc_Count y
      else str_less (fc_ID x) (fc_ID y))"

definition acc_Summary :: "Accumulator \<Rightarrow> int \<Rightarrow> Summary" where
  "acc_Summary a topN =
     (let s = acc_s a;
          s = s\<lparr>su_Versions := rank (acc_versions a) topN, su_Ciphers := rank (acc_ciphers a) topN,
                su_Groups := rank (acc_groups a) topN, su_ALPN := rank (acc_alpn a) topN,
                su_Transports := rank (acc_transport a) 0, su_JA4 := rank (acc_ja4 a) topN,
                su_ServerName := rank (acc_names a) topN, su_PQ := rank (acc_pq a) 0\<rparr>;
          s = (if acc_pqDecided a > 0
               then s\<lparr>su_PQReadiness := float_div (float64 (of_int (acc_pqDone a))) (float64 (of_int (acc_pqDecided a)))\<rparr> else s);
          s = s\<lparr>su_ECHLikelyGREASE := foldl (\<lambda>n agg. if ag_ECHLikelyGREASE agg then n + ag_Count agg else n)
                  (su_ECHLikelyGREASE s) (Aggregates a 0)\<rparr>
      in s\<lparr>su_DistinctFindings := length (acc_aggs a), su_AggregatesDropped := acc_aggDropped a,
           su_Findings := sort_slice finding_less (map snd (acc_findings a))\<rparr>)"

definition AggregatesDropped :: "Accumulator \<Rightarrow> int" where
  "AggregatesDropped a = acc_aggDropped a"

definition DistinctFindings :: "Accumulator \<Rightarrow> nat" where
  "DistinctFindings a = length (acc_aggs a)"

end
