(* ===== verification/Accumulator_Props.thy ===== *)
theory Accumulator_Props
  imports Accumulator
begin

text \<open>
  Properties of the roll-up: what each counter counts, that nothing is lost or counted twice, that
  the rankings are sorted and do not depend on the order of map iteration or of the records.
\<close>


subsection \<open>Counting maps\<close>

definition lookup0 :: "('k \<times> int) list \<Rightarrow> 'k \<Rightarrow> int" where
  "lookup0 m k = (case map_of m k of None \<Rightarrow> 0 | Some n \<Rightarrow> n)"

lemma map_inc_keys: "map fst (map_inc k m) = (if k \<in> fst ` set m then map fst m else map fst m @ [k])"
  by (induction k m rule: map_inc.induct) auto

lemma distinct_map_inc: "distinct (map fst m) \<Longrightarrow> distinct (map fst (map_inc k m))"
  by (simp add: map_inc_keys)

lemma sum_map_inc: "sum_list (map snd (map_inc k m)) = sum_list (map snd m) + 1"
  by (induction k m rule: map_inc.induct) auto

lemma lookup0_map_inc: "lookup0 (map_inc k m) k' = lookup0 m k' + (if k' = k then 1 else 0)"
  by (induction k m rule: map_inc.induct) (auto simp: lookup0_def)

text \<open>The map that counts a list of keys.\<close>

definition tally :: "'k list \<Rightarrow> ('k \<times> int) list" where
  "tally ks = foldl (\<lambda>m k. map_inc k m) [] ks"

lemma tally_snoc [simp]: "tally [] = []" "tally (ks @ [k]) = map_inc k (tally ks)"
  by (simp_all add: tally_def)

lemma distinct_tally: "distinct (map fst (tally ks))"
  by (induction ks rule: rev_induct) (simp_all add: distinct_map_inc)

lemma lookup0_tally: "lookup0 (tally ks) k = int (count (mset ks) k)"
  by (induction ks rule: rev_induct) (simp_all add: lookup0_map_inc, simp add: lookup0_def)

lemma tally_positive: "(k, n) \<in> set (tally ks) \<Longrightarrow> 0 < n"
proof -
  have "list_all (\<lambda>p. 0 < snd p) m \<Longrightarrow> list_all (\<lambda>p. 0 < snd p) (map_inc k m)" for k and m :: "('a \<times> int) list"
    by (induction k m rule: map_inc.induct) auto
  then have "list_all (\<lambda>p. 0 < snd p) (tally ks)"
    by (induction ks rule: rev_induct) simp_all
  then show "(k, n) \<in> set (tally ks) \<Longrightarrow> 0 < n" by (auto simp: list_all_iff)
qed

lemma sum_tally: "sum_list (map snd (tally ks)) = int (length ks)"
  by (induction ks rule: rev_induct) (simp_all add: sum_map_inc)

lemma set_tally: "(k, n) \<in> set (tally ks) \<longleftrightarrow> n = int (count (mset ks) k) \<and> k \<in> set ks"
proof -
  have "(k, n) \<in> set (tally ks) \<longleftrightarrow> map_of (tally ks) k = Some n"
    by (rule map_of_eq_Some_iff [OF distinct_tally, symmetric])
  also have "\<dots> \<longleftrightarrow> n = int (count (mset ks) k) \<and> k \<in> set ks"
  proof (cases "map_of (tally ks) k")
    case None
    then show ?thesis using lookup0_tally [of ks k] by (simp add: lookup0_def count_eq_zero_iff [symmetric])
  next
    case (Some m)
    then have "m = int (count (mset ks) k)" using lookup0_tally [of ks k] by (simp add: lookup0_def)
    moreover have "0 < m" using Some by (intro tally_positive [of k]) (rule map_of_SomeD)
    ultimately show ?thesis using Some by (auto simp: count_greater_zero_iff)
  qed
  finally show ?thesis .
qed

text \<open>The entries depend on the keys as a multiset only.\<close>

lemma mset_tally: "mset ks = mset ks' \<Longrightarrow> mset (tally ks) = mset (tally ks')"
proof -
  assume eq: "mset ks = mset ks'"
  have "distinct (tally ks)" "distinct (tally ks')" using distinct_tally distinct_map by blast+
  moreover have "set (tally ks) = set (tally ks')"
    using eq mset_eq_setD [OF eq] by (auto simp: set_tally)
  ultimately show ?thesis by (simp add: set_eq_iff_mset_eq_distinct)
qed


subsection \<open>Rankings\<close>

interpretation count_order: strict_weak_order count_less
proof
  show "count_less x y \<Longrightarrow> \<not> count_less y x" for x y
    by (auto simp: count_less_def dest: str_less_asym split: if_splits)
  show "count_less x z \<Longrightarrow> count_less x y \<or> count_less y z" for x y z
    using str_order.cotrans [of "co_Name x" "co_Name z" "co_Name y"] by (auto simp: count_less_def split: if_splits)
qed

lemma count_less_total: "\<not> count_less x y \<Longrightarrow> \<not> count_less y x \<Longrightarrow> x = (y :: Count)"
  using str_less_total [of "co_Name x" "co_Name y"] by (auto simp: count_less_def split: if_splits)

text \<open>
  a ranking is what it says and is deterministic. Whatever order the map is ranged over, and
  whatever sorting algorithm meets \<^verbatim>\<open>sort.Slice\<close>'s contract, the rows are the non-empty names with
  their counts, by descending count and then by name, cut to the first \<open>topN\<close> when a limit is given.
\<close>

theorem rank_deterministic:
  assumes "mset m' = mset m"
    and "slice_sorted count_less (map (\<lambda>(k, v). \<lparr>co_Name = k, co_Count = v\<rparr>) (filter (\<lambda>(k, v). k \<noteq> []) m')) out"
  shows "rank m topN = top topN out \<and>
    sorted_wrt (\<lambda>x y. \<not> count_less y x) (rank m topN) \<and>
    (topN > 0 \<longrightarrow> int (length (rank m topN)) \<le> topN)"
proof -
  let ?rows = "\<lambda>m. map (\<lambda>(k, v). \<lparr>co_Name = k, co_Count = v\<rparr>) (filter (\<lambda>(k, v). k \<noteq> []) m)"
  have "mset (?rows m') = mset (?rows m)" using assms(1) by (simp add: mset_map mset_filter)
  then have "out = sort_slice count_less (?rows m)"
    by (rule count_order.slice_sorted_unique [OF _ assms(2) count_order.sort_slice_sorted]) (rule count_less_total)
  then have eq: "rank m topN = top topN out" by (simp add: rank_def)
  have "sorted_wrt (\<lambda>x y. \<not> count_less y x) out" using assms(2) by (simp add: slice_sorted_def)
  then have "sorted_wrt (\<lambda>x y. \<not> count_less y x) (top topN out)"
    by (simp add: top_def sorted_wrt_take)
  with eq show ?thesis by (auto simp: top_def)
qed

theorem rank_deterministic_witness:
  "rank [(''a'', 1), (''b'', 2)] 1 = top 1 [\<lparr>co_Name = ''b'', co_Count = 2\<rparr>, \<lparr>co_Name = ''a'', co_Count = 1\<rparr>]"
  by (rule rank_deterministic [THEN conjunct1, of "[(''b'', 2), (''a'', 1)]"])
    (simp_all add: slice_sorted_def count_less_def)

lemma rank_mset: "mset m = mset m' \<Longrightarrow> rank m topN = rank m' topN"
proof -
  let ?rows = "\<lambda>m. map (\<lambda>(k, v). \<lparr>co_Name = k, co_Count = v\<rparr>) (filter (\<lambda>(k, v). k \<noteq> []) m)"
  assume "mset m = mset m'"
  then have "mset (?rows m) = mset (?rows m')" by (simp add: mset_map mset_filter)
  then have "sort_slice count_less (?rows m) = sort_slice count_less (?rows m')"
    by (rule count_order.slice_sorted_unique [OF _ count_order.sort_slice_sorted count_order.sort_slice_sorted])
      (rule count_less_total)
  then show ?thesis by (simp add: rank_def)
qed


subsection \<open>What the accumulator counts\<close>

definition accumulate :: "Record list \<Rightarrow> Accumulator" where
  "accumulate rs = foldl acc_Add NewAccumulator rs"

lemma accumulate_snoc: "accumulate [] = NewAccumulator" "accumulate (rs @ [r]) = acc_Add (accumulate rs) r"
  by (simp_all add: accumulate_def)

lemma addAggregate_fields [simp]:
  "acc_s (addAggregate a r) = acc_s a" "acc_versions (addAggregate a r) = acc_versions a"
  "acc_ciphers (addAggregate a r) = acc_ciphers a" "acc_groups (addAggregate a r) = acc_groups a"
  "acc_alpn (addAggregate a r) = acc_alpn a" "acc_transport (addAggregate a r) = acc_transport a"
  "acc_ja4 (addAggregate a r) = acc_ja4 a" "acc_names (addAggregate a r) = acc_names a"
  "acc_pq (addAggregate a r) = acc_pq a" "acc_findings (addAggregate a r) = acc_findings a"
  "acc_pqDecided (addAggregate a r) = acc_pqDecided a" "acc_pqDone (addAggregate a r) = acc_pqDone a"
  by (simp_all add: addAggregate_def Let_def split: option.splits)

lemma add_seen_fields [simp]:
  "acc_versions (add_seen r a) = acc_versions a" "acc_ciphers (add_seen r a) = acc_ciphers a"
  "acc_groups (add_seen r a) = acc_groups a" "acc_alpn (add_seen r a) = acc_alpn a"
  "acc_transport (add_seen r a) = acc_transport a" "acc_ja4 (add_seen r a) = acc_ja4 a"
  "acc_names (add_seen r a) = acc_names a" "acc_pq (add_seen r a) = acc_pq a"
  "acc_findings (add_seen r a) = acc_findings a" "acc_pqDecided (add_seen r a) = acc_pqDecided a"
  "acc_pqDone (add_seen r a) = acc_pqDone a" "acc_aggs (add_seen r a) = acc_aggs a"
  "acc_aggDropped (add_seen r a) = acc_aggDropped a" "su_Flows (acc_s (add_seen r a)) = su_Flows (acc_s a)"
  "su_ServerObserved (acc_s (add_seen r a)) = su_ServerObserved (acc_s a)"
  "su_PQReadiness (acc_s (add_seen r a)) = su_PQReadiness (acc_s a)"
  by (simp_all add: add_seen_def Let_def)

lemma add_server_fields [simp]:
  "acc_versions (add_server r a) =
     map_inc (if r_ServerObserved r then r_Version r else r_VersionOffered r @ '' (offered)'') (acc_versions a)"
  "acc_ciphers (add_server r a) = (if r_ServerObserved r then map_inc (r_CipherSuite r) (acc_ciphers a) else acc_ciphers a)"
  "acc_groups (add_server r a) = (if r_ServerObserved r \<and> r_Group r \<noteq> [] then map_inc (r_Group r) (acc_groups a) else acc_groups a)"
  "acc_alpn (add_server r a) = acc_alpn a" "acc_transport (add_server r a) = acc_transport a"
  "acc_ja4 (add_server r a) = acc_ja4 a" "acc_names (add_server r a) = acc_names a"
  "acc_pq (add_server r a) = acc_pq a" "acc_findings (add_server r a) = acc_findings a"
  "acc_pqDecided (add_server r a) = acc_pqDecided a + (if r_ServerObserved r then 1 else 0)"
  "acc_pqDone (add_server r a) = acc_pqDone a + (if r_ServerObserved r \<and> r_PQ r = PQNegotiated then 1 else 0)"
  "acc_aggs (add_server r a) = acc_aggs a" "acc_aggDropped (add_server r a) = acc_aggDropped a"
  "su_Flows (acc_s (add_server r a)) = su_Flows (acc_s a)"
  "su_ServerObserved (acc_s (add_server r a)) = su_ServerObserved (acc_s a) + (if r_ServerObserved r then 1 else 0)"
  "su_PQReadiness (acc_s (add_server r a)) = su_PQReadiness (acc_s a)"
  by (simp_all add: add_server_def Let_def)

lemma add_tables_fields [simp]:
  "acc_versions (add_tables r a) = acc_versions a" "acc_ciphers (add_tables r a) = acc_ciphers a"
  "acc_groups (add_tables r a) = acc_groups a"
  "acc_alpn (add_tables r a) = (if r_ALPN r \<noteq> [] then map_inc (r_ALPN r) (acc_alpn a) else acc_alpn a)"
  "acc_transport (add_tables r a) = (if r_Transport r \<noteq> [] then map_inc (r_Transport r) (acc_transport a) else acc_transport a)"
  "acc_ja4 (add_tables r a) = (if r_JA4 r \<noteq> [] then map_inc (r_JA4 r) (acc_ja4 a) else acc_ja4 a)"
  "acc_names (add_tables r a) = (if r_ServerName r \<noteq> [] then map_inc (r_ServerName r) (acc_names a) else acc_names a)"
  "acc_pq (add_tables r a) = map_inc (r_PQ r) (acc_pq a)" "acc_findings (add_tables r a) = acc_findings a"
  "acc_pqDecided (add_tables r a) = acc_pqDecided a" "acc_pqDone (add_tables r a) = acc_pqDone a"
  "acc_aggs (add_tables r a) = acc_aggs a" "acc_aggDropped (add_tables r a) = acc_aggDropped a"
  "su_Flows (acc_s (add_tables r a)) = su_Flows (acc_s a)"
  "su_ServerObserved (acc_s (add_tables r a)) = su_ServerObserved (acc_s a)"
  "su_PQReadiness (acc_s (add_tables r a)) = su_PQReadiness (acc_s a)"
  by (simp_all add: add_tables_def Let_def)

text \<open>The key a record is counted under in each distribution, if any.\<close>

definition version_key :: "Record \<Rightarrow> string" where
  "version_key r = (if r_ServerObserved r then r_Version r else r_VersionOffered r @ '' (offered)'')"

definition keys_of :: "(Record \<Rightarrow> bool) \<Rightarrow> (Record \<Rightarrow> string) \<Rightarrow> Record list \<Rightarrow> string list" where
  "keys_of P f rs = map f (filter P rs)"

lemma keys_of_snoc [simp]: "keys_of P f [] = []" "keys_of P f (rs @ [r]) = keys_of P f rs @ (if P r then [f r] else [])"
  by (simp_all add: keys_of_def)

lemma acc_Add_maps:
  "acc_versions (acc_Add a r) = map_inc (version_key r) (acc_versions a)"
  "acc_ciphers (acc_Add a r) = (if r_ServerObserved r then map_inc (r_CipherSuite r) (acc_ciphers a) else acc_ciphers a)"
  "acc_groups (acc_Add a r) = (if r_ServerObserved r \<and> r_Group r \<noteq> [] then map_inc (r_Group r) (acc_groups a) else acc_groups a)"
  "acc_alpn (acc_Add a r) = (if r_ALPN r \<noteq> [] then map_inc (r_ALPN r) (acc_alpn a) else acc_alpn a)"
  "acc_transport (acc_Add a r) = (if r_Transport r \<noteq> [] then map_inc (r_Transport r) (acc_transport a) else acc_transport a)"
  "acc_ja4 (acc_Add a r) = (if r_JA4 r \<noteq> [] then map_inc (r_JA4 r) (acc_ja4 a) else acc_ja4 a)"
  "acc_names (acc_Add a r) = (if r_ServerName r \<noteq> [] then map_inc (r_ServerName r) (acc_names a) else acc_names a)"
  "acc_pq (acc_Add a r) = map_inc (r_PQ r) (acc_pq a)"
  by (simp_all add: acc_Add_def Let_def version_key_def)

lemma acc_Add_counters:
  "su_Flows (acc_s (acc_Add a r)) = su_Flows (acc_s a) + 1"
  "su_ServerObserved (acc_s (acc_Add a r)) = su_ServerObserved (acc_s a) + (if r_ServerObserved r then 1 else 0)"
  "acc_pqDecided (acc_Add a r) = acc_pqDecided a + (if r_ServerObserved r then 1 else 0)"
  "acc_pqDone (acc_Add a r) = acc_pqDone a + (if r_ServerObserved r \<and> r_PQ r = PQNegotiated then 1 else 0)"
  "acc_findings (acc_Add a r) = foldl count_finding (acc_findings a) (r_Findings r)"
  by (simp_all add: acc_Add_def Let_def)

lemma accumulate_maps:
  "acc_versions (accumulate rs) = tally (keys_of (\<lambda>_. True) version_key rs)"
  "acc_ciphers (accumulate rs) = tally (keys_of r_ServerObserved r_CipherSuite rs)"
  "acc_groups (accumulate rs) = tally (keys_of (\<lambda>r. r_ServerObserved r \<and> r_Group r \<noteq> []) r_Group rs)"
  "acc_alpn (accumulate rs) = tally (keys_of (\<lambda>r. r_ALPN r \<noteq> []) r_ALPN rs)"
  "acc_transport (accumulate rs) = tally (keys_of (\<lambda>r. r_Transport r \<noteq> []) r_Transport rs)"
  "acc_ja4 (accumulate rs) = tally (keys_of (\<lambda>r. r_JA4 r \<noteq> []) r_JA4 rs)"
  "acc_names (accumulate rs) = tally (keys_of (\<lambda>r. r_ServerName r \<noteq> []) r_ServerName rs)"
  "acc_pq (accumulate rs) = tally (keys_of (\<lambda>_. True) r_PQ rs)"
  by (induction rs rule: rev_induct)
    (simp_all add: accumulate_snoc acc_Add_maps NewAccumulator_def)

lemma mset_keys_of: "mset rs = mset rs' \<Longrightarrow> mset (keys_of P f rs) = mset (keys_of P f rs')"
  by (simp add: keys_of_def mset_map mset_filter)

text \<open>
  C13: the distributions do not depend on the order of the records: for the same handshakes in any
  order, every ranking of the summary is the same.
\<close>

theorem summary_order_independent:
  assumes "mset rs = mset rs'"
  shows "let s = acc_Summary (accumulate rs) topN; s' = acc_Summary (accumulate rs') topN in
    su_Versions s = su_Versions s' \<and> su_Ciphers s = su_Ciphers s' \<and> su_Groups s = su_Groups s' \<and>
    su_ALPN s = su_ALPN s' \<and> su_Transports s = su_Transports s' \<and> su_JA4 s = su_JA4 s' \<and>
    su_ServerName s = su_ServerName s' \<and> su_PQ s = su_PQ s'"
proof -
  have eq: "rank (tally (keys_of P f rs)) n = rank (tally (keys_of P f rs')) n" for P f n
    by (intro rank_mset mset_tally mset_keys_of assms)
  show ?thesis
    by (simp add: Let_def acc_Summary_def accumulate_maps eq [of "\<lambda>_. True" version_key]
        eq [of r_ServerObserved] eq [of "\<lambda>r. r_ServerObserved r \<and> r_Group r \<noteq> []"]
        eq [of "\<lambda>r. r_ALPN r \<noteq> []"] eq [of "\<lambda>r. r_Transport r \<noteq> []"] eq [of "\<lambda>r. r_JA4 r \<noteq> []"]
        eq [of "\<lambda>r. r_ServerName r \<noteq> []"] eq [of "\<lambda>_. True" r_PQ])
qed

definition sample_rec :: "string \<Rightarrow> Finding list \<Rightarrow> Record" where
  "sample_rec name fs =
     \<lparr>r_FirstSeen = 1, r_LastSeen = 2, r_Transport = ''tcp'', r_ClientIP = AddrNone, r_ClientPort = 0,
      r_ServerIP = AddrNone, r_ServerPort = 443, r_ServerName = name, r_ECH = False, r_ECHConfigID = 0,
      r_VersionOffered = ''TLS 1.3'', r_Version = [], r_CipherSuite = [], r_CipherSuitesOffered = [],
      r_ForwardSecrecy = None, r_Group = [], r_GroupSource = [], r_KeyShareGroups = [], r_SupportedGroups = [],
      r_SignatureAlgorithms = [], r_ALPNOffered = [], r_ALPN = [], r_JA4 = [], r_JA4S = [], r_PQ = PQUnknown,
      r_Findings = fs, r_Certificates = [], r_ServerObserved = False, r_Truncated = False\<rparr>"

theorem summary_order_independent_witness:
  "su_ServerName (acc_Summary (accumulate [sample_rec ''a'' [], sample_rec ''b'' []]) 5) =
   su_ServerName (acc_Summary (accumulate [sample_rec ''b'' [], sample_rec ''a'' []]) 5)"
  using summary_order_independent
    [of "[sample_rec ''a'' [], sample_rec ''b'' []]" "[sample_rec ''b'' [], sample_rec ''a'' []]" 5]
  by (simp add: Let_def)


subsection \<open>Conservation\<close>

definition agg_counts :: "Accumulator \<Rightarrow> int" where
  "agg_counts a = sum_list (map (\<lambda>(k, e). ag_Count (e_agg e)) (acc_aggs a))"

lemma update_entry_count [simp]: "ag_Count (e_agg (update_entry r e)) = ag_Count (e_agg e) + 1"
  by (simp add: update_entry_def Let_def)

lemma sum_map_put:
  fixes g :: "'v \<Rightarrow> int"
  assumes "distinct (map fst m)"
  shows "sum_list (map (\<lambda>(k, v). g v) (map_put k v m)) =
    sum_list (map (\<lambda>(k, v). g v) m) + g v - (case map_of m k of None \<Rightarrow> 0 | Some w \<Rightarrow> g w)"
  using assms by (induction k v m rule: map_put.induct) (auto split: option.splits)

definition acc_inv :: "Accumulator \<Rightarrow> bool" where
  "acc_inv a \<longleftrightarrow>
     distinct (map fst (acc_aggs a)) \<and> length (acc_aggs a) \<le> maxAggregates \<and>
     agg_counts a + acc_aggDropped a = su_Flows (acc_s a) \<and> 0 \<le> acc_aggDropped a \<and>
     (0 < acc_aggDropped a \<longrightarrow> length (acc_aggs a) = maxAggregates) \<and>
     0 \<le> acc_pqDone a \<and> acc_pqDone a \<le> acc_pqDecided a \<and> acc_pqDecided a = su_ServerObserved (acc_s a)"

lemma acc_Add_aggs:
  "acc_aggs (acc_Add a r) = acc_aggs (addAggregate a r)" "acc_aggDropped (acc_Add a r) = acc_aggDropped (addAggregate a r)"
  by (simp_all add: acc_Add_def Let_def addAggregate_def split: option.splits)

lemma acc_inv_Add:
  assumes "acc_inv a"
  shows "acc_inv (acc_Add a r)"
proof -
  have dist: "distinct (map fst (acc_aggs a))" using assms by (simp add: acc_inv_def)
  note sum = sum_map_put [OF dist, where g = "\<lambda>e. ag_Count (e_agg e)" and k = "keyOf r"]
  have key: "keyOf r \<in> fst ` set (acc_aggs a) \<longleftrightarrow> map_of (acc_aggs a) (keyOf r) \<noteq> None"
    by (simp add: map_of_eq_None_iff)
  have "distinct (map fst (acc_aggs (addAggregate a r)))" "length (acc_aggs (addAggregate a r)) \<le> maxAggregates"
    "agg_counts (addAggregate a r) + acc_aggDropped (addAggregate a r) = agg_counts a + acc_aggDropped a + 1"
    "0 < acc_aggDropped (addAggregate a r) \<longrightarrow> length (acc_aggs (addAggregate a r)) = maxAggregates"
    "0 \<le> acc_aggDropped (addAggregate a r)"
    using assms key
    by (auto simp: addAggregate_def Let_def acc_inv_def agg_counts_def sum map_put_keys length_map_put new_aggEntry_def
        split: option.splits)
  then show ?thesis
    using assms by (auto simp: acc_inv_def acc_Add_aggs acc_Add_counters agg_counts_def)
qed

lemma acc_inv_accumulate: "acc_inv (accumulate rs)"
  by (induction rs rule: rev_induct)
    (simp_all add: accumulate_snoc acc_inv_Add, simp add: acc_inv_def NewAccumulator_def zero_Summary_def agg_counts_def)

lemma accumulate_counters:
  "su_Flows (acc_s (accumulate rs)) = int (length rs)"
  "su_ServerObserved (acc_s (accumulate rs)) = int (length (filter r_ServerObserved rs))"
  "acc_pqDone (accumulate rs) = int (length (filter (\<lambda>r. r_ServerObserved r \<and> r_PQ r = PQNegotiated) rs))"
  by (induction rs rule: rev_induct)
    (simp_all add: accumulate_snoc acc_Add_counters NewAccumulator_def zero_Summary_def)

text \<open>
  C14: every handshake is accounted for, once. After any sequence of records the flow counter is their
  number, the counts of the aggregates and the dropped handshakes add up to it, as do the rows of the
  version and readiness distributions; at most 20000 aggregates are kept, and nothing is dropped
  before there are that many.
\<close>

theorem accumulator_conservation:
  "let a = accumulate rs in
   su_Flows (acc_s a) = int (length rs) \<and>
   agg_counts a + acc_aggDropped a = int (length rs) \<and>
   sum_list (map snd (acc_versions a)) = int (length rs) \<and> sum_list (map snd (acc_pq a)) = int (length rs) \<and>
   distinct (map fst (acc_aggs a)) \<and> length (acc_aggs a) \<le> 20000 \<and>
   (acc_aggDropped a = 0 \<or> length (acc_aggs a) = 20000)"
  using acc_inv_accumulate [of rs] accumulate_counters [of rs]
  by (auto simp: Let_def acc_inv_def accumulate_maps sum_tally keys_of_def maxAggregates_def)

text \<open>
  the readiness figure is a fraction: up to the rounding of a \<^verbatim>\<open>float64\<close>, the observed negotiations that
  chose a post-quantum group, of all observed negotiations; it is zero when none was observed and never
  leaves the unit interval.
\<close>

theorem readiness_fraction:
  "let q = su_PQReadiness (acc_Summary (accumulate rs) topN);
       seen = length (filter r_ServerObserved rs);
       ready = length (filter (\<lambda>r. r_ServerObserved r \<and> r_PQ r = PQNegotiated) rs) in
   0 \<le> q \<and> q \<le> 1 \<and> (if seen = 0 then q = 0 else \<bar>q - of_nat ready / of_nat seen\<bar> \<le> 1 / 10 ^ 15)"
proof -
  let ?a = "accumulate rs"
  have inv: "0 \<le> acc_pqDone ?a" "acc_pqDone ?a \<le> acc_pqDecided ?a" "acc_pqDecided ?a = su_ServerObserved (acc_s ?a)"
    using acc_inv_accumulate [of rs] by (simp_all add: acc_inv_def)
  have zero: "su_PQReadiness (acc_s ?a) = 0"
    by (induction rs rule: rev_induct)
      (simp_all add: accumulate_snoc NewAccumulator_def zero_Summary_def acc_Add_def Let_def)
  let ?f = "float_div (float64 (of_int (acc_pqDone ?a))) (float64 (of_int (acc_pqDecided ?a)))"
  have q: "su_PQReadiness (acc_Summary ?a topN) = (if acc_pqDecided ?a > 0 then ?f else 0)"
    by (simp add: acc_Summary_def Let_def zero)
  have len: "acc_pqDecided ?a = int (length (filter r_ServerObserved rs))"
    using inv(3) accumulate_counters(2) [of rs] by simp
  have don: "acc_pqDone ?a = int (length (filter (\<lambda>r. r_ServerObserved r \<and> r_PQ r = PQNegotiated) rs))"
    by (rule accumulate_counters(3))
  show ?thesis
  proof (cases "acc_pqDecided ?a > 0")
    case True
    let ?r = "of_int (acc_pqDone ?a) / of_int (acc_pqDecided ?a) :: rat"
    have r: "0 \<le> ?r" "?r \<le> 1" using inv(1,2) True by simp_all
    have e: "?r * (1 - 4 * roundoff) \<le> ?f" "?f \<le> ?r * (1 + 4 * roundoff)"
      using fraction_error [of "of_int (acc_pqDone ?a)" "of_int (acc_pqDecided ?a)"] inv(1) True by simp_all
    have "?r * (4 * roundoff) \<le> 1 * (4 * roundoff)" using r(2) by (rule mult_right_mono) (simp add: roundoff_def)
    then have "\<bar>?f - ?r\<bar> \<le> 4 * roundoff" using e by (simp add: abs_le_iff distrib_left right_diff_distrib)
    then have "\<bar>?f - ?r\<bar> \<le> 1 / 10 ^ 15" by (rule order_trans) (simp add: roundoff_def)
    moreover have "0 \<le> ?f \<and> ?f \<le> 1"
      using fraction_bounds [of "of_int (acc_pqDone ?a)" "of_int (acc_pqDecided ?a)"] inv(1,2) True by simp
    ultimately show ?thesis using True unfolding Let_def q by (simp add: len don)
  next
    case False
    then show ?thesis unfolding Let_def q by (simp add: len)
  qed
qed



subsection \<open>The findings of a run\<close>

text \<open>What the table holds of an ID after the findings \<open>fs\<close>.\<close>

definition counted_as :: "Finding list \<Rightarrow> string \<Rightarrow> FindingCount \<Rightarrow> bool" where
  "counted_as fs i fc \<longleftrightarrow>
     fc_ID fc = i \<and> fc_Count fc = int (length (filter (\<lambda>f. fi_ID f = i) fs)) \<and>
     (\<forall>f \<in> set fs. fi_ID f = i \<longrightarrow> severityRank (fi_Severity f) \<le> severityRank (fc_Severity fc)) \<and>
     (\<exists>f \<in> set fs. fi_ID f = i \<and> fi_Severity f = fc_Severity fc \<and> fi_Detail f = fc_Example fc)"

definition table_of :: "Finding list \<Rightarrow> (string \<times> FindingCount) list \<Rightarrow> bool" where
  "table_of fs m \<longleftrightarrow>
     distinct (map fst m) \<and>
     (\<forall>i. case map_of m i of None \<Rightarrow> \<forall>f \<in> set fs. fi_ID f \<noteq> i | Some fc \<Rightarrow> counted_as fs i fc)"

lemma count_finding_table:
  assumes "table_of fs m"
  shows "table_of (fs @ [f]) (count_finding m f)"
proof -
  let ?i = "fi_ID f"
  define fc0 where "fc0 = (case map_of m ?i of Some fc \<Rightarrow> fc
    | None \<Rightarrow> \<lparr>fc_ID = ?i, fc_Severity = fi_Severity f, fc_Count = 0, fc_Example = fi_Detail f\<rparr>)"
  define fc1 where "fc1 = (if severityRank (fi_Severity f) > severityRank (fc_Severity fc0)
    then fc0\<lparr>fc_Severity := fi_Severity f, fc_Example := fi_Detail f\<rparr> else fc0)"
  have cf: "count_finding m f = map_put ?i (fc1\<lparr>fc_Count := fc_Count fc1 + 1\<rparr>) m"
    by (simp add: count_finding_def fc0_def fc1_def Let_def)
  have old: "case map_of m i of None \<Rightarrow> \<forall>f \<in> set fs. fi_ID f \<noteq> i | Some fc \<Rightarrow> counted_as fs i fc" for i
    using assms by (simp add: table_of_def)
  have new: "counted_as (fs @ [f]) ?i (fc1\<lparr>fc_Count := fc_Count fc1 + 1\<rparr>)"
  proof (cases "map_of m ?i")
    case None
    then have "\<forall>g \<in> set fs. fi_ID g \<noteq> ?i" using old [of ?i] by simp
    then show ?thesis
      using None by (auto simp: counted_as_def fc1_def fc0_def filter_empty_conv)
  next
    case (Some fc)
    then have "counted_as fs ?i fc" using old [of ?i] by simp
    then show ?thesis using Some by (auto simp: counted_as_def fc1_def fc0_def)
  qed
  have other: "case map_of m i of None \<Rightarrow> \<forall>g \<in> set (fs @ [f]). fi_ID g \<noteq> i | Some fc \<Rightarrow> counted_as (fs @ [f]) i fc"
    if "i \<noteq> ?i" for i
    using old [of i] that by (auto simp: counted_as_def split: option.splits)
  show ?thesis
    using assms new other unfolding table_of_def cf map_of_map_put
    by (auto simp: distinct_map_put)
qed

lemma accumulate_table: "table_of (concat (map r_Findings rs)) (acc_findings (accumulate rs))"
proof (induction rs rule: rev_induct)
  case Nil
  show ?case by (simp add: accumulate_snoc NewAccumulator_def table_of_def)
next
  case (snoc r rs)
  have "table_of (fs @ gs) (foldl count_finding m gs)" if "table_of fs m" for fs gs m
    using that
  proof (induction gs arbitrary: fs m)
    case (Cons g gs)
    then have "table_of (fs @ [g]) (count_finding m g)" by (intro count_finding_table)
    from Cons.IH [OF this] show ?case by simp
  qed simp
  with snoc show ?case by (simp add: accumulate_snoc acc_Add_counters)
qed

interpretation finding_order: strict_weak_order finding_less
proof
  show "finding_less x y \<Longrightarrow> \<not> finding_less y x" for x y
    by (auto simp: finding_less_def Let_def dest: str_less_asym split: if_splits)
  show "finding_less x z \<Longrightarrow> finding_less x y \<or> finding_less y z" for x y z
    using str_order.cotrans [of "fc_ID x" "fc_ID z" "fc_ID y"] by (auto simp: finding_less_def Let_def split: if_splits)
qed

text \<open>
  C15: the findings of a summary are exact. Its rows are sorted from the worst down, no two have the
  same ID, every finding of every record has a row, and each row has the number of findings with its
  ID, the highest severity among them and the detail of one of that severity.
\<close>

theorem summary_findings_exact:
  "let rows = su_Findings (acc_Summary (accumulate rs) topN); fs = concat (map r_Findings rs) in
   distinct (map fc_ID rows) \<and> fc_ID ` set rows = fi_ID ` set fs \<and>
   list_all (\<lambda>row. counted_as fs (fc_ID row) row) rows \<and>
   sorted_wrt (\<lambda>x y. severityRank (fc_Severity x) \<ge> severityRank (fc_Severity y)) rows"
proof -
  let ?m = "acc_findings (accumulate rs)" and ?fs = "concat (map r_Findings rs)"
  let ?rows = "sort_slice finding_less (map snd ?m)"
  have tab: "distinct (map fst ?m)"
    "\<And>i. case map_of ?m i of None \<Rightarrow> \<forall>f \<in> set ?fs. fi_ID f \<noteq> i | Some fc \<Rightarrow> counted_as ?fs i fc"
    using accumulate_table [of rs] unfolding table_of_def by blast+
  have entry: "counted_as ?fs i fc" if "(i, fc) \<in> set ?m" for i fc
    using tab(2) [of i] map_of_is_SomeI [OF tab(1) that] by simp
  then have ids: "map fc_ID (map snd ?m) = map fst ?m"
    by (auto simp: counted_as_def)
  have "mset (map fc_ID ?rows) = mset (map fst ?m)"
    unfolding ids [symmetric] by (simp only: mset_map mset_sort_slice)
  then have dist: "distinct (map fc_ID ?rows)" using tab(1) mset_eq_imp_distinct_iff by blast
  have "fst ` set ?m = fi_ID ` set ?fs"
  proof (intro set_eqI iffI)
    fix i assume "i \<in> fst ` set ?m"
    then obtain fc where "(i, fc) \<in> set ?m" by auto
    then have "counted_as ?fs i fc" by (rule entry)
    then show "i \<in> fi_ID ` set ?fs" unfolding counted_as_def image_iff by metis
  next
    fix i assume "i \<in> fi_ID ` set ?fs"
    then have "\<exists>f \<in> set ?fs. fi_ID f = i" by blast
    then obtain fc where "map_of ?m i = Some fc" using tab(2) [of i] by (cases "map_of ?m i") simp_all
    then show "i \<in> fst ` set ?m" by (metis map_of_SomeD image_iff fst_conv)
  qed
  moreover have "fc_ID ` set ?rows = fst ` set ?m"
    using arg_cong [OF ids, of set] by (simp add: image_image)
  moreover have "list_all (\<lambda>row. counted_as ?fs (fc_ID row) row) ?rows"
    using entry by (fastforce simp: list_all_iff counted_as_def)
  moreover have "sorted_wrt (\<lambda>x y. severityRank (fc_Severity x) \<ge> severityRank (fc_Severity y)) ?rows"
  proof (rule sorted_wrt_mono_rel)
    show "sorted_wrt (\<lambda>x y. \<not> finding_less y x) ?rows"
      using finding_order.sort_slice_sorted [of "map snd ?m"] unfolding slice_sorted_def by (rule conjunct2)
    show "severityRank (fc_Severity x) \<ge> severityRank (fc_Severity y)"
      if "\<not> finding_less y x" for x y
      using that by (auto simp: finding_less_def Let_def split: if_splits)
  qed
  ultimately show ?thesis using dist by (simp add: Let_def acc_Summary_def)
qed

end
