(* ===== verification/Go_Utf8.thy ===== *)
theory Go_Utf8
  imports Go_Format
begin

text \<open>
  What the reports use of Go's text handling beyond single bytes: ranging over the runes of a string,
  times in RFC 3339 form, and padding.
\<close>

subsection \<open>Runes\<close>

text \<open>
  One rune and its width, as \<^verbatim>\<open>for _, r := range s\<close> decodes it: a byte that does not start a
  well-formed sequence is the replacement character U+FFFD of width one.
\<close>

definition in_range :: "nat \<Rightarrow> nat \<Rightarrow> nat \<Rightarrow> bool" where
  "in_range lo hi b \<longleftrightarrow> lo \<le> b \<and> b \<le> hi"

definition decode_rune :: "nat list \<Rightarrow> nat \<times> nat" where
  "decode_rune bs =
     (let cont = in_range 0x80 0xbf in
      case bs of
        [] \<Rightarrow> (0xfffd, 1)
      | b0 # r \<Rightarrow>
          if b0 < 0x80 then (b0, 1)
          else if in_range 0xc2 0xdf b0 \<and> length r \<ge> 1 \<and> cont (r ! 0) then ((b0 - 0xc0) * 64 + (r ! 0 - 0x80), 2)
          else if in_range 0xe0 0xef b0 \<and> length r \<ge> 2 \<and>
                  in_range (if b0 = 0xe0 then 0xa0 else 0x80) (if b0 = 0xed then 0x9f else 0xbf) (r ! 0) \<and> cont (r ! 1) then
            (((b0 - 0xe0) * 64 + (r ! 0 - 0x80)) * 64 + (r ! 1 - 0x80), 3)
          else if in_range 0xf0 0xf4 b0 \<and> length r \<ge> 3 \<and>
                  in_range (if b0 = 0xf0 then 0x90 else 0x80) (if b0 = 0xf4 then 0x8f else 0xbf) (r ! 0) \<and>
                  cont (r ! 1) \<and> cont (r ! 2) then
            ((((b0 - 0xf0) * 64 + (r ! 0 - 0x80)) * 64 + (r ! 1 - 0x80)) * 64 + (r ! 2 - 0x80), 4)
          else (0xfffd, 1))"

lemma decode_rune_width: "0 < snd (decode_rune bs)"
  by (simp add: decode_rune_def Let_def split: list.splits)

function rune_list :: "nat list \<Rightarrow> nat list" where
  "rune_list bs = (if bs = [] then [] else fst (decode_rune bs) # rune_list (drop (snd (decode_rune bs)) bs))"
  by pat_completeness auto
termination
  by (relation "measure length") (auto simp: decode_rune_width)

declare rune_list.simps [simp del]

definition runes :: "string \<Rightarrow> nat list" where
  "runes s = rune_list (map of_char s)"

text \<open>On ASCII text the runes are the bytes.\<close>

lemma rune_list_ascii: "list_all (\<lambda>b. b < 128) bs \<Longrightarrow> rune_list bs = bs"
proof (induction bs)
  case (Cons b bs)
  then have "decode_rune (b # bs) = (b, 1)" by (simp add: decode_rune_def Let_def)
  with Cons show ?case by (subst rune_list.simps) simp
qed (simp add: rune_list.simps)

lemma runes_ascii: "list_all (\<lambda>c. (of_char c :: nat) < 128) s \<Longrightarrow> runes s = map of_char s"
  unfolding runes_def by (rule rune_list_ascii) (simp add: list_all_iff)


subsection \<open>Times and numbers\<close>

definition time_of_day :: "int \<Rightarrow> string" where
  "time_of_day t =
     (let sec = t div 10 ^ 9 mod 86400
      in dec_pad 2 (sec div 3600) @ '':'' @ dec_pad 2 (sec div 60 mod 60) @ '':'' @ dec_pad 2 (sec mod 60))"

text \<open>\<^verbatim>\<open>t.UTC().Format(time.RFC3339)\<close>\<close>

definition rfc3339 :: "int \<Rightarrow> string" where
  "rfc3339 t = date_only t @ ''T'' @ time_of_day t @ ''Z''"

text \<open>\<^verbatim>\<open>%d\<close> of an \<^verbatim>\<open>int\<close>, and \<^verbatim>\<open>%6d\<close>.\<close>

definition dec_int :: "int \<Rightarrow> string" where
  "dec_int n = dec_pad 0 n"

definition pad_left :: "nat \<Rightarrow> string \<Rightarrow> string" where
  "pad_left w s = replicate (w - length s) CHR '' '' @ s"

text \<open>\<^verbatim>\<open>strings.Trim(s, "-")\<close>\<close>

definition trim_char :: "char \<Rightarrow> string \<Rightarrow> string" where
  "trim_char c s = rev (dropWhile (\<lambda>d. d = c) (rev (dropWhile (\<lambda>d. d = c) s)))"

end
