(* ===== verification/Report.thy ===== *)
theory Report
  imports Accumulator Go_Utf8
begin

text \<open>
  \<^verbatim>\<open>internal/report/report.go\<close>: the report of a run and its text form. What is written to an
  \<^verbatim>\<open>io.Writer\<close> is the string it receives; the sources ignore the errors of these writes.

  \<open>out_env\<close> holds what the text depends on outside the program: the formatting of the \<^verbatim>\<open>float64\<close>
  percentages (of a row, and of the readiness), the alignment \<^verbatim>\<open>text/tabwriter\<close> makes of
  tab-separated lines, and the time of day in the local zone.
\<close>

record Report =
  rp_Tool :: string
  rp_Version :: string
  rp_GeneratedAt :: int
  rp_Sources :: "string list"
  rp_Stats :: Stats
  rp_Summary :: Summary
  rp_Aggregates :: "Aggregate list"
  rp_Records :: "Record list"

record out_env =
  oe_pct51 :: "rat \<Rightarrow> string"
  oe_readiness :: "rat \<Rightarrow> string"
  oe_tabwriter :: "string \<Rightarrow> string"
  oe_clock :: "int \<Rightarrow> string"

abbreviation nl :: string where "nl \<equiv> [CHR 0x0a]"
abbreviation tab :: string where "tab \<equiv> [CHR 0x09]"

definition severityMark :: "Severity \<Rightarrow> string" where
  "severityMark sev =
     (if sev = SevCritical then ''!!'' else if sev = SevHigh then ''! '' else if sev = SevMedium then ''~ '' else ''  '')"

definition section_row :: "out_env \<Rightarrow> int \<Rightarrow> Count \<Rightarrow> string" where
  "section_row env tot c =
     (let pct = (if tot > 0 then oe_pct51 env (percent (co_Count c) tot) else [])
      in ''  '' @ co_Name c @ tab @ pad_left 6 (dec_int (co_Count c)) @ tab @ pct @ nl)"

definition write_section :: "out_env \<Rightarrow> string \<Rightarrow> Count list \<Rightarrow> int \<Rightarrow> string" where
  "write_section env title counts tot =
     (if length counts = 0 then []
      else title @ nl @ oe_tabwriter env (concat (map (section_row env tot) counts)) @ nl)"

definition aggregate_row :: "Aggregate \<Rightarrow> string" where
  "aggregate_row a =
     (let name = ag_ServerName a;
          name = (if name = [] then addr_String (ag_ServerIP a) else name);
          name = (if ag_ECH a \<and> \<not> ag_ECHLikelyGREASE a then name @ '' (ech?)'' else name);
          (version, cipher) = (if \<not> ag_ServerObserved a then (''no response'', ''-'') else (ag_Version a, ag_CipherSuite a));
          grp = (if ag_Group a = [] then ''-'' else ag_Group a);
          clients = (if length (ag_JA4s a) > 1 then ''  '' @ dec (length (ag_JA4s a)) @ '' clients'' else [])
      in ''  '' @ severityMark (ag_Severity a) @ tab @ name @ tab @ version @ tab @ cipher @ tab @ grp @ tab @
         ''x'' @ dec_int (ag_Count a) @ tab @ ag_PQ a @ clients @ nl)"

definition write_aggregates :: "out_env \<Rightarrow> Summary \<Rightarrow> Aggregate list \<Rightarrow> string" where
  "write_aggregates env s aggs =
     (if length aggs > 0 then
        ''INVENTORY  ('' @ dec (su_DistinctFindings s) @ '' distinct findings from '' @ dec_int (su_Flows s) @ '' handshakes)'' @ nl @
        oe_tabwriter env (concat (map aggregate_row aggs)) @
        (if su_AggregatesDropped s > 0 then
           ''  ('' @ dec_int (su_AggregatesDropped s) @ '' further distinct findings dropped; raise the aggregate cap)'' @ nl
         else []) @ nl
      else [])"

definition write_findings :: "out_env \<Rightarrow> FindingCount list \<Rightarrow> string" where
  "write_findings env fs =
     (if length fs > 0 then
        ''FINDINGS'' @ nl @
        oe_tabwriter env (concat (map (\<lambda>f.
          ''  '' @ ToUpper (fc_Severity f) @ tab @ pad_left 6 (dec_int (fc_Count f)) @ tab @ fc_ID f @ tab @ fc_Example f @ nl) fs)) @ nl
      else [])"

definition write_head :: "Report \<Rightarrow> string" where
  "write_head r =
     ''tlscensus '' @ rp_Version r @ nl @
     (if length (rp_Sources r) > 0 then ''source:   '' @ Join (rp_Sources r) '', '' @ nl else []) @
     (if su_FirstSeen (rp_Summary r) \<noteq> 0 then
        ''captured: '' @ rfc3339 (su_FirstSeen (rp_Summary r)) @ '' .. '' @ rfc3339 (su_LastSeen (rp_Summary r)) @ nl
      else []) @
     ''packets:  '' @ dec_int (s_Packets (rp_Stats r)) @ '' ('' @ dec_int (s_TCPPackets (rp_Stats r)) @ '' TCP), streams: '' @
     dec_int (s_Streams (rp_Stats r)) @ '', TLS flows: '' @ dec_int (s_TLSFlows (rp_Stats r)) @
     '', non-TLS discarded: '' @ dec_int (s_RejectedTCP (rp_Stats r)) @ nl @ nl"

definition write_totals :: "out_env \<Rightarrow> Summary \<Rightarrow> string" where
  "write_totals env s =
     ''TLS handshakes:   '' @ dec_int (su_Flows s) @ '' ('' @ dec_int (su_ServerObserved s) @ '' with a captured server response)'' @ nl @
     (if su_ServerObserved s > 0 then
        ''PQ readiness:     '' @ oe_readiness env (su_PQReadiness s) @
        ''% of observed negotiations used a post-quantum group'' @ nl
      else []) @
     (if su_ECHOffered s > 0 then
        ''ECH extension:    '' @ dec_int (su_ECHOffered s) @ '' handshakes carried one'' @
        (if su_ECHLikelyGREASE s > 0 then
           ''; '' @ dec_int (su_ECHLikelyGREASE s) @ '' shown to be GREASE by a varying config_id'' else []) @
        nl @ ''                  (real ECH is indistinguishable from GREASE to a passive observer)'' @ nl
      else []) @ nl"

definition WriteText :: "out_env \<Rightarrow> Report \<Rightarrow> string" where
  "WriteText env r =
     write_head r @
     (if su_Flows (rp_Summary r) = 0 then ''No TLS handshakes found.'' @ nl
      else
        (let s = rp_Summary r in
         write_totals env s @
         write_section env ''POST-QUANTUM STATUS'' (su_PQ s) (su_Flows s) @
         write_section env ''PROTOCOL VERSION'' (su_Versions s) (su_Flows s) @
         write_section env ''CIPHER SUITE (negotiated)'' (su_Ciphers s) (su_ServerObserved s) @
         write_section env ''KEY EXCHANGE GROUP (negotiated)'' (su_Groups s) (su_ServerObserved s) @
         write_section env ''TRANSPORT'' (su_Transports s) (su_Flows s) @
         write_section env ''ALPN'' (su_ALPN s) (su_Flows s) @
         write_section env ''SERVER NAME'' (su_ServerName s) (su_Flows s) @
         write_section env ''CLIENT FINGERPRINT (JA4)'' (su_JA4 s) (su_Flows s) @
         write_aggregates env s (rp_Aggregates r) @
         write_findings env (su_Findings s)))"


subsection \<open>Records\<close>

text \<open>The rank table of \<^verbatim>\<open>SortRecords\<close> is the one of the inventory.\<close>

definition record_less :: "Record \<Rightarrow> Record \<Rightarrow> bool" where
  "record_less x y \<longleftrightarrow>
     (let ri = severityRank (MaxSeverity x); rj = severityRank (MaxSeverity y) in
      if ri \<noteq> rj then ri > rj else r_FirstSeen x < r_FirstSeen y)"

definition SortRecords :: "Record list \<Rightarrow> Record list" where
  "SortRecords records = sort_slice record_less records"

definition FlowLine :: "out_env \<Rightarrow> Record \<Rightarrow> string" where
  "FlowLine env r =
     (let sev = (if MaxSeverity r = SevCritical then '' !!'' else if MaxSeverity r = SevHigh then '' !'' else []);
          name = r_ServerName r;
          name = (if name = [] then addr_String (r_ServerIP r) else if r_ECH r then name @ '' (ech?)'' else name);
          (version, cipher, grp) = (r_Version r, r_CipherSuite r, r_Group r);
          (version, cipher, grp) =
            (if \<not> r_ServerObserved r then (r_VersionOffered r @ '' offered'', ''no response'', []) else (version, cipher, grp));
          grp = (if grp = [] then ''-'' else grp)
      in oe_clock env (r_FirstSeen r) @ ''  '' @ addr_String (r_ClientIP r) @ '':'' @ dec (unat (r_ClientPort r)) @ '' > '' @
         addr_String (r_ServerIP r) @ '':'' @ dec (unat (r_ServerPort r)) @ ''  '' @ name @ ''  '' @ version @ ''  '' @
         cipher @ ''  '' @ grp @ ''  ['' @ r_PQ r @ '']'' @ sev)"


subsection \<open>Sorting is stable\<close>

text \<open>
  Elements neither of which is less than the other keep their order: \<^verbatim>\<open>sort.SliceStable\<close>, on the
  insertion sort that stands for the sorting functions.
\<close>

context strict_weak_order
begin

lemma insert_by_filter:
  assumes "\<And>y z. P y \<Longrightarrow> P z \<Longrightarrow> \<not> lt y z" and "sorted_wrt (\<lambda>x y. \<not> lt y x) ys"
    and "\<And>y z. P y \<Longrightarrow> \<not> lt y z \<Longrightarrow> \<not> lt z y \<Longrightarrow> P z"
  shows "filter P (insert_by lt x ys) = (if P x then x # filter P ys else filter P ys)"
  using assms(2)
proof (induction ys)
  case (Cons y ys)
  show ?case
  proof (cases "lt y x")
    case True
    then have "P x \<Longrightarrow> \<not> P y" using assms(1) by blast
    with Cons True show ?thesis by auto
  qed simp
qed simp

lemma sort_slice_stable:
  "filter (\<lambda>y. \<not> lt x y \<and> \<not> lt y x) (sort_slice lt xs) = filter (\<lambda>y. \<not> lt x y \<and> \<not> lt y x) xs"
proof (induction xs)
  case (Cons y ys)
  have s: "sorted_wrt (\<lambda>x y. \<not> lt y x) (sort_slice lt ys)"
    using sort_slice_sorted by (simp add: slice_sorted_def)
  have "filter (\<lambda>y. \<not> lt x y \<and> \<not> lt y x) (insert_by lt y (sort_slice lt ys)) =
      (if \<not> lt x y \<and> \<not> lt y x then y # filter (\<lambda>y. \<not> lt x y \<and> \<not> lt y x) (sort_slice lt ys)
       else filter (\<lambda>y. \<not> lt x y \<and> \<not> lt y x) (sort_slice lt ys))"
    by (rule insert_by_filter [OF _ s]) (use cotrans in blast)+
  with Cons show ?case by (simp add: sort_slice_def)
qed (simp add: sort_slice_def)

end

interpretation record_order: strict_weak_order record_less
proof
  show "record_less x y \<Longrightarrow> \<not> record_less y x" for x y
    by (auto simp: record_less_def Let_def split: if_splits)
  show "record_less x z \<Longrightarrow> record_less x y \<or> record_less y z" for x y z
    by (auto simp: record_less_def Let_def split: if_splits)
qed

text \<open>
  sorting the records puts the most severe first and, within a severity, the earliest; it keeps
  every record, and records of the same severity and time stay in the order they were observed.
\<close>

theorem SortRecords_worst_first:
  "mset (SortRecords rs) = mset rs \<and>
   sorted_wrt (\<lambda>x y. severityRank (MaxSeverity x) > severityRank (MaxSeverity y) \<or>
     severityRank (MaxSeverity x) = severityRank (MaxSeverity y) \<and> r_FirstSeen x \<le> r_FirstSeen y) (SortRecords rs) \<and>
   filter (\<lambda>r. severityRank (MaxSeverity r) = k \<and> r_FirstSeen r = t) (SortRecords rs) =
     filter (\<lambda>r. severityRank (MaxSeverity r) = k \<and> r_FirstSeen r = t) rs"
proof -
  have "sorted_wrt (\<lambda>x y. \<not> record_less y x) (SortRecords rs)"
    using record_order.sort_slice_sorted by (simp add: SortRecords_def slice_sorted_def)
  then have sorted: "sorted_wrt (\<lambda>x y. severityRank (MaxSeverity x) > severityRank (MaxSeverity y) \<or>
     severityRank (MaxSeverity x) = severityRank (MaxSeverity y) \<and> r_FirstSeen x \<le> r_FirstSeen y) (SortRecords rs)"
    by (rule sorted_wrt_mono_rel [rotated]) (auto simp: record_less_def Let_def split: if_splits)
  have same: "severityRank (MaxSeverity r) = k \<and> r_FirstSeen r = t \<longleftrightarrow> \<not> record_less x r \<and> \<not> record_less r x"
    if "severityRank (MaxSeverity x) = k" "r_FirstSeen x = t" for r x
    using that by (auto simp: record_less_def Let_def)
  have "filter (\<lambda>r. severityRank (MaxSeverity r) = k \<and> r_FirstSeen r = t) (SortRecords rs) =
     filter (\<lambda>r. severityRank (MaxSeverity r) = k \<and> r_FirstSeen r = t) rs"
  proof (cases "\<exists>x \<in> set rs. severityRank (MaxSeverity x) = k \<and> r_FirstSeen x = t")
    case True
    then obtain x where x: "severityRank (MaxSeverity x) = k" "r_FirstSeen x = t" by blast
    show ?thesis
      unfolding same [OF x] SortRecords_def by (rule record_order.sort_slice_stable)
  next
    case False
    then show ?thesis by (simp add: SortRecords_def filter_empty_conv cong: filter_cong)
  qed
  with sorted show ?thesis by (simp add: SortRecords_def)
qed

end
