(* ===== verification/Cbom.thy ===== *)
theory Cbom
  imports Report Sha256
begin

text \<open>
  \<^verbatim>\<open>internal/report/cbom.go\<close>: the inventory as a CycloneDX bill of materials. A pointer field is an
  option; the builder's maps are lists of entries and its sets distinct lists, whose order never
  reaches the document. \<open>cbom_env\<close> has the lower case of non-ASCII runes and the clock.
\<close>

record cbom_env =
  ce_ToLower :: "nat \<Rightarrow> nat"
  ce_Now :: int

definition cycloneDXSpecVersion :: string where "cycloneDXSpecVersion = ''1.6''"

record cdxProperty =
  pr_Name :: string
  pr_Value :: string

record cdxOccurrence =
  oc_BOMRef :: string
  oc_Location :: string

record cdxEvidence =
  ev_Occurrences :: "cdxOccurrence list"

record cdxAlgorithmProps =
  al_Primitive :: string
  al_ParameterSetIdentifier :: string
  al_ExecutionEnvironment :: string
  al_ImplementationPlatform :: string
  al_CryptoFunctions :: "string list"
  al_ClassicalSecurityLevel :: "int option"
  al_NISTQuantumSecurityLevel :: "int option"

record cdxCipherSuite =
  su_Name :: string
  su_Algorithms :: "string list"
  su_Identifiers :: "string list"

record cdxProtocolProps =
  pp_Type :: string
  pp_Version :: string
  pp_CipherSuites :: "cdxCipherSuite list"
  pp_CryptoRefs :: "string list"

record cdxCertificateProps =
  ct_SubjectName :: string
  ct_IssuerName :: string
  ct_NotValidAfter :: string
  ct_CertificateFormat :: string
  ct_SignatureAlgorithmRef :: string

record cdxCryptoProps =
  cy_AssetType :: string
  cy_AlgorithmProperties :: "cdxAlgorithmProps option"
  cy_ProtocolProperties :: "cdxProtocolProps option"
  cy_CertificateProps :: "cdxCertificateProps option"

record cdxComponent =
  co_Type :: string
  co_BOMRef :: string
  co_CompName :: string
  co_CryptoProperties :: "cdxCryptoProps option"
  co_Properties :: "cdxProperty list"
  co_Evidence :: "cdxEvidence option"

record cdxToolComponent =
  tc_Type :: string
  tc_Name :: string
  tc_Version :: string

record cdxMetadata =
  me_Timestamp :: string
  me_Tools :: "cdxToolComponent list"

record cdxDependency =
  de_Ref :: string
  de_DependsOn :: "string list"

record cdxBOM =
  bom_Format :: string
  bom_SpecVersion :: string
  bom_SerialNumber :: string
  bom_Version :: int
  bom_Metadata :: cdxMetadata
  bom_Components :: "cdxComponent list"
  bom_Dependencies :: "cdxDependency list"


subsection \<open>Names\<close>

definition slug_char :: "nat \<Rightarrow> char" where
  "slug_char r =
     (if in_range 97 122 r \<or> in_range 48 57 r then char_of r
      else if r = 46 \<or> r = 45 \<or> r = 95 \<or> r = 47 then char_of r
      else CHR ''-'')"

definition lower_rune :: "cbom_env \<Rightarrow> nat \<Rightarrow> nat" where
  "lower_rune env r = (if r < 128 then (if in_range 65 90 r then r + 32 else r) else ce_ToLower env r)"

definition slug :: "cbom_env \<Rightarrow> string \<Rightarrow> string" where
  "slug env s = trim_char CHR ''-'' (map (\<lambda>r. slug_char (lower_rune env r)) (runes s))"

definition protocolVersionNumber :: "string \<Rightarrow> string" where
  "protocolVersionNumber name = TrimPrefix (TrimPrefix name ''TLS '') ''SSL ''"

definition lookupCipher :: "string \<Rightarrow> CipherProperties" where
  "lookupCipher name =
     (case CipherByName name of Some v \<Rightarrow> Cipher v | None \<Rightarrow> zero_CipherProperties\<lparr>cp_Name := name\<rparr>)"

definition lookupGroup :: "string \<Rightarrow> GroupProperties" where
  "lookupGroup name =
     (case GroupByName name of
        Some v \<Rightarrow> Group v
      | None \<Rightarrow> \<lparr>gp_Name = name, gp_PostQuantum = False, gp_Hybrid = False, gp_Known = False\<rparr>)"

definition cipherIdentifier :: "string \<Rightarrow> string" where
  "cipherIdentifier name = (case CipherByName name of Some v \<Rightarrow> ''0x'' @ hex04 v | None \<Rightarrow> name)"

definition cipherPrimitive :: "CipherProperties \<Rightarrow> string" where
  "cipherPrimitive p =
     (if Contains (cp_Encryption p) ''NULL'' then ''other''
      else if cp_AEAD p then ''ae''
      else if HasPrefix (cp_Encryption p) ''RC4'' then ''stream-cipher''
      else if cp_Encryption p = [] then ''unknown''
      else ''block-cipher'')"

definition nistLevel :: "string \<Rightarrow> int" where
  "nistLevel name =
     (if Contains name ''MLKEM1024'' \<or> Contains name ''Kyber1024'' then 5
      else if Contains name ''MLKEM768'' \<or> Contains name ''Kyber768'' then 3
      else if Contains name ''MLKEM512'' \<or> Contains name ''Kyber512'' then 1
      else 0)"


subsection \<open>Components\<close>

definition algorithm_component :: "string \<Rightarrow> string \<Rightarrow> cdxAlgorithmProps \<Rightarrow> cdxComponent" where
  "algorithm_component ref name al =
     \<lparr>co_Type = ''cryptographic-asset'', co_BOMRef = ref, co_CompName = name,
      co_CryptoProperties = Some \<lparr>cy_AssetType = ''algorithm'', cy_AlgorithmProperties = Some al,
        cy_ProtocolProperties = None, cy_CertificateProps = None\<rparr>,
      co_Properties = [], co_Evidence = None\<rparr>"

definition cipherComponent :: "cbom_env \<Rightarrow> string \<Rightarrow> cdxComponent" where
  "cipherComponent env name =
     algorithm_component (''crypto/algorithm/'' @ slug env name) name
       \<lparr>al_Primitive = cipherPrimitive (lookupCipher name), al_ParameterSetIdentifier = [], al_ExecutionEnvironment = [],
        al_ImplementationPlatform = [], al_CryptoFunctions = [''encrypt'', ''decrypt''], al_ClassicalSecurityLevel = None,
        al_NISTQuantumSecurityLevel = Some 0\<rparr>"

definition groupComponent :: "cbom_env \<Rightarrow> string \<Rightarrow> cdxComponent" where
  "groupComponent env name =
     (let g = lookupGroup name;
          primitive = (if gp_PostQuantum g \<and> gp_Hybrid g then ''combiner'' else if gp_PostQuantum g then ''kem'' else ''key-agree'')
      in algorithm_component (''crypto/algorithm/'' @ slug env name) name
           \<lparr>al_Primitive = primitive, al_ParameterSetIdentifier = name, al_ExecutionEnvironment = [],
            al_ImplementationPlatform = [], al_CryptoFunctions = [''keygen''], al_ClassicalSecurityLevel = None,
            al_NISTQuantumSecurityLevel = Some (nistLevel name)\<rparr>)"

definition certComponent :: "string \<Rightarrow> CertInfo \<Rightarrow> cdxComponent" where
  "certComponent ref c =
     \<lparr>co_Type = ''cryptographic-asset'', co_BOMRef = ref, co_CompName = ci_Subject c,
      co_CryptoProperties = Some \<lparr>cy_AssetType = ''certificate'', cy_AlgorithmProperties = None,
        cy_ProtocolProperties = None,
        cy_CertificateProps = Some \<lparr>ct_SubjectName = ci_Subject c, ct_IssuerName = ci_Issuer c,
          ct_NotValidAfter = rfc3339 (ci_NotAfter c), ct_CertificateFormat = ''X.509'', ct_SignatureAlgorithmRef = []\<rparr>\<rparr>,
      co_Properties = [\<lparr>pr_Name = ''tlscensus:publicKeyAlgorithm'', pr_Value = ci_PublicKeyAlgorithm c\<rparr>,
        \<lparr>pr_Name = ''tlscensus:keyBits'', pr_Value = dec_int (ci_KeyBits c)\<rparr>,
        \<lparr>pr_Name = ''tlscensus:signatureAlgorithm'', pr_Value = ci_SignatureAlgorithm c\<rparr>],
      co_Evidence = None\<rparr>"

definition protocolComponent :: "string \<Rightarrow> string \<Rightarrow> cdxComponent" where
  "protocolComponent ref version =
     \<lparr>co_Type = ''cryptographic-asset'', co_BOMRef = ref, co_CompName = version,
      co_CryptoProperties = Some \<lparr>cy_AssetType = ''protocol'', cy_AlgorithmProperties = None,
        cy_ProtocolProperties = Some \<lparr>pp_Type = ''tls'', pp_Version = protocolVersionNumber version,
          pp_CipherSuites = [], pp_CryptoRefs = []\<rparr>, cy_CertificateProps = None\<rparr>,
      co_Properties = [], co_Evidence = None\<rparr>"


subsection \<open>The builder\<close>

record asset =
  as_comp :: cdxComponent
  as_seen :: "string list"
  as_count :: int

record cbomBuilder =
  bb_assets :: "(string \<times> asset) list"
  bb_order :: "string list"

text \<open>\<open>make\<close> is called only for a new asset; it has no effects, so it is passed as its value.\<close>

definition bb_add :: "string \<Rightarrow> cdxComponent \<Rightarrow> string \<Rightarrow> cbomBuilder \<Rightarrow> cbomBuilder" where
  "bb_add ref made loc b =
     (let (a, b) = (case map_of (bb_assets b) ref of
                      Some a \<Rightarrow> (a, b)
                    | None \<Rightarrow> (\<lparr>as_comp = made, as_seen = [], as_count = 0\<rparr>, b\<lparr>bb_order := bb_order b @ [ref]\<rparr>));
          a = a\<lparr>as_count := as_count a + 1\<rparr>;
          a = (if loc \<noteq> [] then a\<lparr>as_seen := set_add loc (as_seen a)\<rparr> else a)
      in b\<lparr>bb_assets := map_put ref a (bb_assets b)\<rparr>)"

definition add_suite :: "string \<Rightarrow> cdxComponent \<Rightarrow> cdxComponent" where
  "add_suite cipher c =
     (case co_CryptoProperties c of
        None \<Rightarrow> c
      | Some cy \<Rightarrow>
          (case cy_ProtocolProperties cy of
             None \<Rightarrow> c
           | Some pp \<Rightarrow>
               if list_ex (\<lambda>cs. su_Name cs = cipher) (pp_CipherSuites pp) then c
               else c\<lparr>co_CryptoProperties := Some (cy\<lparr>cy_ProtocolProperties := Some (pp\<lparr>pp_CipherSuites :=
                      pp_CipherSuites pp @ [\<lparr>su_Name = cipher, su_Algorithms = [], su_Identifiers = [cipherIdentifier cipher]\<rparr>]\<rparr>)\<rparr>)\<rparr>))"

definition addCipherSuite :: "string \<Rightarrow> string \<Rightarrow> cbomBuilder \<Rightarrow> cbomBuilder" where
  "addCipherSuite protoRef cipher b =
     (case map_of (bb_assets b) protoRef of
        None \<Rightarrow> b
      | Some a \<Rightarrow> b\<lparr>bb_assets := map_put protoRef (a\<lparr>as_comp := add_suite cipher (as_comp a)\<rparr>) (bb_assets b)\<rparr>)"

text \<open>\<^verbatim>\<open>deps[ref][on] = true\<close> where the inner map is made on first use.\<close>

definition add_dep :: "string \<Rightarrow> string \<Rightarrow> (string \<times> string list) list \<Rightarrow> (string \<times> string list) list" where
  "add_dep ref on deps =
     map_put ref (set_add on (case map_of deps ref of None \<Rightarrow> [] | Some s \<Rightarrow> s)) deps"

definition record_where :: "Record \<Rightarrow> string" where
  "record_where rec =
     (let w = r_ServerName rec;
          addr = addr_String (r_ServerIP rec) @ '':'' @ dec (unat (r_ServerPort rec));
          w = (if w = [] then addr else w)
      in if r_ECH rec then addr else w)"

definition protoRefOf :: "cbom_env \<Rightarrow> Record \<Rightarrow> string" where
  "protoRefOf env rec = ''crypto/protocol/tls/'' @ slug env (r_Version rec)"

definition algoRef :: "cbom_env \<Rightarrow> string \<Rightarrow> string" where
  "algoRef env name = ''crypto/algorithm/'' @ slug env name"

definition certRefOf :: "cbom_env \<Rightarrow> CertInfo \<Rightarrow> string" where
  "certRefOf env c = ''crypto/certificate/'' @ slug env (ci_Subject c @ ''/'' @ ci_SignatureAlgorithm c)"

definition negotiated :: "Record \<Rightarrow> bool" where
  "negotiated rec \<longleftrightarrow> r_ServerObserved rec \<and> r_CipherSuite rec \<noteq> []"

definition cbom_cert ::
  "cbom_env \<Rightarrow> string \<Rightarrow> string \<Rightarrow> cbomBuilder \<times> (string \<times> string list) list \<Rightarrow> CertInfo \<Rightarrow>
   cbomBuilder \<times> (string \<times> string list) list" where
  "cbom_cert env protoRef loc st c =
     (case st of (b, deps) \<Rightarrow>
      (bb_add (certRefOf env c) (certComponent (certRefOf env c) c) loc b, add_dep protoRef (certRefOf env c) deps))"

text \<open>The body of the loop over the records.\<close>

definition cbom_record ::
  "cbom_env \<Rightarrow> cbomBuilder \<times> (string \<times> string list) list \<Rightarrow> Record \<Rightarrow> cbomBuilder \<times> (string \<times> string list) list" where
  "cbom_record env st rec =
     (if \<not> negotiated rec then st
      else
        (let (b, deps) = st;
             loc = record_where rec;
             protoRef = protoRefOf env rec;
             cipherRef = algoRef env (r_CipherSuite rec);
             b = bb_add cipherRef (cipherComponent env (r_CipherSuite rec)) loc b;
             (b, refs) = (if r_Group rec \<noteq> []
                          then (bb_add (algoRef env (r_Group rec)) (groupComponent env (r_Group rec)) loc b,
                                [cipherRef, algoRef env (r_Group rec)])
                          else (b, [cipherRef]));
             b = bb_add protoRef (protocolComponent protoRef (r_Version rec)) loc b;
             b = addCipherSuite protoRef (r_CipherSuite rec) b;
             deps = foldl (\<lambda>deps ref. add_dep protoRef ref deps) deps refs
         in foldl (cbom_cert env protoRef loc) (b, deps) (r_Certificates rec)))"

definition finish_asset :: "asset \<Rightarrow> cdxComponent" where
  "finish_asset a =
     (let c = as_comp a;
          c = c\<lparr>co_Properties := co_Properties c @ [\<lparr>pr_Name = ''tlscensus:observations'', pr_Value = dec_int (as_count a)\<rparr>]\<rparr>;
          locs = sort_strings (as_seen a)
      in if length locs > 0
         then c\<lparr>co_Evidence := Some \<lparr>ev_Occurrences = map (\<lambda>l. \<lparr>oc_BOMRef = [], oc_Location = l\<rparr>) locs\<rparr>\<rparr> else c)"

definition deterministicURN :: "cdxComponent list \<Rightarrow> string" where
  "deterministicURN components =
     (let digest = sha256 (string_bytes (concat (map (\<lambda>c. co_BOMRef c @ nl) components)));
          digest = digest[6 := (digest ! 6 AND 0x0f) OR 0x40];
          digest = digest[8 := (digest ! 8 AND 0x3f) OR 0x80];
          s = hex_encode (take 16 digest)
      in ''urn:uuid:'' @ take 8 s @ ''-'' @ take 4 (drop 8 s) @ ''-'' @ take 4 (drop 12 s) @ ''-'' @
         take 4 (drop 16 s) @ ''-'' @ take 12 (drop 20 s))"

text \<open>
  Every reference of the order has an asset and every one of the sorted keys a set, so the lookups
  below never miss; the source would dereference nil.
\<close>

definition buildCBOM :: "cbom_env \<Rightarrow> Report \<Rightarrow> Record list \<Rightarrow> cdxBOM" where
  "buildCBOM env r records =
     (let (b, deps) = foldl (cbom_record env) (\<lparr>bb_assets = [], bb_order = []\<rparr>, []) records;
          components = map (\<lambda>ref. finish_asset (the (map_of (bb_assets b) ref))) (sort_strings (bb_order b));
          dependencies = map (\<lambda>ref. \<lparr>de_Ref = ref, de_DependsOn = sort_strings (the (map_of deps ref))\<rparr>)
            (sort_strings (map fst deps));
          ts = (if rp_GeneratedAt r = 0 then ce_Now env else rp_GeneratedAt r)
      in \<lparr>bom_Format = ''CycloneDX'', bom_SpecVersion = cycloneDXSpecVersion,
          bom_SerialNumber = deterministicURN components, bom_Version = 1,
          bom_Metadata = \<lparr>me_Timestamp = rfc3339 ts,
            me_Tools = [\<lparr>tc_Type = ''application'', tc_Name = rp_Tool r, tc_Version = rp_Version r\<rparr>]\<rparr>,
          bom_Components = components, bom_Dependencies = dependencies\<rparr>)"

end
