(* ===== verification/Cbom_Props.thy ===== *)
theory Cbom_Props
  imports Cbom Accumulator_Props
begin

text \<open>
  The document is well formed: its references are closed, its content is what was negotiated, and
  its identity does not depend on the order of the records.
\<close>

type_synonym cbom_state = "cbomBuilder \<times> (string \<times> string list) list"

definition builder_inv :: "cbomBuilder \<Rightarrow> bool" where
  "builder_inv b \<longleftrightarrow>
     distinct (bb_order b) \<and> distinct (map fst (bb_assets b)) \<and> set (bb_order b) = fst ` set (bb_assets b) \<and>
     list_all (\<lambda>(ref, a). co_BOMRef (as_comp a) = ref \<and> distinct (as_seen a) \<and> as_count a > 0) (bb_assets b)"

definition deps_inv :: "string set \<Rightarrow> (string \<times> string list) list \<Rightarrow> bool" where
  "deps_inv refs deps \<longleftrightarrow>
     distinct (map fst deps) \<and>
     list_all (\<lambda>(ref, on). ref \<in> refs \<and> set on \<subseteq> refs \<and> distinct on \<and> on \<noteq> []) deps"

definition cbom_inv :: "cbom_state \<Rightarrow> bool" where
  "cbom_inv st \<longleftrightarrow> builder_inv (fst st) \<and> deps_inv (set (bb_order (fst st))) (snd st)"

lemma set_add_simps [simp]: "set (set_add x xs) = insert x (set xs)" "distinct xs \<Longrightarrow> distinct (set_add x xs)"
  "set_add x xs \<noteq> []"
  by (auto simp: set_add_def)

lemma map_of_list_all: "list_all P m \<Longrightarrow> map_of m k = Some v \<Longrightarrow> P (k, v)"
  by (auto simp: list_all_iff dest: map_of_SomeD)

lemma bb_add_inv:
  assumes "builder_inv b" and "co_BOMRef made = ref"
  shows "builder_inv (bb_add ref made loc b)" and "set (bb_order (bb_add ref made loc b)) = insert ref (set (bb_order b))"
proof -
  have keys: "ref \<in> fst ` set (bb_assets b) \<longleftrightarrow> map_of (bb_assets b) ref \<noteq> None"
    by (simp add: map_of_eq_None_iff)
  have old: "co_BOMRef (as_comp a) = ref \<and> distinct (as_seen a) \<and> as_count a > 0" if "map_of (bb_assets b) ref = Some a" for a
    using map_of_list_all [OF _ that] assms(1) by (fastforce simp: builder_inv_def)
  obtain a b' where ab: "(case map_of (bb_assets b) ref of Some a \<Rightarrow> (a, b)
      | None \<Rightarrow> (\<lparr>as_comp = made, as_seen = [], as_count = 0\<rparr>, b\<lparr>bb_order := bb_order b @ [ref]\<rparr>)) = (a, b')"
    by fastforce
  have a: "co_BOMRef (as_comp a) = ref" "distinct (as_seen a)" "as_count a \<ge> 0"
    using ab old assms(2) by (fastforce split: option.splits)+
  have b': "bb_assets b' = bb_assets b" "bb_order b' = (if ref \<in> fst ` set (bb_assets b) then bb_order b else bb_order b @ [ref])"
    using ab keys by (auto split: option.splits)
  define a' where "a' = (let a = a\<lparr>as_count := as_count a + 1\<rparr> in
      if loc \<noteq> [] then a\<lparr>as_seen := set_add loc (as_seen a)\<rparr> else a)"
  have res: "bb_add ref made loc b = b'\<lparr>bb_assets := map_put ref a' (bb_assets b)\<rparr>"
    by (simp add: bb_add_def ab a'_def b' Let_def)
  have "co_BOMRef (as_comp a') = ref \<and> distinct (as_seen a') \<and> as_count a' > 0"
    using a by (simp add: a'_def Let_def)
  then have "list_all (\<lambda>(ref, a). co_BOMRef (as_comp a) = ref \<and> distinct (as_seen a) \<and> as_count a > 0)
      (map_put ref a' (bb_assets b))"
    using assms(1) by (intro list_all_map_put) (auto simp: builder_inv_def)
  moreover have "fst ` set (map_put ref a' (bb_assets b)) = insert ref (fst ` set (bb_assets b))"
    using arg_cong [OF map_put_keys [of ref a' "bb_assets b"], of set] by auto
  ultimately show "builder_inv (bb_add ref made loc b)"
    using assms(1) distinct_map_put [of "bb_assets b"] by (auto simp: res b' builder_inv_def)
  show "set (bb_order (bb_add ref made loc b)) = insert ref (set (bb_order b))"
    using assms(1) by (auto simp: res b' builder_inv_def)
qed

lemma add_suite_ref [simp]: "co_BOMRef (add_suite cipher c) = co_BOMRef c"
  by (simp add: add_suite_def split: option.splits)

lemma addCipherSuite_inv:
  assumes "builder_inv b"
  shows "builder_inv (addCipherSuite protoRef cipher b)" and "bb_order (addCipherSuite protoRef cipher b) = bb_order b"
proof -
  show "bb_order (addCipherSuite protoRef cipher b) = bb_order b"
    by (simp add: addCipherSuite_def split: option.splits)
  show "builder_inv (addCipherSuite protoRef cipher b)"
  proof (cases "map_of (bb_assets b) protoRef")
    case (Some a)
    then have in_keys: "protoRef \<in> fst ` set (bb_assets b)" by (metis map_of_eq_None_iff option.distinct(1))
    have a: "co_BOMRef (as_comp a) = protoRef \<and> distinct (as_seen a) \<and> as_count a > 0"
      using map_of_list_all [OF _ Some] assms by (fastforce simp: builder_inv_def)
    let ?a = "a\<lparr>as_comp := add_suite cipher (as_comp a)\<rparr>"
    have "list_all (\<lambda>(ref, a). co_BOMRef (as_comp a) = ref \<and> distinct (as_seen a) \<and> as_count a > 0)
        (map_put protoRef ?a (bb_assets b))"
      using assms a by (intro list_all_map_put) (auto simp: builder_inv_def)
    moreover have "map fst (map_put protoRef ?a (bb_assets b)) = map fst (bb_assets b)"
      using in_keys by (simp add: map_put_keys)
    then have "fst ` set (map_put protoRef ?a (bb_assets b)) = fst ` set (bb_assets b)"
      by (metis set_map)
    ultimately show ?thesis
      using assms in_keys by (simp add: addCipherSuite_def Some builder_inv_def map_put_keys)
  qed (simp add: addCipherSuite_def assms)
qed

lemma add_dep_inv:
  assumes "deps_inv refs deps" and "ref \<in> refs" and "on \<in> refs"
  shows "deps_inv refs (add_dep ref on deps)"
proof -
  define s where "s = (case map_of deps ref of None \<Rightarrow> [] | Some s \<Rightarrow> s)"
  have all: "list_all (\<lambda>(ref, on). ref \<in> refs \<and> set on \<subseteq> refs \<and> distinct on \<and> on \<noteq> []) deps"
    using assms(1) by (simp add: deps_inv_def)
  have "set s \<subseteq> refs \<and> distinct s"
    using map_of_list_all [OF all, of ref] by (cases "map_of deps ref") (simp_all add: s_def)
  with assms(2,3) have "ref \<in> refs \<and> set (set_add on s) \<subseteq> refs \<and> distinct (set_add on s) \<and> set_add on s \<noteq> []"
    by simp
  with all have "list_all (\<lambda>(ref, on). ref \<in> refs \<and> set on \<subseteq> refs \<and> distinct on \<and> on \<noteq> []) (map_put ref (set_add on s) deps)"
    by (intro list_all_map_put) simp_all
  then show ?thesis
    using assms(1) by (simp add: add_dep_def s_def [symmetric] deps_inv_def distinct_map_put)
qed

lemma deps_inv_mono: "deps_inv refs deps \<Longrightarrow> refs \<subseteq> refs' \<Longrightarrow> deps_inv refs' deps"
  unfolding deps_inv_def list_all_iff by fast

lemma component_refs [simp]:
  "co_BOMRef (cipherComponent env n) = algoRef env n" "co_BOMRef (groupComponent env n) = algoRef env n"
  "co_BOMRef (certComponent ref c) = ref" "co_BOMRef (protocolComponent ref v) = ref"
  by (simp_all add: cipherComponent_def groupComponent_def certComponent_def protocolComponent_def
      algorithm_component_def algoRef_def Let_def)

text \<open>The references a record contributes.\<close>

definition record_refs :: "cbom_env \<Rightarrow> Record \<Rightarrow> string set" where
  "record_refs env rec =
     (if negotiated rec then
        {protoRefOf env rec, algoRef env (r_CipherSuite rec)} \<union>
        (if r_Group rec \<noteq> [] then {algoRef env (r_Group rec)} else {}) \<union> certRefOf env ` set (r_Certificates rec)
      else {})"

lemma fold_certs_inv:
  assumes "cbom_inv st" and "protoRef \<in> set (bb_order (fst st))"
  shows "cbom_inv (foldl (cbom_cert env protoRef loc) st cs) \<and>
    set (bb_order (fst (foldl (cbom_cert env protoRef loc) st cs))) = set (bb_order (fst st)) \<union> certRefOf env ` set cs"
  using assms
proof (induction cs arbitrary: st)
  case (Cons c cs)
  obtain b deps where st: "st = (b, deps)" by fastforce
  define b' where "b' = bb_add (certRefOf env c) (certComponent (certRefOf env c) c) loc b"
  have b: "builder_inv b" "deps_inv (set (bb_order b)) deps" using Cons.prems(1) by (simp_all add: cbom_inv_def st)
  have add: "builder_inv b'" "set (bb_order b') = insert (certRefOf env c) (set (bb_order b))"
    unfolding b'_def by (rule bb_add_inv [OF b(1)], simp)+
  have "deps_inv (set (bb_order b')) (add_dep protoRef (certRefOf env c) deps)"
    by (rule add_dep_inv [OF deps_inv_mono [OF b(2)]]) (use add Cons.prems(2) in \<open>auto simp: st\<close>)
  with add have "cbom_inv (cbom_cert env protoRef loc st c)" by (simp add: cbom_inv_def cbom_cert_def st b'_def)
  moreover have "fst (cbom_cert env protoRef loc st c) = b'" by (simp add: cbom_cert_def st b'_def)
  ultimately show ?case
    using Cons.IH [of "cbom_cert env protoRef loc st c"] add(2) Cons.prems(2) by (auto simp: st)
qed simp

lemma fold_deps_inv:
  assumes "deps_inv refs deps" and "ref \<in> refs" and "set ons \<subseteq> refs"
  shows "deps_inv refs (foldl (\<lambda>deps on. add_dep ref on deps) deps ons)"
  using assms by (induction ons arbitrary: deps) (simp_all add: add_dep_inv)

lemma cbom_record_inv:
  assumes "cbom_inv st"
  shows "cbom_inv (cbom_record env st rec) \<and>
    set (bb_order (fst (cbom_record env st rec))) = set (bb_order (fst st)) \<union> record_refs env rec"
proof (cases "negotiated rec")
  case True
  obtain b deps where st: "st = (b, deps)" by fastforce
  let ?loc = "record_where rec" and ?p = "protoRefOf env rec" and ?c = "algoRef env (r_CipherSuite rec)"
    and ?g = "algoRef env (r_Group rec)"
  define b1 where "b1 = bb_add ?c (cipherComponent env (r_CipherSuite rec)) ?loc b"
  define b2 where "b2 = (if r_Group rec \<noteq> [] then bb_add ?g (groupComponent env (r_Group rec)) ?loc b1 else b1)"
  define refs where "refs = (if r_Group rec \<noteq> [] then [?c, ?g] else [?c])"
  define b3 where "b3 = bb_add ?p (protocolComponent ?p (r_Version rec)) ?loc b2"
  define b4 where "b4 = addCipherSuite ?p (r_CipherSuite rec) b3"
  define d where "d = foldl (\<lambda>deps ref. add_dep ?p ref deps) deps refs"
  have b: "builder_inv b" "deps_inv (set (bb_order b)) deps" using assms by (simp_all add: cbom_inv_def st)
  have 1: "builder_inv b1" "set (bb_order b1) = insert ?c (set (bb_order b))"
    unfolding b1_def by (rule bb_add_inv [OF b(1)], simp)+
  have 2: "builder_inv b2" "set (bb_order b2) = set refs \<union> set (bb_order b)"
    using bb_add_inv [OF 1(1), of "groupComponent env (r_Group rec)" ?g ?loc] 1 by (auto simp: b2_def refs_def)
  have 3: "builder_inv b3" "set (bb_order b3) = insert ?p (set refs \<union> set (bb_order b))"
    unfolding b3_def 2(2) [symmetric] by (rule bb_add_inv [OF 2(1)], simp)+
  have 4: "builder_inv b4" "set (bb_order b4) = insert ?p (set refs \<union> set (bb_order b))"
    using addCipherSuite_inv [OF 3(1)] 3(2) by (simp_all add: b4_def)
  have "deps_inv (set (bb_order b4)) d"
    unfolding d_def by (rule fold_deps_inv [OF deps_inv_mono [OF b(2)]]) (use 4(2) in auto)
  with 4 have inv: "cbom_inv (b4, d)" by (simp add: cbom_inv_def)
  have eq: "cbom_record env st rec = foldl (cbom_cert env ?p ?loc) (b4, d) (r_Certificates rec)"
    using True by (simp add: cbom_record_def st Let_def b1_def b2_def b3_def b4_def d_def refs_def)
  have refs: "record_refs env rec = insert ?p (set refs) \<union> certRefOf env ` set (r_Certificates rec)"
    using True by (auto simp: record_refs_def refs_def)
  show ?thesis
    unfolding eq refs using fold_certs_inv [OF inv, of ?p env ?loc "r_Certificates rec"] 4(2) by (auto simp: st)
qed (simp add: cbom_record_def record_refs_def assms)

lemma cbom_fold_inv:
  assumes "cbom_inv st"
  shows "cbom_inv (foldl (cbom_record env) st rs) \<and>
    set (bb_order (fst (foldl (cbom_record env) st rs))) = set (bb_order (fst st)) \<union> (\<Union>rec \<in> set rs. record_refs env rec)"
  using assms
proof (induction rs arbitrary: st)
  case (Cons rec rs)
  from cbom_record_inv [OF Cons.prems, of env rec] Cons.IH [of "cbom_record env st rec"] show ?case by auto
qed simp

abbreviation cbom_run :: "cbom_env \<Rightarrow> Record list \<Rightarrow> cbom_state" where
  "cbom_run env rs \<equiv> foldl (cbom_record env) (\<lparr>bb_assets = [], bb_order = []\<rparr>, []) rs"

lemma cbom_run_inv:
  "builder_inv (fst (cbom_run env rs))" "deps_inv (set (bb_order (fst (cbom_run env rs)))) (snd (cbom_run env rs))"
  "set (bb_order (fst (cbom_run env rs))) = (\<Union>rec \<in> set rs. record_refs env rec)"
proof -
  have "cbom_inv (\<lparr>bb_assets = [], bb_order = []\<rparr>, [])" by (simp add: cbom_inv_def builder_inv_def deps_inv_def)
  from cbom_fold_inv [OF this, of env rs] have
    "cbom_inv (cbom_run env rs) \<and> set (bb_order (fst (cbom_run env rs))) = (\<Union>rec \<in> set rs. record_refs env rec)"
    by simp
  then show
    "builder_inv (fst (cbom_run env rs))" "deps_inv (set (bb_order (fst (cbom_run env rs)))) (snd (cbom_run env rs))"
    "set (bb_order (fst (cbom_run env rs))) = (\<Union>rec \<in> set rs. record_refs env rec)"
    unfolding cbom_inv_def by blast+
qed

lemma finish_asset_ref [simp]: "co_BOMRef (finish_asset a) = co_BOMRef (as_comp a)"
  by (simp add: finish_asset_def Let_def)

lemma cbom_refs: "map co_BOMRef (bom_Components (buildCBOM env r rs)) = sort_strings (bb_order (fst (cbom_run env rs)))"
proof -
  let ?b = "fst (cbom_run env rs)"
  have "co_BOMRef (finish_asset (the (map_of (bb_assets ?b) ref))) = ref" if "ref \<in> set (bb_order ?b)" for ref
  proof -
    have "ref \<in> fst ` set (bb_assets ?b)" using that cbom_run_inv(1) [of env rs] by (simp add: builder_inv_def)
    then obtain a where a: "map_of (bb_assets ?b) ref = Some a" by (metis map_of_eq_None_iff option.exhaust)
    then show ?thesis
      using map_of_list_all [OF _ a] cbom_run_inv(1) [of env rs] by (fastforce simp: builder_inv_def)
  qed
  then have "map (\<lambda>ref. co_BOMRef (finish_asset (the (map_of (bb_assets ?b) ref)))) (sort_strings (bb_order ?b)) =
      sort_strings (bb_order ?b)"
    by (intro map_idI) (simp add: sort_strings_def)
  then show ?thesis by (simp add: buildCBOM_def case_prod_beta Let_def comp_def)
qed

lemma sort_strings_unique: "mset xs = mset ys \<Longrightarrow> sort_strings xs = sort_strings ys"
  unfolding sort_strings_def
  by (rule str_order.slice_sorted_unique [OF _ str_order.sort_slice_sorted str_order.sort_slice_sorted])
    (use str_less_total in blast)+

lemma sort_strings_set: "distinct xs \<Longrightarrow> distinct ys \<Longrightarrow> set xs = set ys \<Longrightarrow> sort_strings xs = sort_strings ys"
  by (intro sort_strings_unique) (simp add: set_eq_iff_mset_eq_distinct)

lemma sort_strings_sorted: "distinct xs \<Longrightarrow> sorted_wrt str_less (sort_strings xs)"
proof -
  assume d: "distinct xs"
  have "sorted_wrt (\<lambda>x y. \<not> str_less y x) (sort_strings xs)" "distinct (sort_strings xs)"
    using str_order.sort_slice_sorted [of xs] d mset_eq_imp_distinct_iff [OF mset_sort_slice [of str_less xs]]
    by (simp_all add: sort_strings_def slice_sorted_def)
  moreover have "sorted_wrt (\<lambda>x y. \<not> str_less y x) zs \<Longrightarrow> distinct zs \<Longrightarrow> sorted_wrt str_less zs" for zs
  proof (induction zs)
    case (Cons z zs)
    then show ?case using str_less_total by fastforce
  qed simp
  ultimately show ?thesis by blast
qed


subsection \<open>Dependencies\<close>

definition dep_set :: "(string \<times> string list) list \<Rightarrow> string \<Rightarrow> string set" where
  "dep_set deps ref = (case map_of deps ref of None \<Rightarrow> {} | Some on \<Rightarrow> set on)"

lemma dep_set_add: "dep_set (add_dep ref on deps) = (dep_set deps)(ref := insert on (dep_set deps ref))"
  by (auto simp: fun_eq_iff dep_set_def add_dep_def map_of_map_put split: option.splits)

lemma dep_set_fold:
  "dep_set (foldl (\<lambda>deps on. add_dep ref on deps) deps ons) = (dep_set deps)(ref := dep_set deps ref \<union> set ons)"
  by (induction ons arbitrary: deps) (auto simp: dep_set_add)

lemma dep_set_certs:
  "dep_set (snd (foldl (cbom_cert env ref loc) st cs)) = (dep_set (snd st))(ref := dep_set (snd st) ref \<union> certRefOf env ` set cs)"
proof (induction cs arbitrary: st)
  case (Cons c cs)
  obtain b deps where st: "st = (b, deps)" by fastforce
  show ?case unfolding foldl_Cons Cons.IH by (auto simp: st cbom_cert_def dep_set_add fun_eq_iff)
qed simp

definition record_deps :: "cbom_env \<Rightarrow> Record \<Rightarrow> string set" where
  "record_deps env rec = {algoRef env (r_CipherSuite rec)} \<union>
     (if r_Group rec \<noteq> [] then {algoRef env (r_Group rec)} else {}) \<union> certRefOf env ` set (r_Certificates rec)"

lemma dep_set_record:
  "dep_set (snd (cbom_record env st rec)) ref =
     dep_set (snd st) ref \<union> (if negotiated rec \<and> protoRefOf env rec = ref then record_deps env rec else {})"
proof (cases "negotiated rec")
  case True
  obtain b deps where st: "st = (b, deps)" by fastforce
  show ?thesis
    using True
    by (cases "r_Group rec = []")
      (auto simp: cbom_record_def st Let_def dep_set_certs dep_set_add record_deps_def)
qed (simp add: cbom_record_def)

lemma dep_set_run:
  "dep_set (snd (cbom_run env rs)) ref =
     (\<Union>rec \<in> {rec \<in> set rs. negotiated rec \<and> protoRefOf env rec = ref}. record_deps env rec)"
proof (induction rs rule: rev_induct)
  case Nil
  show ?case by (simp add: dep_set_def)
next
  case (snoc rec rs)
  show ?case unfolding foldl_append foldl_Cons foldl_Nil dep_set_record snoc.IH by auto
qed

lemma dep_keys: "deps_inv refs deps \<Longrightarrow> fst ` set deps = {ref. dep_set deps ref \<noteq> {}}"
proof -
  assume inv: "deps_inv refs deps"
  have "map_of deps ref \<noteq> None \<longleftrightarrow> dep_set deps ref \<noteq> {}" for ref
  proof (cases "map_of deps ref")
    case (Some on)
    then have "on \<noteq> []" using map_of_list_all [OF _ Some] inv by (fastforce simp: deps_inv_def)
    with Some show ?thesis by (simp add: dep_set_def)
  qed (simp add: dep_set_def)
  then show ?thesis by (auto simp: map_of_eq_None_iff)
qed

lemma deps_lookup:
  assumes "deps_inv refs deps" and "ref \<in> fst ` set deps"
  shows "set (the (map_of deps ref)) = dep_set deps ref" and "distinct (the (map_of deps ref))"
    and "dep_set deps ref \<subseteq> refs" and "ref \<in> refs"
proof -
  obtain on where on: "map_of deps ref = Some on" using assms(2) by (metis map_of_eq_None_iff option.exhaust)
  have "ref \<in> refs \<and> set on \<subseteq> refs \<and> distinct on"
    using map_of_list_all [OF _ on] assms(1) by (fastforce simp: deps_inv_def)
  with on show "set (the (map_of deps ref)) = dep_set deps ref" "distinct (the (map_of deps ref))"
    "dep_set deps ref \<subseteq> refs" "ref \<in> refs"
    by (simp_all add: dep_set_def)
qed


lemma cbom_dependencies:
  "bom_Dependencies (buildCBOM env r rs) =
     map (\<lambda>ref. \<lparr>de_Ref = ref, de_DependsOn = sort_strings (the (map_of (snd (cbom_run env rs)) ref))\<rparr>)
       (sort_strings (map fst (snd (cbom_run env rs))))"
  by (simp add: buildCBOM_def case_prod_beta Let_def)

lemma set_sort_strings [simp]: "set (sort_strings xs) = set xs"
  by (simp add: sort_strings_def)

lemma cbom_ref_set: "co_BOMRef ` set (bom_Components (buildCBOM env r rs)) = (\<Union>rec \<in> set rs. record_refs env rec)"
  using arg_cong [OF cbom_refs [of env r rs], of set] by (simp add: cbom_run_inv(3))

lemma cbom_dependency:
  assumes "d \<in> set (bom_Dependencies (buildCBOM env r rs))"
  shows "set (de_DependsOn d) = (\<Union>rec \<in> {rec \<in> set rs. negotiated rec \<and> protoRefOf env rec = de_Ref d}. record_deps env rec)"
    and "sorted_wrt str_less (de_DependsOn d)"
    and "insert (de_Ref d) (set (de_DependsOn d)) \<subseteq> (\<Union>rec \<in> set rs. record_refs env rec)"
proof -
  let ?deps = "snd (cbom_run env rs)"
  from assms have ref: "de_Ref d \<in> fst ` set ?deps" and on: "de_DependsOn d = sort_strings (the (map_of ?deps (de_Ref d)))"
    by (force simp: cbom_dependencies)+
  note look = deps_lookup [OF cbom_run_inv(2) ref, unfolded cbom_run_inv(3)]
  show eq: "set (de_DependsOn d) = (\<Union>rec \<in> {rec \<in> set rs. negotiated rec \<and> protoRefOf env rec = de_Ref d}. record_deps env rec)"
    by (simp add: on look(1) dep_set_run)
  show "sorted_wrt str_less (de_DependsOn d)" by (simp add: on look(2) sort_strings_sorted)
  show "insert (de_Ref d) (set (de_DependsOn d)) \<subseteq> (\<Union>rec \<in> set rs. record_refs env rec)"
    using look(3,4) by (simp add: on look(1))
qed

lemma cbom_dep_keys:
  "de_Ref ` set (bom_Dependencies (buildCBOM env r rs)) = protoRefOf env ` {rec \<in> set rs. negotiated rec}"
proof -
  have "de_Ref ` set (bom_Dependencies (buildCBOM env r rs)) = fst ` set (snd (cbom_run env rs))"
    by (simp add: cbom_dependencies image_image)
  also have "\<dots> = {ref. dep_set (snd (cbom_run env rs)) ref \<noteq> {}}" by (rule dep_keys [OF cbom_run_inv(2)])
  also have "\<dots> = protoRefOf env ` {rec \<in> set rs. negotiated rec}"
    unfolding dep_set_run record_deps_def by auto
  finally show ?thesis .
qed

lemma cbom_dep_refs_sorted: "sorted_wrt str_less (map de_Ref (bom_Dependencies (buildCBOM env r rs)))"
proof -
  have "map de_Ref (bom_Dependencies (buildCBOM env r rs)) = sort_strings (map fst (snd (cbom_run env rs)))"
    by (simp add: cbom_dependencies comp_def)
  moreover have "distinct (map fst (snd (cbom_run env rs)))" using cbom_run_inv(2) [of env rs] by (simp add: deps_inv_def)
  ultimately show ?thesis by (simp add: sort_strings_sorted)
qed

lemma cbom_refs_sorted: "sorted_wrt str_less (map co_BOMRef (bom_Components (buildCBOM env r rs)))"
  unfolding cbom_refs by (rule sort_strings_sorted) (use cbom_run_inv(1) [of env rs] in \<open>simp add: builder_inv_def\<close>)


subsection \<open>Properties\<close>

text \<open>
  C23: The document is closed under its references and has a canonical layout: the components are
  in strictly ascending order of their reference, so no reference is declared twice, the same holds
  of the dependency entries and of every list of dependencies, and both ends of every dependency
  are declared components.
\<close>

theorem cbom_references_closed:
  "let bom = buildCBOM env r rs; refs = map co_BOMRef (bom_Components bom)
   in sorted_wrt str_less refs \<and> sorted_wrt str_less (map de_Ref (bom_Dependencies bom)) \<and>
      list_all (\<lambda>d. de_Ref d \<in> set refs \<and> set (de_DependsOn d) \<subseteq> set refs \<and> sorted_wrt str_less (de_DependsOn d))
        (bom_Dependencies bom)"
  using cbom_refs_sorted [of env r rs] cbom_dep_refs_sorted [of env r rs] cbom_dependency [of _ env r rs]
  by (simp add: Let_def list_all_iff cbom_ref_set)

text \<open>
  C22: The document inventories exactly what was negotiated: its references are the protocol, the
  cipher suite, the group and the certificates of the records whose server answered and chose a
  suite, one dependency entry per negotiated protocol version, and each entry lists exactly what
  the flows of that version used.
\<close>

theorem cbom_exact:
  "let bom = buildCBOM env r rs; used = {rec \<in> set rs. r_ServerObserved rec \<and> r_CipherSuite rec \<noteq> []};
       algos = (\<lambda>rec. {algoRef env (r_CipherSuite rec)} \<union> (if r_Group rec \<noteq> [] then {algoRef env (r_Group rec)} else {}));
       certs = (\<lambda>rec. certRefOf env ` set (r_Certificates rec))
   in co_BOMRef ` set (bom_Components bom) = protoRefOf env ` used \<union> (\<Union>rec \<in> used. algos rec \<union> certs rec) \<and>
      de_Ref ` set (bom_Dependencies bom) = protoRefOf env ` used \<and>
      list_all (\<lambda>d. set (de_DependsOn d) =
          (\<Union>rec \<in> {rec \<in> used. protoRefOf env rec = de_Ref d}. algos rec \<union> certs rec)) (bom_Dependencies bom)"
proof -
  have "(\<Union>rec \<in> set rs. record_refs env rec) =
      protoRefOf env ` {rec \<in> set rs. negotiated rec} \<union> (\<Union>rec \<in> {rec \<in> set rs. negotiated rec}. record_deps env rec)"
    by (auto simp: record_refs_def record_deps_def)
  moreover have "{rec \<in> {rec \<in> set rs. negotiated rec}. protoRefOf env rec = p} = {rec \<in> set rs. negotiated rec \<and> protoRefOf env rec = p}" for p
    by auto
  ultimately show ?thesis
    unfolding Let_def negotiated_def [symmetric] record_deps_def [symmetric]
    using cbom_dependency(1) [of _ env r rs] by (simp add: cbom_ref_set cbom_dep_keys list_all_iff)
qed

text \<open>
  C24: The identity of the document depends on the flows only, not on the order in which they were
  captured: two captures of the same records in different orders have the same serial number, the
  same list of references and the same dependencies.
\<close>

theorem cbom_order_independent:
  assumes "mset rs = mset rs'"
  shows "bom_SerialNumber (buildCBOM env r rs) = bom_SerialNumber (buildCBOM env r rs') \<and>
    map co_BOMRef (bom_Components (buildCBOM env r rs)) = map co_BOMRef (bom_Components (buildCBOM env r rs')) \<and>
    bom_Dependencies (buildCBOM env r rs) = bom_Dependencies (buildCBOM env r rs')"
proof -
  from assms have set: "set rs = set rs'" by (rule mset_eq_setD)
  let ?b = "\<lambda>rs. bom_Components (buildCBOM env r rs)"
  have refs: "map co_BOMRef (?b rs) = map co_BOMRef (?b rs')"
    unfolding cbom_refs using cbom_run_inv(1) [of env rs] cbom_run_inv(1) [of env rs']
    by (intro sort_strings_set) (simp_all add: builder_inv_def cbom_run_inv(3) set)
  have serial: "bom_SerialNumber (buildCBOM env r xs) = deterministicURN (?b xs)" for xs
    by (simp add: buildCBOM_def case_prod_beta Let_def)
  have urn: "deterministicURN (?b rs) = deterministicURN (?b rs')"
  proof -
    have eq: "map (\<lambda>c. co_BOMRef c @ nl) (?b xs) = map (\<lambda>x. x @ nl) (map co_BOMRef (?b xs))" for xs by simp
    have "map (\<lambda>c. co_BOMRef c @ nl) (?b rs) = map (\<lambda>c. co_BOMRef c @ nl) (?b rs')" by (simp only: eq refs)
    then show ?thesis unfolding deterministicURN_def by simp
  qed
  have deps: "dep_set (snd (cbom_run env rs)) = dep_set (snd (cbom_run env rs'))" by (simp add: fun_eq_iff dep_set_run set)
  have keys: "sort_strings (map fst (snd (cbom_run env rs))) = sort_strings (map fst (snd (cbom_run env rs')))"
    using cbom_run_inv(2) [of env rs] cbom_run_inv(2) [of env rs'] deps
    by (intro sort_strings_set) (simp_all add: deps_inv_def dep_keys [OF cbom_run_inv(2)])
  have "sort_strings (the (map_of (snd (cbom_run env rs)) ref)) = sort_strings (the (map_of (snd (cbom_run env rs')) ref))"
    if "ref \<in> fst ` set (snd (cbom_run env rs))" for ref
  proof -
    have "ref \<in> fst ` set (snd (cbom_run env rs'))" using that deps by (simp add: dep_keys [OF cbom_run_inv(2)])
    from deps_lookup(1,2) [OF cbom_run_inv(2) that] deps_lookup(1,2) [OF cbom_run_inv(2) this] deps
    show ?thesis by (intro sort_strings_set) simp_all
  qed
  then have "bom_Dependencies (buildCBOM env r rs) = bom_Dependencies (buildCBOM env r rs')"
    unfolding cbom_dependencies keys [symmetric] by simp
  with refs urn show ?thesis by (simp add: serial)
qed

theorem cbom_order_independent_witness:
  "\<forall>env r. let a = (sample_rec ''a'' [])\<lparr>r_ServerObserved := True, r_CipherSuite := ''TLS_AES_128_GCM_SHA256''\<rparr>;
     b = (sample_rec ''b'' [])\<lparr>r_ServerObserved := True, r_CipherSuite := ''TLS_AES_256_GCM_SHA384''\<rparr>
   in bom_SerialNumber (buildCBOM env r [a, b]) = bom_SerialNumber (buildCBOM env r [b, a])"
  unfolding Let_def
  by (intro allI, rule cbom_order_independent [THEN conjunct1]) simp

end
