(* ===== verification/Pipeline.thy ===== *)
theory Pipeline
  imports Assemble_Inv Accumulator Cbom
begin

text \<open>
  \<^verbatim>\<open>cmd/tlscensus/pipeline.go\<close> and the part of \<^verbatim>\<open>read.go\<close> after flag parsing: the wiring of capture,
  assembler, inventory and report.

  \<^item> The handler of the assembler changes only the pipeline and the assembler never reads what it
    changes, so running it on the new entries of \<open>a_handled\<close> after a call on the assembler is running
    it inside the call. \<open>ie n\<close> is the environment (clock, certificate parser) of the \<open>n\<close>-th call.
  \<^item> \<open>p_onRecord\<close> says whether the callback is set; \<open>deliver\<close> gives the records it is called with.
  \<^item> \<open>None\<close> is a panic (a nil dereference); for \<open>p_run\<close> also a source that never ends.
  \<^item> \<^verbatim>\<open>writeReport\<close> gives the document it encodes: encoders write it to the standard output.
\<close>

record pipeline =
  p_asm :: Assembler
  p_acc :: Accumulator
  p_records :: "Record list"
  p_pending :: "Record list"
  p_onRecord :: bool
  p_keep :: bool

definition newPipeline :: "Options \<Rightarrow> bool \<Rightarrow> bool \<Rightarrow> pipeline" where
  "newPipeline opts keep onRecord =
     \<lparr>p_asm = Assembler_New opts, p_acc = NewAccumulator, p_records = [], p_pending = [],
      p_onRecord = onRecord, p_keep = keep\<rparr>"

definition p_handler :: "inv_env \<Rightarrow> pipeline \<Rightarrow> Flow \<Rightarrow> pipeline option" where
  "p_handler env p f =
     (case Analyze env f of
        None \<Rightarrow> None
      | Some rec \<Rightarrow>
          (let p = p\<lparr>p_acc := acc_Add (p_acc p) rec\<rparr>;
               p = (if p_keep p then p\<lparr>p_records := p_records p @ [rec]\<rparr> else p)
           in Some (if p_onRecord p then p\<lparr>p_pending := p_pending p @ [rec]\<rparr> else p)))"

fun p_handlers :: "(nat \<Rightarrow> inv_env) \<Rightarrow> nat \<Rightarrow> Flow list \<Rightarrow> pipeline \<Rightarrow> pipeline option" where
  "p_handlers ie n [] p = Some p"
| "p_handlers ie n (f # fs) p =
     (case p_handler (ie n) p f of None \<Rightarrow> None | Some p \<Rightarrow> p_handlers ie (Suc n) fs p)"

definition asm_call :: "(nat \<Rightarrow> inv_env) \<Rightarrow> (Assembler \<Rightarrow> Assembler) \<Rightarrow> pipeline \<Rightarrow> pipeline option" where
  "asm_call ie call p =
     (let n = length (a_handled (p_asm p)); a = call (p_asm p)
      in p_handlers ie n (drop n (a_handled a)) (p\<lparr>p_asm := a\<rparr>))"

definition takePending :: "pipeline \<Rightarrow> Record list \<times> pipeline" where
  "takePending p = (p_pending p, p\<lparr>p_pending := []\<rparr>)"

definition deliver :: "pipeline \<Rightarrow> Record list \<Rightarrow> Record list option" where
  "deliver p recs = (if recs \<noteq> [] \<and> \<not> p_onRecord p then None else Some recs)"

text \<open>An entry point called by one goroutine: the new state and the records delivered.\<close>

definition p_entry :: "(nat \<Rightarrow> inv_env) \<Rightarrow> (Assembler \<Rightarrow> Assembler) \<Rightarrow> pipeline \<Rightarrow> (pipeline \<times> Record list) option" where
  "p_entry ie call p =
     (case asm_call ie call p of
        None \<Rightarrow> None
      | Some p \<Rightarrow>
          (let (recs, p) = takePending p
           in case deliver p recs of None \<Rightarrow> None | Some out \<Rightarrow> Some (p, out)))"

definition p_packet ::
  "cryptobyte \<Rightarrow> gopacket \<Rightarrow> (nat \<Rightarrow> inv_env) \<Rightarrow> pipeline \<Rightarrow> bytes \<Rightarrow> int \<Rightarrow> nat \<Rightarrow> (pipeline \<times> Record list) option" where
  "p_packet cb gp ie p data ts linkType = p_entry ie (\<lambda>a. Packet cb gp a data ts linkType) p"

definition p_flushOlderThan ::
  "cryptobyte \<Rightarrow> gopacket \<Rightarrow> (nat \<Rightarrow> inv_env) \<Rightarrow> pipeline \<Rightarrow> int \<Rightarrow> (pipeline \<times> Record list) option" where
  "p_flushOlderThan cb gp ie p t = p_entry ie (\<lambda>a. FlushOlderThan cb gp a t) p"

text \<open>A packet source (\<^verbatim>\<open>capture.Source\<close>); \<open>SrcEOF\<close> is every error that \<^verbatim>\<open>errors.Is\<close> matches with \<^verbatim>\<open>io.EOF\<close>.\<close>

datatype 'e src_error = SrcEOF | SrcErr 'e

record ('s, 'e) Source =
  sc_LinkType :: nat
  sc_Next :: "'s \<Rightarrow> ('e src_error + bytes \<times> int) \<times> 's"
  sc_state :: 's

partial_function (option) p_run ::
  "cryptobyte \<Rightarrow> gopacket \<Rightarrow> (nat \<Rightarrow> inv_env) \<Rightarrow> nat \<Rightarrow> ('s \<Rightarrow> ('e src_error + bytes \<times> int) \<times> 's) \<Rightarrow> 's \<Rightarrow> pipeline \<Rightarrow>
   (pipeline \<times> Record list \<times> 'e option) option" where
  "p_run cb gp ie linkType next s p =
     (case next s of
        (Inl SrcEOF, s) \<Rightarrow> Some (p, [], None)
      | (Inl (SrcErr e), s) \<Rightarrow> Some (p, [], Some e)
      | (Inr (data, ts), s) \<Rightarrow>
          Option.bind (p_packet cb gp ie p data ts linkType) (\<lambda>(p, out).
            Option.bind (p_run cb gp ie linkType next s p) (\<lambda>(p, out', e). Some (p, out @ out', e))))"

definition p_report :: "string \<Rightarrow> int \<Rightarrow> string list \<Rightarrow> int \<Rightarrow> Stats \<Rightarrow> pipeline \<Rightarrow> Report" where
  "p_report ver now sources topN stats p =
     \<lparr>rp_Tool = ''tlscensus'', rp_Version = ver, rp_GeneratedAt = now, rp_Sources = sources, rp_Stats = stats,
      rp_Summary = acc_Summary (p_acc p) topN, rp_Aggregates = Aggregates (p_acc p) 0, rp_Records = []\<rparr>"

definition p_snapshot :: "string \<Rightarrow> int \<Rightarrow> string list \<Rightarrow> int \<Rightarrow> pipeline \<Rightarrow> Report \<times> Record list" where
  "p_snapshot ver now sources topN p =
     (let records = SortRecords (p_records p)
      in (p_report ver now sources topN (a_stats (p_asm p)) p, records))"

definition p_finish ::
  "cryptobyte \<Rightarrow> gopacket \<Rightarrow> (nat \<Rightarrow> inv_env) \<Rightarrow> string \<Rightarrow> int \<Rightarrow> int \<Rightarrow> string list \<Rightarrow> int \<Rightarrow> bool \<Rightarrow> pipeline \<Rightarrow>
   (Report \<times> pipeline \<times> Record list) option" where
  "p_finish cb gp ie ver closeNow now sources topN withRecords p =
     (case p_entry ie (\<lambda>a. Close cb gp a closeNow) p of
        None \<Rightarrow> None
      | Some (p, out) \<Rightarrow>
          (let stats = a_stats (p_asm p);
               p = p\<lparr>p_records := SortRecords (p_records p)\<rparr>;
               rep = p_report ver now sources topN stats p;
               rep = (if withRecords then rep\<lparr>rp_Records := p_records p\<rparr> else rep)
           in Some (rep, p, out)))"

definition warnIfIncomplete :: "Stats \<Rightarrow> string" where
  "warnIfIncomplete s =
     (if s_StreamsDropped s > 0 then
        ''tlscensus: warning: '' @ dec_int (s_StreamsDropped s) @
        '' connections were not examined because the stream cap was reached; this inventory is incomplete. '' @
        ''Raise -max-streams.'' @ nl
      else [])"

datatype document =
  DocNDJSON "Record list" | DocJSON Report | DocCBOM cdxBOM | DocHTML Report "Record list" | DocText string

definition writeReport :: "out_env \<Rightarrow> cbom_env \<Rightarrow> string \<Rightarrow> Report \<Rightarrow> Record list \<Rightarrow> document" where
  "writeReport oe ce format rep records =
     (if format = ''ndjson'' then DocNDJSON records
      else if format = ''json'' then DocJSON rep
      else if format = ''cbom'' then DocCBOM (buildCBOM ce rep records)
      else if format = ''html'' then DocHTML rep records
      else DocText (WriteText oe rep))"

definition validateFormat :: "string \<Rightarrow> bool" where
  "validateFormat format \<longleftrightarrow> format \<in> set [''text'', ''json'', ''ndjson'', ''cbom'', ''html'']"


subsection \<open>The read command\<close>

datatype 'e cli_error = NoFiles | UnknownFormat string | OpenFailed 'e | ReadFailed string 'e

record read_flags =
  rf_format :: string
  rf_top :: int
  rf_records :: bool
  rf_maxPrefix :: int
  rf_maxStreams :: int
  rf_files :: "string list"

fun read_files ::
  "cryptobyte \<Rightarrow> gopacket \<Rightarrow> (nat \<Rightarrow> inv_env) \<Rightarrow> (string \<Rightarrow> 'e + ('s, 'e) Source) \<Rightarrow> string list \<Rightarrow> pipeline \<Rightarrow>
   ('e cli_error + pipeline) option" where
  "read_files cb gp ie openFile [] p = Some (Inr p)"
| "read_files cb gp ie openFile (path # paths) p =
     (case openFile path of
        Inl e \<Rightarrow> Some (Inl (OpenFailed e))
      | Inr src \<Rightarrow>
          (case p_run cb gp ie (sc_LinkType src) (sc_Next src) (sc_state src) p of
             None \<Rightarrow> None
           | Some (p, out, Some e) \<Rightarrow> Some (Inl (ReadFailed path e))
           | Some (p, out, None) \<Rightarrow> read_files cb gp ie openFile paths p))"

text \<open>The document written to the standard output and the warning on the standard error.\<close>

definition runRead ::
  "cryptobyte \<Rightarrow> gopacket \<Rightarrow> (nat \<Rightarrow> inv_env) \<Rightarrow> out_env \<Rightarrow> cbom_env \<Rightarrow> (string \<Rightarrow> 'e + ('s, 'e) Source) \<Rightarrow> string \<Rightarrow> int \<Rightarrow> int \<Rightarrow>
   read_flags \<Rightarrow> ('e cli_error + document \<times> string) option" where
  "runRead cb gp ie oe ce openFile ver closeNow now fl =
     (if rf_files fl = [] then Some (Inl NoFiles)
      else if \<not> validateFormat (rf_format fl) then Some (Inl (UnknownFormat (rf_format fl)))
      else
        (let p = newPipeline \<lparr>o_MaxStreamPrefix = rf_maxPrefix fl, o_CloseTimeout = 0, o_MaxStreams = rf_maxStreams fl\<rparr> True False
         in case read_files cb gp ie openFile (rf_files fl) p of
              None \<Rightarrow> None
            | Some (Inl e) \<Rightarrow> Some (Inl e)
            | Some (Inr p) \<Rightarrow>
                (case p_finish cb gp ie ver closeNow now (rf_files fl) (rf_top fl) (rf_records fl) p of
                   None \<Rightarrow> None
                 | Some (rep, p, out) \<Rightarrow>
                     Some (Inr (writeReport oe ce (rf_format fl) rep (p_records p), warnIfIncomplete (rp_Stats rep))))))"

end
