(* ===== verification/Pipeline_Props.thy ===== *)
theory Pipeline_Props
  imports Pipeline Assemble_Props Accumulator_Props Cbom_Props
begin

text \<open>
  The pipeline: what one entry point does, and the run over the packets of a source.
\<close>


subsection \<open>The assembler only appends to what it reports\<close>

definition extends :: "Assembler \<Rightarrow> Assembler \<Rightarrow> bool" where
  "extends a a' \<longleftrightarrow> (\<exists>fs. a_handled a' = a_handled a @ fs)"

lemma extends_refl [simp]: "extends a a"
  by (simp add: extends_def)

lemma extends_trans: "extends a b \<Longrightarrow> extends b c \<Longrightarrow> extends a c"
  by (auto simp: extends_def)

lemma extends_same: "a_handled a' = a_handled b \<Longrightarrow> extends a b \<Longrightarrow> extends a a'"
  by (simp add: extends_def)

lemma emit_extends: "extends a (snd (st_emit s a))" "extends a (snd (emitQUIC a f))"
  by (simp_all add: st_emit_def emitQUIC_def extends_def)

lemma stream_extends:
  "extends a (snd (st_findServer cb s a))" "extends a (snd (st_parse cb s a))"
  "extends a (snd (st_ReassembledSG cb s a dir data ts))" "extends a (snd (st_ReassemblyComplete s a))"
proof -
  show server: "extends a (snd (st_findServer cb s a))" for s
    by (simp add: st_findServer_def Let_def emit_extends split: sum.split option.split)
  show parse: "extends a (snd (st_parse cb s a))" for s
  proof -
    define s1 where "s1 = (if \<not> st_haveCH s then st_findClient cb [0, 1] s else s)"
    define sa where "sa = (if st_haveCH s1 \<and> \<not> st_haveSH s1 then st_findServer cb s1 a else (s1, a))"
    have sa: "extends a (snd sa)" using server by (simp add: sa_def)
    have rej: "extends a (snd (st_reject t (snd sa)))" for t
      using sa by (simp add: st_reject_def extends_def)
    show ?thesis
      unfolding st_parse_def Let_def s1_def [symmetric] sa_def [symmetric]
      using sa rej by (simp add: case_prod_beta)
  qed
  show "extends a (snd (st_ReassembledSG cb s a dir data ts))"
    unfolding st_ReassembledSG_def Let_def by (cases "length data = 0 \<or> st_rejected s \<or> st_haveCH s \<and> st_haveSH s") (simp_all add: parse)
  show "extends a (snd (st_ReassemblyComplete s a))"
    using emit_extends(1) [of a s] by (simp add: st_ReassemblyComplete_def case_prod_beta Let_def extends_def)
qed

lemma callback_extends: "extends a (run_callback cb a c)"
proof (cases c)
  case (CbNew net tcp t ts)
  have "a_handled (snd (factory_New a net tcp t ts)) = a_handled a" by (simp add: factory_New_def Let_def)
  then show ?thesis by (auto simp: run_callback_def CbNew extends_def split: prod.split option.split)
next
  case (CbReassembledSG i dir data ts)
  show ?thesis
    using stream_extends(3) [of a cb "a_streams a ! i" dir data ts]
    by (simp add: run_callback_def CbReassembledSG extends_def case_prod_beta)
next
  case (CbReassemblyComplete i)
  show ?thesis
    using stream_extends(4) [of a "a_streams a ! i"] by (simp add: run_callback_def CbReassemblyComplete extends_def case_prod_beta)
qed

lemma callbacks_extend: "extends a (foldl (run_callback cb) a cs)"
  by (induction cs arbitrary: a) (auto intro: extends_trans callback_extends)

lemma call_extends: "extends a (run_call cb gp a c)"
  using callbacks_extend [of "a\<lparr>a_calls := a_calls a @ [c]\<rparr>" cb] by (simp add: run_call_def Let_def extends_def)

lemma quic_extends: "extends a (snd (quicParse cb a f))" "extends a (snd (quicFlowPacket cb a f h src sport payload ts))"
proof -
  show parse: "extends a (snd (quicParse cb a f))" for f
    by (simp add: quicParse_def Let_def emit_extends split: sum.split option.split)
  show "extends a (snd (quicFlowPacket cb a f h src sport payload ts))"
    by (simp add: quicFlowPacket_def Let_def parse split: sum.split prod.split)
qed

lemma quicPacket_extends: "extends a (quicPacket cb a src dst sport dport payload ts)"
proof -
  have put: "extends a ((snd r)\<lparr>a_quicFlows := m\<rparr>)" if "extends b (snd r)" "a_handled b = a_handled a"
    for b m and r :: "quicFlow \<times> Assembler"
    using that by (simp add: extends_def)
  note put' = put [OF quic_extends(2)]
  show ?thesis
    unfolding quicPacket_def Let_def
    by (simp add: case_prod_beta put' extends_same split: sum.split option.split)
qed

lemma flushQUIC_extends: "extends a (flushQUIC a t)"
proof -
  have "extends a (snd (flushQUIC_loop m t a))" for m
  proof (induction m t a rule: flushQUIC_loop.induct)
    case (2 key f m t a)
    show ?case
    proof (cases "fl_LastSeen (q_flow f) > t")
      case True
      then show ?thesis using 2(1) by (simp add: case_prod_beta)
    next
      case False
      obtain g b where eb: "emitQUIC a f = (g, b)" by fastforce
      have "extends a b" using emit_extends(2) [of a f] eb by simp
      moreover have "extends b (snd (flushQUIC_loop m t (b\<lparr>a_stats := (a_stats b)\<lparr>s_LiveStreams := s_LiveStreams (a_stats b) - 1\<rparr>\<rparr>)))"
        using 2(2) [OF False eb [symmetric]] by (simp add: extends_def)
      ultimately show ?thesis using False by (auto simp: eb intro: extends_trans)
    qed
  qed simp
  from this [of "a_quicFlows a"] show ?thesis by (simp add: flushQUIC_def case_prod_beta extends_def)
qed

lemma trackTime_handled [simp]: "a_handled (trackTime a ts) = a_handled a"
  by (simp add: trackTime_def Let_def)

lemma Packet_extends: "extends a (Packet cb gp a data ts linkType)"
proof -
  have tcp: "extends a (let b = run_call cb gp b0 c; b = (if a_lastFlush b = 0 then b\<lparr>a_lastFlush := ts\<rparr> else b)
      in if ts - a_lastFlush b \<ge> o_CloseTimeout (a_opts b) then
           (let b = run_call cb gp b (FlushCloseOlderThan (ts - o_CloseTimeout (a_opts b)));
                b = flushQUIC b (ts - o_CloseTimeout (a_opts b))
            in b\<lparr>a_lastFlush := ts\<rparr>)
         else b)" if b0: "a_handled b0 = a_handled a" for b0 c
  proof -
    define b1 where "b1 = run_call cb gp b0 c"
    define b2 where "b2 = (if a_lastFlush b1 = 0 then b1\<lparr>a_lastFlush := ts\<rparr> else b1)"
    have "extends a b2" using call_extends [of b0 cb gp c] b0 by (simp add: b1_def b2_def extends_def)
    moreover have "extends b2 (flushQUIC (run_call cb gp b2 d) t)" for d t
      by (rule extends_trans [OF call_extends flushQUIC_extends])
    ultimately have "extends a (flushQUIC (run_call cb gp b2 d) t)" "extends a b2" for d t
      by (blast intro: extends_trans)+
    then show ?thesis unfolding Let_def b1_def [symmetric] b2_def [symmetric] by (simp add: extends_def)
  qed
  have udp: "extends a (trackTime (quicPacket cb b0 src dst sport dport payload ts) ts)" if "a_handled b0 = a_handled a"
    for b0 src dst sport dport payload
    using quicPacket_extends [of b0 cb src dst sport dport payload ts] that by (simp add: extends_def)
  note cases = Packet_def Let_def option.case prod.case
  show ?thesis
  proof (cases "pk_net (gp_decode gp data linkType)")
    case None
    then show ?thesis unfolding cases by (simp add: extends_def)
  next
    case net: (Some net)
    show ?thesis
    proof (cases "pk_udp (gp_decode gp data linkType)")
      case (Some u)
      then show ?thesis by (cases u) (simp add: Packet_def Let_def net udp, simp add: extends_def)
    next
      case none: None
      show ?thesis
      proof (cases "pk_tcp (gp_decode gp data linkType)")
        case None
        then show ?thesis unfolding cases net none by (simp add: extends_def)
      next
        case (Some t)
        show ?thesis
          unfolding Packet_def Let_def net none Some option.case by (rule tcp [unfolded Let_def]) simp
      qed
    qed
  qed
qed

lemma operations_extend:
  "extends a (Packet cb gp a data ts linkType)" "extends a (FlushOlderThan cb gp a t)" "extends a (Close cb gp a now)"
  by (rule Packet_extends)
    (simp_all add: FlushOlderThan_def Close_def extends_trans [OF call_extends flushQUIC_extends])



subsection \<open>One call on the assembler\<close>

definition analyses :: "(nat \<Rightarrow> inv_env) \<Rightarrow> nat \<Rightarrow> Flow list \<Rightarrow> Record list" where
  "analyses ie n fs = map (\<lambda>(i, f). the (Analyze (ie i) f)) (enumerate n fs)"

lemma analyses_simps [simp]:
  "analyses ie n [] = []" "analyses ie n (f # fs) = the (Analyze (ie n) f) # analyses ie (Suc n) fs"
  by (simp_all add: analyses_def)

lemma analyses_append: "analyses ie n (fs @ gs) = analyses ie n fs @ analyses ie (n + length fs) gs"
  by (simp add: analyses_def enumerate_append_eq)

lemma length_analyses [simp]: "length (analyses ie n fs) = length fs"
  by (simp add: analyses_def)

lemma Analyze_total: "fl_Client f \<noteq> None \<Longrightarrow> \<exists>rec. Analyze env f = Some rec"
  by (auto simp: Analyze_def Let_def case_prod_beta)

lemma p_handlers_spec:
  assumes "list_all (\<lambda>f. fl_Client f \<noteq> None) fs"
  shows "p_handlers ie n fs p = Some (p\<lparr>p_acc := foldl acc_Add (p_acc p) (analyses ie n fs),
    p_records := p_records p @ (if p_keep p then analyses ie n fs else []),
    p_pending := p_pending p @ (if p_onRecord p then analyses ie n fs else [])\<rparr>)"
  using assms
proof (induction fs arbitrary: n p)
  case (Cons f fs)
  from Cons.prems obtain rec where rec: "Analyze (ie n) f = Some rec" using Analyze_total by auto
  define q where "q = p\<lparr>p_acc := acc_Add (p_acc p) rec, p_records := p_records p @ (if p_keep p then [rec] else []),
    p_pending := p_pending p @ (if p_onRecord p then [rec] else [])\<rparr>"
  have "p_handler (ie n) p f = Some q" by (simp add: p_handler_def rec Let_def q_def)
  with Cons.IH [of "Suc n" q] Cons.prems show ?case by (simp add: rec) (simp add: q_def)
qed simp

text \<open>What holds of a pipeline between two calls on its assembler.\<close>

definition reported :: "(nat \<Rightarrow> inv_env) \<Rightarrow> pipeline \<Rightarrow> Record list" where
  "reported ie p = analyses ie 0 (a_handled (p_asm p))"

definition pipe_ok :: "cryptobyte \<Rightarrow> gopacket \<Rightarrow> (nat \<Rightarrow> inv_env) \<Rightarrow> pipeline \<Rightarrow> bool" where
  "pipe_ok cb gp ie p \<longleftrightarrow>
     reachable cb gp (p_asm p) \<and> p_acc p = accumulate (reported ie p) \<and>
     p_records p = (if p_keep p then reported ie p else []) \<and> (p_pending p = [] \<or> p_onRecord p)"

text \<open>The calls the pipeline makes: they lead from a reachable assembler to a reachable one and only add reports.\<close>

definition asm_op :: "cryptobyte \<Rightarrow> gopacket \<Rightarrow> (Assembler \<Rightarrow> Assembler) \<Rightarrow> bool" where
  "asm_op cb gp call \<longleftrightarrow> (\<forall>a. extends a (call a) \<and> (reachable cb gp a \<longrightarrow> reachable cb gp (call a)))"

lemma asm_ops:
  "asm_op cb gp (\<lambda>a. Packet cb gp a data ts linkType)" "asm_op cb gp (\<lambda>a. FlushOlderThan cb gp a t)"
  "asm_op cb gp (\<lambda>a. Close cb gp a now)"
  by (auto simp: asm_op_def operations_extend intro: reachable.intros)

lemma asm_call_ok:
  assumes ok: "pipe_ok cb gp ie p" and call: "asm_op cb gp call"
  obtains p' rs where "asm_call ie call p = Some p'" and "pipe_ok cb gp ie p'" and "p_asm p' = call (p_asm p)"
    and "reported ie p' = reported ie p @ rs" and "p_pending p' = p_pending p @ (if p_onRecord p then rs else [])"
    and "p_onRecord p' = p_onRecord p" and "p_keep p' = p_keep p"
proof -
  let ?a = "p_asm p" and ?n = "length (a_handled (p_asm p))"
  obtain fs where fs: "a_handled (call ?a) = a_handled ?a @ fs"
    using call unfolding asm_op_def extends_def by blast
  have r: "reachable cb gp (call ?a)" using ok call by (simp add: pipe_ok_def asm_op_def)
  have "list_all (\<lambda>f. fl_Client f \<noteq> None) fs"
    using reachable_inv [OF r] by (simp add: asm_inv_def fs)
  note spec = p_handlers_spec [OF this, of ie ?n "p\<lparr>p_asm := call ?a\<rparr>"]
  define p' where "p' = the (asm_call ie call p)"
  have p': "asm_call ie call p = Some p'" by (simp add: p'_def asm_call_def Let_def fs spec)
  have eq: "p' = p\<lparr>p_asm := call ?a, p_acc := foldl acc_Add (p_acc p) (analyses ie ?n fs),
      p_records := p_records p @ (if p_keep p then analyses ie ?n fs else []),
      p_pending := p_pending p @ (if p_onRecord p then analyses ie ?n fs else [])\<rparr>"
    by (simp add: p'_def asm_call_def Let_def fs spec)
  have rep: "reported ie p' = reported ie p @ analyses ie ?n fs"
    by (simp add: reported_def eq fs analyses_append)
  have "p_asm p' = call ?a" "p_acc p' = foldl acc_Add (p_acc p) (analyses ie ?n fs)" "p_keep p' = p_keep p"
    "p_records p' = p_records p @ (if p_keep p then analyses ie ?n fs else [])" "p_onRecord p' = p_onRecord p"
    "p_pending p' = p_pending p @ (if p_onRecord p then analyses ie ?n fs else [])"
    by (simp_all add: eq)
  with ok r rep have "pipe_ok cb gp ie p'" by (auto simp: pipe_ok_def accumulate_def)
  then show thesis using p' rep by (intro that [of p' "analyses ie ?n fs"]) (simp_all add: eq)
qed

lemma p_entry_ok:
  assumes ok: "pipe_ok cb gp ie p" and call: "asm_op cb gp call" and "p_pending p = []"
  obtains p' rs where "p_entry ie call p = Some (p', if p_onRecord p then rs else [])" and "pipe_ok cb gp ie p'"
    and "p_asm p' = call (p_asm p)" and "reported ie p' = reported ie p @ rs" and "p_pending p' = []"
    and "p_onRecord p' = p_onRecord p" and "p_keep p' = p_keep p"
proof -
  from asm_call_ok [OF ok call] obtain p1 rs where p1: "asm_call ie call p = Some p1" "pipe_ok cb gp ie p1"
    "p_asm p1 = call (p_asm p)" "reported ie p1 = reported ie p @ rs"
    "p_pending p1 = p_pending p @ (if p_onRecord p then rs else [])" "p_onRecord p1 = p_onRecord p" "p_keep p1 = p_keep p"
    by blast
  let ?q = "p1\<lparr>p_pending := []\<rparr>"
  have "p_entry ie call p = Some (?q, if p_onRecord p then rs else [])"
    using p1 assms(3) by (simp add: p_entry_def takePending_def deliver_def)
  moreover have "reported ie ?q = reported ie p1" by (simp add: reported_def)
  moreover from this have "pipe_ok cb gp ie ?q" using p1(2) by (simp add: pipe_ok_def)
  ultimately show thesis using p1 by (intro that [of ?q rs]) simp_all
qed

lemma newPipeline_ok: "pipe_ok cb gp ie (newPipeline opts keep on)"
  by (simp add: pipe_ok_def newPipeline_def reported_def accumulate_def reachable.new)
    (simp add: Assembler_New_def Let_def)


subsection \<open>Reading files\<close>

text \<open>A source that yields the given packets and then the given error.\<close>

fun yields :: "('s \<Rightarrow> ('e src_error + bytes \<times> int) \<times> 's) \<Rightarrow> 's \<Rightarrow> (bytes \<times> int) list \<Rightarrow> 'e src_error \<Rightarrow> bool" where
  "yields nxt s [] e \<longleftrightarrow> fst (nxt s) = Inl e"
| "yields nxt s (d # ds) e \<longleftrightarrow> fst (nxt s) = Inr d \<and> yields nxt (snd (nxt s)) ds e"

abbreviation packets :: "cryptobyte \<Rightarrow> gopacket \<Rightarrow> nat \<Rightarrow> Assembler \<Rightarrow> (bytes \<times> int) list \<Rightarrow> Assembler" where
  "packets cb gp linkType a pkts \<equiv> foldl (\<lambda>a (data, ts). Packet cb gp a data ts linkType) a pkts"

definition run_result :: "'e src_error \<Rightarrow> 'e option" where
  "run_result e = (case e of SrcEOF \<Rightarrow> None | SrcErr x \<Rightarrow> Some x)"

lemma p_run_ok:
  assumes "pipe_ok cb gp ie p" and "p_pending p = []" and "yields nxt s pkts e"
  shows "\<exists>p' rs. p_run cb gp ie linkType nxt s p = Some (p', if p_onRecord p then rs else [], run_result e) \<and>
    pipe_ok cb gp ie p' \<and> p_asm p' = packets cb gp linkType (p_asm p) pkts \<and> reported ie p' = reported ie p @ rs \<and>
    p_pending p' = [] \<and> p_onRecord p' = p_onRecord p \<and> p_keep p' = p_keep p"
  using assms
proof (induction pkts arbitrary: s p)
  case Nil
  obtain s' where "nxt s = (Inl e, s')" using Nil.prems(3) by (cases "nxt s") simp
  then have "p_run cb gp ie linkType nxt s p = Some (p, [], run_result e)"
    by (simp add: p_run.simps [of cb gp ie linkType nxt s p] run_result_def split: src_error.split)
  with Nil.prems show ?case by auto
next
  case (Cons pkt pkts)
  obtain data ts where pkt: "pkt = (data, ts)" by fastforce
  obtain s' where nxt: "nxt s = (Inr (data, ts), s')" and ys: "yields nxt s' pkts e"
    using Cons.prems(3) by (cases "nxt s") (simp add: pkt)
  from p_entry_ok [OF Cons.prems(1) asm_ops(1) Cons.prems(2), of data ts linkType]
  obtain q rs where q: "p_packet cb gp ie p data ts linkType = Some (q, if p_onRecord p then rs else [])"
    "pipe_ok cb gp ie q" "p_asm q = Packet cb gp (p_asm p) data ts linkType" "reported ie q = reported ie p @ rs"
    "p_pending q = []" "p_onRecord q = p_onRecord p" "p_keep q = p_keep p"
    unfolding p_packet_def by blast
  from Cons.IH [OF q(2,5) ys] obtain p' rs' where p': "p_run cb gp ie linkType nxt s' q =
      Some (p', if p_onRecord q then rs' else [], run_result e)"
    "pipe_ok cb gp ie p'" "p_asm p' = packets cb gp linkType (p_asm q) pkts" "reported ie p' = reported ie q @ rs'"
    "p_pending p' = []" "p_onRecord p' = p_onRecord q" "p_keep p' = p_keep q"
    by blast
  have "p_run cb gp ie linkType nxt s p = Some (p', if p_onRecord p then rs @ rs' else [], run_result e)"
    by (simp add: p_run.simps [of cb gp ie linkType nxt s p] nxt q(1) p'(1) q(6))
  with q p' show ?case by (intro exI [of _ p'] exI [of _ "rs @ rs'"]) (simp add: pkt)
qed

lemma read_files_ok:
  assumes "pipe_ok cb gp ie p" and "p_pending p = []"
    and "list_all (\<lambda>path. openFile path = Inr (src path) \<and>
      yields (sc_Next (src path)) (sc_state (src path)) (pkts path) SrcEOF) paths"
  shows "\<exists>p'. read_files cb gp ie openFile paths p = Some (Inr p') \<and> pipe_ok cb gp ie p' \<and> p_pending p' = [] \<and>
    p_asm p' = foldl (\<lambda>a path. packets cb gp (sc_LinkType (src path)) a (pkts path)) (p_asm p) paths \<and>
    p_keep p' = p_keep p \<and> p_onRecord p' = p_onRecord p"
  using assms
proof (induction paths arbitrary: p)
  case (Cons path paths)
  let ?s = "src path"
  have op: "openFile path = Inr ?s" and ys: "yields (sc_Next ?s) (sc_state ?s) (pkts path) SrcEOF"
    using Cons.prems(3) by simp_all
  from p_run_ok [OF Cons.prems(1,2) ys, of "sc_LinkType ?s"] obtain q rs where q:
    "p_run cb gp ie (sc_LinkType ?s) (sc_Next ?s) (sc_state ?s) p = Some (q, if p_onRecord p then rs else [], None)"
    "pipe_ok cb gp ie q" "p_asm q = packets cb gp (sc_LinkType ?s) (p_asm p) (pkts path)" "p_pending q = []"
    "p_keep q = p_keep p" "p_onRecord q = p_onRecord p"
    by (auto simp: run_result_def)
  from Cons.IH [OF q(2,4)] Cons.prems(3) obtain p' where p': "read_files cb gp ie openFile paths q = Some (Inr p')"
    "pipe_ok cb gp ie p'" "p_pending p' = []"
    "p_asm p' = foldl (\<lambda>a path. packets cb gp (sc_LinkType (src path)) a (pkts path)) (p_asm q) paths"
    "p_keep p' = p_keep q" "p_onRecord p' = p_onRecord q"
    by auto
  with q show ?case by (simp add: op)
qed simp

lemma p_finish_ok:
  fixes closeNow :: int
  assumes "pipe_ok cb gp ie p" and "p_pending p = []" and "p_keep p"
  defines "a \<equiv> Close cb gp (p_asm p) closeNow"
  defines "recs \<equiv> SortRecords (analyses ie 0 (a_handled a))"
  shows "\<exists>p' out. p_finish cb gp ie ver closeNow now sources topN withRecords p = Some
      (\<lparr>rp_Tool = ''tlscensus'', rp_Version = ver, rp_GeneratedAt = now, rp_Sources = sources, rp_Stats = a_stats a,
        rp_Summary = acc_Summary (accumulate (analyses ie 0 (a_handled a))) topN,
        rp_Aggregates = Aggregates (accumulate (analyses ie 0 (a_handled a))) 0,
        rp_Records = (if withRecords then recs else [])\<rparr>, p', out) \<and> p_records p' = recs"
proof -
  from p_entry_ok [OF assms(1) asm_ops(3) assms(2), of closeNow] obtain q rs where q:
    "p_entry ie (\<lambda>a. Close cb gp a closeNow) p = Some (q, if p_onRecord p then rs else [])" "pipe_ok cb gp ie q"
    "p_asm q = a" "p_keep q = p_keep p"
    unfolding a_def by blast
  from q(2-4) assms(3) have "p_records q = analyses ie 0 (a_handled a)" "p_acc q = accumulate (analyses ie 0 (a_handled a))"
    by (simp_all add: pipe_ok_def reported_def)
  then show ?thesis by (simp add: p_finish_def q(1) p_report_def Let_def recs_def q(3))
qed

text \<open>
  Reading capture files takes the census of all of them and of every flow in them. When each file
  opens and is read to its end, the command succeeds, never dereferencing nil: its report is that of
  one assembler that saw the packets of all files in order and was then closed, its summary that of the
  analyses of all flows the assembler reported, each once, its records are those analyses sorted, and
  the number of handshakes of the summary is the flow counter of the assembler.
\<close>

theorem read_reports_every_flow:
  assumes "rf_files fl \<noteq> []" and "validateFormat (rf_format fl)"
    and "list_all (\<lambda>path. openFile path = Inr (src path) \<and>
      yields (sc_Next (src path)) (sc_state (src path)) (pkts path) SrcEOF) (rf_files fl)"
  shows "let a = Close cb gp (foldl (\<lambda>a path. packets cb gp (sc_LinkType (src path)) a (pkts path))
               (Assembler_New \<lparr>o_MaxStreamPrefix = rf_maxPrefix fl, o_CloseTimeout = 0, o_MaxStreams = rf_maxStreams fl\<rparr>)
               (rf_files fl)) closeNow;
             all = analyses ie 0 (a_handled a);
             rep = \<lparr>rp_Tool = ''tlscensus'', rp_Version = ver, rp_GeneratedAt = now, rp_Sources = rf_files fl,
               rp_Stats = a_stats a, rp_Summary = acc_Summary (accumulate all) (rf_top fl),
               rp_Aggregates = Aggregates (accumulate all) 0,
               rp_Records = (if rf_records fl then SortRecords all else [])\<rparr>
         in runRead cb gp ie oe ce openFile ver closeNow now fl =
              Some (Inr (writeReport oe ce (rf_format fl) rep (SortRecords all), warnIfIncomplete (a_stats a))) \<and>
            su_Flows (rp_Summary rep) = s_TLSFlows (rp_Stats rep) \<and> length all = length (a_handled a)"
proof -
  let ?p = "newPipeline \<lparr>o_MaxStreamPrefix = rf_maxPrefix fl, o_CloseTimeout = 0, o_MaxStreams = rf_maxStreams fl\<rparr> True False"
  have p: "p_pending ?p = []" "p_keep ?p"
    "p_asm ?p = Assembler_New \<lparr>o_MaxStreamPrefix = rf_maxPrefix fl, o_CloseTimeout = 0, o_MaxStreams = rf_maxStreams fl\<rparr>"
    by (simp_all add: newPipeline_def)
  from read_files_ok [OF newPipeline_ok p(1) assms(3), of cb gp ie] obtain q where q:
    "read_files cb gp ie openFile (rf_files fl) ?p = Some (Inr q)" "pipe_ok cb gp ie q" "p_pending q = []"
    "p_asm q = foldl (\<lambda>a path. packets cb gp (sc_LinkType (src path)) a (pkts path)) (p_asm ?p) (rf_files fl)" "p_keep q"
    using p(2) by auto
  define a where "a = Close cb gp (p_asm q) closeNow"
  from p_finish_ok [OF q(2,3,5), where closeNow = closeNow and ver = ver and now = now and sources = "rf_files fl"
      and topN = "rf_top fl" and withRecords = "rf_records fl"] obtain p' out where fin:
    "p_finish cb gp ie ver closeNow now (rf_files fl) (rf_top fl) (rf_records fl) q = Some
      (\<lparr>rp_Tool = ''tlscensus'', rp_Version = ver, rp_GeneratedAt = now, rp_Sources = rf_files fl, rp_Stats = a_stats a,
        rp_Summary = acc_Summary (accumulate (analyses ie 0 (a_handled a))) (rf_top fl),
        rp_Aggregates = Aggregates (accumulate (analyses ie 0 (a_handled a))) 0,
        rp_Records = (if rf_records fl then SortRecords (analyses ie 0 (a_handled a)) else [])\<rparr>, p', out)"
    "p_records p' = SortRecords (analyses ie 0 (a_handled a))"
    unfolding a_def by blast
  have "reachable cb gp a" unfolding a_def using q(2) by (simp add: pipe_ok_def reachable.close)
  then have "s_TLSFlows (a_stats a) = int (length (a_handled a))" using reachable_inv by (simp add: asm_inv_def)
  moreover have "su_Flows (acc_Summary (accumulate rs) n) = int (length rs)" for rs n
    using accumulate_counters [of rs] by (simp add: acc_Summary_def Let_def)
  ultimately show ?thesis
    unfolding Let_def q(4) [symmetric, unfolded p(3)] a_def [symmetric]
    using assms(1,2) fin by (simp add: runRead_def q(1) Let_def)
qed

definition list_source :: "(bytes \<times> int) list \<Rightarrow> ((bytes \<times> int) list, string) Source" where
  "list_source pkts = \<lparr>sc_LinkType = 1,
     sc_Next = (\<lambda>s. case s of [] \<Rightarrow> (Inl SrcEOF, []) | pkt # s \<Rightarrow> (Inr pkt, s)), sc_state = pkts\<rparr>"

definition sample_env :: inv_env where
  "sample_env = \<lparr>env_ParseCertificate = (\<lambda>_. None), env_now = 0, env_quote = id\<rparr>"

theorem read_reports_every_flow_witness:
  "\<forall>oe ce. runRead string_methods no_packets (\<lambda>_. sample_env) oe ce (\<lambda>_. Inr (list_source [([1], 5), ([2], 6)])) ''1'' 7 8
     \<lparr>rf_format = ''ndjson'', rf_top = 15, rf_records = False, rf_maxPrefix = 0, rf_maxStreams = 0, rf_files = [''a.pcap'']\<rparr> =
   Some (Inr (DocNDJSON [], []))"
proof (intro allI)
  fix oe ce
  let ?a = "Close string_methods no_packets (packets string_methods no_packets 1 (Assembler_New sample_opts) [([1], 5), ([2], 6)]) 7"
  have "a_handled ?a = []" "s_StreamsDropped (a_stats ?a) = 0"
    by (simp_all add: Close_def flushQUIC_def run_call_def no_packets_def Packet_def Assembler_New_def Let_def zero_Stats_def)
  then show "runRead string_methods no_packets (\<lambda>_. sample_env) oe ce (\<lambda>_. Inr (list_source [([1], 5), ([2], 6)])) ''1'' 7 8
     \<lparr>rf_format = ''ndjson'', rf_top = 15, rf_records = False, rf_maxPrefix = 0, rf_maxStreams = 0, rf_files = [''a.pcap'']\<rparr> =
   Some (Inr (DocNDJSON [], []))"
    using read_reports_every_flow [of "\<lparr>rf_format = ''ndjson'', rf_top = 15, rf_records = False, rf_maxPrefix = 0,
        rf_maxStreams = 0, rf_files = [''a.pcap'']\<rparr>" "\<lambda>_. Inr (list_source [([1], 5), ([2], 6)])"
        "\<lambda>_. list_source [([1], 5), ([2], 6)]" "\<lambda>_. [([1], 5), ([2], 6)]" string_methods no_packets 7 "\<lambda>_. sample_env"
        "''1''" 8 oe ce]
    by (simp add: validateFormat_def list_source_def Let_def writeReport_def warnIfIncomplete_def sample_opts_def
        SortRecords_def sort_slice_def)
qed


text \<open>
  C40: A pipeline that keeps no records, as \<^verbatim>\<open>serve\<close> and \<^verbatim>\<open>watch\<close> make it, has an empty bill of
  materials at every moment: after any packets, the snapshot counts all flows the assembler reported in
  its summary but the document built from it has no component, although the same report with the
  records analysed so far would list the cryptography as soon as one of them was negotiated.
\<close>

theorem serve_cbom_empty:
  assumes "yields nxt s pkts e"
  shows "\<exists>p out. p_run cb gp ie linkType nxt s (newPipeline opts False on) = Some (p, out, run_result e) \<and>
    (let (rep, records) = p_snapshot ver now sources topN p; seen = analyses ie 0 (a_handled (p_asm p)) in
     bom_Components (buildCBOM ce rep records) = [] \<and>
     su_Flows (rp_Summary rep) = int (length seen) \<and>
     (bom_Components (buildCBOM ce rep seen) = [] \<longleftrightarrow> list_all (\<lambda>rec. \<not> negotiated rec) seen))"
proof -
  have new: "p_pending (newPipeline opts False on) = []" "\<not> p_keep (newPipeline opts False on)"
    by (simp_all add: newPipeline_def)
  from p_run_ok [OF newPipeline_ok new(1) assms, of cb gp ie linkType] new(2) obtain p out where p:
    "p_run cb gp ie linkType nxt s (newPipeline opts False on) = Some (p, out, run_result e)" "pipe_ok cb gp ie p" "\<not> p_keep p"
    by auto
  then have "p_records p = []" and acc: "p_acc p = accumulate (analyses ie 0 (a_handled (p_asm p)))"
    by (simp_all add: pipe_ok_def reported_def)
  then have snap: "p_snapshot ver now sources topN p = (p_report ver now sources topN (a_stats (p_asm p)) p, [])"
    by (simp add: p_snapshot_def SortRecords_def sort_slice_def)
  have "bom_Components (buildCBOM ce rep []) = []" for rep by (simp add: buildCBOM_def sort_strings_def sort_slice_def)
  moreover have "su_Flows (acc_Summary (accumulate rs) n) = int (length rs)" for rs n
    using accumulate_counters [of rs] by (simp add: acc_Summary_def Let_def)
  moreover have "bom_Components (buildCBOM ce rep rs) = [] \<longleftrightarrow> list_all (\<lambda>rec. \<not> negotiated rec) rs" for rep rs
  proof -
    have "bom_Components (buildCBOM ce rep rs) = [] \<longleftrightarrow> (\<Union>rec \<in> set rs. record_refs ce rec) = {}"
      using cbom_ref_set [of ce rep rs] by auto
    also have "\<dots> \<longleftrightarrow> list_all (\<lambda>rec. \<not> negotiated rec) rs" by (auto simp: list_all_iff record_refs_def)
    finally show ?thesis .
  qed
  ultimately show ?thesis using p(1) by (simp add: snap p_report_def acc)
qed

theorem serve_cbom_empty_witness:
  "\<forall>ce. \<exists>p out. p_run string_methods no_packets (\<lambda>_. sample_env) 1 (sc_Next (list_source [])) [([1], 5)]
       (newPipeline sample_opts False False) = Some (p, out, None) \<and>
     bom_Components (buildCBOM ce (fst (p_snapshot ''1'' 0 [] 5 p)) (snd (p_snapshot ''1'' 0 [] 5 p))) = []"
proof
  fix ce
  have "yields (sc_Next (list_source [])) [([1], 5)] [([1], 5)] SrcEOF" by (simp add: list_source_def)
  from serve_cbom_empty [OF this, of string_methods no_packets "\<lambda>_. sample_env" 1 sample_opts False "''1''" 0 "[]" 5 ce]
  show "\<exists>p out. p_run string_methods no_packets (\<lambda>_. sample_env) 1 (sc_Next (list_source [])) [([1], 5)]
       (newPipeline sample_opts False False) = Some (p, out, None) \<and>
     bom_Components (buildCBOM ce (fst (p_snapshot ''1'' 0 [] 5 p)) (snd (p_snapshot ''1'' 0 [] 5 p))) = []"
    by (auto simp: run_result_def Let_def case_prod_beta)
qed

end
