(* ===== verification/Watch.thy ===== *)
theory Watch
  imports Pipeline_Props
begin

text \<open>
  The concurrency of \<^verbatim>\<open>cmd/tlscensus/watch.go\<close> over the entry points of \<^verbatim>\<open>pipeline.go\<close>.

  Live capture drives the pipeline from the capture loop and from the sweeper. \<open>mu\<close> is the mutex of
  the pipeline, \<open>outMu\<close> the one the writer of \<^verbatim>\<open>watch\<close> takes for each record; a goroutine is at one of
  the points of an entry point: about to lock, holding the lock before the call, after the call, after
  \<^verbatim>\<open>takePending\<close>, then delivering, writing one record, and about to release the writer's lock.
\<close>

datatype goroutine = Capture | Sweeper

datatype entry = EPacket bytes int nat | EFlush int

datatype point =
  Idle | Waiting entry | Locked entry | Called | Taken "Record list"
| Delivering "Record list" | Writing Record "Record list" | Written "Record list"

record watch =
  w_p :: pipeline
  w_mu :: "goroutine option"
  w_outMu :: "goroutine option"
  w_pc :: "goroutine \<Rightarrow> point"
  w_out :: "Record list"

fun entry_call :: "cryptobyte \<Rightarrow> gopacket \<Rightarrow> entry \<Rightarrow> Assembler \<Rightarrow> Assembler" where
  "entry_call cb gp (EPacket data ts linkType) a = Packet cb gp a data ts linkType"
| "entry_call cb gp (EFlush t) a = FlushOlderThan cb gp a t"

definition watch_start :: "Options \<Rightarrow> bool \<Rightarrow> watch" where
  "watch_start opts keep =
     \<lparr>w_p = newPipeline opts keep True, w_mu = None, w_outMu = None, w_pc = (\<lambda>_. Idle), w_out = []\<rparr>"

text \<open>The steps inside an entry point; entering one is a step of its own.\<close>

inductive w_step :: "cryptobyte \<Rightarrow> gopacket \<Rightarrow> (nat \<Rightarrow> inv_env) \<Rightarrow> watch \<Rightarrow> watch \<Rightarrow> bool" for cb gp ie where
  lock: "w_pc w g = Waiting e \<Longrightarrow> w_mu w = None \<Longrightarrow>
    w_step cb gp ie w (w\<lparr>w_mu := Some g, w_pc := (w_pc w)(g := Locked e)\<rparr>)"
| call: "w_pc w g = Locked e \<Longrightarrow> asm_call ie (entry_call cb gp e) (w_p w) = Some p \<Longrightarrow>
    w_step cb gp ie w (w\<lparr>w_p := p, w_pc := (w_pc w)(g := Called)\<rparr>)"
| take: "w_pc w g = Called \<Longrightarrow> takePending (w_p w) = (recs, p) \<Longrightarrow>
    w_step cb gp ie w (w\<lparr>w_p := p, w_pc := (w_pc w)(g := Taken recs)\<rparr>)"
| unlock: "w_pc w g = Taken recs \<Longrightarrow>
    w_step cb gp ie w (w\<lparr>w_mu := None, w_pc := (w_pc w)(g := Delivering recs)\<rparr>)"
| outLock: "w_pc w g = Delivering (rec # recs) \<Longrightarrow> w_outMu w = None \<Longrightarrow>
    w_step cb gp ie w (w\<lparr>w_outMu := Some g, w_pc := (w_pc w)(g := Writing rec recs)\<rparr>)"
| outWrite: "w_pc w g = Writing rec recs \<Longrightarrow>
    w_step cb gp ie w (w\<lparr>w_out := w_out w @ [rec], w_pc := (w_pc w)(g := Written recs)\<rparr>)"
| outUnlock: "w_pc w g = Written recs \<Longrightarrow>
    w_step cb gp ie w (w\<lparr>w_outMu := None, w_pc := (w_pc w)(g := Delivering recs)\<rparr>)"
| return: "w_pc w g = Delivering [] \<Longrightarrow> w_step cb gp ie w (w\<lparr>w_pc := (w_pc w)(g := Idle)\<rparr>)"

inductive w_reachable :: "cryptobyte \<Rightarrow> gopacket \<Rightarrow> (nat \<Rightarrow> inv_env) \<Rightarrow> watch \<Rightarrow> bool" for cb gp ie where
  start: "w_reachable cb gp ie (watch_start opts keep)"
| enter: "w_reachable cb gp ie w \<Longrightarrow> w_pc w g = Idle \<Longrightarrow> w_reachable cb gp ie (w\<lparr>w_pc := (w_pc w)(g := Waiting e)\<rparr>)"
| step: "w_reachable cb gp ie w \<Longrightarrow> w_step cb gp ie w w' \<Longrightarrow> w_reachable cb gp ie w'"


subsection \<open>The invariant\<close>

text \<open>The records a goroutine has taken and not yet written, and the locks it holds.\<close>

fun in_flight :: "point \<Rightarrow> Record list" where
  "in_flight (Taken recs) = recs"
| "in_flight (Delivering recs) = recs"
| "in_flight (Writing rec recs) = rec # recs"
| "in_flight (Written recs) = recs"
| "in_flight _ = []"

fun holds_mu :: "point \<Rightarrow> bool" where
  "holds_mu (Locked e) = True" | "holds_mu Called = True" | "holds_mu (Taken recs) = True" | "holds_mu _ = False"

fun holds_out :: "point \<Rightarrow> bool" where
  "holds_out (Writing rec recs) = True" | "holds_out (Written recs) = True" | "holds_out _ = False"

definition w_inv :: "cryptobyte \<Rightarrow> gopacket \<Rightarrow> (nat \<Rightarrow> inv_env) \<Rightarrow> watch \<Rightarrow> bool" where
  "w_inv cb gp ie w \<longleftrightarrow>
     pipe_ok cb gp ie (w_p w) \<and> p_onRecord (w_p w) \<and>
     (\<forall>g. holds_mu (w_pc w g) \<longleftrightarrow> w_mu w = Some g) \<and> (\<forall>g. holds_out (w_pc w g) \<longleftrightarrow> w_outMu w = Some g) \<and>
     (p_pending (w_p w) \<noteq> [] \<longrightarrow> (\<exists>g. w_pc w g = Called)) \<and>
     mset (w_out w) + mset (in_flight (w_pc w Capture)) + mset (in_flight (w_pc w Sweeper)) + mset (p_pending (w_p w)) =
       mset (reported ie (w_p w))"

lemma all_goroutine: "(\<forall>g. P g) \<longleftrightarrow> P Capture \<and> P Sweeper"
  by (metis goroutine.exhaust)

lemma ex_goroutine: "(\<exists>g. P g) \<longleftrightarrow> P Capture \<or> P Sweeper"
  by (metis goroutine.exhaust)

lemmas w_inv_simps = w_inv_def all_goroutine ex_goroutine add_ac

lemma entry_call_op: "asm_op cb gp (entry_call cb gp e)"
  using asm_ops by (cases e) (simp_all add: asm_op_def)

lemma w_inv_step:
  assumes inv: "w_inv cb gp ie w" and "w_step cb gp ie w w'"
  shows "w_inv cb gp ie w'"
  using assms(2)
proof cases
  case (call g e p)
  have ok: "pipe_ok cb gp ie (w_p w)" using inv by (simp add: w_inv_def)
  from asm_call_ok [OF ok entry_call_op] call(3) obtain rs where
    "pipe_ok cb gp ie p" "reported ie p = reported ie (w_p w) @ rs" "p_onRecord p = p_onRecord (w_p w)"
    "p_pending p = p_pending (w_p w) @ (if p_onRecord (w_p w) then rs else [])"
    by (metis option.inject)
  with inv call(1,2) show ?thesis
    by (cases g) (auto simp: w_inv_simps)
next
  case (take g recs p)
  have "p = (w_p w)\<lparr>p_pending := []\<rparr>" "recs = p_pending (w_p w)" using take(3) by (simp_all add: takePending_def)
  moreover from this have "reported ie p = reported ie (w_p w)" by (simp add: reported_def)
  moreover from calculation have "pipe_ok cb gp ie p" using inv by (simp add: w_inv_def pipe_ok_def)
  ultimately show ?thesis
    using inv take(1,2) by (cases g) (auto simp: w_inv_simps)
next
  case (lock g e)
  with inv show ?thesis by (cases g) (auto simp: w_inv_simps)
next
  case (unlock g recs)
  with inv show ?thesis by (cases g) (auto simp: w_inv_simps)
next
  case (outLock g rec recs)
  with inv show ?thesis by (cases g) (auto simp: w_inv_simps)
next
  case (outWrite g rec recs)
  with inv show ?thesis by (cases g) (auto simp: w_inv_simps)
next
  case (outUnlock g recs)
  with inv show ?thesis by (cases g) (auto simp: w_inv_simps)
next
  case (return g)
  with inv show ?thesis by (cases g) (auto simp: w_inv_simps)
qed

lemma w_reachable_inv: "w_reachable cb gp ie w \<Longrightarrow> w_inv cb gp ie w"
proof (induction rule: w_reachable.induct)
  case (start opts keep)
  have "reported ie (newPipeline opts keep True) = []" by (simp add: reported_def newPipeline_def Assembler_New_def Let_def)
  moreover have "p_pending (newPipeline opts keep True) = []" "p_onRecord (newPipeline opts keep True)"
    by (simp_all add: newPipeline_def)
  ultimately show ?case by (simp add: w_inv_simps watch_start_def newPipeline_ok)
next
  case (enter w g e)
  then show ?case by (cases g) (auto simp: w_inv_simps)
qed (rule w_inv_step)


subsection \<open>Progress and termination\<close>

fun entering :: "point \<Rightarrow> nat" where
  "entering (Waiting e) = 2" | "entering (Locked e) = 1" | "entering _ = 0"

fun remaining :: "point \<Rightarrow> nat" where
  "remaining Called = 3"
| "remaining (Taken recs) = 3 * length recs + 2"
| "remaining (Delivering recs) = 3 * length recs + 1"
| "remaining (Writing rec recs) = 3 * length recs + 3"
| "remaining (Written recs) = 3 * length recs + 2"
| "remaining _ = 0"

definition w_entering :: "watch \<Rightarrow> nat" where
  "w_entering w = entering (w_pc w Capture) + entering (w_pc w Sweeper)"

definition w_remaining :: "watch \<Rightarrow> nat" where
  "w_remaining w = remaining (w_pc w Capture) + remaining (w_pc w Sweeper) + 3 * length (p_pending (w_p w))"

lemma w_step_decreases:
  assumes "w_step cb gp ie w w'"
  shows "w_entering w' < w_entering w \<or> w_entering w' = w_entering w \<and> w_remaining w' < w_remaining w"
  using assms
proof cases
  case (take g recs p)
  then show ?thesis by (cases g) (auto simp: w_entering_def w_remaining_def takePending_def)
next
  case (call g e p)
  then show ?thesis by (cases g) (simp_all add: w_entering_def)
next
  case (lock g e)
  then show ?thesis by (cases g) (simp_all add: w_entering_def)
next
  case (unlock g recs)
  then show ?thesis by (cases g) (simp_all add: w_entering_def w_remaining_def)
next
  case (outLock g rec recs)
  then show ?thesis by (cases g) (simp_all add: w_entering_def w_remaining_def)
next
  case (outWrite g rec recs)
  then show ?thesis by (cases g) (simp_all add: w_entering_def w_remaining_def)
next
  case (outUnlock g recs)
  then show ?thesis by (cases g) (simp_all add: w_entering_def w_remaining_def)
next
  case (return g)
  then show ?thesis by (cases g) (simp_all add: w_entering_def w_remaining_def)
qed

lemma w_step_wf: "wf {(w', w). w_step cb gp ie w w'}"
  by (rule wf_subset [of "measures [w_entering, w_remaining]"]) (auto dest: w_step_decreases)

lemma w_progress:
  assumes inv: "w_inv cb gp ie w" and busy: "w_pc w g \<noteq> Idle"
  shows "\<exists>w'. w_step cb gp ie w w'"
proof -
  have mu: "holds_mu (w_pc w g) \<longleftrightarrow> w_mu w = Some g" and out: "holds_out (w_pc w g) \<longleftrightarrow> w_outMu w = Some g" for g
    using inv by (simp_all add: w_inv_def)
  have in_mu: "\<exists>w'. w_step cb gp ie w w'" if h: "holds_mu (w_pc w h)" for h
  proof (cases "w_pc w h")
    case (Locked e)
    have "pipe_ok cb gp ie (w_p w)" using inv by (simp add: w_inv_def)
    from asm_call_ok [OF this entry_call_op] obtain p where "asm_call ie (entry_call cb gp e) (w_p w) = Some p" by metis
    with Locked show ?thesis by (blast intro: w_step.call)
  next
    case Called
    then show ?thesis by (blast intro: w_step.take [OF _ takePending_def])
  next
    case (Taken recs)
    then show ?thesis by (blast intro: w_step.unlock)
  qed (use h in simp_all)
  have in_out: "\<exists>w'. w_step cb gp ie w w'" if h: "holds_out (w_pc w h)" for h
  proof (cases "w_pc w h")
    case (Writing rec recs)
    then show ?thesis by (blast intro: w_step.outWrite)
  next
    case (Written recs)
    then show ?thesis by (blast intro: w_step.outUnlock)
  qed (use h in simp_all)
  have free: "\<exists>w'. w_step cb gp ie w w'" if "w_mu w = None" "w_outMu w = None"
  proof (cases "w_pc w g")
    case (Waiting e)
    then show ?thesis using that by (blast intro: w_step.lock)
  next
    case (Delivering recs)
    then show ?thesis using that by (cases recs) (blast intro: w_step.outLock w_step.return)+
  qed (use busy that mu [of g] out [of g] in simp_all)
  show ?thesis
    using mu out in_mu in_out free by (metis option.exhaust)
qed

lemma w_drains:
  assumes "w_inv cb gp ie w"
  shows "\<exists>w'. (w_step cb gp ie)\<^sup>*\<^sup>* w w' \<and> (\<forall>g. w_pc w' g = Idle) \<and> w_inv cb gp ie w'"
  using w_step_wf [of cb gp ie] assms
proof (induction w rule: wf_induct_rule)
  case (less w)
  show ?case
  proof (cases "\<forall>g. w_pc w g = Idle")
    case False
    then obtain v where v: "w_step cb gp ie w v" using w_progress [OF less.prems] by blast
    with less.IH [of v] w_inv_step [OF less.prems v] show ?thesis by (blast intro: converse_rtranclp_into_rtranclp)
  qed (use less.prems in blast)
qed

lemma w_idle_out:
  assumes "w_inv cb gp ie w" and "\<forall>g. w_pc w g = Idle"
  shows "mset (w_out w) = mset (reported ie (w_p w))"
proof -
  have "p_pending (w_p w) = []" using assms by (auto simp: w_inv_def)
  with assms show ?thesis by (simp add: w_inv_def)
qed


subsection \<open>Properties\<close>

text \<open>
  C20: Under every interleaving of the capture loop and the sweeper each reported flow is analysed,
  counted and delivered exactly once: what was written, what the two goroutines have taken and not yet
  written, and what is queued make up the analyses of the flows the assembler reported; the assembler
  is driven by one goroutine at a time, the accumulator has those analyses, in order, and when both
  goroutines are idle all of them have been written.
\<close>

theorem delivered_exactly_once:
  assumes "w_reachable cb gp ie w"
  shows "let flows = analyses ie 0 (a_handled (p_asm (w_p w))) in
    mset (w_out w) + mset (in_flight (w_pc w Capture)) + mset (in_flight (w_pc w Sweeper)) + mset (p_pending (w_p w)) = mset flows \<and>
    \<not> (holds_mu (w_pc w Capture) \<and> holds_mu (w_pc w Sweeper)) \<and>
    reachable cb gp (p_asm (w_p w)) \<and> p_acc (w_p w) = accumulate flows \<and>
    (w_pc w Capture = Idle \<and> w_pc w Sweeper = Idle \<longrightarrow> mset (w_out w) = mset flows)"
proof -
  note inv = w_reachable_inv [OF assms]
  from w_idle_out [OF inv] have "w_pc w Capture = Idle \<and> w_pc w Sweeper = Idle \<longrightarrow> mset (w_out w) = mset (reported ie (w_p w))"
    by (simp add: all_goroutine)
  moreover have "\<not> (holds_mu (w_pc w Capture) \<and> holds_mu (w_pc w Sweeper))" using inv by (simp add: w_inv_def)
  ultimately show ?thesis using inv by (simp add: w_inv_def pipe_ok_def reported_def [symmetric] Let_def)
qed

text \<open>
  C21: The two mutexes never deadlock. In every reachable state a goroutine that is inside an entry
  point implies that some goroutine can take a step, there is no infinite run without a new packet or
  tick, and the steps lead to a state where both goroutines are idle and every analysis was written.
\<close>

theorem watch_never_deadlocks:
  assumes "w_reachable cb gp ie w"
  shows "((\<exists>g. w_pc w g \<noteq> Idle) \<longrightarrow> (\<exists>w'. w_step cb gp ie w w')) \<and>
    (\<nexists>run. run 0 = w \<and> (\<forall>i. w_step cb gp ie (run i) (run (Suc i)))) \<and>
    (\<exists>w'. (w_step cb gp ie)\<^sup>*\<^sup>* w w' \<and> (\<forall>g. w_pc w' g = Idle) \<and>
       mset (w_out w') = mset (analyses ie 0 (a_handled (p_asm (w_p w')))))"
proof -
  note inv = w_reachable_inv [OF assms]
  have "\<nexists>run. run 0 = w \<and> (\<forall>i. w_step cb gp ie (run i) (run (Suc i)))"
    using w_step_wf [of cb gp ie] unfolding wf_iff_no_infinite_down_chain by blast
  moreover have "\<exists>w'. (w_step cb gp ie)\<^sup>*\<^sup>* w w' \<and> (\<forall>g. w_pc w' g = Idle) \<and>
      mset (w_out w') = mset (analyses ie 0 (a_handled (p_asm (w_p w'))))"
    using w_drains [OF inv] w_idle_out unfolding reported_def by metis
  ultimately show ?thesis using w_progress [OF inv] by blast
qed

definition sample_watch :: watch where
  "sample_watch = (watch_start sample_opts False)\<lparr>w_pc := (\<lambda>_. Idle)(Capture := Waiting (EPacket [1] 5 1), Sweeper := Waiting (EFlush 3))\<rparr>"

lemma sample_watch_reachable: "w_reachable cb gp ie sample_watch"
  using w_reachable.enter [OF w_reachable.enter [OF w_reachable.start [of cb gp ie sample_opts False], of Capture "EPacket [1] 5 1"],
      of Sweeper "EFlush 3"]
  by (simp add: sample_watch_def watch_start_def)

theorem delivered_exactly_once_witness:
  "w_out sample_watch = [] \<and> p_acc (w_p sample_watch) = accumulate []"
proof -
  have "a_handled (p_asm (w_p sample_watch)) = []"
    by (simp add: sample_watch_def watch_start_def newPipeline_def Assembler_New_def Let_def)
  with delivered_exactly_once [OF sample_watch_reachable [of string_methods no_packets "\<lambda>_. sample_env"]]
  show ?thesis by (simp add: Let_def)
qed

theorem watch_never_deadlocks_witness:
  "\<exists>w'. (w_step string_methods no_packets (\<lambda>_. sample_env))\<^sup>*\<^sup>* sample_watch w' \<and> w_pc w' Capture = Idle \<and> w_pc w' Sweeper = Idle"
  using watch_never_deadlocks [OF sample_watch_reachable [of string_methods no_packets "\<lambda>_. sample_env"]] by blast

end
