(* ===== verification/Html.thy ===== *)
theory Html
  imports Report
begin

text \<open>
  \<^verbatim>\<open>internal/report/html.go\<close>: the view the page template renders. The template itself and its
  execution are \<^verbatim>\<open>html/template\<close>'s. Percentages and widths are \<^verbatim>\<open>float64\<close> values; \<open>html_env\<close> holds the
  formats of numbers and times: one decimal, RFC 1123, date and time, time with zone.
\<close>

record html_env =
  he_fixed1 :: "rat \<Rightarrow> string"
  he_RFC1123 :: "int \<Rightarrow> string"
  he_DateTime :: "int \<Rightarrow> string"
  he_TimeZone :: "int \<Rightarrow> string"

record htmlTile =
  ti_Label :: string
  ti_Value :: string
  ti_Note :: string

record htmlSeg =
  sg_Label :: string
  sg_Count :: int
  sg_Pct :: rat
  sg_Width :: rat
  sg_Class :: string
  sg_Direct :: bool

record htmlBar =
  ba_Name :: string
  ba_Count :: int
  ba_Pct :: rat
  ba_Width :: rat

record htmlSection =
  hs_Title :: string
  hs_Note :: string
  hs_Rows :: "htmlBar list"

record htmlFinding =
  hf_Severity :: string
  hf_Class :: string
  hf_Icon :: string
  hf_ID :: string
  hf_Count :: int
  hf_Detail :: string

record htmlView =
  hv_Report :: Report
  hv_Generated :: string
  hv_Window :: string
  hv_HeroValue :: string
  hv_HeroLabel :: string
  hv_HeroNote :: string
  hv_HasHero :: bool
  hv_Tiles :: "htmlTile list"
  hv_Ladder :: "htmlSeg list"
  hv_LadderTotal :: int
  hv_Findings :: "htmlFinding list"
  hv_Sections :: "htmlSection list"
  hv_Aggregates :: "Aggregate list"
  hv_Truncated :: int
  hv_Refresh :: int
  hv_Live :: bool

definition maxHTMLRows :: nat where "maxHTMLRows = 2000"

definition pqLadder :: "(PQStatus \<times> string \<times> string) list" where
  "pqLadder =
     [(PQUnknown, ''Unknown'', ''pq-unknown''),
      (PQClassical, ''Classical only'', ''pq-0''),
      (PQAdvertised, ''Advertised, not offered'', ''pq-1''),
      (PQOffered, ''Offered, not selected'', ''pq-2''),
      (PQNegotiated, ''Post-quantum'', ''pq-3'')]"

text \<open>A severity that is not in the map has the zero value, two empty strings.\<close>

definition severityClass :: "Severity \<Rightarrow> string \<times> string" where
  "severityClass sev =
     (if sev = SevCritical then (''sev-critical'', [CHR 0xe2, CHR 0x9c, CHR 0x95])
      else if sev = SevHigh then (''sev-high'', [CHR 0xe2, CHR 0x96, CHR 0xb2])
      else if sev = SevMedium then (''sev-medium'', [CHR 0xe2, CHR 0x97, CHR 0x86])
      else if sev = SevLow then (''sev-low'', [CHR 0xe2, CHR 0x97, CHR 0x8f])
      else if sev = SevInfo then (''sev-info'', [CHR 0xe2, CHR 0x97, CHR 0x8b])
      else ([], []))"

definition compact :: "html_env \<Rightarrow> int \<Rightarrow> string" where
  "compact env n =
     (if n \<ge> 1000000 then he_fixed1 env (float_div (float64 (of_int n)) (10 ^ 6)) @ ''M''
      else if n \<ge> 10000 then he_fixed1 env (float_div (float64 (of_int n)) (10 ^ 3)) @ ''K''
      else dec_int n)"

definition distSection :: "string \<Rightarrow> string \<Rightarrow> Count list \<Rightarrow> int \<Rightarrow> htmlSection" where
  "distSection title note counts tot =
     (let mx = foldl (\<lambda>mx c. if co_Count c > mx then co_Count c else mx) 0 counts
      in \<lparr>hs_Title = title, hs_Note = note,
          hs_Rows = map (\<lambda>c. \<lparr>ba_Name = co_Name c, ba_Count = co_Count c,
            ba_Pct = (if tot > 0 then percent (co_Count c) tot else 0),
            ba_Width = (if mx > 0 then percent (co_Count c) mx else 0)\<rparr>) counts\<rparr>)"

text \<open>\<^verbatim>\<open>counts[c.Name] = c.Count\<close>: a later row of the same name replaces an earlier one.\<close>

definition status_count :: "Count list \<Rightarrow> PQStatus \<Rightarrow> int" where
  "status_count pq status =
     foldl (\<lambda>n c. if co_Name c = status then co_Count c else n) 0 pq"

definition ladder_seg :: "int \<Rightarrow> int \<Rightarrow> string \<Rightarrow> string \<Rightarrow> htmlSeg" where
  "ladder_seg flows n label cls =
     (let width = (if flows > 0 then percent n flows else 0)
      in \<lparr>sg_Label = label, sg_Count = n, sg_Pct = width, sg_Width = width, sg_Class = cls, sg_Direct = (width \<ge> 12)\<rparr>)"

definition ladder :: "Summary \<Rightarrow> htmlSeg list" where
  "ladder s =
     concat (map (\<lambda>(status, label, cls).
       let n = status_count (su_PQ s) status
       in if n = 0 then [] else [ladder_seg (su_Flows s) n label cls]) pqLadder)"

definition view_tiles :: "html_env \<Rightarrow> Summary \<Rightarrow> Stats \<Rightarrow> htmlTile list" where
  "view_tiles env s st =
     (let responsesNote = (if su_Flows s > su_ServerObserved s
            then dec_int (su_Flows s - su_ServerObserved s) @ '' report only what the client offered'' else [])
      in [\<lparr>ti_Label = ''TLS handshakes'', ti_Value = compact env (su_Flows s), ti_Note = []\<rparr>,
          \<lparr>ti_Label = ''Server responses seen'', ti_Value = compact env (su_ServerObserved s), ti_Note = responsesNote\<rparr>,
          \<lparr>ti_Label = ''Connections examined'', ti_Value = compact env (s_Streams st),
           ti_Note = compact env (s_RejectedTCP st) @ '' discarded as non-TLS''\<rparr>] @
         (if su_ECHOffered s > 0 then
            [\<lparr>ti_Label = ''ECH extension seen'', ti_Value = compact env (su_ECHOffered s),
              ti_Note = (if su_ECHLikelyGREASE s > 0
                         then compact env (su_ECHLikelyGREASE s) @ '' shown to be GREASE by a varying config_id''
                         else ''mostly GREASE '' @ [CHR 0xe2, CHR 0x80, CHR 0x94] @ '' real ECH is indistinguishable to an observer'')\<rparr>]
          else []))"

definition view_findings :: "FindingCount list \<Rightarrow> htmlFinding list" where
  "view_findings fs =
     map (\<lambda>f. \<lparr>hf_Severity = fc_Severity f, hf_Class = fst (severityClass (fc_Severity f)),
           hf_Icon = snd (severityClass (fc_Severity f)), hf_ID = fc_ID f, hf_Count = fc_Count f, hf_Detail = fc_Example f\<rparr>) fs"

definition view_sections :: "Summary \<Rightarrow> htmlSection list" where
  "view_sections s =
     [distSection ''Protocol version'' [] (su_Versions s) (su_Flows s),
      distSection ''Cipher suite'' ''negotiated'' (su_Ciphers s) (su_ServerObserved s),
      distSection ''Key exchange group'' ''negotiated'' (su_Groups s) (su_ServerObserved s),
      distSection ''Transport'' [] (su_Transports s) (su_Flows s),
      distSection ''ALPN'' [] (su_ALPN s) (su_Flows s),
      distSection ''Server name'' [] (su_ServerName s) (su_Flows s),
      distSection ''Client fingerprint'' ''JA4'' (su_JA4 s) (su_Flows s)]"

definition buildView :: "html_env \<Rightarrow> Report \<Rightarrow> Aggregate list \<Rightarrow> htmlView" where
  "buildView env r aggs =
     (let s = rp_Summary r; hero = su_ServerObserved s > 0
      in \<lparr>hv_Report = r, hv_Generated = he_RFC1123 env (rp_GeneratedAt r),
          hv_Window = (if su_FirstSeen s \<noteq> 0
            then he_DateTime env (su_FirstSeen s) @ '' '' @ [CHR 0xe2, CHR 0x80, CHR 0x94] @ '' '' @ he_TimeZone env (su_LastSeen s)
            else []),
          hv_HeroValue = (if hero then he_fixed1 env (float_mul (su_PQReadiness s) 100) @ ''%'' else []),
          hv_HeroLabel = (if hero then ''Post-quantum readiness'' else []),
          hv_HeroNote = (if hero
            then ''of '' @ dec_int (su_ServerObserved s) @ '' observed negotiations used a post-quantum key exchange'' else []),
          hv_HasHero = hero,
          hv_Tiles = view_tiles env s (rp_Stats r),
          hv_Ladder = ladder s, hv_LadderTotal = su_Flows s,
          hv_Findings = view_findings (su_Findings s),
          hv_Sections = view_sections s,
          hv_Aggregates = (if length aggs > maxHTMLRows then take maxHTMLRows aggs else aggs),
          hv_Truncated = (if length aggs > maxHTMLRows then int (length aggs) - int maxHTMLRows else 0),
          hv_Refresh = 0, hv_Live = False\<rparr>)"

text \<open>What the two writers hand to the template.\<close>

definition html_view :: "html_env \<Rightarrow> Report \<Rightarrow> htmlView" where
  "html_view env r = buildView env r (rp_Aggregates r)"

definition live_html_view :: "html_env \<Rightarrow> Report \<Rightarrow> int \<Rightarrow> htmlView" where
  "live_html_view env r refreshSeconds =
     (buildView env r (rp_Aggregates r))\<lparr>hv_Refresh := refreshSeconds, hv_Live := True\<rparr>"

end
