(* ===== verification/Html_Props.thy ===== *)
theory Html_Props
  imports Html Pipeline_Props
begin

text \<open>The figures of the page agree with each other and with the records.\<close>

lemma status_count_filter:
  "distinct (map co_Name pq) \<Longrightarrow> status_count pq status = sum_list (map co_Count (filter (\<lambda>c. co_Name c = status) pq))"
proof -
  have none: "status \<notin> set (map co_Name pq) \<Longrightarrow>
      foldl (\<lambda>n c. if co_Name c = status then co_Count c else n) n pq = n" for n and pq :: "Count list"
    by (induction pq arbitrary: n) auto
  have "distinct (map co_Name pq) \<Longrightarrow>
      foldl (\<lambda>n c. if co_Name c = status then co_Count c else n) n pq =
        (if status \<in> set (map co_Name pq) then sum_list (map co_Count (filter (\<lambda>c. co_Name c = status) pq)) else n)" for n and pq :: "Count list"
  proof (induction pq arbitrary: n)
    case (Cons c pq)
    have empty: "co_Name c = status \<Longrightarrow> filter (\<lambda>c. co_Name c = status) pq = []"
      using Cons.prems unfolding filter_empty_conv by (metis distinct.simps(2) image_eqI list.set_map list.simps(9))
    show ?case
    proof (cases "co_Name c = status")
      case True
      then show ?thesis using Cons.prems none [of pq "co_Count c"] empty by auto
    next
      case False
      then show ?thesis using Cons by auto
    qed
  qed simp
  moreover have "status \<notin> set (map co_Name pq) \<Longrightarrow> filter (\<lambda>c. co_Name c = status) (pq :: Count list) = []"
    by (auto simp: filter_empty_conv)
  ultimately show "distinct (map co_Name pq) \<Longrightarrow> ?thesis" by (auto simp: status_count_def)
qed

lemma status_count_tally:
  assumes "status \<noteq> []"
  shows "status_count (rank (tally ks) 0) status = int (count (mset ks) status)"
proof -
  let ?row = "\<lambda>(k, v). \<lparr>co_Name = k, co_Count = v\<rparr>"
  define rows where "rows = map ?row (filter (\<lambda>(k, v). k \<noteq> []) (tally ks))"
  have rank: "rank (tally ks) 0 = sort_slice count_less rows" by (simp add: rank_def rows_def top_def)
  have m: "mset (rank (tally ks) 0) = mset rows" by (simp add: rank)
  have "map co_Name rows = map fst (filter (\<lambda>(k, v). k \<noteq> []) (tally ks))"
    by (simp add: rows_def comp_def case_prod_beta)
  then have "distinct (map co_Name rows)" using distinct_tally [of ks] by (simp add: distinct_map_filter)
  then have d: "distinct (map co_Name (rank (tally ks) 0))"
    using mset_eq_imp_distinct_iff [of "map co_Name (rank (tally ks) 0)" "map co_Name rows"] m by (simp add: mset_map)
  have "sum_list (map co_Count (filter (\<lambda>c. co_Name c = status) (rank (tally ks) 0))) =
      sum_list (map co_Count (filter (\<lambda>c. co_Name c = status) rows))"
    unfolding sum_mset_sum_list [symmetric] by (simp add: mset_map mset_filter m)
  also have "\<dots> = sum_list (map snd (filter (\<lambda>(k, v). k = status) (tally ks)))"
  proof -
    have "map co_Count (filter (\<lambda>c. co_Name c = status) (map ?row (filter (\<lambda>(k, v). k \<noteq> []) m))) =
        map snd (filter (\<lambda>(k, v). k = status) m)" for m :: "(string \<times> int) list"
      using assms by (induction m) auto
    then show ?thesis by (simp add: rows_def)
  qed
  also have "\<dots> = lookup0 (tally ks) status"
  proof -
    have "distinct (map fst m) \<Longrightarrow> sum_list (map snd (filter (\<lambda>(k, v). k = status) m)) = lookup0 m status" for m :: "(string \<times> int) list"
    proof (induction m)
      case (Cons p m)
      have "fst p = status \<Longrightarrow> filter (\<lambda>(k, v). k = status) m = []" using Cons.prems by (auto simp: filter_empty_conv intro: rev_image_eqI)
      with Cons show ?case by (auto simp: lookup0_def)
    qed (simp add: lookup0_def)
    then show ?thesis using distinct_tally by blast
  qed
  finally show ?thesis by (simp add: status_count_filter [OF d] lookup0_tally)
qed

lemma Analyze_PQ:
  assumes "Analyze env f = Some r" and "fl_Client f = Some ch"
  shows "r_PQ r = pqStatus f ch"
  using assms by (simp add: Analyze_def Let_def case_prod_beta) (drule sym, simp)

lemma Analyze_ladder:
  assumes "Analyze env f = Some r"
  shows "r_PQ r \<in> fst ` set pqLadder"
proof -
  obtain ch where ch: "fl_Client f = Some ch" using assms by (cases "fl_Client f") (simp_all add: Analyze_def)
  show ?thesis unfolding Analyze_PQ [OF assms ch]
    by (auto simp: pqStatus_def pqLadder_def Let_def split: option.split)
qed

text \<open>
  C27: The readiness ladder accounts for every handshake. When the summary of the report is that of a
  list of analyses, the counts of the segments add up to the number of handshakes, and no two segments have
  the same label. The width of a segment is the percentage its count is of the handshakes, as \<^verbatim>\<open>float64\<close> computes
  it: between 0 and 100 and within a ten-millionth of a millionth of the exact figure, so the widths add up
  to one hundred up to that rounding (and not exactly: three segments of one handshake each fall short of it).
  Of the inventory rows, those shown and those the page says it left out are all.
\<close>

theorem ladder_accounts_for_every_flow:
  assumes "\<forall>r \<in> set rs. \<exists>ie f. Analyze ie f = Some r" and "rs \<noteq> []" and "rp_Summary rep = acc_Summary (accumulate rs) topN"
  shows "let v = html_view env rep in
    sum_list (map sg_Count (hv_Ladder v)) = hv_LadderTotal v \<and> hv_LadderTotal v = int (length rs) \<and>
    list_all (\<lambda>g. 0 < sg_Count g \<and> 0 \<le> sg_Width g \<and> sg_Width g \<le> 100 \<and> sg_Pct g = sg_Width g \<and>
      \<bar>sg_Width g - 100 * of_int (sg_Count g) / of_int (hv_LadderTotal v)\<bar> \<le> 1 / 10 ^ 13) (hv_Ladder v) \<and>
    \<bar>sum_list (map sg_Width (hv_Ladder v)) - 100\<bar> \<le> 1 / 10 ^ 13 \<and>
    distinct (map sg_Label (hv_Ladder v)) \<and>
    int (length (hv_Aggregates v)) + hv_Truncated v = int (length (rp_Aggregates rep))"
proof -
  have on_ladder: "list_all (\<lambda>r. r_PQ r \<in> fst ` set pqLadder) rs"
    using assms(1) Analyze_ladder by (auto simp: list_all_iff)
  let ?ks = "map r_PQ rs" and ?n = "int (length rs)"
  let ?s = "acc_Summary (accumulate rs) topN"
  have flows: "su_Flows ?s = ?n" and pq: "su_PQ ?s = rank (tally ?ks) 0"
    using accumulate_counters [of rs] by (simp_all add: acc_Summary_def Let_def accumulate_maps keys_of_def)
  have cnt: "status_count (su_PQ ?s) status = int (count (mset ?ks) status)" if "status \<in> fst ` set pqLadder" for status
    unfolding pq by (rule status_count_tally) (use that in \<open>auto simp: pqLadder_def pq_defs\<close>)
  have parts: "ladder ?s = concat (map (\<lambda>(status, label, cls).
      if count (mset ?ks) status = 0 then [] else [ladder_seg ?n (int (count (mset ?ks) status)) label cls]) pqLadder)"
    unfolding ladder_def Let_def flows
  proof (intro arg_cong [of _ _ concat] map_cong refl)
    fix e assume e: "e \<in> set pqLadder"
    obtain status label cls where e': "e = (status, label, cls)" by (cases e)
    have "status \<in> fst ` set pqLadder" using e unfolding e' by (rule rev_image_eqI) simp
    from cnt [OF this] show "(case e of (status, label, cls) \<Rightarrow>
          if status_count (su_PQ ?s) status = 0 then [] else [ladder_seg ?n (status_count (su_PQ ?s) status) label cls]) =
        (case e of (status, label, cls) \<Rightarrow>
          if count (mset ?ks) status = 0 then [] else [ladder_seg ?n (int (count (mset ?ks) status)) label cls])"
      by (simp add: e' del: count_eq_zero_iff mset_map)
  qed
  have sum: "(\<Sum>e \<leftarrow> pqLadder. int (count (mset ?ks) (fst e))) = ?n"
  proof -
    have "list_all (\<lambda>k. k \<in> fst ` set pqLadder) ks \<Longrightarrow> (\<Sum>e \<leftarrow> pqLadder. int (count (mset ks) (fst e))) = int (length ks)" for ks
      by (induction ks) (auto simp: pqLadder_def pq_defs)
    then show ?thesis by (rule trans) (use on_ladder in \<open>auto simp: list_all_iff\<close>)
  qed
  have counts: "sum_list (map sg_Count (ladder ?s)) = (\<Sum>e \<leftarrow> pqLadder. int (count (mset ?ks) (fst e)))"
    unfolding parts by (simp add: pqLadder_def ladder_seg_def Let_def)
  have n: "0 < ?n" using assms(2) by simp
  have widths: "\<bar>sum_list (map sg_Width segs) - 100 * of_int (sum_list (map sg_Count segs)) / of_int ?n\<bar>
      \<le> of_int (sum_list (map sg_Count segs)) / of_int ?n / 10 ^ 13"
    if "list_all (\<lambda>g. 0 < sg_Count g \<and> sg_Width g = percent (sg_Count g) ?n) segs" for segs
    using that
  proof (induction segs)
    case (Cons g segs)
    let ?w = "sum_list (map sg_Width segs)" and ?c = "of_int (sum_list (map sg_Count segs)) / of_int ?n :: rat"
    let ?e = "of_int (sg_Count g) / of_int ?n :: rat"
    have "\<bar>sg_Width g - 100 * ?e\<bar> \<le> ?e / 10 ^ 13" using percent_error [of "sg_Count g" ?n] Cons.prems n by simp
    moreover have "\<bar>?w - 100 * ?c\<bar> \<le> ?c / 10 ^ 13" using Cons by simp
    ultimately have "\<bar>(sg_Width g + ?w) - 100 * (?e + ?c)\<bar> \<le> (?e + ?c) / 10 ^ 13" by (simp add: abs_le_iff add_divide_distrib)
    then show ?case by (simp add: add_divide_distrib)
  qed simp
  have segs: "list_all (\<lambda>g. 0 < sg_Count g \<and> sg_Count g \<le> ?n \<and> sg_Pct g = sg_Width g \<and> sg_Width g = percent (sg_Count g) ?n) (ladder ?s)"
    using n count_le_size [of "mset ?ks"] unfolding parts
    by (simp add: pqLadder_def ladder_seg_def Let_def)
  then have seg: "list_all (\<lambda>g. 0 < sg_Count g \<and> 0 \<le> sg_Width g \<and> sg_Width g \<le> 100 \<and> sg_Pct g = sg_Width g \<and>
      \<bar>sg_Width g - 100 * of_int (sg_Count g) / of_int ?n\<bar> \<le> 1 / 10 ^ 13) (ladder ?s)"
  proof (rule list.pred_mono_strong)
    fix g assume g: "0 < sg_Count g \<and> sg_Count g \<le> ?n \<and> sg_Pct g = sg_Width g \<and> sg_Width g = percent (sg_Count g) ?n"
    have "of_int (sg_Count g) / of_int ?n \<le> (1 :: rat)" using g n by simp
    then have "of_int (sg_Count g) / of_int ?n / 10 ^ 13 \<le> (1 / 10 ^ 13 :: rat)" by (rule divide_right_mono) simp
    moreover have "\<bar>sg_Width g - 100 * of_int (sg_Count g) / of_int ?n\<bar> \<le> of_int (sg_Count g) / of_int ?n / 10 ^ 13"
      using g n percent_error [of "sg_Count g" ?n] by simp
    ultimately have "\<bar>sg_Width g - 100 * of_int (sg_Count g) / of_int ?n\<bar> \<le> 1 / 10 ^ 13" by (rule order_trans [rotated])
    then show "0 < sg_Count g \<and> 0 \<le> sg_Width g \<and> sg_Width g \<le> 100 \<and> sg_Pct g = sg_Width g \<and>
        \<bar>sg_Width g - 100 * of_int (sg_Count g) / of_int ?n\<bar> \<le> 1 / 10 ^ 13"
      using g n percent_bounds [of "sg_Count g" ?n] by simp
  qed
  have "distinct (map sg_Label (ladder ?s))"
    unfolding parts by (simp add: pqLadder_def ladder_seg_def Let_def)
  moreover have "\<bar>sum_list (map sg_Width (ladder ?s)) - 100\<bar> \<le> 1 / 10 ^ 13"
    using widths [of "ladder ?s"] segs n unfolding counts sum by (simp add: list_all_iff)
  ultimately show ?thesis
    using counts sum seg by (simp add: html_view_def buildView_def Let_def assms(3) flows)
qed

text \<open>Three segments of a third each: the sum of the three percentages is not one hundred.\<close>

lemma thirds_fall_short: "3 * percent 1 3 < 100"
  by code_simp

definition sample_analysis :: Record where
  "sample_analysis = the (Analyze sample_env
     \<lparr>fl_Transport = ''tcp'', fl_ClientIP = AddrNone, fl_ServerIP = AddrNone, fl_ClientPort = 50000, fl_ServerPort = 443,
      fl_FirstSeen = 1, fl_LastSeen = 2, fl_Client = Some empty_ClientHello, fl_Server = None, fl_PrefixTruncated = False\<rparr>)"

theorem ladder_accounts_for_every_flow_witness:
  "\<forall>env. sum_list (map sg_Count (hv_Ladder (html_view env
     (p_report ''1'' 0 [] 5 zero_Stats \<lparr>p_asm = Assembler_New sample_opts, p_acc = accumulate [sample_analysis],
        p_records = [], p_pending = [], p_onRecord = False, p_keep = False\<rparr>)))) = 1"
proof
  fix env
  let ?rep = "p_report ''1'' 0 [] 5 zero_Stats \<lparr>p_asm = Assembler_New sample_opts, p_acc = accumulate [sample_analysis],
        p_records = [], p_pending = [], p_onRecord = False, p_keep = False\<rparr>"
  have "\<exists>ie f. Analyze ie f = Some sample_analysis"
    unfolding sample_analysis_def by (metis Analyze_total Flow.select_convs(8) option.sel option.distinct(1))
  moreover have "rp_Summary ?rep = acc_Summary (accumulate [sample_analysis]) 5" by (simp add: p_report_def)
  ultimately show "sum_list (map sg_Count (hv_Ladder (html_view env ?rep))) = 1"
    using ladder_accounts_for_every_flow [of "[sample_analysis]" ?rep 5 env] by (simp add: Let_def)
qed

end
