(* ===== verification/Go_Strconv.thy ===== *)
theory Go_Strconv
  imports Go_Utf8
begin

text \<open>
  The parts of \<^verbatim>\<open>strconv\<close>, \<^verbatim>\<open>strings\<close> and \<^verbatim>\<open>net/url\<close> that the commands use: numbers with the
  prefixes and underscores of Go literals, booleans, splitting and trimming, percent-encoding.
\<close>


subsection \<open>Numbers\<close>

datatype num_error = ErrSyntax | ErrRange

definition char_code :: "char \<Rightarrow> nat" where "char_code c = of_char c"

definition is_digit :: "char \<Rightarrow> bool" where "is_digit c \<longleftrightarrow> 48 \<le> char_code c \<and> char_code c \<le> 57"

definition is_letter :: "char \<Rightarrow> bool" where
  "is_letter c \<longleftrightarrow> 97 \<le> char_code (ascii_lower c) \<and> char_code (ascii_lower c) \<le> 122"

definition underscore :: char where "underscore = CHR 0x5f"

text \<open>The value of a digit or letter, as a digit of any base.\<close>

definition digit_value :: "char \<Rightarrow> nat option" where
  "digit_value c =
     (if is_digit c then Some (char_code c - 48)
      else if is_letter c then Some (char_code (ascii_lower c) - 87)
      else None)"

text \<open>The loop of \<^verbatim>\<open>ParseUint\<close>: the number read so far and whether an underscore was seen.\<close>

fun parse_digits :: "bool \<Rightarrow> nat \<Rightarrow> nat \<Rightarrow> nat \<Rightarrow> bool \<Rightarrow> string \<Rightarrow> num_error + nat \<times> bool" where
  "parse_digits base0 base maxVal n us [] = Inr (n, us)"
| "parse_digits base0 base maxVal n us (c # s) =
     (if c = underscore \<and> base0 then parse_digits base0 base maxVal n True s
      else
        (case digit_value c of
           None \<Rightarrow> Inl ErrSyntax
         | Some d \<Rightarrow>
             if d \<ge> base then Inl ErrSyntax
             else if n * base + d > maxVal then Inl ErrRange
             else parse_digits base0 base maxVal (n * base + d) us s))"

text \<open>The base a prefix stands for and the digits behind it.\<close>

definition base_prefix :: "string \<Rightarrow> nat \<times> string" where
  "base_prefix s =
     (case s of
        c # c' # rest \<Rightarrow>
          if c = CHR ''0'' then
            (if rest \<noteq> [] \<and> ascii_lower c' = CHR ''b'' then (2, rest)
             else if rest \<noteq> [] \<and> ascii_lower c' = CHR ''o'' then (8, rest)
             else if rest \<noteq> [] \<and> ascii_lower c' = CHR ''x'' then (16, rest)
             else (8, c' # rest))
          else (10, s)
      | [c] \<Rightarrow> if c = CHR ''0'' then (8, []) else (10, s)
      | [] \<Rightarrow> (10, []))"

text \<open>Underscores stand between digits only; a base prefix counts as a digit.\<close>

datatype saw = SawStart | SawDigit | SawUnderscore | SawOther

fun underscore_loop :: "bool \<Rightarrow> saw \<Rightarrow> string \<Rightarrow> bool" where
  "underscore_loop hex w [] = (w \<noteq> SawUnderscore)"
| "underscore_loop hex w (c # s) =
     (if is_digit c \<or> hex \<and> 97 \<le> char_code (ascii_lower c) \<and> char_code (ascii_lower c) \<le> 102
      then underscore_loop hex SawDigit s
      else if c = underscore then (if w = SawDigit then underscore_loop hex SawUnderscore s else False)
      else if w = SawUnderscore then False
      else underscore_loop hex SawOther s)"

definition underscoreOK :: "string \<Rightarrow> bool" where
  "underscoreOK s =
     (let s = (case s of c # r \<Rightarrow> if c = CHR ''-'' \<or> c = CHR ''+'' then r else s | [] \<Rightarrow> []) in
      case s of
        c # c' # rest \<Rightarrow>
          if c = CHR ''0'' \<and> ascii_lower c' \<in> set ''box'' then underscore_loop (ascii_lower c' = CHR ''x'') SawDigit rest
          else underscore_loop False SawStart s
      | _ \<Rightarrow> underscore_loop False SawStart s)"

text \<open>\<^verbatim>\<open>ParseUint(s, base, bitSize)\<close> for base 0 (\<open>None\<close>) or a given base, and \<^verbatim>\<open>ParseInt\<close>.\<close>

definition ParseUint :: "string \<Rightarrow> nat option \<Rightarrow> nat \<Rightarrow> num_error + nat" where
  "ParseUint s base bitSize =
     (if s = [] then Inl ErrSyntax
      else
        (let (b, digits) = (case base of Some b \<Rightarrow> (b, s) | None \<Rightarrow> base_prefix s) in
         case parse_digits (base = None) b (2 ^ bitSize - 1) 0 False digits of
           Inl e \<Rightarrow> Inl e
         | Inr (n, us) \<Rightarrow> if us \<and> \<not> underscoreOK s then Inl ErrSyntax else Inr n))"

definition ParseInt :: "string \<Rightarrow> nat option \<Rightarrow> nat \<Rightarrow> num_error + int" where
  "ParseInt s base bitSize =
     (if s = [] then Inl ErrSyntax
      else
        (let neg = (hd s = CHR ''-'');
             t = (if hd s = CHR ''+'' \<or> hd s = CHR ''-'' then tl s else s);
             cutoff = 2 ^ (bitSize - 1)
         in case ParseUint t base bitSize of
              Inl e \<Rightarrow> Inl e
            | Inr un \<Rightarrow>
                if \<not> neg \<and> un \<ge> cutoff then Inl ErrRange
                else if neg \<and> un > cutoff then Inl ErrRange
                else Inr (if neg then - int un else int un)))"

definition ParseBool :: "string \<Rightarrow> num_error + bool" where
  "ParseBool s =
     (if s \<in> set [''1'', ''t'', ''T'', ''true'', ''TRUE'', ''True''] then Inr True
      else if s \<in> set [''0'', ''f'', ''F'', ''false'', ''FALSE'', ''False''] then Inr False
      else Inl ErrSyntax)"


subsection \<open>Decimal numbers are read back\<close>

lemma digit_char: "d < 10 \<Longrightarrow> digit_value (char_of (48 + d)) = Some d" "d < 10 \<Longrightarrow> char_of (48 + d) \<noteq> underscore"
proof -
  have less: "d < 10 \<Longrightarrow> (48 + d) mod 256 = 48 + d" by simp
  then show "d < 10 \<Longrightarrow> digit_value (char_of (48 + d)) = Some d"
    by (simp add: digit_value_def is_digit_def char_code_def)
  have "char_code underscore = 95" by (simp add: char_code_def underscore_def)
  moreover have "d < 10 \<Longrightarrow> char_code (char_of (48 + d)) = 48 + d" using less by (simp add: char_code_def)
  ultimately show "d < 10 \<Longrightarrow> char_of (48 + d) \<noteq> underscore" by auto
qed

lemma parse_digits_append:
  "parse_digits b base m n us (s @ t) =
     (case parse_digits b base m n us s of Inl e \<Rightarrow> Inl e | Inr (n, us) \<Rightarrow> parse_digits b base m n us t)"
  by (induction s arbitrary: n us) (auto split: option.split)

lemma parse_digits_dec: "k \<le> m \<Longrightarrow> parse_digits b 10 m 0 us (dec k) = Inr (k, us)"
proof (induction k rule: dec.induct)
  case (1 k)
  show ?case
  proof (cases "k < 10")
    case True
    with 1 digit_char [OF True] show ?thesis by (simp add: dec.simps [of k])
  next
    case False
    have d: "k mod 10 < 10" by simp
    have "parse_digits b 10 m 0 us (dec (k div 10)) = Inr (k div 10, us)" using 1 False by simp
    moreover have "k div 10 * 10 + k mod 10 = k" by simp
    ultimately show ?thesis
      using 1 False digit_char [OF d] by (simp add: dec.simps [of k] parse_digits_append del: div_mult_mod_eq)
  qed
qed

lemma dec_inj: "dec m = dec n \<longleftrightarrow> m = n"
proof
  assume "dec m = dec n"
  then have "parse_digits False 10 (max m n) 0 False (dec m) = parse_digits False 10 (max m n) 0 False (dec n)" by simp
  then show "m = n" by (simp add: parse_digits_dec)
qed simp

lemma dec_neq_Nil [simp]: "dec k \<noteq> []"
  by (simp add: dec.simps [of k])

lemma hd_dec: "\<exists>d :: nat. d < 10 \<and> hd (dec k) = char_of (48 + d) \<and> (d = 0 \<longrightarrow> k = 0)"
proof (induction k rule: dec.induct)
  case (1 k)
  show ?case
  proof (cases "k < 10")
    case True
    then show ?thesis by (auto simp: dec.simps [of k])
  next
    case False
    then have "hd (dec k) = hd (dec (k div 10))" by (simp add: dec.simps [of k])
    moreover have "k div 10 \<noteq> 0" using False by simp
    ultimately show ?thesis using 1 [OF False] by auto
  qed
qed

lemma hd_dec_code: "48 \<le> char_code (hd (dec k))" "char_code (hd (dec k)) \<le> 57" "k \<noteq> 0 \<Longrightarrow> char_code (hd (dec k)) \<noteq> 48"
  using hd_dec [of k] by (auto simp: char_code_def)

lemma base_prefix_dec: "k \<noteq> 0 \<Longrightarrow> base_prefix (dec k) = (10, dec k)"
proof -
  assume k: "k \<noteq> 0"
  have "char_code CHR ''0'' = 48" by (simp add: char_code_def)
  then have "hd (dec k) \<noteq> CHR ''0''" using hd_dec_code(3) [OF k] by auto
  then show ?thesis by (auto simp: base_prefix_def split: list.splits)
qed

lemma ParseUint_dec: "k < 2 ^ bitSize \<Longrightarrow> ParseUint (dec k) None bitSize = Inr k"
proof (cases "k = 0")
  case True
  have "char_of (48 :: nat) = CHR ''0''" by code_simp
  then have "dec 0 = ''0''" by (simp add: dec.simps [of 0])
  with True show ?thesis by (simp add: ParseUint_def base_prefix_def)
next
  case False
  assume "k < 2 ^ bitSize"
  then have "k \<le> 2 ^ bitSize - 1" by simp
  then show ?thesis by (simp add: ParseUint_def base_prefix_dec [OF False] parse_digits_dec)
qed

text \<open>Every value of a Go \<^verbatim>\<open>int\<close> is read back from its decimal form.\<close>

lemma ParseInt_dec:
  assumes "- (2 ^ 63) \<le> n" and "n < 2 ^ 63"
  shows "ParseInt (dec_int n) None 64 = Inr n"
proof -
  have codes: "char_code CHR ''+'' = 43" "char_code CHR ''-'' = 45" by (simp_all add: char_code_def)
  have hd: "hd (dec k) \<noteq> CHR ''+''" "hd (dec k) \<noteq> CHR ''-''" for k
    using hd_dec_code(1) [of k] codes by auto
  have u: "ParseUint (dec k) None 64 = Inr k" if "k \<le> 2 ^ 63" for k
    by (rule ParseUint_dec) (use that in simp)
  show ?thesis
  proof (cases "n < 0")
    case True
    then have "dec_int n = CHR ''-'' # dec (nat (- n))" by (simp add: dec_int_def dec_pad_def)
    moreover have "nat (- n) \<le> 2 ^ 63" using assms by simp
    ultimately show ?thesis using u [of "nat (- n)"] True by (simp add: ParseInt_def)
  next
    case False
    then have "dec_int n = dec (nat n)" by (simp add: dec_int_def dec_pad_def)
    moreover have "nat n < 2 ^ 63" using assms False by (simp add: nat_less_iff)
    ultimately show ?thesis using u [of "nat n"] False hd [of "nat n"] by (simp add: ParseInt_def)
  qed
qed


subsection \<open>Splitting and trimming\<close>

text \<open>\<^verbatim>\<open>strings.Split\<close> at one character.\<close>

fun split_char :: "char \<Rightarrow> string \<Rightarrow> string list" where
  "split_char d [] = [[]]"
| "split_char d (c # s) =
     (if c = d then [] # split_char d s
      else (case split_char d s of w # ws \<Rightarrow> (c # w) # ws | [] \<Rightarrow> [[c]]))"

text \<open>\<^verbatim>\<open>strings.TrimSpace\<close> on ASCII input.\<close>

definition is_space :: "char \<Rightarrow> bool" where
  "is_space c \<longleftrightarrow> char_code c \<in> set [9, 10, 11, 12, 13, 32]"

definition TrimSpace :: "string \<Rightarrow> string" where
  "TrimSpace s = rev (dropWhile is_space (rev (dropWhile is_space s)))"

text \<open>\<^verbatim>\<open>fmt.Sprint\<close> of a slice: the elements between brackets.\<close>

definition Sprint_list :: "string list \<Rightarrow> string" where
  "Sprint_list xs = ''['' @ Join xs '' '' @ '']''"


subsection \<open>Queries of a URL\<close>

fun hex_value :: "char \<Rightarrow> nat option" where
  "hex_value c = (case digit_value c of Some d \<Rightarrow> if d < 16 then Some d else None | None \<Rightarrow> None)"

text \<open>\<^verbatim>\<open>url.QueryUnescape\<close>\<close>

fun QueryUnescape :: "string \<Rightarrow> string option" where
  "QueryUnescape [] = Some []"
| "QueryUnescape (c # s) =
     (if c = CHR 0x25 then
        (case s of
           a # b # r \<Rightarrow>
             (case (hex_value a, hex_value b) of
                (Some x, Some y) \<Rightarrow> map_option (Cons (char_of (x * 16 + y))) (QueryUnescape r)
              | _ \<Rightarrow> None)
         | _ \<Rightarrow> None)
      else map_option (Cons (if c = CHR ''+'' then CHR '' '' else c)) (QueryUnescape s))"

text \<open>The pairs of \<^verbatim>\<open>url.ParseQuery\<close>, and \<^verbatim>\<open>Values.Get\<close>.\<close>

definition query_pair :: "string \<Rightarrow> (string \<times> string) list" where
  "query_pair part =
     (if CHR '';'' \<in> set part \<or> part = [] then []
      else
        (let (key, value, found) = Cut part ''='' in
         case (QueryUnescape key, QueryUnescape value) of
           (Some k, Some v) \<Rightarrow> [(k, v)]
         | _ \<Rightarrow> []))"

definition ParseQuery :: "string \<Rightarrow> (string \<times> string) list" where
  "ParseQuery query = concat (map query_pair (split_char CHR ''&'' query))"

definition Values_Get :: "(string \<times> string) list \<Rightarrow> string \<Rightarrow> string" where
  "Values_Get values key = (case map_of values key of Some v \<Rightarrow> v | None \<Rightarrow> [])"

end
