(* ===== verification/Flags.thy ===== *)
theory Flags
  imports Go_Strconv
begin

text \<open>
  Command lines as \<^verbatim>\<open>flag.FlagSet.Parse\<close> reads them. A flag set maps a flag's name to the variable it
  sets and to its kind; two names can set one variable. \<open>quote\<close> is \<^verbatim>\<open>%q\<close>. The values of a command's
  variables are a list of pairs in which the last assignment counts.
\<close>

datatype flag_kind = BoolFlag | IntFlag | StringFlag

datatype flag_value = BoolVal bool | IntVal int | StringVal string

datatype flag_error = ErrHelp | FlagError string

type_synonym flag_set = "(string \<times> string \<times> flag_kind) list"

type_synonym settings = "string \<rightharpoonup> flag_value"

definition num_text :: "num_error \<Rightarrow> string" where
  "num_text e = (case e of ErrSyntax \<Rightarrow> ''parse error'' | ErrRange \<Rightarrow> ''value out of range'')"

text \<open>\<^verbatim>\<open>Value.Set\<close> of the three kinds.\<close>

definition flag_Set :: "flag_kind \<Rightarrow> string \<Rightarrow> string + flag_value" where
  "flag_Set kind s =
     (case kind of
        BoolFlag \<Rightarrow> (case ParseBool s of Inl e \<Rightarrow> Inl ''parse error'' | Inr b \<Rightarrow> Inr (BoolVal b))
      | IntFlag \<Rightarrow> (case ParseInt s None 64 of Inl e \<Rightarrow> Inl (num_text e) | Inr n \<Rightarrow> Inr (IntVal n))
      | StringFlag \<Rightarrow> Inr (StringVal s))"

text \<open>What one argument is: no flag, the end of the flags, or a name with the value after \<^verbatim>\<open>=\<close>, if any.\<close>

datatype arg_shape = NoFlag | EndOfFlags | BadSyntax | FlagArg string "string option"

definition dash :: char where "dash = CHR ''-''"

definition flag_name :: "string \<Rightarrow> arg_shape" where
  "flag_name name =
     (case name of
        [] \<Rightarrow> BadSyntax
      | c # cs \<Rightarrow>
          if c = dash \<or> c = CHR ''='' then BadSyntax
          else (case Cut cs ''='' of (before, after, found) \<Rightarrow> FlagArg (c # before) (if found then Some after else None)))"

definition arg_shape :: "string \<Rightarrow> arg_shape" where
  "arg_shape s =
     (case s of
        c # c' # rest \<Rightarrow>
          if c \<noteq> dash then NoFlag
          else if c' = dash then (if rest = [] then EndOfFlags else flag_name rest)
          else flag_name (c' # rest)
      | _ \<Rightarrow> NoFlag)"

definition assign :: "(string \<Rightarrow> string) \<Rightarrow> string \<Rightarrow> string \<Rightarrow> flag_kind \<Rightarrow> string \<Rightarrow> settings \<Rightarrow> flag_error + settings" where
  "assign quote name var kind value vals =
     (case flag_Set kind value of
        Inl e \<Rightarrow>
          Inl (FlagError ((if kind = BoolFlag then ''invalid boolean value '' @ quote value @ '' for -''
                           else ''invalid value '' @ quote value @ '' for flag -'') @ name @ '': '' @ e))
      | Inr v \<Rightarrow> Inr (vals(var \<mapsto> v)))"

text \<open>\<^verbatim>\<open>Parse\<close>: the settings and the arguments that are left.\<close>

fun flag_Parse :: "(string \<Rightarrow> string) \<Rightarrow> flag_set \<Rightarrow> settings \<Rightarrow> string list \<Rightarrow> flag_error + settings \<times> string list" where
  "flag_Parse quote formal vals [] = Inr (vals, [])"
| "flag_Parse quote formal vals (s # args) =
     (case arg_shape s of
        NoFlag \<Rightarrow> Inr (vals, s # args)
      | EndOfFlags \<Rightarrow> Inr (vals, args)
      | BadSyntax \<Rightarrow> Inl (FlagError (''bad flag syntax: '' @ s))
      | FlagArg name given \<Rightarrow>
          (case map_of formal name of
             None \<Rightarrow>
               Inl (if name = ''help'' \<or> name = ''h'' then ErrHelp
                    else FlagError (''flag provided but not defined: -'' @ name))
           | Some (var, kind) \<Rightarrow>
               if kind = BoolFlag then
                 (case assign quote name var kind (case given of Some v \<Rightarrow> v | None \<Rightarrow> ''true'') vals of
                    Inl e \<Rightarrow> Inl e
                  | Inr vals \<Rightarrow> flag_Parse quote formal vals args)
               else
                 (case given of
                    Some v \<Rightarrow>
                      (case assign quote name var kind v vals of
                         Inl e \<Rightarrow> Inl e
                       | Inr vals \<Rightarrow> flag_Parse quote formal vals args)
                  | None \<Rightarrow>
                      (case args of
                         [] \<Rightarrow> Inl (FlagError (''flag needs an argument: -'' @ name))
                       | v # args \<Rightarrow>
                           (case assign quote name var kind v vals of
                              Inl e \<Rightarrow> Inl e
                            | Inr vals \<Rightarrow> flag_Parse quote formal vals args)))))"


subsection \<open>Arguments written for a setting are read back\<close>

text \<open>
  A setting of one flag: its name after one dash or two, and its value, written behind an equals sign or in an
  argument of its own; a boolean flag on its own stands for true, and takes a value behind an equals sign only.
  The text of a value is any that the flag's \<^verbatim>\<open>Set\<close> reads.
\<close>

datatype flag_form = Equals string | Separate string | Bare

record setting =
  fs_name :: string
  fs_double :: bool
  fs_form :: flag_form
  fs_value :: flag_value

definition kind_of :: "flag_value \<Rightarrow> flag_kind" where
  "kind_of v = (case v of BoolVal _ \<Rightarrow> BoolFlag | IntVal _ \<Rightarrow> IntFlag | StringVal _ \<Rightarrow> StringFlag)"

definition value_text :: "flag_value \<Rightarrow> string" where
  "value_text v =
     (case v of BoolVal b \<Rightarrow> (if b then ''true'' else ''false'') | IntVal n \<Rightarrow> dec_int n | StringVal s \<Rightarrow> s)"

definition fits_int :: "flag_value \<Rightarrow> bool" where
  "fits_int v = (case v of IntVal n \<Rightarrow> - (2 ^ 63) \<le> n \<and> n < 2 ^ 63 | _ \<Rightarrow> True)"

definition flag_args :: "setting \<Rightarrow> string list" where
  "flag_args f =
     (let flag = (if fs_double f then [dash, dash] else [dash]) @ fs_name f in
      case fs_form f of Equals text \<Rightarrow> [flag @ ''='' @ text] | Separate text \<Rightarrow> [flag, text] | Bare \<Rightarrow> [flag])"

definition proper_name :: "string \<Rightarrow> bool" where
  "proper_name name \<longleftrightarrow> name \<noteq> [] \<and> hd name \<noteq> dash \<and> CHR ''='' \<notin> set name"

definition well_written :: "setting \<Rightarrow> bool" where
  "well_written f =
     (case fs_form f of
        Equals text \<Rightarrow> flag_Set (kind_of (fs_value f)) text = Inr (fs_value f)
      | Separate text \<Rightarrow> kind_of (fs_value f) \<noteq> BoolFlag \<and> flag_Set (kind_of (fs_value f)) text = Inr (fs_value f)
      | Bare \<Rightarrow> fs_value f = BoolVal True)"

definition setting_ok :: "flag_set \<Rightarrow> setting \<Rightarrow> bool" where
  "setting_ok formal f \<longleftrightarrow>
     (\<exists>var. map_of formal (fs_name f) = Some (var, kind_of (fs_value f))) \<and> proper_name (fs_name f) \<and> well_written f"

definition apply_setting :: "flag_set \<Rightarrow> settings \<Rightarrow> setting \<Rightarrow> settings" where
  "apply_setting formal vals f = vals(fst (the (map_of formal (fs_name f))) \<mapsto> fs_value f)"

lemma flag_Set_text: "fits_int v \<Longrightarrow> flag_Set (kind_of v) (value_text v) = Inr v"
  by (cases v) (auto simp: flag_Set_def kind_of_def value_text_def fits_int_def ParseInt_dec ParseBool_def)

lemma Cut_none: "d \<notin> set s \<Longrightarrow> Cut s [d] = (s, [], False)"
  by (induction s) (auto simp: HasPrefix_def)

lemma Cut_first: "d \<notin> set s \<Longrightarrow> Cut (s @ d # t) [d] = (s, t, True)"
  by (induction s) (auto simp: HasPrefix_def)

lemma arg_shape_args:
  assumes "proper_name name"
  shows "arg_shape ((if double then [dash, dash] else [dash]) @ name) = FlagArg name None"
    "arg_shape ((if double then [dash, dash] else [dash]) @ name @ ''='' @ v) = FlagArg name (Some v)"
proof -
  obtain c cs where name: "name = c # cs" using assms by (cases name) (auto simp: proper_name_def)
  have c: "c \<noteq> dash" "c \<noteq> CHR ''=''" "CHR ''='' \<notin> set cs" using assms by (auto simp: proper_name_def name)
  show "arg_shape ((if double then [dash, dash] else [dash]) @ name) = FlagArg name None"
    "arg_shape ((if double then [dash, dash] else [dash]) @ name @ ''='' @ v) = FlagArg name (Some v)"
    using c Cut_none [OF c(3)] Cut_first [OF c(3), of v] by (auto simp: arg_shape_def name flag_name_def)
qed

lemma flag_Parse_setting:
  assumes "setting_ok formal f"
  shows "flag_Parse quote formal vals (flag_args f @ args) = flag_Parse quote formal (apply_setting formal vals f) args"
proof -
  obtain var where var: "map_of formal (fs_name f) = Some (var, kind_of (fs_value f))"
    using assms by (auto simp: setting_ok_def)
  have name: "proper_name (fs_name f)" and w: "well_written f" using assms by (simp_all add: setting_ok_def)
  have true: "flag_Set BoolFlag ''true'' = Inr (BoolVal True)" using flag_Set_text [of "BoolVal True"]
    by (simp add: kind_of_def value_text_def fits_int_def)
  show ?thesis
  proof (cases "fs_form f")
    case (Equals v)
    then show ?thesis
      using w var arg_shape_args(2) [OF name, of "fs_double f" v]
      by (cases "kind_of (fs_value f)") (simp_all add: flag_args_def assign_def apply_setting_def well_written_def Let_def)
  next
    case (Separate v)
    then show ?thesis
      using w var arg_shape_args(1) [OF name, of "fs_double f"]
      by (cases "kind_of (fs_value f)") (simp_all add: flag_args_def assign_def apply_setting_def well_written_def Let_def)
  next
    case Bare
    then have "fs_value f = BoolVal True" using w by (simp add: well_written_def)
    then show ?thesis
      using Bare var true arg_shape_args(1) [OF name, of "fs_double f"]
      by (simp add: flag_args_def assign_def apply_setting_def kind_of_def Let_def)
  qed
qed

lemma flag_Parse_settings:
  "list_all (setting_ok formal) fs \<Longrightarrow>
     flag_Parse quote formal vals (concat (map flag_args fs) @ args) =
       flag_Parse quote formal (foldl (apply_setting formal) vals fs) args"
  by (induction fs arbitrary: vals) (simp_all add: flag_Parse_setting)

text \<open>The arguments after the flags: behind a double dash, or as they are when the first is not a flag.\<close>

definition no_flag :: "string \<Rightarrow> bool" where
  "no_flag s \<longleftrightarrow> length s < 2 \<or> hd s \<noteq> CHR ''-''"

definition rest_args :: "string list \<Rightarrow> string list \<Rightarrow> bool" where
  "rest_args files args \<longleftrightarrow> args = ''--'' # files \<or> args = files \<and> (files = [] \<or> no_flag (hd files))"

lemma flag_Parse_rest: "rest_args files args \<Longrightarrow> flag_Parse quote formal vals args = Inr (vals, files)"
proof -
  have "arg_shape s = NoFlag" if "no_flag s" for s
    using that by (cases s; cases "tl s") (auto simp: no_flag_def arg_shape_def dash_def split: list.split)
  then show "rest_args files args \<Longrightarrow> ?thesis"
    by (cases files) (auto simp: rest_args_def arg_shape_def dash_def)
qed

text \<open>The value the last setting of a flag gives, by any of its names.\<close>

definition last_value :: "setting list \<Rightarrow> string list \<Rightarrow> flag_value \<Rightarrow> flag_value" where
  "last_value fs names v =
     (case filter (\<lambda>f. fs_name f \<in> set names) (rev fs) of [] \<Rightarrow> v | f # _ \<Rightarrow> fs_value f)"

lemma foldl_apply_setting:
  "foldl (apply_setting formal) vals fs var =
     (case filter (\<lambda>f. fst (the (map_of formal (fs_name f))) = var) (rev fs) of [] \<Rightarrow> vals var | f # _ \<Rightarrow> Some (fs_value f))"
  by (induction fs rule: rev_induct) (auto simp: apply_setting_def)

lemma settings_last:
  assumes "\<forall>f \<in> set fs. fst (the (map_of formal (fs_name f))) = var \<longleftrightarrow> fs_name f \<in> set names" and "vals var = Some v"
  shows "foldl (apply_setting formal) vals fs var = Some (last_value fs names v)"
proof -
  have "filter (\<lambda>f. fst (the (map_of formal (fs_name f))) = var) (rev fs) = filter (\<lambda>f. fs_name f \<in> set names) (rev fs)"
    using assms(1) by (intro filter_cong) auto
  then show ?thesis by (simp add: foldl_apply_setting last_value_def assms(2) split: list.split)
qed

end
