(* ===== verification/Capture_Filter.thy ===== *)
theory Capture_Filter
  imports Prelude
begin

text \<open>
  \<^verbatim>\<open>internal/capture/filter.go\<close>: the BPF program of the kernel filter. The assembler of
  \<^verbatim>\<open>golang.org/x/net/bpf\<close> and the machine that runs the result are outside the sources: they are the
  parameters of the locale \<open>bpf_machine\<close>, whose laws are the documented meaning of the three
  instructions the program uses. \<open>classic_bpf\<close> is a machine with these laws.
\<close>

text \<open>\<^verbatim>\<open>JumpIf\<close> occurs with \<^verbatim>\<open>JumpEqual\<close> only; the skips count from the next instruction.\<close>

datatype insn = LoadAbsolute nat nat | JumpEqual u32 nat nat | RetConstant u32

definition LinkTypeEthernet :: nat where "LinkTypeEthernet = 1"

definition filter_insns :: "int \<Rightarrow> insn list" where
  "filter_insns snaplen =
     [LoadAbsolute 12 2,
      JumpEqual 0x86dd 5 0,
      JumpEqual 0x0800 0 3,
      LoadAbsolute 23 1,
      JumpEqual 6 2 0,
      JumpEqual 17 1 0,
      RetConstant 0,
      RetConstant (word_of_int snaplen)]"

text \<open>\<open>None\<close> is the nil program, which means no kernel filter.\<close>

definition CaptureFilter :: "(insn list \<Rightarrow> 'e + 'r) \<Rightarrow> nat \<Rightarrow> int \<Rightarrow> 'e + 'r option" where
  "CaptureFilter assemble lt snaplen =
     (if lt = LinkTypeEthernet then
        (case assemble (filter_insns snaplen) of Inl e \<Rightarrow> Inl e | Inr raw \<Rightarrow> Inr (Some raw))
      else Inr None)"


subsection \<open>The machine\<close>

locale bpf_machine =
  fixes assemble :: "insn list \<Rightarrow> 'e + 'r" and exec :: "'r \<Rightarrow> nat \<Rightarrow> u32 \<Rightarrow> bytes \<Rightarrow> u32"
  assumes load: "assemble prog = Inr raw \<Longrightarrow> pc < length prog \<Longrightarrow> prog ! pc = LoadAbsolute off sz \<Longrightarrow>
      off + sz \<le> length pkt \<Longrightarrow> exec raw pc a pkt = exec raw (Suc pc) (word_of_nat (be_nat (take sz (drop off pkt)))) pkt"
    and load_outside: "assemble prog = Inr raw \<Longrightarrow> pc < length prog \<Longrightarrow> prog ! pc = LoadAbsolute off sz \<Longrightarrow>
      length pkt < off + sz \<Longrightarrow> exec raw pc a pkt = 0"
    and jump: "assemble prog = Inr raw \<Longrightarrow> pc < length prog \<Longrightarrow> prog ! pc = JumpEqual val t f \<Longrightarrow>
      exec raw pc a pkt = exec raw (Suc pc + (if a = val then t else f)) a pkt"
    and ret: "assemble prog = Inr raw \<Longrightarrow> pc < length prog \<Longrightarrow> prog ! pc = RetConstant val \<Longrightarrow> exec raw pc a pkt = val"
begin

lemma accept: "assemble (filter_insns snaplen) = Inr raw \<Longrightarrow> exec raw 7 a pkt = word_of_int snaplen"
  by (erule ret) (simp_all add: filter_insns_def)

lemma reject: "assemble (filter_insns snaplen) = Inr raw \<Longrightarrow> exec raw 6 a pkt = 0"
  by (erule ret) (simp_all add: filter_insns_def)

lemma protocol:
  assumes "assemble (filter_insns snaplen) = Inr raw"
  shows "exec raw 4 a pkt = (if a = 6 \<or> a = 17 then word_of_int snaplen else 0)"
  using jump [OF assms, of 4 6 2 0 a pkt] jump [OF assms, of 5 17 1 0 a pkt] accept [OF assms] reject [OF assms]
  by (cases "a = 6"; cases "a = 17") (simp_all add: filter_insns_def)

lemma ipv4:
  assumes "assemble (filter_insns snaplen) = Inr raw"
  shows "exec raw 3 a pkt = (if 24 \<le> length pkt \<and> (pkt ! 23 = 6 \<or> pkt ! 23 = 17) then word_of_int snaplen else 0)"
proof (cases "24 \<le> length pkt")
  case True
  have "take 1 (drop 23 pkt) = [pkt ! 23]" using True by (simp add: take_Suc_conv_app_nth Cons_nth_drop_Suc [symmetric])
  then have "exec raw 3 a pkt = exec raw 4 (word_of_nat (unat (pkt ! 23))) pkt"
    using load [OF assms, of 3 23 1 pkt a] True by (simp add: filter_insns_def be_nat_Cons)
  moreover have "(word_of_nat (unat (pkt ! 23)) :: u32) = word_of_nat n \<longleftrightarrow> pkt ! 23 = word_of_nat n" if "n < 256" for n
    using that by (simp add: word_unat_eq_iff unat_of_nat)
  from this [of 6] this [of 17] have "(word_of_nat (unat (pkt ! 23)) :: u32) = 6 \<longleftrightarrow> pkt ! 23 = 6"
    "(word_of_nat (unat (pkt ! 23)) :: u32) = 17 \<longleftrightarrow> pkt ! 23 = 17" by simp_all
  ultimately show ?thesis using True by (simp add: protocol [OF assms])
next
  case False
  then show ?thesis using load_outside [OF assms, of 3 23 1 pkt a] by (simp add: filter_insns_def)
qed

lemma ethertype:
  assumes "assemble (filter_insns snaplen) = Inr raw" and "14 \<le> length pkt"
  shows "exec raw 0 a pkt =
    (let t = be16 (pkt ! 12) (pkt ! 13) in
     if t = 0x86dd then word_of_int snaplen else if t = 0x0800 then exec raw 3 (ucast t) pkt else 0)"
proof -
  let ?t = "be16 (pkt ! 12) (pkt ! 13)"
  have "take 2 (drop 12 pkt) = [pkt ! 12, pkt ! 13]"
    using assms(2) by (simp add: Cons_nth_drop_Suc [symmetric] numeral_2_eq_2)
  then have "be_nat (take 2 (drop 12 pkt)) = unat ?t" by (simp add: be_nat_Cons unat_be16)
  then have "exec raw 0 a pkt = exec raw 1 (word_of_nat (unat ?t)) pkt"
    using load [OF assms(1), of 0 12 2 pkt a] assms(2) by (simp add: filter_insns_def)
  moreover have "(word_of_nat (unat ?t) :: u32) = ucast ?t" by simp
  moreover have "take_bit 32 (unat ?t) = unat ?t"
    by (rule take_bit_nat_eq_self) (rule less_le_trans [OF be16_less], simp)
  then have "(ucast ?t :: u32) = 0x86dd \<longleftrightarrow> ?t = 0x86dd" "(ucast ?t :: u32) = 0x0800 \<longleftrightarrow> ?t = 0x0800"
    by (simp_all add: word_unat_eq_iff unsigned_ucast_eq)
  moreover have "exec raw 1 A pkt = exec raw (if A = 0x86dd then 7 else 2) A pkt"
    "exec raw 2 A pkt = exec raw (if A = 0x0800 then 3 else 6) A pkt" for A
    using jump [OF assms(1), of 1 "0x86dd" 5 0 A pkt] jump [OF assms(1), of 2 "0x0800" 0 3 A pkt]
    by (simp_all add: filter_insns_def numeral_2_eq_2 [symmetric] split: if_splits)
  ultimately have "exec raw 0 a pkt = (if ?t = 0x86dd then exec raw 7 (ucast ?t) pkt
      else if ?t = 0x0800 then exec raw 3 (ucast ?t) pkt else exec raw 6 (ucast ?t) pkt)"
    by presburger
  then show ?thesis unfolding Let_def accept [OF assms(1)] reject [OF assms(1)] .
qed

lemma runt:
  assumes "assemble (filter_insns snaplen) = Inr raw" and "length pkt < 14"
  shows "exec raw 0 a pkt = 0"
  using load_outside [OF assms(1), of 0 12 2 pkt a] assms(2) by (simp add: filter_insns_def)

end

text \<open>A machine: the skips only go forward, so every program ends; falling off the end rejects.\<close>

function bpf_vm :: "insn list \<Rightarrow> nat \<Rightarrow> u32 \<Rightarrow> bytes \<Rightarrow> u32" where
  "bpf_vm prog pc a pkt =
     (if length prog \<le> pc then 0
      else
        (case prog ! pc of
           LoadAbsolute off sz \<Rightarrow>
             if off + sz \<le> length pkt then bpf_vm prog (Suc pc) (word_of_nat (be_nat (take sz (drop off pkt)))) pkt else 0
         | JumpEqual val t f \<Rightarrow> bpf_vm prog (Suc pc + (if a = val then t else f)) a pkt
         | RetConstant val \<Rightarrow> val))"
  by pat_completeness auto
termination
  by (relation "measure (\<lambda>(prog, pc, _). length prog - pc)") auto

declare bpf_vm.simps [simp del]

interpretation classic_bpf: bpf_machine "Inr :: insn list \<Rightarrow> unit + insn list" bpf_vm
proof
  fix prog raw :: "insn list" and pc off sz t f :: nat and pkt :: bytes and a val :: u32
  assume raw: "(Inr prog :: unit + insn list) = Inr raw" and pc: "pc < length prog"
  show "bpf_vm raw pc a pkt = bpf_vm raw (Suc pc) (word_of_nat (be_nat (take sz (drop off pkt)))) pkt"
    if "prog ! pc = LoadAbsolute off sz" "off + sz \<le> length pkt"
    using raw pc that by (subst bpf_vm.simps) simp
  show "bpf_vm raw pc a pkt = 0" if "prog ! pc = LoadAbsolute off sz" "length pkt < off + sz"
    using raw pc that by (subst bpf_vm.simps) simp
  show "bpf_vm raw pc a pkt = bpf_vm raw (Suc pc + (if a = val then t else f)) a pkt" if "prog ! pc = JumpEqual val t f"
    using raw pc that by (subst bpf_vm.simps) simp
  show "bpf_vm raw pc a pkt = val" if "prog ! pc = RetConstant val"
    using raw pc that by (subst bpf_vm.simps) simp
qed


subsection \<open>What the filter keeps\<close>

text \<open>The frames of the comment on \<^verbatim>\<open>CaptureFilter\<close>: IPv6, and IPv4 with TCP or UDP.\<close>

definition filter_keeps :: "bytes \<Rightarrow> bool" where
  "filter_keeps pkt \<longleftrightarrow>
     14 \<le> length pkt \<and>
     (be16 (pkt ! 12) (pkt ! 13) = 0x86dd \<or>
      be16 (pkt ! 12) (pkt ! 13) = 0x0800 \<and> 24 \<le> length pkt \<and> (pkt ! 23 = 6 \<or> pkt ! 23 = 17))"

lemma filter_exec:
  assumes "bpf_machine assemble exec" and "assemble (filter_insns snaplen) = Inr raw"
  shows "exec raw 0 a pkt = (if filter_keeps pkt then word_of_int snaplen else 0)"
proof (cases "14 \<le> length pkt")
  case True
  show ?thesis
    using bpf_machine.ethertype [OF assms True, of a] bpf_machine.ipv4 [OF assms] True
    by (auto simp: filter_keeps_def Let_def)
next
  case False
  then show ?thesis using bpf_machine.runt [OF assms] by (simp add: filter_keeps_def)
qed

text \<open>
  C28: the kernel filter on Ethernet keeps exactly the IPv6 frames and the IPv4 frames whose protocol is
  TCP or UDP, whole up to the snap length, and drops every other frame, short ones included; on other
  link types there is no filter. It holds of every machine with the documented meaning of the
  instructions.
\<close>

theorem capture_filter_exact:
  assumes "bpf_machine assemble exec"
  shows "(CaptureFilter assemble LinkTypeEthernet snaplen = Inr (Some raw) \<longrightarrow>
      exec raw 0 a pkt = (if filter_keeps pkt then word_of_int snaplen else 0)) \<and>
    CaptureFilter assemble LinkTypeEthernet snaplen \<noteq> Inr None \<and>
    (lt \<noteq> LinkTypeEthernet \<longrightarrow> CaptureFilter assemble lt snaplen = Inr None)"
  using filter_exec [OF assms] by (auto simp: CaptureFilter_def split: sum.splits)

theorem capture_filter_exact_witness:
  "bpf_vm (filter_insns 65535) 0 0 (replicate 12 0 @ [0x08, 0x00] @ replicate 9 0 @ [6] @ replicate 40 0) = 65535"
  using capture_filter_exact [OF classic_bpf.bpf_machine_axioms, of 65535 "filter_insns 65535" 0
      "replicate 12 0 @ [0x08, 0x00] @ replicate 9 0 @ [6] @ replicate 40 0" 0]
  by (simp add: CaptureFilter_def filter_keeps_def be16_def nth_append)

text \<open>
  A frame with an 802.1Q tag is dropped although it carries TCP over IPv4 or IPv6: the type at
  offset 12 is the tag's, 0x8100, and the filter does not look behind it.
\<close>

theorem vlan_frames_dropped:
  assumes "bpf_machine assemble exec" and "CaptureFilter assemble LinkTypeEthernet snaplen = Inr (Some raw)"
    and "length macs = 12"
  shows "exec raw 0 a (macs @ [0x81, 0x00, t1, t2] @ inner) = 0"
proof -
  have "assemble (filter_insns snaplen) = Inr raw" using assms(2) by (simp add: CaptureFilter_def split: sum.splits)
  moreover have "\<not> filter_keeps (macs @ [0x81, 0x00, t1, t2] @ inner)"
    using assms(3) by (simp add: filter_keeps_def nth_append be16_def)
  ultimately show ?thesis using filter_exec [OF assms(1)] by simp
qed

theorem vlan_frames_dropped_witness:
  "bpf_vm (filter_insns 65535) 0 0
     (replicate 12 0 @ [0x81, 0x00, 0, 5] @ [0x08, 0x00] @ [0x45] @ replicate 8 0 @ [6] @ replicate 40 0) = 0"
  by (rule vlan_frames_dropped [OF classic_bpf.bpf_machine_axioms, of 65535]) (simp_all add: CaptureFilter_def)

end
