(* ===== verification/Capture_Interfaces.thy ===== *)
theory Capture_Interfaces
  imports Go_Format
begin

text \<open>
  Choosing the interface to capture on: \<^verbatim>\<open>internal/capture/live.go\<close>,
  \<^verbatim>\<open>internal/capture/interfaces_windows.go\<close> and the matching of \<^verbatim>\<open>internal/capture/live_windows.go\<close>.

  What the operating system and Npcap report is an argument: a list of interfaces or an error. The
  parsers of \<^verbatim>\<open>net/netip\<close> are in \<open>netip\<close>, the lower case of text and \<^verbatim>\<open>strconv.Quote\<close>, which
  depend on Unicode tables, are in \<open>text_env\<close>. Errors are their messages.
\<close>

record netip =
  np_ParseAddr :: "string \<Rightarrow> addr option"
  np_ParsePrefix :: "string \<Rightarrow> addr option"

record text_env =
  te_ToLower :: "string \<Rightarrow> string"
  te_Quote :: "string \<Rightarrow> string"


subsection \<open>Options\<close>

record LiveOptions =
  lo_Snaplen :: int
  lo_Promiscuous :: bool
  lo_BufferBytes :: int
  lo_ReadTimeout :: int
  lo_NoFilter :: bool

definition defaultSnaplen :: int where "defaultSnaplen = 65535"
definition defaultBufferBytes :: int where "defaultBufferBytes = 4 * 2 ^ 20"
definition defaultReadTimeout :: int where "defaultReadTimeout = 500 * 10 ^ 6"

definition live_setDefaults :: "LiveOptions \<Rightarrow> LiveOptions" where
  "live_setDefaults op =
     (let op = (if lo_Snaplen op \<le> 0 then op\<lparr>lo_Snaplen := defaultSnaplen\<rparr> else op);
          op = (if lo_BufferBytes op \<le> 0 then op\<lparr>lo_BufferBytes := defaultBufferBytes\<rparr> else op)
      in if lo_ReadTimeout op \<le> 0 then op\<lparr>lo_ReadTimeout := defaultReadTimeout\<rparr> else op)"

record PermissionError =
  pe_Op :: string
  pe_Path :: string
  pe_Err :: string
  pe_Hint :: string

definition blank_line :: string where "blank_line = [CHR 0x0a, CHR 0x0a]"

definition PermissionError_Error :: "PermissionError \<Rightarrow> string" where
  "PermissionError_Error e =
     (let s = pe_Op e @ '': permission denied'';
          s = (if pe_Path e \<noteq> [] then pe_Op e @ '' ('' @ pe_Path e @ ''): permission denied'' else s)
      in if pe_Hint e \<noteq> [] then s @ blank_line @ pe_Hint e else s)"

record SetupError =
  se_Op :: string
  se_Err :: string
  se_Hint :: string

definition SetupError_Error :: "SetupError \<Rightarrow> string" where
  "SetupError_Error e =
     (let s = se_Op e @ '': '' @ se_Err e in if se_Hint e \<noteq> [] then s @ blank_line @ se_Hint e else s)"

definition LiveSupported :: "string \<Rightarrow> bool" where
  "LiveSupported goos \<longleftrightarrow> goos \<in> set [''linux'', ''darwin'', ''windows'']"


subsection \<open>Addresses\<close>

definition v4_byte :: "nat \<Rightarrow> u32 \<Rightarrow> nat" where
  "v4_byte i w = unat (drop_bit (24 - 8 * i) w AND 0xff)"

definition v6_u16 :: "u128 \<Rightarrow> u16" where
  "v6_u16 w = ucast (drop_bit 112 w)"

definition IsLinkLocalUnicast :: "addr \<Rightarrow> bool" where
  "IsLinkLocalUnicast a =
     (case Unmap a of
        Addr4 w \<Rightarrow> v4_byte 0 w = 169 \<and> v4_byte 1 w = 254
      | Addr6 w \<Rightarrow> v6_u16 w AND 0xffc0 = 0xfe80
      | AddrNone \<Rightarrow> False)"

definition IsLinkLocalMulticast :: "addr \<Rightarrow> bool" where
  "IsLinkLocalMulticast a =
     (case Unmap a of
        Addr4 w \<Rightarrow> v4_byte 0 w = 224 \<and> v4_byte 1 w = 0 \<and> v4_byte 2 w = 0
      | Addr6 w \<Rightarrow> v6_u16 w AND 0xff0f = 0xff02
      | AddrNone \<Rightarrow> False)"

definition IsUnspecified :: "addr \<Rightarrow> bool" where
  "IsUnspecified a \<longleftrightarrow> a = Addr4 0 \<or> a = Addr6 0"

definition IsLoopback :: "addr \<Rightarrow> bool" where
  "IsLoopback a =
     (case Unmap a of Addr4 w \<Rightarrow> v4_byte 0 w = 127 | Addr6 w \<Rightarrow> w = 1 | AddrNone \<Rightarrow> False)"

fun hasRoutableAddress :: "netip \<Rightarrow> string list \<Rightarrow> bool" where
  "hasRoutableAddress np [] = False"
| "hasRoutableAddress np (a # addrs) =
     (case (case np_ParseAddr np a of Some addr \<Rightarrow> Some addr | None \<Rightarrow> np_ParsePrefix np a) of
        None \<Rightarrow> hasRoutableAddress np addrs
      | Some addr \<Rightarrow>
          if IsLinkLocalUnicast addr \<or> IsLinkLocalMulticast addr \<or> IsUnspecified addr \<or> IsLoopback addr
          then hasRoutableAddress np addrs else True)"


subsection \<open>Interfaces\<close>

record InterfaceInfo =
  ii_Name :: string
  ii_Up :: bool
  ii_Loopback :: bool
  ii_Addresses :: "string list"

text \<open>An interface as \<^verbatim>\<open>net.Interfaces\<close> gives it; its addresses can fail to be read.\<close>

record net_interface =
  ni_Name :: string
  ni_Up :: bool
  ni_Loopback :: bool
  ni_Addrs :: "string + string list"

definition stdlibInterfaces :: "string + net_interface list \<Rightarrow> string + InterfaceInfo list" where
  "stdlibInterfaces net =
     (case net of
        Inl e \<Rightarrow> Inl e
      | Inr ifs \<Rightarrow>
          Inr (map (\<lambda>i. \<lparr>ii_Name = ni_Name i, ii_Up = ni_Up i, ii_Loopback = ni_Loopback i,
                ii_Addresses = (case ni_Addrs i of Inl _ \<Rightarrow> [] | Inr as \<Rightarrow> as)\<rparr>) ifs))"

text \<open>The two passes over the interfaces: one that requires them to be up, one that does not.\<close>

fun default_pass :: "netip \<Rightarrow> bool list \<Rightarrow> 'a InterfaceInfo_scheme list \<Rightarrow> 'a InterfaceInfo_scheme option" where
  "default_pass np [] ifs = None"
| "default_pass np (requireUp # rs) ifs =
     (case find (\<lambda>i. \<not> (ii_Loopback i \<or> \<not> hasRoutableAddress np (ii_Addresses i)) \<and> \<not> (requireUp \<and> \<not> ii_Up i)) ifs of
        Some i \<Rightarrow> Some i
      | None \<Rightarrow> default_pass np rs ifs)"

definition DefaultInterface :: "netip \<Rightarrow> string + InterfaceInfo list \<Rightarrow> string + string" where
  "DefaultInterface np interfaces =
     (case interfaces of
        Inl e \<Rightarrow> Inl e
      | Inr ifs \<Rightarrow>
          (case default_pass np [True, False] ifs of
             Some i \<Rightarrow> Inr (ii_Name i)
           | None \<Rightarrow> Inl ''no suitable interface found; name one with -i''))"


subsection \<open>Npcap's devices\<close>

record winDevice = InterfaceInfo +
  wd_device :: string

definition defaultDevice :: "netip \<Rightarrow> winDevice list \<Rightarrow> string + string \<times> string" where
  "defaultDevice np devs =
     (case default_pass np [True, False] devs of
        Some d \<Rightarrow> Inr (wd_device d, ii_Name d)
      | None \<Rightarrow> Inl (''no suitable interface found; name one with -i '' @ ''(run `tlscensus interfaces` to list them)''))"

definition filterDevices :: "winDevice list \<Rightarrow> (winDevice \<Rightarrow> bool) \<Rightarrow> winDevice list" where
  "filterDevices devs match = filter match devs"

definition ambiguous :: "text_env \<Rightarrow> string \<Rightarrow> winDevice list \<Rightarrow> string" where
  "ambiguous te want ms =
     te_Quote te want @ '' matches '' @ dec (length ms) @ '' interfaces ('' @
     Join (map (\<lambda>d. te_Quote te (ii_Name d)) ms) '', '' @ ''); name one of them exactly''"

text \<open>The tiers of substring matches, tried in order.\<close>

fun pick_tiers :: "text_env \<Rightarrow> winDevice list \<Rightarrow> string \<Rightarrow> (winDevice \<Rightarrow> bool) list \<Rightarrow> string + string \<times> string" where
  "pick_tiers te devs want [] =
     Inl (''no interface matching '' @ te_Quote te want @ ''; run `tlscensus interfaces` to list them'')"
| "pick_tiers te devs want (match # tiers) =
     (case filterDevices devs match of
        [] \<Rightarrow> pick_tiers te devs want tiers
      | [d] \<Rightarrow> Inr (wd_device d, ii_Name d)
      | ms \<Rightarrow> Inl (ambiguous te want ms))"

definition pickDevice :: "netip \<Rightarrow> text_env \<Rightarrow> winDevice list \<Rightarrow> string \<Rightarrow> string + string \<times> string" where
  "pickDevice np te devs want =
     (if length devs = 0 then Inl ''Npcap reported no capturable interfaces''
      else if want = [] then defaultDevice np devs
      else
        (case find (\<lambda>d. wd_device d = want) devs of
           Some d \<Rightarrow> Inr (wd_device d, ii_Name d)
         | None \<Rightarrow>
             (let lower = te_ToLower te want;
                  ms = filterDevices devs (\<lambda>d. te_ToLower te (ii_Name d) = lower)
              in if length ms = 1 then Inr (wd_device (ms ! 0), ii_Name (ms ! 0))
                 else if length ms > 1 then Inl (ambiguous te want ms)
                 else pick_tiers te devs want
                   [\<lambda>d. Contains (te_ToLower te (ii_Name d)) lower, \<lambda>d. Contains (te_ToLower te (wd_device d)) lower])))"

text \<open>What \<^verbatim>\<open>pcap_findalldevs\<close> returns: a null-terminated list, in which strings and addresses can be null.\<close>

definition afInet :: nat where "afInet = 2"
definition afInet6 :: nat where "afInet6 = 23"

record rawSockaddr =
  sa_Family :: u16
  sa_Data :: bytes

record pcapIf =
  pi_Name :: "string option"
  pi_Description :: "string option"
  pi_Addresses :: "rawSockaddr option list"
  pi_Flags :: u32

definition cstring :: "string option \<Rightarrow> string" where
  "cstring p = (case p of None \<Rightarrow> [] | Some s \<Rightarrow> s)"

fun addressesOf :: "rawSockaddr option list \<Rightarrow> string list" where
  "addressesOf [] = []"
| "addressesOf (None # as) = addressesOf as"
| "addressesOf (Some sa # as) =
     (if unat (sa_Family sa) = afInet then addr_String (Addr4 (be32 (take 4 (drop 2 (sa_Data sa)))))
      else if unat (sa_Family sa) = afInet6 then addr_String (Unmap (Addr6 (be128 (take 16 (drop 6 (sa_Data sa))))))
      else ''(family '' @ dec (unat (sa_Family sa)) @ '')'') # addressesOf as"

definition device_of :: "pcapIf \<Rightarrow> winDevice" where
  "device_of d =
     (let name = cstring (pi_Name d);
          desc = cstring (pi_Description d);
          friendly = (if desc = [] then name else desc)
      in \<lparr>ii_Name = friendly, ii_Up = (pi_Flags d AND 0x00000002 \<noteq> 0), ii_Loopback = (pi_Flags d AND 0x00000001 \<noteq> 0),
          ii_Addresses = addressesOf (pi_Addresses d), wd_device = name\<rparr>)"

text \<open>The calls on the DLL that make the list and, deferred to the return, free it.\<close>

datatype device_call = PcapFindAllDevs | PcapFreeAllDevs

definition listDevices :: "string + pcapIf list \<Rightarrow> (string + winDevice list) \<times> device_call list" where
  "listDevices found =
     (case found of
        Inl msg \<Rightarrow> (Inl (''enumerating interfaces: '' @ msg), [PcapFindAllDevs])
      | Inr ds \<Rightarrow> (Inr (map device_of ds), [PcapFindAllDevs, PcapFreeAllDevs]))"

definition resolveDevice ::
  "netip \<Rightarrow> text_env \<Rightarrow> string + pcapIf list \<Rightarrow> string \<Rightarrow> (string + string \<times> string) \<times> device_call list" where
  "resolveDevice np te found want =
     (let listed = listDevices found in
      (case fst listed of Inl e \<Rightarrow> Inl e | Inr devs \<Rightarrow> pickDevice np te devs want, snd listed))"

text \<open>\<open>found\<close> is \<open>None\<close> when the DLL could not be loaded.\<close>

definition platformInterfaces ::
  "(string + pcapIf list) option \<Rightarrow> string + net_interface list \<Rightarrow> string + InterfaceInfo list" where
  "platformInterfaces found net =
     (case found of
        None \<Rightarrow> stdlibInterfaces net
      | Some found \<Rightarrow>
          (case fst (listDevices found) of
             Inl _ \<Rightarrow> stdlibInterfaces net
           | Inr devs \<Rightarrow> Inr (map InterfaceInfo.truncate devs)))"


subsection \<open>The default\<close>

lemma find_map: "find P (map f xs) = map_option f (find (\<lambda>x. P (f x)) xs)"
  by (induction xs) simp_all

lemma truncate_fields [simp]:
  "ii_Name (InterfaceInfo.truncate d) = ii_Name d" "ii_Up (InterfaceInfo.truncate d) = ii_Up d"
  "ii_Loopback (InterfaceInfo.truncate d) = ii_Loopback d" "ii_Addresses (InterfaceInfo.truncate d) = ii_Addresses d"
  by (simp_all add: InterfaceInfo.truncate_def)

lemma default_pass_truncate:
  "default_pass np rs (map InterfaceInfo.truncate devs) = map_option InterfaceInfo.truncate (default_pass np rs devs)"
  by (induction rs) (simp_all add: find_map split: option.split)

definition suitable :: "netip \<Rightarrow> 'a InterfaceInfo_scheme \<Rightarrow> bool" where
  "suitable np i \<longleftrightarrow> \<not> ii_Loopback i \<and> hasRoutableAddress np (ii_Addresses i)"

lemma find_mem: "find P xs = Some x \<Longrightarrow> x \<in> set xs \<and> P x"
  by (induction xs) (auto split: if_splits)

lemma default_pass_Some:
  assumes "default_pass np [True, False] ifs = Some i"
  shows "i \<in> set ifs" and "suitable np i" and "list_ex (\<lambda>i. suitable np i \<and> ii_Up i) ifs \<Longrightarrow> ii_Up i"
proof -
  let ?P = "\<lambda>up i. \<not> (ii_Loopback i \<or> \<not> hasRoutableAddress np (ii_Addresses i)) \<and> \<not> (up \<and> \<not> ii_Up i)"
  consider "find (?P True) ifs = Some i" | "find (?P True) ifs = None" "find (?P False) ifs = Some i"
    using assms by (auto split: option.splits)
  then have "i \<in> set ifs \<and> suitable np i \<and> (list_ex (\<lambda>i. suitable np i \<and> ii_Up i) ifs \<longrightarrow> ii_Up i)"
  proof cases
    case 1
    from find_mem [OF 1] show ?thesis by (simp add: suitable_def)
  next
    case 2
    from find_mem [OF 2(2)] 2(1) show ?thesis by (auto simp: suitable_def find_None_iff list_ex_iff)
  qed
  then show "i \<in> set ifs" "suitable np i" "list_ex (\<lambda>i. suitable np i \<and> ii_Up i) ifs \<Longrightarrow> ii_Up i" by blast+
qed

lemma default_pass_None: "default_pass np [True, False] ifs = None \<Longrightarrow> \<not> list_ex (suitable np) ifs"
  by (auto split: option.splits simp: find_None_iff suitable_def list_ex_iff)

text \<open>
  Without a name, capture opens the interface the listing marks: on Windows the device
  \<^verbatim>\<open>defaultDevice\<close> picks has the name \<^verbatim>\<open>DefaultInterface\<close> returns for the listing made of the same
  devices, and one fails exactly when the other does. The choice is the first interface that is up, is
  not a loopback and has a routable address, or the first that is not up but otherwise suitable.
\<close>

theorem default_device_is_listed:
  "(case defaultDevice np devs of
      Inr (device, friendly) \<Rightarrow>
        DefaultInterface np (Inr (map InterfaceInfo.truncate devs)) = Inr friendly \<and>
        list_ex (\<lambda>d. wd_device d = device \<and> ii_Name d = friendly \<and> suitable np d \<and>
          (list_ex (\<lambda>d. suitable np d \<and> ii_Up d) devs \<longrightarrow> ii_Up d)) devs
    | Inl _ \<Rightarrow>
        (\<exists>e. DefaultInterface np (Inr (map InterfaceInfo.truncate devs)) = Inl e) \<and> \<not> list_ex (suitable np) devs)"
proof (cases "default_pass np [True, False] devs")
  case None
  with default_pass_None [OF None] show ?thesis
    by (simp add: defaultDevice_def DefaultInterface_def default_pass_truncate del: default_pass.simps)
next
  case (Some d)
  with default_pass_Some [OF Some] show ?thesis
    by (auto simp: defaultDevice_def DefaultInterface_def default_pass_truncate list_ex_iff simp del: default_pass.simps)
qed


definition no_netip :: netip where
  "no_netip = \<lparr>np_ParseAddr = (\<lambda>s. if s = ''10.0.0.1'' then Some (Addr4 0x0a000001) else None), np_ParsePrefix = (\<lambda>_. None)\<rparr>"

definition sample_devices :: "winDevice list" where
  "sample_devices =
     [\<lparr>ii_Name = ''Ethernet 2'', ii_Up = True, ii_Loopback = False, ii_Addresses = [], wd_device = ''NPF_1''\<rparr>,
      \<lparr>ii_Name = ''Ethernet'', ii_Up = True, ii_Loopback = False, ii_Addresses = [''10.0.0.1''], wd_device = ''NPF_2''\<rparr>]"

theorem default_device_is_listed_witness:
  "DefaultInterface no_netip (Inr (map InterfaceInfo.truncate sample_devices)) = Inr ''Ethernet''"
proof -
  have "defaultDevice no_netip sample_devices = Inr (''NPF_2'', ''Ethernet'')"
    by (simp add: defaultDevice_def sample_devices_def no_netip_def IsLinkLocalUnicast_def IsLinkLocalMulticast_def
        IsUnspecified_def IsLoopback_def v4_byte_def)
  with default_device_is_listed [of no_netip sample_devices] show ?thesis by simp
qed


subsection \<open>A name\<close>

text \<open>
  A name never selects one of several adapters silently. What \<^verbatim>\<open>pickDevice\<close> returns is the device
  with that exact path, or else the only adapter with that description, or else, when no description is
  equal to it, the only one whose description contains it, or else, when none does, the only one whose
  path does; and a description from the listing that only one adapter has selects that adapter.
\<close>

theorem pickDevice_unambiguous:
  assumes "want \<noteq> []"
  shows "(pickDevice np te devs want = Inr (device, friendly) \<longrightarrow>
      (let lower = te_ToLower te want; same = filter (\<lambda>d. te_ToLower te (ii_Name d) = lower) devs;
           names = filter (\<lambda>d. Contains (te_ToLower te (ii_Name d)) lower) devs;
           paths = filter (\<lambda>d. Contains (te_ToLower te (wd_device d)) lower) devs
       in \<exists>d. wd_device d = device \<and> ii_Name d = friendly \<and>
            (d \<in> set devs \<and> device = want \<or>
             want \<notin> set (map wd_device devs) \<and>
               (same = [d] \<or> same = [] \<and> (names = [d] \<or> names = [] \<and> paths = [d]))))) \<and>
    (\<forall>d. want \<notin> set (map wd_device devs) \<and> want = ii_Name d \<and>
        filter (\<lambda>d'. te_ToLower te (ii_Name d') = te_ToLower te want) devs = [d] \<longrightarrow>
      pickDevice np te devs want = Inr (wd_device d, ii_Name d))"
proof -
  define same where "same = filter (\<lambda>d. te_ToLower te (ii_Name d) = te_ToLower te want) devs"
  define names where "names = filter (\<lambda>d. Contains (te_ToLower te (ii_Name d)) (te_ToLower te want)) devs"
  define paths where "paths = filter (\<lambda>d. Contains (te_ToLower te (wd_device d)) (te_ToLower te want)) devs"
  have tiers: "pick_tiers te devs want [\<lambda>d. Contains (te_ToLower te (ii_Name d)) (te_ToLower te want),
      \<lambda>d. Contains (te_ToLower te (wd_device d)) (te_ToLower te want)] = Inr (device, friendly) \<Longrightarrow>
      \<exists>d. wd_device d = device \<and> ii_Name d = friendly \<and> (names = [d] \<or> names = [] \<and> paths = [d])"
    unfolding pick_tiers.simps filterDevices_def names_def [symmetric] paths_def [symmetric]
    by (cases names rule: remdups_adj.cases; cases paths rule: remdups_adj.cases) simp_all
  have pick: "pickDevice np te devs want = (case find (\<lambda>d. wd_device d = want) devs of
        Some d \<Rightarrow> Inr (wd_device d, ii_Name d)
      | None \<Rightarrow>
          if length same = 1 then Inr (wd_device (same ! 0), ii_Name (same ! 0))
          else if length same > 1 then Inl (ambiguous te want same)
          else pick_tiers te devs want [\<lambda>d. Contains (te_ToLower te (ii_Name d)) (te_ToLower te want),
            \<lambda>d. Contains (te_ToLower te (wd_device d)) (te_ToLower te want)])" if "devs \<noteq> []"
    using that assms unfolding pickDevice_def Let_def filterDevices_def same_def [symmetric] by simp
  have sound: "\<exists>d. wd_device d = device \<and> ii_Name d = friendly \<and>
            (d \<in> set devs \<and> device = want \<or>
             want \<notin> set (map wd_device devs) \<and> (same = [d] \<or> same = [] \<and> (names = [d] \<or> names = [] \<and> paths = [d])))"
    if r: "pickDevice np te devs want = Inr (device, friendly)"
  proof -
    have ne: "devs \<noteq> []" using r by (auto simp: pickDevice_def)
    show ?thesis
    proof (cases "find (\<lambda>d. wd_device d = want) devs")
      case (Some d)
      with r find_mem [OF Some] show ?thesis by (auto simp: pick [OF ne])
    next
      case None
      then have "want \<notin> set (map wd_device devs)" by (auto simp: find_None_iff)
      with r None tiers show ?thesis
        by (cases same rule: remdups_adj.cases) (auto simp: pick [OF ne])
    qed
  qed
  have complete: "pickDevice np te devs want = Inr (wd_device d, ii_Name d)"
    if "want \<notin> set (map wd_device devs)" "same = [d]" for d
  proof -
    have "devs \<noteq> []" using that(2) by (auto simp: same_def)
    moreover have "find (\<lambda>d. wd_device d = want) devs = None" using that(1) by (auto simp: find_None_iff)
    ultimately show ?thesis using that(2) by (simp add: pick)
  qed
  show ?thesis
    unfolding Let_def same_def [symmetric] names_def [symmetric] paths_def [symmetric]
    using sound complete by blast
qed

theorem pickDevice_unambiguous_witness:
  "pickDevice no_netip \<lparr>te_ToLower = ToLower, te_Quote = id\<rparr> sample_devices ''Ethernet'' = Inr (''NPF_2'', ''Ethernet'')"
proof -
  let ?te = "\<lparr>te_ToLower = ToLower, te_Quote = id\<rparr>"
  have "filter (\<lambda>d. ToLower (ii_Name d) = ToLower ''Ethernet'') sample_devices = [sample_devices ! 1]"
    by (simp add: sample_devices_def ToLower_def ascii_lower_def Let_def)
  then show ?thesis
    using pickDevice_unambiguous [of "''Ethernet''" no_netip ?te sample_devices]
    by (simp add: sample_devices_def)
qed

end
