(* ===== verification/Capture_Open.thy ===== *)
theory Capture_Open
  imports Capture_Filter Capture_Interfaces Go_Utf8
begin

text \<open>
  Opening and closing sources: \<^verbatim>\<open>internal/capture/live_linux.go\<close>, the set-up in
  \<^verbatim>\<open>live_darwin.go\<close> and \<^verbatim>\<open>live_windows.go\<close>, and \<^verbatim>\<open>file.go\<close>. What a call on the operating system, on
  Npcap or on a package returns is given by the environment of the platform; an operation gives its
  result and the calls it made, in order, so that the release of a handle on every path is a theorem.
\<close>

definition also_call :: "'c \<Rightarrow> 'a \<times> 'c list \<Rightarrow> 'a \<times> 'c list" where
  "also_call c r = (fst r, c # snd r)"

datatype errno = EACCES | EPERM | OtherErrno string

datatype cap_error = ErrPermission PermissionError | ErrSetup SetupError | ErrText string

definition text_of :: "string list \<Rightarrow> string" where
  "text_of ls = Join ls [CHR 0x0a]"

definition em_dash :: string where "em_dash = [CHR 0xe2, CHR 0x80, CHR 0x94]"

definition apostrophe :: string where "apostrophe = [CHR 0x27]"

text \<open>The interface named, or the default one.\<close>

definition iface_or_default :: "netip \<Rightarrow> string + InterfaceInfo list \<Rightarrow> string \<Rightarrow> string + string" where
  "iface_or_default np interfaces iface = (if iface = [] then DefaultInterface np interfaces else Inr iface)"


subsection \<open>Linux\<close>

record 'r linux_env =
  lx_text :: "errno \<Rightarrow> string"
  lx_NewEthernetHandle :: "string \<Rightarrow> string option"
  lx_SetCaptureLength :: "int \<Rightarrow> string option"
  lx_SetPromiscuous :: "string option"
  lx_SetBPF :: "'r \<Rightarrow> string option"
  lx_InterfaceByName :: "string \<Rightarrow> bool"
  lx_Socket :: "errno option"

datatype 'r linux_call =
  NewEthernetHandle string | SetCaptureLength int | SetPromiscuous bool | SetBPF 'r | CloseHandle
| ProbeSocket | CloseProbe

text \<open>The system call is made again, for its error; a socket it opens after all is closed.\<close>

definition permissionDenied :: "'r linux_env \<Rightarrow> string \<Rightarrow> bool \<times> 'r linux_call list" where
  "permissionDenied env iface =
     (if \<not> lx_InterfaceByName env iface then (False, [])
      else
        also_call ProbeSocket
          (case lx_Socket env of
             Some e \<Rightarrow> (e = EPERM \<or> e = EACCES, [])
           | None \<Rightarrow> also_call CloseProbe (False, [])))"

definition linuxPermissionHint :: string where
  "linuxPermissionHint = text_of
     [''Packet capture needs CAP_NET_RAW.'', [],
      ''Grant it to the binary once, rather than running the whole tool as root:'', [],
      ''    sudo setcap cap_net_raw,cap_net_admin=eip $(which tlscensus)'', [],
      ''Or run a single capture with:'', [],
      ''    sudo tlscensus watch'', [],
      ''CAP_NET_ADMIN is only needed for promiscuous mode (-promisc), which is off'',
      ''by default.'']"

text \<open>The installation of the filter, shared by both paths of the condition.\<close>

definition linux_filter ::
  "'r linux_env \<Rightarrow> (insn list \<Rightarrow> string + 'r) \<Rightarrow> string \<Rightarrow> LiveOptions \<Rightarrow> (cap_error + string \<times> nat) \<times> 'r linux_call list" where
  "linux_filter env asmble iface opts =
     (let opened = (Inr (iface, LinkTypeEthernet), []) in
      if lo_NoFilter opts then opened
      else
        (case CaptureFilter asmble LinkTypeEthernet (lo_Snaplen opts) of
           Inl e \<Rightarrow> also_call CloseHandle (Inl (ErrText e), [])
         | Inr None \<Rightarrow> opened
         | Inr (Some prog) \<Rightarrow>
             also_call (SetBPF prog)
               (case lx_SetBPF env prog of
                  Some e \<Rightarrow> also_call CloseHandle (Inl (ErrText (''installing BPF filter: '' @ e)), [])
                | None \<Rightarrow> opened)))"

definition linux_OpenLive ::
  "'r linux_env \<Rightarrow> netip \<Rightarrow> string + InterfaceInfo list \<Rightarrow> (insn list \<Rightarrow> string + 'r) \<Rightarrow> string \<Rightarrow> LiveOptions \<Rightarrow>
   (cap_error + string \<times> nat) \<times> 'r linux_call list" where
  "linux_OpenLive env np interfaces asmble iface opts =
     (let opts = live_setDefaults opts in
      case iface_or_default np interfaces iface of
        Inl e \<Rightarrow> (Inl (ErrText e), [])
      | Inr iface \<Rightarrow>
          also_call (NewEthernetHandle iface)
            (case lx_NewEthernetHandle env iface of
               Some err \<Rightarrow>
                 (let denied = permissionDenied env iface in
                  (Inl (if fst denied then
                      ErrPermission \<lparr>pe_Op = ''open AF_PACKET socket'', pe_Path = [], pe_Err = err, pe_Hint = linuxPermissionHint\<rparr>
                    else ErrText (''capturing on '' @ iface @ '': '' @ err)), snd denied))
             | None \<Rightarrow>
                 also_call (SetCaptureLength (lo_Snaplen opts))
                   (case lx_SetCaptureLength env (lo_Snaplen opts) of
                      Some err \<Rightarrow> also_call CloseHandle (Inl (ErrText (''setting snaplen: '' @ err)), [])
                    | None \<Rightarrow>
                        if lo_Promiscuous opts then
                          also_call (SetPromiscuous True)
                            (case lx_SetPromiscuous env of
                               Some err \<Rightarrow>
                                 also_call CloseHandle
                                   (Inl (ErrText (''enabling promiscuous mode on '' @ iface @ '': '' @ err)), [])
                             | None \<Rightarrow> linux_filter env asmble iface opts)
                        else linux_filter env asmble iface opts)))"


subsection \<open>Darwin\<close>

definition bpfDeviceCount :: nat where "bpfDeviceCount = 256"
definition IFNAMSIZ :: nat where "IFNAMSIZ = 16"

definition LinkTypeNull :: nat where "LinkTypeNull = 0"
definition LinkTypeRaw :: nat where "LinkTypeRaw = 101"
definition LinkTypeLoop :: nat where "LinkTypeLoop = 108"

definition decoded_link :: "nat \<Rightarrow> bool" where
  "decoded_link lt \<longleftrightarrow> lt \<in> set [LinkTypeEthernet, LinkTypeNull, LinkTypeLoop, LinkTypeRaw]"

datatype 'r darwin_call =
  OpenDevice string | BIOCSBLEN u32 | BIOCSETIF bytes | BIOCIMMEDIATE u32 | BIOCSRTIMEOUT int | BIOCPROMISC
| BIOCGDLT | BIOCSETF 'r | BIOCGBLEN | CloseFd

record 'r darwin_env =
  dn_text :: "errno \<Rightarrow> string"
  dn_quote :: "string \<Rightarrow> string"
  dn_Open :: "string \<Rightarrow> errno option"
  dn_ioctl :: "'r darwin_call \<Rightarrow> errno + u32"
  dn_LinkType :: "u32 \<Rightarrow> nat"

definition darwinPermissionHint :: string where
  "darwinPermissionHint = text_of
     [''Packet capture reads /dev/bpf*, which is root-only by default.'', [],
      ''Quickest:'', [],
      ''    sudo tlscensus watch'', [],
      ''Better, and what Wireshark installs for the same reason '' @ em_dash @ '' grant a group'',
      ''access to the BPF devices instead of running the whole tool as root:'', [],
      ''    sudo dseditgroup -o create -q access_bpf'',
      ''    sudo dseditgroup -o edit -a \"$USER\" -t user access_bpf'',
      ''    sudo chgrp access_bpf /dev/bpf*'',
      ''    sudo chmod g+r /dev/bpf*'', [],
      ''The device permissions reset on reboot; Wireshark ships a launch daemon'',
      ''(ChmodBPF) to reapply them. Log out and back in for the group to take'',
      ''effect.'']"

text \<open>The loop over the devices, with the first error seen so far.\<close>

fun openBPF_loop :: "'r darwin_env \<Rightarrow> nat list \<Rightarrow> errno option \<Rightarrow> (cap_error + string) \<times> 'r darwin_call list" where
  "openBPF_loop env [] firstErr =
     (Inl (ErrText (''no free BPF device: '' @ (case firstErr of Some e \<Rightarrow> dn_text env e | None \<Rightarrow> ''%!w(<nil>)''))), [])"
| "openBPF_loop env (i # is) firstErr =
     (let device = ''/dev/bpf'' @ dec i in
      also_call (OpenDevice device)
        (case dn_Open env device of
           None \<Rightarrow> (Inr device, [])
         | Some err \<Rightarrow>
             if err = EACCES \<or> err = EPERM then
               (Inl (ErrPermission \<lparr>pe_Op = ''open BPF device'', pe_Path = device, pe_Err = dn_text env err,
                  pe_Hint = darwinPermissionHint\<rparr>), [])
             else openBPF_loop env is (if firstErr = None then Some err else firstErr)))"

definition openBPFDevice :: "'r darwin_env \<Rightarrow> (cap_error + string) \<times> 'r darwin_call list" where
  "openBPFDevice env = openBPF_loop env [0..<bpfDeviceCount] None"

text \<open>One ioctl, its error if it fails, and what follows if it does not.\<close>

definition ioctl ::
  "'r darwin_env \<Rightarrow> 'r darwin_call \<Rightarrow> (errno \<Rightarrow> cap_error) \<Rightarrow> (u32 \<Rightarrow> (cap_error + 'a) \<times> 'r darwin_call list) \<Rightarrow>
   (cap_error + 'a) \<times> 'r darwin_call list" where
  "ioctl env req failed k =
     also_call req (case dn_ioctl env req of Inl e \<Rightarrow> (Inl (failed e), []) | Inr v \<Rightarrow> k v)"

definition failing :: "'r darwin_env \<Rightarrow> string \<Rightarrow> errno \<Rightarrow> cap_error" where
  "failing env doing e = ErrText (doing @ '': '' @ dn_text env e)"

definition darwin_setFilter ::
  "'r darwin_env \<Rightarrow> (insn list \<Rightarrow> string + 'r) \<Rightarrow> nat \<Rightarrow> int \<Rightarrow> (cap_error + unit) \<times> 'r darwin_call list" where
  "darwin_setFilter env asmble linkType snaplen =
     (case CaptureFilter asmble linkType snaplen of
        Inl e \<Rightarrow> (Inl (ErrText e), [])
      | Inr None \<Rightarrow> (Inr (), [])
      | Inr (Some raw) \<Rightarrow> ioctl env (BIOCSETF raw) (failing env ''installing BPF filter'') (\<lambda>_. (Inr (), [])))"

text \<open>\<open>struct ifreq\<close>: the name in 16 bytes and a union of 16 more.\<close>

definition ifreq :: "string \<Rightarrow> bytes" where
  "ifreq iface = (let b = string_bytes iface in b @ replicate (IFNAMSIZ + 16 - length b) 0)"

text \<open>The link type and the length of the read buffer.\<close>

definition darwin_link ::
  "'r darwin_env \<Rightarrow> (insn list \<Rightarrow> string + 'r) \<Rightarrow> string \<Rightarrow> LiveOptions \<Rightarrow> (cap_error + nat \<times> u32) \<times> 'r darwin_call list" where
  "darwin_link env asmble iface opts =
     ioctl env BIOCGDLT (failing env ''reading link type'') (\<lambda>dlt.
       let lt = dn_LinkType env dlt in
       if \<not> decoded_link lt then
         (Inl (ErrText (''interface '' @ iface @ '' has link type '' @ dec (unat dlt) @
            '', which is not decoded yet (pktap support is M6; see docs/roadmap.md)'')), [])
       else
         (let filtered = (if \<not> lo_NoFilter opts then darwin_setFilter env asmble lt (lo_Snaplen opts) else (Inr (), []))
          in case fst filtered of
               Inl e \<Rightarrow> (Inl e, snd filtered)
             | Inr _ \<Rightarrow>
                 (let r = ioctl env BIOCGBLEN (failing env ''reading BPF buffer length'') (\<lambda>blen.
                        if blen = 0 then (Inl (ErrText ''kernel reported a zero-length BPF buffer''), [])
                        else (Inr (lt, blen), []))
                  in (fst r, snd filtered @ snd r))))"

definition darwin_configure ::
  "'r darwin_env \<Rightarrow> (insn list \<Rightarrow> string + 'r) \<Rightarrow> string \<Rightarrow> LiveOptions \<Rightarrow> (cap_error + nat \<times> u32) \<times> 'r darwin_call list" where
  "darwin_configure env asmble iface opts =
     ioctl env (BIOCSBLEN (word_of_int (lo_BufferBytes opts))) (failing env ''setting BPF buffer length'') (\<lambda>_.
       if length iface \<ge> IFNAMSIZ then (Inl (ErrText (''interface name '' @ dn_quote env iface @ '' is too long'')), [])
       else
         ioctl env (BIOCSETIF (ifreq iface))
           (\<lambda>e. if e = EACCES \<or> e = EPERM
                then ErrPermission \<lparr>pe_Op = ''attach to '' @ iface, pe_Path = [], pe_Err = dn_text env e, pe_Hint = darwinPermissionHint\<rparr>
                else failing env (''attaching BPF to '' @ iface) e) (\<lambda>_.
         ioctl env (BIOCIMMEDIATE 1) (failing env ''enabling immediate mode'') (\<lambda>_.
         ioctl env (BIOCSRTIMEOUT (lo_ReadTimeout opts)) (failing env ''setting read timeout'') (\<lambda>_.
           if lo_Promiscuous opts then
             ioctl env BIOCPROMISC (failing env ''enabling promiscuous mode'') (\<lambda>_. darwin_link env asmble iface opts)
           else darwin_link env asmble iface opts))))"

definition darwin_OpenLive ::
  "'r darwin_env \<Rightarrow> netip \<Rightarrow> string + InterfaceInfo list \<Rightarrow> (insn list \<Rightarrow> string + 'r) \<Rightarrow> string \<Rightarrow> LiveOptions \<Rightarrow>
   (cap_error + string \<times> nat \<times> u32) \<times> 'r darwin_call list" where
  "darwin_OpenLive env np interfaces asmble iface opts =
     (let opts = live_setDefaults opts in
      case iface_or_default np interfaces iface of
        Inl e \<Rightarrow> (Inl (ErrText e), [])
      | Inr iface \<Rightarrow>
          (let opened = openBPFDevice env in
           case fst opened of
             Inl e \<Rightarrow> (Inl e, snd opened)
           | Inr device \<Rightarrow>
               (let conf = darwin_configure env asmble iface opts in
                case fst conf of
                  Inl e \<Rightarrow> (Inl e, snd opened @ snd conf @ [CloseFd])
                | Inr (lt, blen) \<Rightarrow> (Inr (iface, lt, blen), snd opened @ snd conf))))"


subsection \<open>Windows\<close>

record wpcapDLL =
  wp_setMinToCopy :: bool
  wp_setBuff :: bool

datatype 'r windows_call =
  SetDllDirectory string | LoadDLL string | PcapOpenLive string int bool int | PcapSetMinToCopy int | PcapSetBuff int
| PcapDatalink | PcapSetFilter 'r | PcapClose | OnDevices device_call

text \<open>
  \<^verbatim>\<open>wn_Join\<close> and \<^verbatim>\<open>wn_Dir\<close> are the functions of \<^verbatim>\<open>path/filepath\<close> on Windows; \<open>wn_LinkType\<close> is the
  conversion to gopacket's \<^verbatim>\<open>LinkType\<close>. A function that gives an option gives the error, if any.
\<close>

record 'r windows_env =
  wn_SystemRoot :: string
  wn_Join :: "string list \<Rightarrow> string"
  wn_Dir :: "string \<Rightarrow> string"
  wn_Stat :: "string \<Rightarrow> bool"
  wn_SetDllDirectory :: "string \<Rightarrow> bool"
  wn_LoadDLL :: "string \<Rightarrow> string option"
  wn_FindProc :: "string \<Rightarrow> string option"
  wn_findAllDevs :: "string + pcapIf list"
  wn_openLive :: "string \<Rightarrow> string option"
  wn_datalink :: u32
  wn_LinkType :: "u32 \<Rightarrow> nat"
  wn_setFilter :: "'r \<Rightarrow> u32"

definition windowsInstallHint :: string where
  "windowsInstallHint = text_of
     [''Live capture on Windows needs Npcap.'', [],
      ''Install it from https://npcap.com and re-run. tlscensus does not bundle it:'',
      ''Npcap'' @ apostrophe @ ''s licence does not permit redistribution, so it has to be installed'',
      ''separately. If Wireshark is already installed, Npcap almost certainly is too.'', [],
      ''Reading a capture file needs none of this:'', [],
      ''    tlscensus read capture.pcap'']"

definition windowsPermissionHint :: string where
  "windowsPermissionHint = text_of
     [''Npcap is installed but refused access to the adapter.'', [],
      ''Npcap can be installed with \"Restrict Npcap driver'' @ apostrophe @ ''s access to'',
      ''Administrators only\". If that option was selected, capture requires an'',
      ''elevated prompt:'', [],
      ''    Run PowerShell or Terminal as Administrator, then: tlscensus watch'', [],
      ''Otherwise re-run the Npcap installer and clear that option.'']"

definition wpcapPaths :: "'r windows_env \<Rightarrow> string list" where
  "wpcapPaths env =
     (let root = (if wn_SystemRoot env = [] then ''C:'' @ [CHR 0x5c] @ ''Windows'' else wn_SystemRoot env);
          sys32 = wn_Join env [root, ''System32'']
      in [wn_Join env [sys32, ''Npcap'', ''wpcap.dll''], wn_Join env [sys32, ''wpcap.dll'']])"

text \<open>The loop over the paths: whether one was loaded, and the last error.\<close>

fun wpcap_load :: "'r windows_env \<Rightarrow> string list \<Rightarrow> string option \<Rightarrow> (bool \<times> string option) \<times> 'r windows_call list" where
  "wpcap_load env [] err = ((False, err), [])"
| "wpcap_load env (path # paths) err =
     (if \<not> wn_Stat env path then wpcap_load env paths err
      else
        (let loading = (if wn_SetDllDirectory env (wn_Dir env path)
                        then [SetDllDirectory (wn_Dir env path), LoadDLL path, SetDllDirectory []]
                        else [SetDllDirectory (wn_Dir env path), LoadDLL path])
         in case wn_LoadDLL env path of
              None \<Rightarrow> ((True, None), loading)
            | Some e \<Rightarrow> (let r = wpcap_load env paths (Some e) in (fst r, loading @ snd r))))"

definition wpcap_procs :: "string list" where
  "wpcap_procs = [''pcap_open_live'', ''pcap_next_ex'', ''pcap_setfilter'', ''pcap_datalink'', ''pcap_close'',
     ''pcap_findalldevs'', ''pcap_freealldevs'']"

fun first_missing :: "'r windows_env \<Rightarrow> string list \<Rightarrow> string option" where
  "first_missing env [] = None"
| "first_missing env (name # names) =
     (case wn_FindProc env name of
        Some e \<Rightarrow> Some (''wpcap.dll is missing '' @ name @ '': '' @ e)
      | None \<Rightarrow> first_missing env names)"

text \<open>\<^verbatim>\<open>sync.Once\<close> runs this once; the result is the same on every later call.\<close>

definition loadWpcap :: "'r windows_env \<Rightarrow> (cap_error + wpcapDLL) \<times> 'r windows_call list" where
  "loadWpcap env =
     (let paths = wpcapPaths env; r = wpcap_load env paths None in
      case fst r of
        (False, err) \<Rightarrow>
          (Inl (ErrSetup \<lparr>se_Op = ''load wpcap.dll'',
             se_Err = (case err of Some e \<Rightarrow> e | None \<Rightarrow> ''not found in '' @ Join paths '' or ''),
             se_Hint = windowsInstallHint\<rparr>), snd r)
      | (True, _) \<Rightarrow>
          (case first_missing env wpcap_procs of
             Some msg \<Rightarrow> (Inl (ErrText msg), snd r)
           | None \<Rightarrow>
               (Inr \<lparr>wp_setMinToCopy = (wn_FindProc env ''pcap_setmintocopy'' = None),
                  wp_setBuff = (wn_FindProc env ''pcap_setbuff'' = None)\<rparr>, snd r)))"

record windows_opened =
  wo_device :: string
  wo_friendly :: string
  wo_linkType :: nat
  wo_snaplen :: int

definition windows_Name :: "windows_opened \<Rightarrow> string" where
  "windows_Name s = (if wo_friendly s \<noteq> [] then wo_friendly s else wo_device s)"

definition windows_setFilter ::
  "'r windows_env \<Rightarrow> (insn list \<Rightarrow> string + 'r) \<Rightarrow> nat \<Rightarrow> int \<Rightarrow> (cap_error + unit) \<times> 'r windows_call list" where
  "windows_setFilter env asmble linkType snaplen =
     (case CaptureFilter asmble linkType snaplen of
        Inl e \<Rightarrow> (Inl (ErrText e), [])
      | Inr None \<Rightarrow> (Inr (), [])
      | Inr (Some raw) \<Rightarrow>
          also_call (PcapSetFilter raw)
            (let ret = sint (wn_setFilter env raw) in
             if ret \<noteq> 0 then (Inl (ErrText (''installing BPF filter: pcap_setfilter returned '' @ dec_int ret)), [])
             else (Inr (), [])))"

text \<open>The part of \<^verbatim>\<open>OpenLive\<close> that runs with a handle; \<^verbatim>\<open>Close\<close> then calls \<^verbatim>\<open>pcap_close\<close> once.\<close>

definition windows_configure ::
  "'r windows_env \<Rightarrow> (insn list \<Rightarrow> string + 'r) \<Rightarrow> wpcapDLL \<Rightarrow> string \<Rightarrow> string \<Rightarrow> LiveOptions \<Rightarrow>
   (cap_error + windows_opened) \<times> 'r windows_call list" where
  "windows_configure env asmble w device friendly opts =
     (let tuning = (if wp_setMinToCopy w then [PcapSetMinToCopy 0] else []) @
            (if wp_setBuff w \<and> lo_BufferBytes opts > 0 then [PcapSetBuff (lo_BufferBytes opts)] else []) @ [PcapDatalink];
          dlt = wn_datalink env;
          lt = wn_LinkType env dlt
      in if \<not> decoded_link lt then
           (Inl (ErrText (''interface '' @ friendly @ '' has link type '' @ dec_int (sint dlt) @ '', which is not decoded yet'')),
            tuning @ [PcapClose])
         else
           (let s = \<lparr>wo_device = device, wo_friendly = friendly, wo_linkType = lt, wo_snaplen = lo_Snaplen opts\<rparr> in
            if \<not> lo_NoFilter opts then
              (let r = windows_setFilter env asmble lt (lo_Snaplen opts) in
               case fst r of
                 Inl e \<Rightarrow> (Inl e, tuning @ snd r @ [PcapClose])
               | Inr _ \<Rightarrow> (Inr s, tuning @ snd r))
            else (Inr s, tuning)))"

definition windows_OpenLive ::
  "'r windows_env \<Rightarrow> netip \<Rightarrow> text_env \<Rightarrow> (insn list \<Rightarrow> string + 'r) \<Rightarrow> string \<Rightarrow> LiveOptions \<Rightarrow>
   (cap_error + windows_opened) \<times> 'r windows_call list" where
  "windows_OpenLive env np te asmble iface opts =
     (let opts = live_setDefaults opts; loaded = loadWpcap env in
      case fst loaded of
        Inl e \<Rightarrow> (Inl e, snd loaded)
      | Inr w \<Rightarrow>
          (let resolved = resolveDevice np te (wn_findAllDevs env) iface;
               before = snd loaded @ map OnDevices (snd resolved)
           in case fst resolved of
             Inl e \<Rightarrow> (Inl (ErrText e), before)
           | Inr (device, friendly) \<Rightarrow>
               if CHR 0x00 \<in> set device then (Inl (ErrText ''invalid argument''), before)
               else
                 (let opening = PcapOpenLive device (lo_Snaplen opts) (lo_Promiscuous opts) (lo_ReadTimeout opts div 10 ^ 6) in
                  case wn_openLive env device of
                    Some msg \<Rightarrow>
                      (Inl (if Contains (te_ToLower te msg) ''access is denied'' \<or> Contains (te_ToLower te msg) ''permission''
                            then ErrPermission \<lparr>pe_Op = ''open '' @ device, pe_Path = [], pe_Err = msg, pe_Hint = windowsPermissionHint\<rparr>
                            else ErrText (''opening '' @ device @ '': '' @ msg)), before @ [opening])
                  | None \<Rightarrow>
                      (let r = windows_configure env asmble w device friendly opts
                       in (fst r, before @ [opening] @ snd r)))))"


subsection \<open>Capture files\<close>

text \<open>
  A file is what \<^verbatim>\<open>os.Open\<close> gives: an error or its contents. The readers are \<^verbatim>\<open>pcapgo\<close>'s; the second
  component of the result says that the file was closed again.
\<close>

definition magicPcapNg :: bytes where "magicPcapNg = [0x0a, 0x0d, 0x0d, 0x0a]"
definition magicPcap :: bytes where "magicPcap = [0xa1, 0xb2, 0xc3, 0xd4]"
definition magicPcapSwap :: bytes where "magicPcapSwap = [0xd4, 0xc3, 0xb2, 0xa1]"
definition magicPcapNano :: bytes where "magicPcapNano = [0xa1, 0xb2, 0x3c, 0x4d]"
definition magicPcapNanoSw :: bytes where "magicPcapNanoSw = [0x4d, 0x3c, 0xb2, 0xa1]"

record 'r pcapgo =
  pg_NewNgReader :: "bytes \<Rightarrow> string + 'r"
  pg_NewReader :: "bytes \<Rightarrow> string + 'r"
  pg_short :: "bytes \<Rightarrow> string"
  pg_Seek :: "string option"

definition OpenFile :: "'r pcapgo \<Rightarrow> string \<Rightarrow> string + bytes \<Rightarrow> (string + 'r) \<times> bool" where
  "OpenFile pg path file =
     (case file of
        Inl e \<Rightarrow> (Inl e, False)
      | Inr contents \<Rightarrow>
          if length contents < 4 then (Inl (path @ '': reading magic: '' @ pg_short pg contents), True)
          else
            (case pg_Seek pg of
               Some e \<Rightarrow> (Inl e, True)
             | None \<Rightarrow>
                 (let magic = take 4 contents in
                  if magic = magicPcapNg then
                    (case pg_NewNgReader pg contents of Inl e \<Rightarrow> (Inl (path @ '': '' @ e), True) | Inr r \<Rightarrow> (Inr r, False))
                  else if magic \<in> set [magicPcap, magicPcapSwap, magicPcapNano, magicPcapNanoSw] then
                    (case pg_NewReader pg contents of Inl e \<Rightarrow> (Inl (path @ '': '' @ e), True) | Inr r \<Rightarrow> (Inr r, False))
                  else (Inl (path @ '': not a pcap or pcapng file (magic '' @ hex_encode magic @ '')''), True))))"



subsection \<open>Handles are released\<close>

lemma also_call_sel [simp]: "fst (also_call c r) = fst r" "snd (also_call c r) = c # snd r"
  by (simp_all add: also_call_def)

text \<open>
  What a call does to the handles of the process, as the environment lets it succeed or fail: the capture
  handle (a socket, a BPF device or a \<^verbatim>\<open>pcap_t\<close>), the socket that probes for permission, the device list of
  \<^verbatim>\<open>pcap_findalldevs\<close> and the loaded library.
\<close>

datatype handle = CaptureHandle | ProbeHandle | DeviceList | Library

datatype effect = Acquires handle | Releases handle | NoEffect

fun linux_effect :: "'r linux_env \<Rightarrow> 'r linux_call \<Rightarrow> effect" where
  "linux_effect env (NewEthernetHandle iface) = (if lx_NewEthernetHandle env iface = None then Acquires CaptureHandle else NoEffect)"
| "linux_effect env ProbeSocket = (if lx_Socket env = None then Acquires ProbeHandle else NoEffect)"
| "linux_effect env CloseProbe = Releases ProbeHandle"
| "linux_effect env CloseHandle = Releases CaptureHandle"
| "linux_effect env c = NoEffect"

fun darwin_effect :: "'r darwin_env \<Rightarrow> 'r darwin_call \<Rightarrow> effect" where
  "darwin_effect env (OpenDevice device) = (if dn_Open env device = None then Acquires CaptureHandle else NoEffect)"
| "darwin_effect env CloseFd = Releases CaptureHandle"
| "darwin_effect env c = NoEffect"

fun windows_effect :: "'r windows_env \<Rightarrow> 'r windows_call \<Rightarrow> effect" where
  "windows_effect env (LoadDLL path) = (if wn_LoadDLL env path = None then Acquires Library else NoEffect)"
| "windows_effect env (OnDevices PcapFindAllDevs) = (case wn_findAllDevs env of Inr _ \<Rightarrow> Acquires DeviceList | Inl _ \<Rightarrow> NoEffect)"
| "windows_effect env (OnDevices PcapFreeAllDevs) = Releases DeviceList"
| "windows_effect env (PcapOpenLive device snaplen promisc timeout) =
     (if wn_openLive env device = None then Acquires CaptureHandle else NoEffect)"
| "windows_effect env PcapClose = Releases CaptureHandle"
| "windows_effect env c = NoEffect"

text \<open>The handles held after a sequence of calls; releasing one that is not held is \<open>None\<close>.\<close>

fun held :: "('c \<Rightarrow> effect) \<Rightarrow> 'c list \<Rightarrow> handle list \<Rightarrow> handle list option" where
  "held eff [] hs = Some hs"
| "held eff (c # cs) hs =
     (case eff c of
        Acquires h \<Rightarrow> held eff cs (h # hs)
      | Releases h \<Rightarrow> if h \<in> set hs then held eff cs (remove1 h hs) else None
      | NoEffect \<Rightarrow> held eff cs hs)"

lemma held_append: "held eff (xs @ ys) hs = (case held eff xs hs of None \<Rightarrow> None | Some hs \<Rightarrow> held eff ys hs)"
  by (induction xs arbitrary: hs) (simp_all split: effect.split)

lemma held_idle: "list_all (\<lambda>c. eff c = NoEffect) cs \<Longrightarrow> held eff cs hs = Some hs"
  by (induction cs) simp_all

text \<open>What an attempt leaves: the capture handle exactly when it succeeded, and the handles \<open>kept\<close>.\<close>

definition leaves :: "('c \<Rightarrow> effect) \<Rightarrow> handle list \<Rightarrow> handle list \<Rightarrow> ('e + 'a) \<times> 'c list \<Rightarrow> bool" where
  "leaves eff hs kept r \<longleftrightarrow>
     held eff (snd r) hs = Some (case fst r of Inl _ \<Rightarrow> kept | Inr _ \<Rightarrow> CaptureHandle # kept)"

lemma leaves_simps [simp]:
  "leaves eff hs kept (Inl e, []) \<longleftrightarrow> hs = kept" "leaves eff hs kept (Inr x, []) \<longleftrightarrow> hs = CaptureHandle # kept"
  by (simp_all add: leaves_def)

lemma leaves_call:
  "leaves eff hs kept (also_call c r) \<longleftrightarrow>
     (case eff c of Acquires h \<Rightarrow> leaves eff (h # hs) kept r
      | Releases h \<Rightarrow> h \<in> set hs \<and> leaves eff (remove1 h hs) kept r | NoEffect \<Rightarrow> leaves eff hs kept r)"
  by (auto simp: leaves_def split: effect.split)

lemma leaves_append:
  "leaves eff hs kept (x, cs @ ds) \<longleftrightarrow> (\<exists>hs'. held eff cs hs = Some hs' \<and> leaves eff hs' kept (x, ds))"
  by (auto simp: leaves_def held_append split: option.splits)

lemma linux_filter_leaves: "leaves (linux_effect env) [CaptureHandle] [] (linux_filter env asmble iface opts)"
  by (simp add: linux_filter_def Let_def leaves_call split: sum.split option.split)

lemma permissionDenied_releases: "held (linux_effect env) (snd (permissionDenied env iface)) hs = Some hs"
  by (auto simp: permissionDenied_def split: option.split)

lemma linux_leaves: "leaves (linux_effect env) [] [] (linux_OpenLive env np interfaces asmble iface opts)"
proof (cases "iface_or_default np interfaces iface")
  case (Inr name)
  show ?thesis
  proof (cases "lx_NewEthernetHandle env name")
    case None
    then show ?thesis
      by (simp add: linux_OpenLive_def Let_def Inr leaves_call linux_filter_leaves split: option.split)
  next
    case (Some err)
    then show ?thesis
      using permissionDenied_releases [of env name "[]"]
      by (simp add: linux_OpenLive_def Let_def Inr leaves_call leaves_def)
  qed
qed (simp add: linux_OpenLive_def Let_def)

text \<open>The ioctls of Darwin neither open nor close; the caller does.\<close>

definition keeps_open :: "'r darwin_env \<Rightarrow> ('e + 'a) \<times> 'r darwin_call list \<Rightarrow> bool" where
  "keeps_open env r \<longleftrightarrow> list_all (\<lambda>c. darwin_effect env c = NoEffect) (snd r)"

lemma keeps_open_simps [simp]:
  "keeps_open env (x, [])" "keeps_open env (also_call c r) \<longleftrightarrow> darwin_effect env c = NoEffect \<and> keeps_open env r"
  by (simp_all add: keeps_open_def)

lemma keeps_open_ioctl: "darwin_effect env req = NoEffect \<Longrightarrow> (\<And>v. keeps_open env (k v)) \<Longrightarrow> keeps_open env (ioctl env req failed k)"
  by (simp add: ioctl_def split: sum.split)

lemma keeps_open_setFilter: "keeps_open env (darwin_setFilter env asmble lt snaplen)"
  by (simp add: darwin_setFilter_def keeps_open_ioctl split: sum.split option.split)

lemma keeps_open_link: "keeps_open env (darwin_link env asmble iface opts)"
proof -
  have tail: "keeps_open env (ioctl env BIOCGBLEN (failing env ''reading BPF buffer length'') (\<lambda>blen.
      if blen = 0 then (Inl (ErrText ''kernel reported a zero-length BPF buffer''), []) else (Inr (lt, blen), [])))" for lt :: nat
    by (rule keeps_open_ioctl) simp_all
  show ?thesis
    unfolding darwin_link_def Let_def
    by (rule keeps_open_ioctl, simp)
      (use tail in \<open>auto simp: keeps_open_def keeps_open_setFilter [unfolded keeps_open_def] split: sum.split\<close>)
qed

lemma keeps_open_configure: "keeps_open env (darwin_configure env asmble iface opts)"
  by (simp add: darwin_configure_def keeps_open_ioctl keeps_open_link)

lemma openBPF_loop_leaves: "leaves (darwin_effect env) [] [] (openBPF_loop env is firstErr)"
  by (induction "is" arbitrary: firstErr) (simp_all add: Let_def leaves_call split: option.split)

lemma darwin_leaves: "leaves (darwin_effect env) [] [] (darwin_OpenLive env np interfaces asmble iface opts)"
proof (cases "iface_or_default np interfaces iface")
  case (Inr name)
  let ?o = "openBPFDevice env" and ?c = "darwin_configure env asmble name (live_setDefaults opts)"
  have opened: "leaves (darwin_effect env) [] [] ?o" unfolding openBPFDevice_def by (rule openBPF_loop_leaves)
  have conf: "held (darwin_effect env) (snd ?c) hs = Some hs" for hs
    by (rule held_idle) (rule keeps_open_configure [unfolded keeps_open_def])
  show ?thesis
    using opened conf
    by (auto simp: darwin_OpenLive_def Let_def Inr leaves_def held_append split: sum.splits)
qed (simp add: darwin_OpenLive_def Let_def)

text \<open>The library, once loaded, stays for the life of the process.\<close>

definition library :: "'r windows_env \<Rightarrow> 'r windows_call list \<Rightarrow> handle list" where
  "library env cs = (if list_ex (\<lambda>c. windows_effect env c = Acquires Library) cs then [Library] else [])"

lemma windows_idle:
  "windows_effect env (SetDllDirectory d) = NoEffect" "windows_effect env (PcapSetMinToCopy n) = NoEffect"
  "windows_effect env (PcapSetBuff n) = NoEffect" "windows_effect env PcapDatalink = NoEffect"
  "windows_effect env (PcapSetFilter p) = NoEffect"
  by simp_all

lemma wpcap_load_held:
  "held (windows_effect env) (snd (wpcap_load env paths err)) [] = Some (library env (snd (wpcap_load env paths err)))"
  by (induction paths arbitrary: err) (auto simp: library_def Let_def split: option.split)

lemma loadWpcap_held: "held (windows_effect env) (snd (loadWpcap env)) [] = Some (library env (snd (loadWpcap env)))"
proof -
  have "snd (loadWpcap env) = snd (wpcap_load env (wpcapPaths env) None)"
    by (simp add: loadWpcap_def Let_def split: prod.split bool.split option.split)
  then show ?thesis by (simp only: wpcap_load_held)
qed

lemma listDevices_held:
  "held (windows_effect env) (map OnDevices (snd (resolveDevice np te (wn_findAllDevs env) iface))) hs = Some hs"
  by (simp add: resolveDevice_def listDevices_def Let_def split: sum.split)

lemma windows_setFilter_held: "held (windows_effect env) (snd (windows_setFilter env asmble lt snaplen)) hs = Some hs"
  by (simp add: windows_setFilter_def Let_def split: sum.split option.split)

lemma windows_configure_leaves:
  "leaves (windows_effect env) (CaptureHandle # kept) kept (windows_configure env asmble w device friendly opts)"
proof -
  define tuning :: "'a windows_call list" where "tuning = (if wp_setMinToCopy w then [PcapSetMinToCopy 0] else []) @
            (if wp_setBuff w \<and> lo_BufferBytes opts > 0 then [PcapSetBuff (lo_BufferBytes opts)] else []) @ [PcapDatalink]"
  have "held (windows_effect env) tuning hs = Some hs" for hs by (rule held_idle) (simp add: tuning_def)
  then show ?thesis
    unfolding windows_configure_def Let_def tuning_def [symmetric]
    by (auto simp: leaves_append windows_setFilter_held leaves_def held_append split: sum.split)
qed

lemma windows_leaves:
  "leaves (windows_effect env) [] (library env (snd (windows_OpenLive env np te asmble iface opts)))
     (windows_OpenLive env np te asmble iface opts)"
proof -
  define r where "r = windows_OpenLive env np te asmble iface opts"
  let ?l = "loadWpcap env" and ?d = "resolveDevice np te (wn_findAllDevs env) iface"
  let ?lib = "library env (snd ?l)"
  have conf: "\<not> list_ex (\<lambda>c. windows_effect env c = Acquires Library) (snd (windows_configure env asmble w device friendly o'))"
    for w device friendly o'
    by (auto simp: windows_configure_def windows_setFilter_def Let_def split: sum.split option.split)
  have devs: "\<not> list_ex (\<lambda>c. windows_effect env c = Acquires Library) (map OnDevices (snd ?d))"
    by (auto simp: resolveDevice_def listDevices_def Let_def split: sum.split)
  have lib: "library env (snd r) = ?lib"
    using devs conf
    by (auto simp: r_def windows_OpenLive_def Let_def library_def split: sum.split prod.split option.split)
  have before: "held (windows_effect env) (snd ?l @ map OnDevices (snd ?d) @ cs) [] = held (windows_effect env) cs ?lib" for cs
    by (simp add: held_append loadWpcap_held listDevices_held)
  note conf = windows_configure_leaves [unfolded leaves_def]
  show ?thesis
    unfolding lib [unfolded r_def] unfolding leaves_def windows_OpenLive_def Let_def
    using before before [of "[]", simplified]
    by (auto simp: loadWpcap_held conf split: sum.split prod.split option.split)
qed

text \<open>
  C30: Opening a live source never leaks a handle. On each platform and for every combination of failing
  calls, running the calls of the attempt never releases a handle that is not held, and afterwards exactly this
  is held: the capture handle when the attempt succeeded, and nothing when it failed. The socket that probes
  for permission on Linux and the device list on Windows are released on every path. On Windows the library
  stays loaded for the life of the process, once, whether or not the attempt succeeded: there is no call that
  unloads it.
\<close>

theorem open_live_releases:
  "held (linux_effect lx) (snd (linux_OpenLive lx np interfaces asmble iface opts)) [] =
     Some (case fst (linux_OpenLive lx np interfaces asmble iface opts) of Inl _ \<Rightarrow> [] | Inr _ \<Rightarrow> [CaptureHandle]) \<and>
   held (darwin_effect dn) (snd (darwin_OpenLive dn np interfaces asmble iface opts)) [] =
     Some (case fst (darwin_OpenLive dn np interfaces asmble iface opts) of Inl _ \<Rightarrow> [] | Inr _ \<Rightarrow> [CaptureHandle]) \<and>
   held (windows_effect wn) (snd (windows_OpenLive wn np te asmble iface opts)) [] =
     Some ((case fst (windows_OpenLive wn np te asmble iface opts) of Inl _ \<Rightarrow> [] | Inr _ \<Rightarrow> [CaptureHandle]) @
       (if list_ex (\<lambda>c. windows_effect wn c = Acquires Library) (snd (windows_OpenLive wn np te asmble iface opts))
        then [Library] else []))"
  using linux_leaves [of lx np interfaces asmble iface opts] darwin_leaves [of dn np interfaces asmble iface opts]
    windows_leaves [of wn np te asmble iface opts]
  by (simp add: leaves_def library_def split: sum.splits)

end
