(* ===== verification/Command.thy ===== *)
theory Command
  imports Flags Watch Capture_Open
begin

text \<open>
  The command line: \<^verbatim>\<open>cmd/tlscensus/main.go\<close>, the flags and the set-up of \<^verbatim>\<open>read.go\<close> and \<^verbatim>\<open>watch.go\<close>,
  the end of a watch, and the listing of interfaces. \<open>quote\<close> is \<^verbatim>\<open>%q\<close>; what is written to the standard
  output and to the standard error are results.
\<close>


subsection \<open>Version\<close>

record build_info =
  bi_Version :: string
  bi_Settings :: "(string \<times> string) list"

definition resolveVersion :: "build_info option \<Rightarrow> string" where
  "resolveVersion info =
     (case info of
        None \<Rightarrow> ''dev''
      | Some info \<Rightarrow>
          if bi_Version info \<noteq> [] \<and> bi_Version info \<noteq> ''(devel)'' then bi_Version info
          else
            (let (revision, modified) =
                   foldl (\<lambda>(revision, modified) (key, value).
                     if key = ''vcs.revision'' then (value, modified)
                     else if key = ''vcs.modified'' then (revision, value = ''true'')
                     else (revision, modified)) ([], False) (bi_Settings info);
                 short = (if length revision > 12 then take 12 revision else revision)
             in if revision = [] then ''dev''
                else if modified then ''dev-'' @ short @ ''-dirty''
                else ''dev-'' @ short))"

text \<open>\<^verbatim>\<open>init\<close>: the version set at link time wins.\<close>

definition init_version :: "string \<Rightarrow> build_info option \<Rightarrow> string" where
  "init_version linked info = (if linked = [] then resolveVersion info else linked)"


subsection \<open>Dispatch\<close>

definition usage :: string where
  "usage = text_of
     [''tlscensus '' @ em_dash @ '' passive TLS cryptography inventory'', [],
      ''Usage:'',
      ''  tlscensus read [flags] FILE...   read pcap/pcapng capture files'',
      ''  tlscensus watch [flags]          capture live from an interface'',
      ''  tlscensus serve [flags] [FILE...]  serve a report on loopback'',
      ''  tlscensus interfaces             list capturable interfaces'',
      ''  tlscensus version'', [],
      ''Common flags:'',
      ''  -o, -output FORMAT   text, json, ndjson, cbom or html (default text)'',
      ''  -top N               entries per distribution (default 15)'',
      ''  -max-prefix BYTES    bytes retained per stream direction (default 32768)'',
      ''  -max-streams N       concurrently tracked connections (default 8192)'', [],
      ''read flags:'',
      ''  -records             include per-flow records in json output'', [],
      ''watch flags:'',
      ''  -i IFACE             interface to capture on (default: first non-loopback)'',
      ''  -snaplen BYTES       bytes captured per packet (default 65535)'',
      ''  -promisc             capture other hosts'' @ apostrophe @ '' traffic too (default off)'',
      ''  -no-filter           skip the kernel BPF filter'', [],
      ''Examples:'',
      ''  tlscensus read capture.pcap'',
      ''  tlscensus read -o ndjson capture.pcapng | jq '' @ apostrophe @ ''select(.pq_status==\"classical\")'' @ apostrophe,
      ''  sudo tlscensus watch -i en0'',
      ''  sudo tlscensus watch -o ndjson | tee handshakes.ndjson'',
      ''  tlscensus read -o html capture.pcap > report.html'',
      ''  tlscensus read -o cbom capture.pcap > crypto.cdx.json'',
      ''  tlscensus serve capture.pcap'',
      ''  sudo tlscensus serve -i en0'', []]"

text \<open>The commands, each giving the text of its error, if any.\<close>

record commands =
  cm_read :: "string list \<Rightarrow> string option"
  cm_watch :: "string list \<Rightarrow> string option"
  cm_serve :: "string list \<Rightarrow> string option"
  cm_interfaces :: "string list \<Rightarrow> string option"

text \<open>Standard output and standard error of \<^verbatim>\<open>main\<close> itself, and the exit status.\<close>

definition go_main :: "(string \<Rightarrow> string) \<Rightarrow> string \<Rightarrow> commands \<Rightarrow> string list \<Rightarrow> string \<times> string \<times> nat" where
  "go_main quote version cm osArgs =
     (let ended = (\<lambda>out err. case err of None \<Rightarrow> (out, [], 0) | Some e \<Rightarrow> (out, ''tlscensus: '' @ e @ nl, 1)) in
      case osArgs of
        prog # cmd # args \<Rightarrow>
          if cmd = ''read'' then ended [] (cm_read cm args)
          else if cmd = ''watch'' then ended [] (cm_watch cm args)
          else if cmd = ''serve'' then ended [] (cm_serve cm args)
          else if cmd = ''interfaces'' then ended [] (cm_interfaces cm args)
          else if cmd \<in> set [''version'', ''-v'', ''--version''] then ended (''tlscensus '' @ version @ nl) None
          else if cmd \<in> set [''help'', ''-h'', ''--help''] then ended usage None
          else ([], ''tlscensus: unknown command '' @ quote cmd @ nl @ nl @ usage, 2)
      | _ \<Rightarrow> ([], usage, 2))"


subsection \<open>Flags\<close>

definition int_setting :: "settings \<Rightarrow> string \<Rightarrow> int" where
  "int_setting vals var = (case vals var of Some (IntVal n) \<Rightarrow> n | _ \<Rightarrow> 0)"

definition bool_setting :: "settings \<Rightarrow> string \<Rightarrow> bool" where
  "bool_setting vals var = (case vals var of Some (BoolVal b) \<Rightarrow> b | _ \<Rightarrow> False)"

definition string_setting :: "settings \<Rightarrow> string \<Rightarrow> string" where
  "string_setting vals var = (case vals var of Some (StringVal s) \<Rightarrow> s | _ \<Rightarrow> [])"

definition read_formal :: flag_set where
  "read_formal =
     [(''o'', ''format'', StringFlag), (''output'', ''format'', StringFlag), (''top'', ''top'', IntFlag),
      (''records'', ''records'', BoolFlag), (''max-prefix'', ''max-prefix'', IntFlag), (''max-streams'', ''max-streams'', IntFlag)]"

definition read_defaults :: settings where
  "read_defaults =
     [''format'' \<mapsto> StringVal ''text'', ''top'' \<mapsto> IntVal 15, ''records'' \<mapsto> BoolVal False,
      ''max-prefix'' \<mapsto> IntVal DefaultMaxStreamPrefix, ''max-streams'' \<mapsto> IntVal DefaultMaxStreams]"

definition read_flags_of :: "settings \<Rightarrow> string list \<Rightarrow> read_flags" where
  "read_flags_of vals files =
     \<lparr>rf_format = string_setting vals ''format'', rf_top = int_setting vals ''top'', rf_records = bool_setting vals ''records'',
      rf_maxPrefix = int_setting vals ''max-prefix'', rf_maxStreams = int_setting vals ''max-streams'', rf_files = files\<rparr>"

definition parse_read :: "(string \<Rightarrow> string) \<Rightarrow> string list \<Rightarrow> flag_error + read_flags" where
  "parse_read quote args =
     (case flag_Parse quote read_formal read_defaults args of
        Inl e \<Rightarrow> Inl e
      | Inr (vals, files) \<Rightarrow> Inr (read_flags_of vals files))"

datatype 'e command_error = FlagsFailed flag_error | CommandFailed 'e

definition read_command ::
  "cryptobyte \<Rightarrow> gopacket \<Rightarrow> (nat \<Rightarrow> inv_env) \<Rightarrow> out_env \<Rightarrow> cbom_env \<Rightarrow> (string \<Rightarrow> 'e + ('s, 'e) Source) \<Rightarrow> string \<Rightarrow> int \<Rightarrow> int \<Rightarrow>
   (string \<Rightarrow> string) \<Rightarrow> string list \<Rightarrow> ('e cli_error command_error + document \<times> string) option" where
  "read_command cb gp ie oe ce openFile ver closeNow now quote args =
     (case parse_read quote args of
        Inl e \<Rightarrow> Some (Inl (FlagsFailed e))
      | Inr fl \<Rightarrow>
          map_option (map_sum CommandFailed id) (runRead cb gp ie oe ce openFile ver closeNow now fl))"

record watch_flags =
  wf_format :: string
  wf_iface :: string
  wf_top :: int
  wf_live :: LiveOptions
  wf_maxPrefix :: int
  wf_maxStreams :: int

definition watch_formal :: flag_set where
  "watch_formal =
     [(''o'', ''format'', StringFlag), (''output'', ''format'', StringFlag), (''i'', ''i'', StringFlag), (''top'', ''top'', IntFlag),
      (''snaplen'', ''snaplen'', IntFlag), (''promisc'', ''promisc'', BoolFlag), (''no-filter'', ''no-filter'', BoolFlag),
      (''max-prefix'', ''max-prefix'', IntFlag), (''max-streams'', ''max-streams'', IntFlag)]"

definition watch_defaults :: settings where
  "watch_defaults =
     [''format'' \<mapsto> StringVal ''text'', ''i'' \<mapsto> StringVal [], ''top'' \<mapsto> IntVal 15, ''snaplen'' \<mapsto> IntVal 65535,
      ''promisc'' \<mapsto> BoolVal False, ''no-filter'' \<mapsto> BoolVal False,
      ''max-prefix'' \<mapsto> IntVal DefaultMaxStreamPrefix, ''max-streams'' \<mapsto> IntVal DefaultMaxStreams]"

definition watch_flags_of :: "settings \<Rightarrow> watch_flags" where
  "watch_flags_of vals =
     \<lparr>wf_format = string_setting vals ''format'', wf_iface = string_setting vals ''i'', wf_top = int_setting vals ''top'',
      wf_live = \<lparr>lo_Snaplen = int_setting vals ''snaplen'', lo_Promiscuous = bool_setting vals ''promisc'', lo_BufferBytes = 0,
        lo_ReadTimeout = 0, lo_NoFilter = bool_setting vals ''no-filter''\<rparr>,
      wf_maxPrefix = int_setting vals ''max-prefix'', wf_maxStreams = int_setting vals ''max-streams''\<rparr>"


subsection \<open>The watch command\<close>

datatype 'e watch_error = WatchFormat string | UnsupportedPlatform | OpenLiveFailed 'e

text \<open>
  What \<^verbatim>\<open>runWatch\<close> does before it captures: a source is opened by \<open>openLive\<close>, which gives its name. The
  result is the flags and the name of the source; rejected arguments are not used for anything.
\<close>

definition watch_setup ::
  "(string \<Rightarrow> string) \<Rightarrow> string \<Rightarrow> (string \<Rightarrow> LiveOptions \<Rightarrow> 'e + string) \<Rightarrow> string list \<Rightarrow> 'e watch_error command_error + watch_flags \<times> string" where
  "watch_setup quote goos openLive args =
     (case flag_Parse quote watch_formal watch_defaults args of
        Inl e \<Rightarrow> Inl (FlagsFailed e)
      | Inr (vals, rest) \<Rightarrow>
          (let fl = watch_flags_of vals in
           if \<not> validateFormat (wf_format fl) then Inl (CommandFailed (WatchFormat (wf_format fl)))
           else if \<not> LiveSupported goos then Inl (CommandFailed UnsupportedPlatform)
           else
             (case openLive (wf_iface fl) (wf_live fl) of
                Inl e \<Rightarrow> Inl (CommandFailed (OpenLiveFailed e))
              | Inr name \<Rightarrow> Inr (fl, name))))"

text \<open>The callback is set for the two formats that stream.\<close>

definition watch_streams :: "string \<Rightarrow> bool" where
  "watch_streams format \<longleftrightarrow> format = ''ndjson'' \<or> format = ''text''"

definition watch_pipeline :: "watch_flags \<Rightarrow> pipeline" where
  "watch_pipeline fl =
     newPipeline \<lparr>o_MaxStreamPrefix = wf_maxPrefix fl, o_CloseTimeout = 0, o_MaxStreams = wf_maxStreams fl\<rparr> False
       (watch_streams (wf_format fl))"

definition watch_banner :: "watch_flags \<Rightarrow> string \<Rightarrow> string" where
  "watch_banner fl name =
     (if wf_format fl = ''text'' then
        ''tlscensus: capturing on '' @ name @ (if lo_Promiscuous (wf_live fl) then '' (promiscuous)'' else []) @
        '' '' @ em_dash @ '' press Ctrl-C to stop'' @ nl
      else [])"

text \<open>A record as the stream shows it: encoded, or on a line.\<close>

datatype shown = ShownJSON Record | ShownLine string

definition show_record :: "out_env \<Rightarrow> string \<Rightarrow> Record \<Rightarrow> shown" where
  "show_record oe format r = (if format = ''ndjson'' then ShownJSON r else ShownLine (FlowLine oe r @ nl))"

text \<open>
  The end of a watch, when the capture loop has returned and the sweeper has stopped: the last flows
  are reported through the callback, then the summary is written unless the format is NDJSON. \<open>stopping\<close>
  says that a signal closed the source, and \<open>runErr\<close> is the error of the capture loop.
\<close>

record 'e watch_end =
  we_shown :: "shown list"
  we_document :: "document option"
  we_warning :: string
  we_error :: "'e option"

definition watch_finish ::
  "cryptobyte \<Rightarrow> gopacket \<Rightarrow> (nat \<Rightarrow> inv_env) \<Rightarrow> out_env \<Rightarrow> cbom_env \<Rightarrow> string \<Rightarrow> int \<Rightarrow> int \<Rightarrow> watch_flags \<Rightarrow> string \<Rightarrow> bool \<Rightarrow>
   'e option \<Rightarrow> pipeline \<Rightarrow> 'e watch_end option" where
  "watch_finish cb gp ie oe ce ver closeNow now fl name stopping runErr p =
     (case p_finish cb gp ie ver closeNow now [name] (wf_top fl) False p of
        None \<Rightarrow> None
      | Some (rep, p, out) \<Rightarrow>
          Some \<lparr>we_shown = map (show_record oe (wf_format fl)) out,
                we_document = (if wf_format fl \<noteq> ''ndjson'' then Some (writeReport oe ce (wf_format fl) rep (p_records p)) else None),
                we_warning = warnIfIncomplete (rp_Stats rep),
                we_error = (if stopping then None else runErr)\<rparr>)"


subsection \<open>The interfaces command\<close>

definition interface_row :: "string \<Rightarrow> InterfaceInfo \<Rightarrow> string" where
  "interface_row def i =
     (let state = (if ii_Up i then ''up'' else ''down'') @ (if ii_Loopback i then '',loopback'' else []);
          name = ii_Name i @ (if ii_Name i = def then '' *'' else []);
          addrs = (if length (ii_Addresses i) > 0 then Sprint_list (ii_Addresses i) else ''-'')
      in name @ [CHR 0x09] @ state @ [CHR 0x09] @ addrs @ nl)"

text \<open>Standard output, standard error and the error returned; the table goes through \<^verbatim>\<open>text/tabwriter\<close>.\<close>

definition runInterfaces ::
  "(string \<Rightarrow> string) \<Rightarrow> string \<Rightarrow> (string \<Rightarrow> string) \<Rightarrow> netip \<Rightarrow> string + InterfaceInfo list \<Rightarrow> string list \<Rightarrow>
   string \<times> string \<times> (flag_error + string) option" where
  "runInterfaces quote goos tabwriter np interfaces args =
     (case flag_Parse quote [] Map.empty args of
        Inl e \<Rightarrow> ([], [], Some (Inl e))
      | Inr _ \<Rightarrow>
          (case interfaces of
             Inl e \<Rightarrow> ([], [], Some (Inr e))
           | Inr ifs \<Rightarrow>
               (let def = (case DefaultInterface np interfaces of Inl _ \<Rightarrow> [] | Inr n \<Rightarrow> n);
                    table = tabwriter (''NAME'' @ [CHR 0x09] @ ''STATE'' @ [CHR 0x09] @ ''ADDRESSES'' @ nl @
                              concat (map (interface_row def) ifs));
                    mark = (if def \<noteq> [] then nl @ ''* default for `tlscensus watch` when -i is not given'' @ nl else []);
                    note = (if \<not> LiveSupported goos
                            then nl @ ''Note: live capture is not supported on this platform; '' @
                                 ''`tlscensus read` works everywhere.'' @ nl else [])
                in (table @ mark, note, None))))"

end
