(* ===== verification/Serve.thy ===== *)
theory Serve
  imports Command Html "HOL-Library.AList"
begin

text \<open>
  The HTTP server: \<^verbatim>\<open>cmd/tlscensus/serve.go\<close>. A request is its path and raw query, with the redirect
  \<^verbatim>\<open>net/http\<close>'s \<^verbatim>\<open>ServeMux\<close> answers it with before any handler when its path is not clean; a response has
  a status, headers and the document that is encoded as its body.
\<close>

definition liveRefreshSeconds :: int where "liveRefreshSeconds = 10"


subsection \<open>Flags and start-up\<close>

record serve_flags =
  vf_iface :: string
  vf_port :: int
  vf_top :: int
  vf_live :: LiveOptions
  vf_maxPrefix :: int
  vf_maxStreams :: int
  vf_noToken :: bool
  vf_files :: "string list"

definition serve_formal :: flag_set where
  "serve_formal =
     [(''i'', ''i'', StringFlag), (''port'', ''port'', IntFlag), (''top'', ''top'', IntFlag), (''snaplen'', ''snaplen'', IntFlag),
      (''promisc'', ''promisc'', BoolFlag), (''max-prefix'', ''max-prefix'', IntFlag), (''max-streams'', ''max-streams'', IntFlag),
      (''no-token'', ''no-token'', BoolFlag)]"

definition serve_defaults :: settings where
  "serve_defaults =
     [''i'' \<mapsto> StringVal [], ''port'' \<mapsto> IntVal 0, ''top'' \<mapsto> IntVal 15, ''snaplen'' \<mapsto> IntVal 65535, ''promisc'' \<mapsto> BoolVal False,
      ''max-prefix'' \<mapsto> IntVal DefaultMaxStreamPrefix, ''max-streams'' \<mapsto> IntVal DefaultMaxStreams, ''no-token'' \<mapsto> BoolVal False]"

definition serve_flags_of :: "settings \<Rightarrow> string list \<Rightarrow> serve_flags" where
  "serve_flags_of vals files =
     \<lparr>vf_iface = string_setting vals ''i'', vf_port = int_setting vals ''port'', vf_top = int_setting vals ''top'',
      vf_live = \<lparr>lo_Snaplen = int_setting vals ''snaplen'', lo_Promiscuous = bool_setting vals ''promisc'', lo_BufferBytes = 0,
        lo_ReadTimeout = 0, lo_NoFilter = False\<rparr>,
      vf_maxPrefix = int_setting vals ''max-prefix'', vf_maxStreams = int_setting vals ''max-streams'',
      vf_noToken = bool_setting vals ''no-token'', vf_files = files\<rparr>"

record server =
  sv_token :: string
  sv_live :: bool
  sv_sources :: "string list"
  sv_top :: int
  sv_p :: pipeline

datatype ('e, 'l) serve_error =
  ServeBoth | ServeUnsupported | ServeOpenLive 'l | ServeFile "'e cli_error" | ServeToken string | ServeListen string

definition serve_is_live :: "serve_flags \<Rightarrow> bool" where
  "serve_is_live fl \<longleftrightarrow> vf_iface fl \<noteq> [] \<or> vf_files fl = []"

text \<open>What the machine provides: 16 random bytes, a loopback listener's address, and live capture's name.\<close>

record 'l serve_env =
  se_GOOS :: string
  se_OpenLive :: "string \<Rightarrow> LiveOptions \<Rightarrow> 'l + string"
  se_rand :: "string + bytes"
  se_Listen :: "string \<Rightarrow> string + string"

definition serve_url :: "string \<Rightarrow> string \<Rightarrow> string" where
  "serve_url addr token =
     ''http://'' @ addr @ ''/'' @ (if token \<noteq> [] then ''?t='' @ token else [])"

definition serve_message :: "bool \<Rightarrow> string \<Rightarrow> string \<Rightarrow> string list \<Rightarrow> string" where
  "serve_message live addr token sources =
     ''tlscensus: serving on '' @ serve_url addr token @ nl @
     ''  loopback only; the token is required and is not written to disk'' @ nl @
     (if live then ''  capturing on '' @ hd sources @ '' '' @ em_dash @ '' press Ctrl-C to stop'' @ nl else [])"

text \<open>The sources and the pipeline: opened for live capture, or read to the end and closed.\<close>

definition serve_sources ::
  "cryptobyte \<Rightarrow> gopacket \<Rightarrow> (nat \<Rightarrow> inv_env) \<Rightarrow> (string \<Rightarrow> 'e + ('s, 'e) Source) \<Rightarrow> 'l serve_env \<Rightarrow> int \<Rightarrow> serve_flags \<Rightarrow>
   (('e, 'l) serve_error + string list \<times> pipeline) option" where
  "serve_sources cb gp ie openFile env closeNow fl =
     (let p = newPipeline \<lparr>o_MaxStreamPrefix = vf_maxPrefix fl, o_CloseTimeout = 0, o_MaxStreams = vf_maxStreams fl\<rparr> False False in
      if serve_is_live fl then
        if \<not> LiveSupported (se_GOOS env) then Some (Inl ServeUnsupported)
        else
          (case se_OpenLive env (vf_iface fl) (vf_live fl) of
             Inl e \<Rightarrow> Some (Inl (ServeOpenLive e))
           | Inr name \<Rightarrow> Some (Inr ([name], p)))
      else
        (case read_files cb gp ie openFile (vf_files fl) p of
           None \<Rightarrow> None
         | Some (Inl e) \<Rightarrow> Some (Inl (ServeFile e))
         | Some (Inr p) \<Rightarrow>
             (case asm_call ie (\<lambda>a. Close cb gp a closeNow) p of
                None \<Rightarrow> None
              | Some p \<Rightarrow> Some (Inr (vf_files fl, p)))))"

definition serve_token :: "'l serve_env \<Rightarrow> serve_flags \<Rightarrow> string + string" where
  "serve_token env fl =
     (if vf_noToken fl then Inr []
      else (case se_rand env of Inl e \<Rightarrow> Inl e | Inr b \<Rightarrow> Inr (hex_encode b)))"

text \<open>The server that is listening and what was written to the standard error.\<close>

definition runServe ::
  "cryptobyte \<Rightarrow> gopacket \<Rightarrow> (nat \<Rightarrow> inv_env) \<Rightarrow> (string \<Rightarrow> 'e + ('s, 'e) Source) \<Rightarrow> 'l serve_env \<Rightarrow> int \<Rightarrow> (string \<Rightarrow> string) \<Rightarrow> string list \<Rightarrow>
   (('e, 'l) serve_error command_error + server \<times> string) option" where
  "runServe cb gp ie openFile env closeNow quote args =
     (case flag_Parse quote serve_formal serve_defaults args of
        Inl e \<Rightarrow> Some (Inl (FlagsFailed e))
      | Inr (vals, files) \<Rightarrow>
          (let fl = serve_flags_of vals files in
           if serve_is_live fl \<and> files \<noteq> [] then Some (Inl (CommandFailed ServeBoth))
           else
             (case serve_sources cb gp ie openFile env closeNow fl of
                None \<Rightarrow> None
              | Some (Inl e) \<Rightarrow> Some (Inl (CommandFailed e))
              | Some (Inr (sources, p)) \<Rightarrow>
                  (case serve_token env fl of
                     Inl e \<Rightarrow> Some (Inl (CommandFailed (ServeToken (''generating token: '' @ e))))
                   | Inr token \<Rightarrow>
                       (case se_Listen env (''127.0.0.1:'' @ dec_int (vf_port fl)) of
                          Inl e \<Rightarrow> Some (Inl (CommandFailed (ServeListen (''listening on loopback: '' @ e))))
                        | Inr addr \<Rightarrow>
                            Some (Inr (\<lparr>sv_token = token, sv_live = serve_is_live fl, sv_sources = sources, sv_top = vf_top fl, sv_p = p\<rparr>,
                              serve_message (serve_is_live fl) addr token sources)))))))"


subsection \<open>Requests\<close>

record request =
  rq_Path :: string
  rq_RawQuery :: string
  rq_Redirect :: "string option"

datatype body = BodyText string | BodyHTML htmlView | BodyJSON Report | BodyCBOM cdxBOM | BodyRedirect string

record response =
  rs_Status :: nat
  rs_Headers :: "(string \<times> string) list"
  rs_Body :: body

text \<open>\<^verbatim>\<open>subtle.ConstantTimeCompare\<close>: the lengths, then the disjunction of all differences.\<close>

definition ConstantTimeCompare :: "bytes \<Rightarrow> bytes \<Rightarrow> nat" where
  "ConstantTimeCompare x y =
     (if length x \<noteq> length y then 0
      else if foldl (\<lambda>v (a, b). v OR (a XOR b)) 0 (zip x y) = 0 then 1 else 0)"

definition secure_headers :: "(string \<times> string) list" where
  "secure_headers =
     (let q = (\<lambda>s. apostrophe @ s @ apostrophe) in
      [(''Cache-Control'', ''no-store''), (''Referrer-Policy'', ''no-referrer''), (''X-Content-Type-Options'', ''nosniff''),
       (''Content-Security-Policy'',
        ''default-src '' @ q ''none'' @ ''; style-src '' @ q ''unsafe-inline'' @ ''; script-src '' @ q ''unsafe-inline'')])"

text \<open>\<^verbatim>\<open>http.Error\<close> sets two headers on top of those set before.\<close>

definition http_Error :: "(string \<times> string) list \<Rightarrow> string \<Rightarrow> nat \<Rightarrow> response" where
  "http_Error headers msg status =
     \<lparr>rs_Status = status,
      rs_Headers = AList.update ''X-Content-Type-Options'' ''nosniff''
        (AList.update ''Content-Type'' ''text/plain; charset=utf-8'' headers),
      rs_Body = BodyText (msg @ nl)\<rparr>"

definition authed :: "string \<Rightarrow> ((string \<times> string) list \<Rightarrow> response) \<Rightarrow> request \<Rightarrow> response" where
  "authed token h r =
     (let got = Values_Get (ParseQuery (rq_RawQuery r)) ''t'' in
      if token \<noteq> [] \<and> ConstantTimeCompare (string_bytes got) (string_bytes token) \<noteq> 1
      then http_Error [] ''missing or invalid token'' 403
      else h secure_headers)"

definition ok_response :: "string \<Rightarrow> body \<Rightarrow> (string \<times> string) list \<Rightarrow> response" where
  "ok_response contentType body headers =
     \<lparr>rs_Status = 200, rs_Headers = headers @ [(''Content-Type'', contentType)], rs_Body = body\<rparr>"

record page_env =
  pv_html :: html_env
  pv_cbom :: cbom_env
  pv_version :: string
  pv_clock :: int

definition serve_root :: "page_env \<Rightarrow> server \<Rightarrow> request \<Rightarrow> (string \<times> string) list \<Rightarrow> response" where
  "serve_root env s r headers =
     (if rq_Path r \<noteq> ''/'' then http_Error headers ''404 page not found'' 404
      else
        (let (rep, records) = p_snapshot (pv_version env) (pv_clock env) (sv_sources s) (sv_top s) (sv_p s);
             refresh = (if sv_live s then liveRefreshSeconds else 0)
         in ok_response ''text/html; charset=utf-8''
              (BodyHTML (if sv_live s then live_html_view (pv_html env) rep refresh else html_view (pv_html env) rep)) headers))"

definition serve_report :: "page_env \<Rightarrow> server \<Rightarrow> (string \<times> string) list \<Rightarrow> response" where
  "serve_report env s headers =
     (let (rep, _) = p_snapshot (pv_version env) (pv_clock env) (sv_sources s) (sv_top s) (sv_p s)
      in ok_response ''application/json'' (BodyJSON rep) headers)"

definition serve_cbom :: "page_env \<Rightarrow> server \<Rightarrow> (string \<times> string) list \<Rightarrow> response" where
  "serve_cbom env s headers =
     (let (rep, records) = p_snapshot (pv_version env) (pv_clock env) (sv_sources s) (sv_top s) (sv_p s)
      in ok_response ''application/vnd.cyclonedx+json'' (BodyCBOM (buildCBOM (pv_cbom env) rep records)) headers)"

text \<open>The mux: two exact paths, and \<^verbatim>\<open>/\<close> for every other path.\<close>

definition serve_request :: "page_env \<Rightarrow> server \<Rightarrow> request \<Rightarrow> response" where
  "serve_request env s r =
     (case rq_Redirect r of
        Some url \<Rightarrow> \<lparr>rs_Status = 301, rs_Headers = [(''Location'', url)], rs_Body = BodyRedirect url\<rparr>
      | None \<Rightarrow>
          if rq_Path r = ''/report.json'' then authed (sv_token s) (serve_report env s) r
          else if rq_Path r = ''/report.cbom.json'' then authed (sv_token s) (serve_cbom env s) r
          else authed (sv_token s) (serve_root env s r) r)"


subsection \<open>Live capture\<close>

text \<open>
  The pipeline of a live server: the capture loop and the sweeper call its entry points, each under its
  mutex, and a request takes its snapshot under the same mutex, between two of these calls. The error of
  the capture loop ends the command.
\<close>

inductive live_pipeline :: "cryptobyte \<Rightarrow> gopacket \<Rightarrow> (nat \<Rightarrow> inv_env) \<Rightarrow> pipeline \<Rightarrow> bool" for cb gp ie where
  opened: "live_pipeline cb gp ie (newPipeline opts False False)"
| captured: "live_pipeline cb gp ie p \<Longrightarrow> p_packet cb gp ie p data ts linkType = Some (q, out) \<Longrightarrow> live_pipeline cb gp ie q"
| swept: "live_pipeline cb gp ie p \<Longrightarrow> p_flushOlderThan cb gp ie p (now - DefaultCloseTimeout) = Some (q, out) \<Longrightarrow>
    live_pipeline cb gp ie q"

end
