(* ===== verification/Serve_Props.thy ===== *)
theory Serve_Props
  imports Serve Html_Props
begin

text \<open>Without the token the server shows nothing, and the address it prints shows the census of the files.\<close>


subsection \<open>The comparison\<close>

lemma xor_zero_iff: "a XOR b = 0 \<longleftrightarrow> a = b" for a b :: u8
  by (metis xor.assoc xor.left_neutral xor.right_neutral xor_self_eq)

lemma fold_or_xor: "foldl (\<lambda>v (a, b). v OR (a XOR b)) v ps = 0 \<longleftrightarrow> v = 0 \<and> list_all (\<lambda>(a, b). a = b) ps" for v :: u8
proof (induction ps arbitrary: v)
  case (Cons p ps)
  have "v OR (a XOR b) = 0 \<longleftrightarrow> v = 0 \<and> a = b" for a b :: u8
    using xor_zero_iff [of a b] by (auto simp: or_eq_0_iff)
  with Cons show ?case by (cases p) auto
qed simp

lemma ConstantTimeCompare_eq: "ConstantTimeCompare x y = 1 \<longleftrightarrow> x = y"
  by (auto simp: ConstantTimeCompare_def fold_or_xor list_eq_iff_zip_eq list_all_iff)

lemma string_bytes_inj: "string_bytes s = string_bytes t \<longleftrightarrow> s = t"
  by (metis go_string_bytes)

lemma authed_cases:
  "authed token h r =
     (if token = [] \<or> Values_Get (ParseQuery (rq_RawQuery r)) ''t'' = token then h secure_headers
      else http_Error [] ''missing or invalid token'' 403)"
  by (simp add: authed_def Let_def ConstantTimeCompare_eq [simplified] string_bytes_inj)


subsection \<open>A token in a query\<close>

lemma hexdigit_code: "n < 16 \<Longrightarrow> of_char (hexdigit n) = (if n < 10 then 48 + n else 87 + n)" for n :: nat
  by (simp add: hexdigit_def)

lemma hex_encode_digits: "c \<in> set (hex_encode bs) \<Longrightarrow> \<exists>n < 16. c = hexdigit n"
proof -
  assume "c \<in> set (hex_encode bs)"
  then obtain b :: u8 where "c = hexdigit (unat b div 16) \<or> c = hexdigit (unat b mod 16)" by (auto simp: hex_encode_def)
  moreover have "unat b div 16 < 16" "unat b mod 16 < 16" by (rule less_mult_imp_div_less, simp) simp
  ultimately show ?thesis by blast
qed

lemma hex_encode_plain:
  assumes "c \<in> set (hex_encode bs)"
  shows "(of_char c :: nat) \<notin> set [10, 37, 38, 43, 59, 61]"
proof -
  obtain n where "n < 16" "c = hexdigit n" using hex_encode_digits [OF assms] by blast
  then show ?thesis by (simp add: hexdigit_code)
qed

lemma hex_encode_no: "(of_char d :: nat) \<in> set [10, 37, 38, 43, 59, 61] \<Longrightarrow> d \<notin> set (hex_encode bs)"
  using hex_encode_plain by blast

lemma QueryUnescape_plain: "CHR 0x25 \<notin> set s \<Longrightarrow> CHR ''+'' \<notin> set s \<Longrightarrow> QueryUnescape s = Some s"
  by (induction s) auto

lemma split_char_none: "d \<notin> set s \<Longrightarrow> split_char d s = [s]"
  by (induction s) auto

lemma Get_token: "Values_Get (ParseQuery (''t='' @ hex_encode bs)) ''t'' = hex_encode bs"
proof -
  let ?h = "hex_encode bs"
  have no: "CHR 0x25 \<notin> set ?h" "CHR ''&'' \<notin> set ?h" "CHR ''+'' \<notin> set ?h" "CHR '';'' \<notin> set ?h"
    by (rule hex_encode_no, simp)+
  have "split_char CHR ''&'' (''t='' @ ?h) = [''t='' @ ?h]" by (rule split_char_none) (use no in simp)
  moreover have "Cut (''t='' @ ?h) ''='' = (''t'', ?h, True)" using Cut_first [of "CHR ''=''" "''t''" ?h] by simp
  ultimately show ?thesis
    using no by (simp add: ParseQuery_def query_pair_def QueryUnescape_plain Values_Get_def)
qed


subsection \<open>Properties\<close>

text \<open>The sources of a static server: the files, and the pipeline of their closed assembler.\<close>

lemma serve_sources_ok:
  assumes "\<not> serve_is_live fl"
    and "list_all (\<lambda>path. openFile path = Inr (src path) \<and>
      yields (sc_Next (src path)) (sc_state (src path)) (pkts path) SrcEOF) (vf_files fl)"
  obtains p where "serve_sources cb gp ie openFile env closeNow fl = Some (Inr (vf_files fl, p))"
    and "p_asm p = Close cb gp (foldl (\<lambda>a path. packets cb gp (sc_LinkType (src path)) a (pkts path))
      (Assembler_New \<lparr>o_MaxStreamPrefix = vf_maxPrefix fl, o_CloseTimeout = 0, o_MaxStreams = vf_maxStreams fl\<rparr>) (vf_files fl)) closeNow"
    and "p_acc p = accumulate (analyses ie 0 (a_handled (p_asm p)))"
proof -
  let ?opts = "\<lparr>o_MaxStreamPrefix = vf_maxPrefix fl, o_CloseTimeout = 0, o_MaxStreams = vf_maxStreams fl\<rparr>"
  let ?p = "newPipeline ?opts False False"
  have p: "p_pending ?p = []" "p_asm ?p = Assembler_New ?opts" by (simp_all add: newPipeline_def)
  from read_files_ok [OF newPipeline_ok p(1) assms(2), of cb gp ie] obtain q where q:
    "read_files cb gp ie openFile (vf_files fl) ?p = Some (Inr q)" "pipe_ok cb gp ie q"
    "p_asm q = foldl (\<lambda>a path. packets cb gp (sc_LinkType (src path)) a (pkts path)) (p_asm ?p) (vf_files fl)"
    by blast
  from asm_call_ok [OF q(2) asm_ops(3), of closeNow] obtain q' where q': "asm_call ie (\<lambda>a. Close cb gp a closeNow) q = Some q'"
    "pipe_ok cb gp ie q'" "p_asm q' = Close cb gp (p_asm q) closeNow"
    by blast
  have "serve_sources cb gp ie openFile env closeNow fl = Some (Inr (vf_files fl, q'))"
    using assms(1) by (simp add: serve_sources_def q(1) q'(1) Let_def)
  with q'(2,3) q(3) p(2) show thesis by (intro that [of q']) (simp_all add: pipe_ok_def reported_def)
qed

text \<open>
  C33: Nothing of the census leaves the server without the token. When one was minted and the request's
  first parameter \<^verbatim>\<open>t\<close> is not it, the answer is the refusal or \<^verbatim>\<open>net/http\<close>'s own redirect, and it is the
  same whatever has been captured, whatever the sources and whatever the token: the answer tells no
  more than that the guess is wrong.
\<close>

theorem serve_needs_token:
  assumes "sv_token s \<noteq> []" and "Values_Get (ParseQuery (rq_RawQuery r)) ''t'' \<noteq> sv_token s"
  shows "rs_Status (serve_request env s r) \<in> set [301, 403] \<and>
    (\<forall>env' s'. sv_token s' \<noteq> [] \<and> Values_Get (ParseQuery (rq_RawQuery r)) ''t'' \<noteq> sv_token s' \<longrightarrow>
      serve_request env' s' r = serve_request env s r)"
  using assms by (simp add: serve_request_def authed_cases http_Error_def split: option.split)

definition sample_server :: server where
  "sample_server = \<lparr>sv_token = ''0a'', sv_live = False, sv_sources = [], sv_top = 5, sv_p = newPipeline sample_opts False False\<rparr>"

theorem serve_needs_token_witness:
  "\<forall>env. rs_Status (serve_request env sample_server \<lparr>rq_Path = ''/report.json'', rq_RawQuery = ''t=0b'', rq_Redirect = None\<rparr>) \<in> set [301, 403]"
proof
  fix env
  have "ParseQuery ''t=0b'' = [(''t'', ''0b'')]" by (simp add: ParseQuery_def query_pair_def HasPrefix_def)
  then show "rs_Status (serve_request env sample_server \<lparr>rq_Path = ''/report.json'', rq_RawQuery = ''t=0b'', rq_Redirect = None\<rparr>) \<in> set [301, 403]"
    by (intro serve_needs_token [THEN conjunct1]) (simp_all add: sample_server_def Values_Get_def)
qed

text \<open>
  What a browser asks for that opens the address printed in the first line of the message: the path and the
  raw query of the URL.
\<close>

definition serving :: string where "serving = ''tlscensus: serving on http://''"

definition open_printed :: "string \<Rightarrow> request" where
  "open_printed msg =
     (let (line, _, _) = Cut msg nl;
          (host, rest, _) = Cut (drop (length serving) line) ''/'';
          (path, query, _) = Cut rest ''?''
      in \<lparr>rq_Path = ''/'' @ path, rq_RawQuery = query, rq_Redirect = None\<rparr>)"

lemma Cut_last: "d \<notin> set s \<Longrightarrow> Cut s [d] = (s, [], False)"
  by (induction s) (auto simp: HasPrefix_def)

lemma open_printed_message:
  assumes "CHR ''/'' \<notin> set addr" and "CHR 0x0a \<notin> set addr" and "CHR 0x0a \<notin> set token"
  shows "open_printed (serve_message live addr token sources) =
    \<lparr>rq_Path = ''/'', rq_RawQuery = (if token \<noteq> [] then ''t='' @ token else []), rq_Redirect = None\<rparr>"
proof -
  let ?query = "if token \<noteq> [] then ''?t='' @ token else []"
  let ?line = "serving @ addr @ ''/'' @ ?query"
  obtain rest where "serve_message live addr token sources = ?line @ CHR 0x0a # rest"
    by (simp add: serve_message_def serve_url_def serving_def)
  moreover have "CHR 0x0a \<notin> set ?line" using assms by (auto simp: serving_def)
  ultimately have "Cut (serve_message live addr token sources) nl = (?line, rest, True)"
    using Cut_first [of "CHR 0x0a" ?line rest] by simp
  moreover have "Cut (drop (length serving) ?line) ''/'' = (addr, ?query, True)"
    using Cut_first [OF assms(1), of ?query] by simp
  moreover have "Cut ?query ''?'' = ([], if token \<noteq> [] then ''t='' @ token else [], token \<noteq> [])"
    using Cut_first [of "CHR ''?''" "[]" "''t='' @ token"] by simp
  ultimately show ?thesis by (simp add: open_printed_def)
qed

text \<open>
  C34: A static server shows the census of its files. When the arguments parse, the files are read to
  their end, random bytes are there and the port is free, the server starts and prints on the standard error an
  address on its listener; the request of a browser that opens exactly this address, with no token from
  elsewhere, gives the page, whether or not there is a token. The summary on the page is that of the analyses
  of all flows of the closed assembler, each once, and their number is the total of the ladder.
\<close>

theorem serve_shows_files:
  assumes "flag_Parse quote serve_formal serve_defaults args = Inr (vals, files)"
    and "string_setting vals ''i'' = []" and "files \<noteq> []"
    and "list_all (\<lambda>path. openFile path = Inr (src path) \<and>
      yields (sc_Next (src path)) (sc_state (src path)) (pkts path) SrcEOF) files"
    and "se_rand env = Inr rand" and "se_Listen env (''127.0.0.1:'' @ dec_int (int_setting vals ''port'')) = Inr addr"
    and "CHR ''/'' \<notin> set addr" and "CHR 0x0a \<notin> set addr"
  shows "\<exists>s msg. runServe cb gp ie openFile env closeNow quote args = Some (Inr (s, msg)) \<and>
    HasPrefix msg (''tlscensus: serving on http://'' @ addr @ ''/'') \<and>
    sv_token s = (if bool_setting vals ''no-token'' then [] else hex_encode rand) \<and>
    (let a = Close cb gp (foldl (\<lambda>a path. packets cb gp (sc_LinkType (src path)) a (pkts path))
               (Assembler_New \<lparr>o_MaxStreamPrefix = int_setting vals ''max-prefix'', o_CloseTimeout = 0,
                  o_MaxStreams = int_setting vals ''max-streams''\<rparr>) files) closeNow;
         flows = analyses ie 0 (a_handled a);
         page = serve_request penv s (open_printed msg)
     in rs_Status page = 200 \<and>
        (\<exists>v. rs_Body page = BodyHTML v \<and> hv_LadderTotal v = int (length flows) \<and>
           rp_Summary (hv_Report v) = acc_Summary (accumulate flows) (int_setting vals ''top'') \<and> rp_Stats (hv_Report v) = a_stats a))"
proof -
  define fl where "fl = serve_flags_of vals files"
  have fl: "serve_is_live fl = False" "vf_files fl = files" "vf_top fl = int_setting vals ''top''" "vf_port fl = int_setting vals ''port''"
    "vf_noToken fl = bool_setting vals ''no-token''" "vf_maxPrefix fl = int_setting vals ''max-prefix''" "vf_maxStreams fl = int_setting vals ''max-streams''"
    using assms(2,3) by (simp_all add: fl_def serve_flags_of_def serve_is_live_def)
  have "\<not> serve_is_live fl" using fl(1) by simp
  from serve_sources_ok [OF this assms(4) [folded fl(2)], of cb gp ie env closeNow] obtain p where sources:
    "serve_sources cb gp ie openFile env closeNow fl = Some (Inr (files, p))"
    and asm: "p_asm p = Close cb gp (foldl (\<lambda>a path. packets cb gp (sc_LinkType (src path)) a (pkts path))
      (Assembler_New \<lparr>o_MaxStreamPrefix = int_setting vals ''max-prefix'', o_CloseTimeout = 0,
         o_MaxStreams = int_setting vals ''max-streams''\<rparr>) files) closeNow"
    and acc: "p_acc p = accumulate (analyses ie 0 (a_handled (p_asm p)))"
    unfolding fl by blast
  define flows where "flows = analyses ie 0 (a_handled (p_asm p))"
  define token where "token = (if vf_noToken fl then [] else hex_encode rand)"
  have token: "serve_token env fl = Inr token" by (simp add: serve_token_def token_def assms(5))
  define s where "s = \<lparr>sv_token = token, sv_live = False, sv_sources = files, sv_top = vf_top fl, sv_p = p\<rparr>"
  define query where "query = (if token \<noteq> [] then ''t='' @ token else [])"
  define msg where "msg = serve_message False addr token files"
  have run: "runServe cb gp ie openFile env closeNow quote args = Some (Inr (s, msg))"
    by (simp add: runServe_def assms(1) fl_def [symmetric] Let_def sources token fl assms(6) [simplified] s_def msg_def)
  have prefix: "HasPrefix msg (''tlscensus: serving on http://'' @ addr @ ''/'')"
    by (simp add: HasPrefix_def msg_def serve_message_def serve_url_def)
  have "CHR 0x0a \<notin> set token" using hex_encode_no [of "CHR 0x0a" rand] by (simp add: token_def)
  then have printed: "open_printed msg = \<lparr>rq_Path = ''/'', rq_RawQuery = query, rq_Redirect = None\<rparr>"
    unfolding msg_def query_def by (rule open_printed_message [OF assms(7,8)])
  define v where "v = html_view (pv_html penv) (p_report (pv_version penv) (pv_clock penv) files (vf_top fl) (a_stats (p_asm p)) p)"
  have "sv_token s = [] \<or> Values_Get (ParseQuery query) ''t'' = sv_token s"
    using Get_token [of rand] by (simp add: query_def s_def token_def)
  then have page: "serve_request penv s (open_printed msg) =
      ok_response ''text/html; charset=utf-8'' (BodyHTML v) secure_headers"
    by (simp add: printed serve_request_def authed_cases serve_root_def p_snapshot_def Let_def s_def v_def)
  have "su_Flows (acc_Summary (accumulate flows) n) = int (length flows)" for n
    using accumulate_counters [of flows] by (simp add: acc_Summary_def Let_def)
  then have view: "hv_LadderTotal v = int (length flows)" "rp_Stats (hv_Report v) = a_stats (p_asm p)"
    "rp_Summary (hv_Report v) = acc_Summary (accumulate flows) (int_setting vals ''top'')"
    by (simp_all add: v_def html_view_def buildView_def p_report_def acc flows_def fl Let_def)
  have tok: "sv_token s = (if bool_setting vals ''no-token'' then [] else hex_encode rand)" by (simp add: s_def token_def fl)
  show ?thesis
    unfolding Let_def asm [symmetric] flows_def [symmetric]
  proof (intro exI conjI)
    show "runServe cb gp ie openFile env closeNow quote args = Some (Inr (s, msg))" by (rule run)
    show "HasPrefix msg (''tlscensus: serving on http://'' @ addr @ ''/'')" by (rule prefix)
    show "rs_Status (serve_request penv s (open_printed msg)) = 200"
      "rs_Body (serve_request penv s (open_printed msg)) = BodyHTML v"
      unfolding page by (simp_all add: ok_response_def)
  qed (rule tok view)+
qed

definition sample_serve_env :: "string serve_env" where
  "sample_serve_env = \<lparr>se_GOOS = ''linux'', se_OpenLive = (\<lambda>_ _. Inl ''down''), se_rand = Inr [10],
     se_Listen = (\<lambda>_. Inr ''127.0.0.1:4000'')\<rparr>"

theorem serve_shows_files_witness:
  "\<forall>penv. \<exists>s msg. runServe string_methods no_packets (\<lambda>_. sample_env) (\<lambda>_. Inr (list_source [([1], 5), ([2], 6)]) :: string + _)
       sample_serve_env 7 id [''-top=3'', ''a.pcap''] = Some (Inr (s, msg)) \<and> sv_token s = hex_encode [10] \<and>
     HasPrefix msg ''tlscensus: serving on http://127.0.0.1:4000/'' \<and> rs_Status (serve_request penv s (open_printed msg)) = 200"
proof -
  let ?vals = "serve_defaults(''top'' \<mapsto> IntVal 3)"
  have "ParseInt ''3'' None 64 = Inr 3"
    by (simp add: ParseInt_def ParseUint_def base_prefix_def digit_value_def is_digit_def char_code_def underscore_def)
  then have parse: "flag_Parse id serve_formal serve_defaults [''-top=3'', ''a.pcap''] = Inr (?vals, [''a.pcap''])"
    by (simp add: arg_shape_def dash_def flag_name_def serve_formal_def assign_def flag_Set_def HasPrefix_def)
  have ok: "list_all (\<lambda>path. Inr (list_source [([1], 5), ([2], 6)]) = (Inr (list_source [([1], 5), ([2], 6)]) :: string + _) \<and>
      yields (sc_Next (list_source [([1], 5), ([2], 6)])) (sc_state (list_source [([1], 5), ([2], 6)])) [([1], 5), ([2], 6)] SrcEOF) [''a.pcap'']"
    by (simp add: list_source_def)
  have env: "se_rand sample_serve_env = Inr [10]" "se_Listen sample_serve_env x = Inr ''127.0.0.1:4000''" for x
    by (simp_all add: sample_serve_env_def)
  have set: "string_setting ?vals ''i'' = []" "bool_setting ?vals ''no-token'' = False"
    by (simp_all add: string_setting_def bool_setting_def serve_defaults_def)
  have "[''a.pcap''] \<noteq> []" by simp
  from serve_shows_files [OF parse set(1) this ok env(1) env(2), of string_methods no_packets "\<lambda>_. sample_env" 7]
  show ?thesis unfolding set(2) by (simp add: Let_def) blast
qed


subsection \<open>The live page\<close>

lemma live_pipeline_ok:
  assumes "live_pipeline cb gp ie p"
  shows "pipe_ok cb gp ie p \<and> p_pending p = [] \<and> \<not> p_onRecord p \<and> \<not> p_keep p"
  using assms
proof induction
  case (opened opts)
  show ?case using newPipeline_ok [of cb gp ie opts False False] by (simp add: newPipeline_def)
next
  case (captured p data ts linkType q out)
  from p_entry_ok [of cb gp ie p, OF _ asm_ops(1)] captured show ?case
    unfolding p_packet_def by (metis Pair_inject option.inject)
next
  case (swept p now q out)
  from p_entry_ok [of cb gp ie p, OF _ asm_ops(2)] swept show ?case
    unfolding p_flushOlderThan_def by (metis Pair_inject option.inject)
qed

text \<open>
  C35: A page served while capturing is consistent. Whatever packets and sweeps came before the snapshot,
  neither call dereferences nil; a request with the right token (or any, when the server runs without one) gets
  the page, the summary on it is that of the analyses of exactly the flows reported so
  far, its number of handshakes is the flow counter of the statistics on the same page and the total of
  the ladder, and the server keeps no record and has none waiting.
\<close>

theorem live_page_consistent:
  assumes "live_pipeline cb gp ie (sv_p s)" and "sv_live s"
    and "sv_token s = [] \<or> Values_Get (ParseQuery query) ''t'' = sv_token s"
  shows "p_packet cb gp ie (sv_p s) data ts linkType \<noteq> None \<and> p_flushOlderThan cb gp ie (sv_p s) t \<noteq> None \<and>
    p_records (sv_p s) = [] \<and> p_pending (sv_p s) = [] \<and>
    (\<exists>v. rs_Body (serve_request penv s \<lparr>rq_Path = ''/'', rq_RawQuery = query, rq_Redirect = None\<rparr>) = BodyHTML v \<and>
       hv_Live v \<and> hv_Refresh v = liveRefreshSeconds \<and> hv_LadderTotal v = s_TLSFlows (rp_Stats (hv_Report v)) \<and>
       rp_Summary (hv_Report v) = acc_Summary (accumulate (analyses ie 0 (a_handled (p_asm (sv_p s))))) (sv_top s) \<and>
       hv_LadderTotal v = int (length (a_handled (p_asm (sv_p s)))))"
proof -
  let ?p = "sv_p s"
  have ok: "pipe_ok cb gp ie ?p" "p_pending ?p = []" "\<not> p_onRecord ?p" "\<not> p_keep ?p"
    using live_pipeline_ok [OF assms(1)] by blast+
  have total: "p_packet cb gp ie ?p data ts linkType \<noteq> None" "p_flushOlderThan cb gp ie ?p t \<noteq> None"
    unfolding p_packet_def p_flushOlderThan_def
    using p_entry_ok [OF ok(1) asm_ops(1) ok(2)] p_entry_ok [OF ok(1) asm_ops(2) ok(2)] by (metis option.distinct(1))+
  let ?flows = "analyses ie 0 (a_handled (p_asm ?p))"
  have acc: "p_acc ?p = accumulate ?flows" using ok(1) by (simp add: pipe_ok_def reported_def)
  have "reachable cb gp (p_asm ?p)" using ok(1) by (simp add: pipe_ok_def)
  then have counter: "s_TLSFlows (a_stats (p_asm ?p)) = int (length (a_handled (p_asm ?p)))" using reachable_inv by (simp add: asm_inv_def)
  have flows: "su_Flows (acc_Summary (accumulate ?flows) n) = int (length (a_handled (p_asm ?p)))" for n
    using accumulate_counters [of ?flows] by (simp add: acc_Summary_def Let_def)
  define v where "v = live_html_view (pv_html penv)
    (p_report (pv_version penv) (pv_clock penv) (sv_sources s) (sv_top s) (a_stats (p_asm ?p)) ?p) liveRefreshSeconds"
  have page: "rs_Body (serve_request penv s \<lparr>rq_Path = ''/'', rq_RawQuery = query, rq_Redirect = None\<rparr>) = BodyHTML v"
    using assms(2,3) by (simp add: serve_request_def authed_cases serve_root_def p_snapshot_def ok_response_def Let_def v_def)
  have "hv_Live v" "hv_Refresh v = liveRefreshSeconds" "hv_LadderTotal v = int (length (a_handled (p_asm ?p)))"
    "rp_Stats (hv_Report v) = a_stats (p_asm ?p)" "rp_Summary (hv_Report v) = acc_Summary (accumulate ?flows) (sv_top s)"
    by (simp_all add: v_def live_html_view_def buildView_def p_report_def acc flows Let_def)
  with page counter have "\<exists>v. rs_Body (serve_request penv s \<lparr>rq_Path = ''/'', rq_RawQuery = query, rq_Redirect = None\<rparr>) = BodyHTML v \<and>
       hv_Live v \<and> hv_Refresh v = liveRefreshSeconds \<and> hv_LadderTotal v = s_TLSFlows (rp_Stats (hv_Report v)) \<and>
       rp_Summary (hv_Report v) = acc_Summary (accumulate ?flows) (sv_top s) \<and>
       hv_LadderTotal v = int (length (a_handled (p_asm ?p)))" by (intro exI [of _ v]) simp
  with total ok show ?thesis by (simp add: pipe_ok_def)
qed

text \<open>A live server that has heard one ClientHello.\<close>

definition live_server :: server where
  "live_server = \<lparr>sv_token = hex_encode [10], sv_live = True, sv_sources = [''eth0''], sv_top = 5,
     sv_p = fst (the (p_packet string_methods (hello_gopacket (\<lambda>_. True) 5) (\<lambda>_. sample_env)
       (newPipeline sample_opts False False) [1] 5 1))\<rparr>"

theorem live_page_consistent_witness:
  "\<forall>penv. \<exists>v. rs_Body (serve_request penv live_server
      \<lparr>rq_Path = ''/'', rq_RawQuery = ''t='' @ hex_encode [10], rq_Redirect = None\<rparr>) = BodyHTML v \<and> hv_LadderTotal v = 1"
proof
  fix penv
  let ?gp = "hello_gopacket (\<lambda>_. True) 5" and ?p = "newPipeline sample_opts False False"
  have p: "p_pending ?p = []" "p_asm ?p = Assembler_New sample_opts" by (simp_all add: newPipeline_def)
  obtain q out where q: "p_packet string_methods ?gp (\<lambda>_. sample_env) ?p [1] 5 1 = Some (q, out)"
    "p_asm q = Packet string_methods ?gp (p_asm ?p) [1] 5 1"
    using p_entry_ok [OF newPipeline_ok asm_ops(1) p(1)] unfolding p_packet_def by metis
  have h: "a_handled (p_asm q) = [sample_flow 5]" using sample_reported [of 5 "\<lambda>_. True"] by (simp add: q(2) p(2))
  have s: "sv_p live_server = q" "sv_live live_server" "sv_token live_server = hex_encode [10]"
    using q(1) by (simp_all add: live_server_def)
  have "live_pipeline string_methods ?gp (\<lambda>_. sample_env) (sv_p live_server)"
    unfolding s(1) by (rule live_pipeline.captured [OF live_pipeline.opened q(1)])
  from live_page_consistent [OF this s(2), of "''t='' @ hex_encode [10]" "[1]" 6 1 7 penv]
  show "\<exists>v. rs_Body (serve_request penv live_server
      \<lparr>rq_Path = ''/'', rq_RawQuery = ''t='' @ hex_encode [10], rq_Redirect = None\<rparr>) = BodyHTML v \<and> hv_LadderTotal v = 1"
    using Get_token [of "[10]"] unfolding s(1) by (auto simp: s(3) h)
qed

end
