(* ===== verification/Command_Props.thy ===== *)
theory Command_Props
  imports Command
begin

text \<open>Flags are read as they were given, and a watch reports every handshake once.\<close>


subsection \<open>Flags\<close>

text \<open>The flags of a read command, as its usage text gives them.\<close>

definition read_names :: "(string \<times> flag_kind) list" where
  "read_names = [(''o'', StringFlag), (''output'', StringFlag), (''top'', IntFlag), (''records'', BoolFlag),
     (''max-prefix'', IntFlag), (''max-streams'', IntFlag)]"

definition text_of_value :: "flag_value \<Rightarrow> string" where
  "text_of_value v = (case v of StringVal s \<Rightarrow> s | _ \<Rightarrow> [])"

definition int_of_value :: "flag_value \<Rightarrow> int" where
  "int_of_value v = (case v of IntVal n \<Rightarrow> n | _ \<Rightarrow> 0)"

text \<open>
  C38: The flags of a read command are read back. Written in any order and any number of times, with one dash
  or two, with the value behind an equals sign or in an argument of its own and in any spelling the type of the
  flag reads, the boolean one also alone, and followed by the files, behind a double dash or as they are when
  the first does not look like a flag: the command gets for each flag the value given last, by either of the
  two names of the output format, or its default (text, 15 rows, no records, 32768 bytes and 8192 streams),
  and exactly those files.
\<close>

theorem read_flags_round_trip:
  assumes "\<forall>f \<in> set fs. (fs_name f, kind_of (fs_value f)) \<in> set read_names \<and> well_written f"
    and "rest_args files args"
  shows "parse_read quote (concat (map flag_args fs) @ args) = Inr
    \<lparr>rf_format = text_of_value (last_value fs [''o'', ''output''] (StringVal ''text'')),
     rf_top = int_of_value (last_value fs [''top''] (IntVal 15)),
     rf_records = (last_value fs [''records''] (BoolVal False) = BoolVal True),
     rf_maxPrefix = int_of_value (last_value fs [''max-prefix''] (IntVal 32768)),
     rf_maxStreams = int_of_value (last_value fs [''max-streams''] (IntVal 8192)),
     rf_files = files\<rparr>"
proof -
  let ?vals = "foldl (apply_setting read_formal) read_defaults fs"
  have "list_all (setting_ok read_formal) fs"
    using assms(1) by (auto simp: list_all_iff setting_ok_def read_names_def read_formal_def proper_name_def dash_def)
  from flag_Parse_settings [OF this, of quote read_defaults args]
  have parse: "flag_Parse quote read_formal read_defaults (concat (map flag_args fs) @ args) = Inr (?vals, files)"
    using flag_Parse_rest [OF assms(2), of quote read_formal ?vals] by simp
  have names: "fs_name f \<in> set [''o'', ''output'', ''top'', ''records'', ''max-prefix'', ''max-streams'']" if "f \<in> set fs" for f
    using assms(1) that by (auto simp: read_names_def)
  have var: "fst (the (map_of read_formal (fs_name f))) =
      (if fs_name f \<in> set [''o'', ''output''] then ''format'' else fs_name f)" if "f \<in> set fs" for f
    using names [OF that] by (auto simp: read_formal_def)
  have sel: "fst (the (map_of read_formal (fs_name f))) = v \<longleftrightarrow> fs_name f \<in> set ns"
    if "f \<in> set fs" "(v, ns) \<in> set [(''format'', [''o'', ''output'']), (''top'', [''top'']), (''records'', [''records'']),
      (''max-prefix'', [''max-prefix'']), (''max-streams'', [''max-streams''])]" for f v ns
    using names [OF that(1)] that(2) unfolding var [OF that(1)] by auto
  note last = settings_last [OF ballI, OF sel]
  have "?vals ''format'' = Some (last_value fs [''o'', ''output''] (StringVal ''text''))"
    "?vals ''top'' = Some (last_value fs [''top''] (IntVal 15))" "?vals ''records'' = Some (last_value fs [''records''] (BoolVal False))"
    "?vals ''max-prefix'' = Some (last_value fs [''max-prefix''] (IntVal 32768))"
    "?vals ''max-streams'' = Some (last_value fs [''max-streams''] (IntVal 8192))"
    by (rule last; simp add: read_defaults_def DefaultMaxStreamPrefix_def DefaultMaxStreams_def)+
  then show ?thesis
    using parse by (auto simp: parse_read_def read_flags_of_def string_setting_def int_setting_def bool_setting_def
        text_of_value_def int_of_value_def split: flag_value.split)
qed

theorem read_flags_round_trip_witness:
  "\<forall>quote. parse_read quote [''-o'', ''csv'', ''--output'', ''json'', ''-records'', ''--top=0x10'', ''a.pcap''] = Inr
     \<lparr>rf_format = ''json'', rf_top = 16, rf_records = True, rf_maxPrefix = 32768, rf_maxStreams = 8192, rf_files = [''a.pcap'']\<rparr>"
proof
  fix quote
  let ?fs = "[\<lparr>fs_name = ''o'', fs_double = False, fs_form = Separate ''csv'', fs_value = StringVal ''csv''\<rparr>,
      \<lparr>fs_name = ''output'', fs_double = True, fs_form = Separate ''json'', fs_value = StringVal ''json''\<rparr>,
      \<lparr>fs_name = ''records'', fs_double = False, fs_form = Bare, fs_value = BoolVal True\<rparr>,
      \<lparr>fs_name = ''top'', fs_double = True, fs_form = Equals ''0x10'', fs_value = IntVal 16\<rparr>]"
  have hex: "ParseInt ''0x10'' None 64 = Inr 16"
    by (simp add: ParseInt_def ParseUint_def base_prefix_def digit_value_def is_digit_def char_code_def underscore_def ascii_lower_def)
  have "parse_read quote (concat (map flag_args ?fs) @ [''a.pcap'']) = Inr
     \<lparr>rf_format = text_of_value (last_value ?fs [''o'', ''output''] (StringVal ''text'')),
     rf_top = int_of_value (last_value ?fs [''top''] (IntVal 15)),
     rf_records = (last_value ?fs [''records''] (BoolVal False) = BoolVal True),
     rf_maxPrefix = int_of_value (last_value ?fs [''max-prefix''] (IntVal 32768)),
     rf_maxStreams = int_of_value (last_value ?fs [''max-streams''] (IntVal 8192)),
     rf_files = [''a.pcap'']\<rparr>"
    by (rule read_flags_round_trip)
      (simp_all add: read_names_def kind_of_def well_written_def flag_Set_def hex rest_args_def no_flag_def)
  then show "parse_read quote [''-o'', ''csv'', ''--output'', ''json'', ''-records'', ''--top=0x10'', ''a.pcap''] = Inr
     \<lparr>rf_format = ''json'', rf_top = 16, rf_records = True, rf_maxPrefix = 32768, rf_maxStreams = 8192, rf_files = [''a.pcap'']\<rparr>"
    by (simp add: flag_args_def dash_def last_value_def text_of_value_def int_of_value_def)
qed


subsection \<open>The end of a watch\<close>

text \<open>
  C36: A watch that streams shows every handshake exactly once. Whatever the interleaving of the capture
  loop and the sweeper was, when both have stopped the command ends without a nil dereference; what was
  written while it ran together with the rest is, up to order, one line or document per flow the closed
  assembler reported; the text summary is that of the same records, an NDJSON stream has nothing after
  it, and the error of the read that the shutdown interrupted is not returned.
\<close>

theorem watch_shows_every_flow:
  assumes "w_reachable cb gp ie w" and "\<forall>g. w_pc w g = Idle" and "watch_streams (wf_format fl)"
  shows "\<exists>e. watch_finish cb gp ie oe ce ver closeNow now fl name stopping runErr (w_p w) = Some e \<and>
    (let flows = analyses ie 0 (a_handled (Close cb gp (p_asm (w_p w)) closeNow))
     in mset (map (show_record oe (wf_format fl)) (w_out w) @ we_shown e) = mset (map (show_record oe (wf_format fl)) flows) \<and>
        (wf_format fl = ''ndjson'' \<longrightarrow> we_document e = None) \<and>
        (wf_format fl = ''text'' \<longrightarrow> (\<exists>rep. we_document e = Some (DocText (WriteText oe rep)) \<and>
           rp_Summary rep = acc_Summary (accumulate flows) (wf_top fl) \<and> su_Flows (rp_Summary rep) = int (length flows))) \<and>
        we_error e = (if stopping then None else runErr))"
proof -
  let ?call = "\<lambda>a. Close cb gp a closeNow"
  note inv = w_reachable_inv [OF assms(1)]
  have ok: "pipe_ok cb gp ie (w_p w)" "p_onRecord (w_p w)" and pend: "p_pending (w_p w) = []"
    using inv assms(2) by (auto simp: w_inv_def)
  from p_entry_ok [OF ok(1) asm_ops(3) pend, of closeNow] obtain q rs where entry:
    "p_entry ie ?call (w_p w) = Some (q, if p_onRecord (w_p w) then rs else [])" and q: "pipe_ok cb gp ie q"
    "p_asm q = ?call (p_asm (w_p w))" "reported ie q = reported ie (w_p w) @ rs"
    by blast
  let ?flows = "analyses ie 0 (a_handled (?call (p_asm (w_p w))))"
  have flows: "?flows = reported ie (w_p w) @ rs" using q(2,3) by (simp add: reported_def)
  have acc: "p_acc q = accumulate ?flows" using q(1) by (simp add: pipe_ok_def reported_def q(2))
  have "mset (w_out w) = mset (reported ie (w_p w))" using w_idle_out [OF inv] assms(2) by blast
  then have shown: "mset (map (show_record oe (wf_format fl)) (w_out w) @ map (show_record oe (wf_format fl)) rs) =
      mset (map (show_record oe (wf_format fl)) ?flows)"
    by (simp add: flows mset_map)
  have flows_of: "su_Flows (acc_Summary (accumulate rs) n) = int (length rs)" for rs n
    using accumulate_counters [of rs] by (simp add: acc_Summary_def Let_def)
  define rep where "rep = p_report ver now [name] (wf_top fl) (a_stats (p_asm q)) q"
  have rep: "rp_Summary rep = acc_Summary (accumulate ?flows) (wf_top fl)" by (simp add: rep_def p_report_def acc)
  have "p_finish cb gp ie ver closeNow now [name] (wf_top fl) False (w_p w) =
      Some (rep, q\<lparr>p_records := SortRecords (p_records q)\<rparr>, rs)"
    by (simp add: p_finish_def entry ok(2) Let_def rep_def p_report_def)
  then show ?thesis
    using shown rep flows_of [of ?flows "wf_top fl"] by (auto simp: watch_finish_def writeReport_def Let_def)
qed

definition sample_watch_flags :: watch_flags where
  "sample_watch_flags = watch_flags_of watch_defaults"

theorem watch_shows_every_flow_witness:
  "\<forall>oe ce. \<exists>e. watch_finish string_methods no_packets (\<lambda>_. sample_env) oe ce ''1'' 7 8 sample_watch_flags ''eth0'' True (Some ''closed'')
     (w_p (watch_start sample_opts False)) = Some e \<and> we_error e = None"
proof (intro allI)
  fix oe ce
  have "\<forall>g. w_pc (watch_start sample_opts False) g = Idle" by (simp add: watch_start_def)
  moreover have "watch_streams (wf_format sample_watch_flags)"
    by (simp add: watch_streams_def sample_watch_flags_def watch_flags_of_def string_setting_def watch_defaults_def)
  ultimately show "\<exists>e. watch_finish string_methods no_packets (\<lambda>_. sample_env) oe ce ''1'' 7 8 sample_watch_flags ''eth0'' True (Some ''closed'')
     (w_p (watch_start sample_opts False)) = Some e \<and> we_error e = None"
    using watch_shows_every_flow [OF w_reachable.start [of string_methods no_packets "\<lambda>_. sample_env" sample_opts False], of sample_watch_flags oe ce "''1''" 7 8
        "''eth0''" True "Some ''closed''"] by (auto simp: Let_def)
qed

end
