(* ===== verification/Go_Json.thy ===== *)
theory Go_Json
  imports Go_Utf8
begin

text \<open>
  What the sources use of \<^verbatim>\<open>encoding/json\<close>: the values a document is made of, and the text an
  \<^verbatim>\<open>Encoder\<close> writes for one, compact or indented, with HTML escapes or without. A reader of such texts
  (\<open>json_read\<close>) is the specification: it takes any JSON text, with white space between its tokens, and
  refuses control characters in strings.

  A number is kept as its literal. Strings are bytes, as in Go; those that are no UTF-8 are written as
  U+FFFD, byte by byte, so what is read back is \<open>valid_text\<close> of what was written.
\<close>

datatype json =
  JNull
| JBool bool
| JNumber string
| JString string
| JArray "json list"
| JObject "(string \<times> json) list"


subsection \<open>Writing\<close>

abbreviation backslash :: char where "backslash \<equiv> CHR 0x5c"
abbreviation dquote :: char where "dquote \<equiv> CHR 0x22"

text \<open>\<^verbatim>\<open>safeSet\<close> and \<^verbatim>\<open>htmlSafeSet\<close>\<close>

definition json_safe :: "bool \<Rightarrow> nat \<Rightarrow> bool" where
  "json_safe html b \<longleftrightarrow>
     0x20 \<le> b \<and> b < 0x80 \<and> b \<noteq> 0x22 \<and> b \<noteq> 0x5c \<and> \<not> (html \<and> (b = 0x26 \<or> b = 0x3c \<or> b = 0x3e))"

definition unicode_escape :: "nat \<Rightarrow> string" where
  "unicode_escape n =
     [backslash, CHR ''u'', hexdigit (n div 4096), hexdigit (n div 256 mod 16), hexdigit (n div 16 mod 16), hexdigit (n mod 16)]"

definition escape_byte :: "nat \<Rightarrow> string" where
  "escape_byte b =
     (if b = 0x5c \<or> b = 0x22 then [backslash, char_of b]
      else if b = 8 then [backslash, CHR ''b'']
      else if b = 12 then [backslash, CHR ''f'']
      else if b = 10 then [backslash, CHR ''n'']
      else if b = 13 then [backslash, CHR ''r'']
      else if b = 9 then [backslash, CHR ''t'']
      else unicode_escape b)"

function json_escape :: "bool \<Rightarrow> nat list \<Rightarrow> string" where
  "json_escape html bs =
     (if bs = [] then []
      else if hd bs < 0x80 then
        (if json_safe html (hd bs) then [char_of (hd bs)] else escape_byte (hd bs)) @ json_escape html (tl bs)
      else
        (case decode_rune bs of
           (r, w) \<Rightarrow>
             (if r = 0xfffd \<and> w = 1 then unicode_escape 0xfffd
              else if r = 0x2028 \<or> r = 0x2029 then unicode_escape r
              else map char_of (take w bs)) @ json_escape html (drop w bs)))"
  by pat_completeness auto
termination
  by (relation "measure (\<lambda>(_, bs). length bs)") (auto simp: decode_rune_width dest: arg_cong [where f = snd])

declare json_escape.simps [simp del]

definition json_string :: "bool \<Rightarrow> string \<Rightarrow> string" where
  "json_string html s = dquote # json_escape html (map of_char s) @ [dquote]"

text \<open>The newline and indentation before a token, when the encoder indents by two spaces.\<close>

definition new_line :: "bool \<Rightarrow> nat \<Rightarrow> string" where
  "new_line indent depth = (if indent then CHR 0x0a # replicate (2 * depth) CHR '' '' else [])"

definition json_key :: "bool \<Rightarrow> bool \<Rightarrow> string \<Rightarrow> string" where
  "json_key html indent k = json_string html k @ '':'' @ (if indent then '' '' else [])"

fun json_write :: "bool \<Rightarrow> bool \<Rightarrow> nat \<Rightarrow> json \<Rightarrow> string"
  and json_elems :: "bool \<Rightarrow> bool \<Rightarrow> nat \<Rightarrow> json list \<Rightarrow> string"
  and json_members :: "bool \<Rightarrow> bool \<Rightarrow> nat \<Rightarrow> (string \<times> json) list \<Rightarrow> string"
where
  "json_write html indent d JNull = ''null''"
| "json_write html indent d (JBool b) = (if b then ''true'' else ''false'')"
| "json_write html indent d (JNumber n) = n"
| "json_write html indent d (JString s) = json_string html s"
| "json_write html indent d (JArray []) = ''[]''"
| "json_write html indent d (JArray (j # js)) =
     ''['' @ new_line indent (d + 1) @ json_write html indent (d + 1) j @ json_elems html indent (d + 1) js @
     new_line indent d @ '']''"
| "json_write html indent d (JObject []) = ''{}''"
| "json_write html indent d (JObject ((k, j) # ms)) =
     ''{'' @ new_line indent (d + 1) @ json_key html indent k @ json_write html indent (d + 1) j @
     json_members html indent (d + 1) ms @ new_line indent d @ ''}''"
| "json_elems html indent d [] = []"
| "json_elems html indent d (j # js) =
     '','' @ new_line indent d @ json_write html indent d j @ json_elems html indent d js"
| "json_members html indent d [] = []"
| "json_members html indent d ((k, j) # ms) =
     '','' @ new_line indent d @ json_key html indent k @ json_write html indent d j @ json_members html indent d ms"

text \<open>\<^verbatim>\<open>Encode\<close> ends the value with a newline.\<close>

definition json_Encode :: "bool \<Rightarrow> bool \<Rightarrow> json \<Rightarrow> string" where
  "json_Encode html indent j = json_write html indent 0 j @ [CHR 0x0a]"


subsection \<open>Reading\<close>

definition json_space :: "char \<Rightarrow> bool" where
  "json_space c \<longleftrightarrow> c \<in> {CHR '' '', CHR 0x0a, CHR 0x0d, CHR 0x09}"

definition skip_space :: "string \<Rightarrow> string" where
  "skip_space s = dropWhile json_space s"

definition number_char :: "char \<Rightarrow> bool" where
  "number_char c \<longleftrightarrow> c \<in> set ''0123456789+-.eE''"

definition hex_digit :: "char \<Rightarrow> nat option" where
  "hex_digit c =
     (let n = of_char c in
      if in_range 48 57 n then Some (n - 48)
      else if in_range 97 102 n then Some (n - 87)
      else if in_range 65 70 n then Some (n - 55)
      else None)"

definition hex4 :: "char \<Rightarrow> char \<Rightarrow> char \<Rightarrow> char \<Rightarrow> nat option" where
  "hex4 a b c d =
     (case (hex_digit a, hex_digit b, hex_digit c, hex_digit d) of
        (Some a, Some b, Some c, Some d) \<Rightarrow> Some (((a * 16 + b) * 16 + c) * 16 + d)
      | _ \<Rightarrow> None)"

definition utf8_encode :: "nat \<Rightarrow> nat list" where
  "utf8_encode n =
     (if n < 0x80 then [n]
      else if n < 0x800 then [0xc0 + n div 64, 0x80 + n mod 64]
      else [0xe0 + n div 4096, 0x80 + n div 64 mod 64, 0x80 + n mod 64])"

definition short_escape :: "char \<Rightarrow> char option" where
  "short_escape c =
     map_of [(dquote, dquote), (backslash, backslash), (CHR ''/'', CHR ''/''), (CHR ''b'', CHR 0x08), (CHR ''f'', CHR 0x0c),
       (CHR ''n'', CHR 0x0a), (CHR ''r'', CHR 0x0d), (CHR ''t'', CHR 0x09)] c"

definition after :: "string \<Rightarrow> (string \<times> string) option \<Rightarrow> (string \<times> string) option" where
  "after t = map_option (\<lambda>(u, r). (t @ u, r))"

text \<open>The rest of a string after its opening quote, and what follows it.\<close>

function read_string :: "string \<Rightarrow> (string \<times> string) option" where
  "read_string s =
     (case s of
        [] \<Rightarrow> None
      | c # r \<Rightarrow>
          if c = dquote then Some ([], r)
          else if (of_char c :: nat) < 0x20 then None
          else if c \<noteq> backslash then after [c] (read_string r)
          else
            (case r of
               [] \<Rightarrow> None
             | e # r \<Rightarrow>
                 if e = CHR ''u'' then
                   (case r of
                      h1 # h2 # h3 # h4 # r \<Rightarrow>
                        (case hex4 h1 h2 h3 h4 of
                           None \<Rightarrow> None
                         | Some n \<Rightarrow> after (map char_of (utf8_encode n)) (read_string r))
                    | _ \<Rightarrow> None)
                 else
                   (case short_escape e of None \<Rightarrow> None | Some x \<Rightarrow> after [x] (read_string r))))"
  by pat_completeness auto
termination
  by (relation "measure length") auto

declare read_string.simps [simp del]

text \<open>A value, the elements after the first one of an array, and the members after the first one of an object; the fuel bounds the nesting.\<close>

definition read_key :: "string \<Rightarrow> (string \<times> string) option" where
  "read_key s =
     (case skip_space s of
        c # r \<Rightarrow>
          if c = dquote then
            (case read_string r of
               None \<Rightarrow> None
             | Some (k, r) \<Rightarrow> (case skip_space r of d # r \<Rightarrow> if d = CHR '':'' then Some (k, r) else None | [] \<Rightarrow> None))
          else None
      | [] \<Rightarrow> None)"

definition read_atom :: "string \<Rightarrow> (json \<times> string) option" where
  "read_atom s =
     (if take 4 s = ''null'' then Some (JNull, drop 4 s)
      else if take 4 s = ''true'' then Some (JBool True, drop 4 s)
      else if take 5 s = ''false'' then Some (JBool False, drop 5 s)
      else if takeWhile number_char s = [] then None
      else Some (JNumber (takeWhile number_char s), dropWhile number_char s))"

fun read_value :: "nat \<Rightarrow> string \<Rightarrow> (json \<times> string) option"
  and read_elems :: "nat \<Rightarrow> string \<Rightarrow> (json list \<times> string) option"
  and read_members :: "nat \<Rightarrow> string \<Rightarrow> ((string \<times> json) list \<times> string) option"
where
  "read_value 0 s = None"
| "read_value (Suc n) s =
     (case skip_space s of
        [] \<Rightarrow> None
      | c # r \<Rightarrow>
          if c = dquote then map_option (\<lambda>(t, r). (JString t, r)) (read_string r)
          else if c = CHR ''['' then
            (case skip_space r of
               [] \<Rightarrow> None
             | d # r' \<Rightarrow>
                 if d = CHR '']'' then Some (JArray [], r')
                 else
                   (case read_value n r of
                      None \<Rightarrow> None
                    | Some (j, r) \<Rightarrow> map_option (\<lambda>(js, r). (JArray (j # js), r)) (read_elems n r)))
          else if c = CHR ''{'' then
            (case skip_space r of
               [] \<Rightarrow> None
             | d # r' \<Rightarrow>
                 if d = CHR ''}'' then Some (JObject [], r')
                 else
                   (case read_key r of
                      None \<Rightarrow> None
                    | Some (k, r) \<Rightarrow>
                   (case read_value n r of
                      None \<Rightarrow> None
                    | Some (j, r) \<Rightarrow> map_option (\<lambda>(ms, r). (JObject ((k, j) # ms), r)) (read_members n r))))
          else read_atom (c # r))"
| "read_elems 0 s = None"
| "read_elems (Suc n) s =
     (case skip_space s of
        [] \<Rightarrow> None
      | c # r \<Rightarrow>
          if c = CHR '']'' then Some ([], r)
          else if c = CHR '','' then
            (case read_value n r of
               None \<Rightarrow> None
             | Some (j, r) \<Rightarrow> map_option (\<lambda>(js, r). (j # js, r)) (read_elems n r))
          else None)"
| "read_members 0 s = None"
| "read_members (Suc n) s =
     (case skip_space s of
        [] \<Rightarrow> None
      | c # r \<Rightarrow>
          if c = CHR ''}'' then Some ([], r)
          else if c = CHR '','' then
            (case read_key r of
               None \<Rightarrow> None
             | Some (k, r) \<Rightarrow>
            (case read_value n r of
               None \<Rightarrow> None
             | Some (j, r) \<Rightarrow> map_option (\<lambda>(ms, r). ((k, j) # ms, r)) (read_members n r)))
          else None)"

text \<open>A whole text: one value and white space.\<close>

definition json_read :: "string \<Rightarrow> json option" where
  "json_read s = (case read_value (Suc (length s)) s of Some (j, r) \<Rightarrow> if skip_space r = [] then Some j else None | None \<Rightarrow> None)"


subsection \<open>Reading back a string\<close>

text \<open>The string with every byte that starts no UTF-8 sequence replaced.\<close>

function utf8_clean :: "nat list \<Rightarrow> string" where
  "utf8_clean bs =
     (if bs = [] then []
      else if hd bs < 0x80 then char_of (hd bs) # utf8_clean (tl bs)
      else
        (case decode_rune bs of
           (r, w) \<Rightarrow>
             (if r = 0xfffd \<and> w = 1 then map char_of (utf8_encode 0xfffd) else map char_of (take w bs)) @
             utf8_clean (drop w bs)))"
  by pat_completeness auto
termination
  by (relation "measure length") (auto simp: decode_rune_width dest: arg_cong [where f = snd])

declare utf8_clean.simps [simp del]

definition valid_text :: "string \<Rightarrow> string" where
  "valid_text s = utf8_clean (map of_char s)"

lemma read_string_quote [simp]: "read_string (dquote # r) = Some ([], r)"
  by (subst read_string.simps) simp

lemma read_string_plain:
  "c \<noteq> dquote \<Longrightarrow> c \<noteq> backslash \<Longrightarrow> (0x20 :: nat) \<le> of_char c \<Longrightarrow> read_string (c # r) = after [c] (read_string r)"
  by (subst read_string.simps) simp

lemma read_string_short:
  "e \<noteq> CHR ''u'' \<Longrightarrow> short_escape e = Some x \<Longrightarrow> read_string (backslash # e # r) = after [x] (read_string r)"
  by (subst read_string.simps) simp

lemma after_after [simp]: "after t (after u x) = after (t @ u) x"
  by (cases x) (auto simp: after_def)

lemma after_Nil [simp]: "after [] x = x"
  by (cases x) (auto simp: after_def)

lemma hex_digit_hexdigit: "n < 16 \<Longrightarrow> hex_digit (hexdigit n) = Some n"
  by (auto simp: hex_digit_def hexdigit_def in_range_def Let_def)

lemma read_string_unicode:
  assumes "n < 65536"
  shows "read_string (unicode_escape n @ r) = after (map char_of (utf8_encode n)) (read_string r)"
proof -
  have "hex4 (hexdigit (n div 4096)) (hexdigit (n div 256 mod 16)) (hexdigit (n div 16 mod 16)) (hexdigit (n mod 16)) = Some n"
    using assms hex_digits_value [of n] by (simp add: hex4_def hex_digit_hexdigit less_mult_imp_div_less)
  then show ?thesis unfolding unicode_escape_def by (subst read_string.simps) simp
qed

lemma char_of_quote: "(b :: nat) < 256 \<Longrightarrow> char_of b = dquote \<longleftrightarrow> b = 0x22" "b < 256 \<Longrightarrow> char_of b = backslash \<longleftrightarrow> b = 0x5c"
  by (simp_all add: char_of_eq_iff take_bit_eq_mod)

lemma char_consts: "char_of (8 :: nat) = CHR 0x08" "char_of (9 :: nat) = CHR 0x09" "char_of (10 :: nat) = CHR 0x0a"
    "char_of (12 :: nat) = CHR 0x0c" "char_of (13 :: nat) = CHR 0x0d" "char_of (34 :: nat) = dquote" "char_of (92 :: nat) = backslash"
  by (simp_all add: char_of_eq_iff take_bit_eq_mod)

lemma read_string_high:
  "list_all (\<lambda>b :: nat. 0x80 \<le> b \<and> b < 0x100) bs \<Longrightarrow> read_string (map char_of bs @ r) = after (map char_of bs) (read_string r)"
proof (induction bs)
  case (Cons b bs)
  have b: "0x80 \<le> b" "b < 256" using Cons.prems by simp_all
  then have c: "(0x80 :: nat) \<le> of_char (char_of b :: char)" by simp
  have "char_of b \<noteq> dquote" "char_of b \<noteq> backslash" using b by (simp_all add: char_of_quote)
  then show ?case using Cons c by (simp add: read_string_plain)
qed simp

lemma escape_byte_read:
  assumes "b < 0x80"
  shows "read_string ((if json_safe html b then [char_of b] else escape_byte b) @ r) = after [char_of b] (read_string r)"
proof (cases "json_safe html b")
  case True
  then have b: "b \<noteq> 0x22" "b \<noteq> 0x5c" "0x20 \<le> b" by (auto simp: json_safe_def)
  then have "char_of b \<noteq> dquote" "char_of b \<noteq> backslash" using assms by (simp_all add: char_of_quote)
  then show ?thesis using True b assms by (simp add: read_string_plain)
next
  case False
  have "utf8_encode b = [b]" using assms by (simp add: utf8_encode_def)
  then show ?thesis
    using False assms read_string_unicode [of b r]
    by (auto simp: escape_byte_def short_escape_def read_string_short char_consts)
qed

lemma decode_rune_high:
  assumes "decode_rune bs = (r, w)" and "bs \<noteq> []" and "\<not> hd bs < 0x80" and "\<not> (r = 0xfffd \<and> w = 1)"
    and "list_all (\<lambda>b. b < 0x100) bs"
  shows "list_all (\<lambda>b. 0x80 \<le> b \<and> b < 0x100) (take w bs)"
proof -
  obtain b bs' where bs: "bs = b # bs'" using assms(2) by (cases bs) auto
  show ?thesis
    using assms unfolding bs decode_rune_def
    by (cases bs'; cases "tl bs'"; cases "tl (tl bs')") (auto simp: in_range_def Let_def split: if_splits)
qed


lemma digit64: "q * 64 + c = n \<Longrightarrow> c < 64 \<Longrightarrow> q = n div 64 \<and> c = n mod (64 :: nat)"
  by auto

lemma three_bytes:
  assumes "4096 * (x - 224) + (y - 128) * 64 + z - 128 = n" and "n = 8232 \<or> n = 8233"
    and "224 \<le> x" "128 \<le> y" "y \<le> 191" "128 \<le> z" "z \<le> (191 :: nat)"
  shows "x = 226 \<and> y = 128 \<and> z = n - 8232 + 168"
proof -
  have yz: "y - 128 < 64" "z - 128 < 64" using assms by simp_all
  have "((x - 224) * 64 + (y - 128)) * 64 + (z - 128) = n" using assms(1,6) by simp
  note hi = digit64 [OF this yz(2)]
  moreover have "x - 224 = n div 64 div 64 \<and> y - 128 = n div 64 mod 64" by (rule digit64 [OF conjunct1 [OF hi, symmetric, THEN sym] yz(1)])
  ultimately show ?thesis using assms by auto
qed

lemma two_bytes: "(x - 192) * 64 + y - 128 = n \<Longrightarrow> x \<le> 223 \<Longrightarrow> y \<le> (191 :: nat) \<Longrightarrow> n < 8232"
  using mult_le_mono1 [of "x - 192" 31 64] by simp

text \<open>The two line separators are escaped, though their bytes could stay.\<close>

lemma decode_rune_line:
  assumes "decode_rune bs = (r, w)" and "r = 0x2028 \<or> r = 0x2029" and "bs \<noteq> []" and "\<not> hd bs < 0x80"
  shows "utf8_encode r = take w bs"
proof -
  obtain b bs' where bs: "bs = b # bs'" using assms(3) by (cases bs) auto
  have enc: "utf8_encode 0x2028 = [0xe2, 0x80, 0xa8]" "utf8_encode 0x2029 = [0xe2, 0x80, 0xa9]"
    by (simp_all add: utf8_encode_def)
  show ?thesis
    using assms(1,2,4) unfolding bs decode_rune_def Let_def in_range_def
    by (cases bs'; cases "tl bs'"; cases "tl (tl bs')")
      (auto simp: enc split: if_splits dest: two_bytes three_bytes)
qed

lemma read_string_escape:
  "list_all (\<lambda>b. b < 0x100) bs \<Longrightarrow> read_string (json_escape html bs @ dquote # rest) = Some (utf8_clean bs, rest)"
proof (induction html bs rule: json_escape.induct)
  case (1 html bs)
  show ?case
  proof (cases "bs = []")
    case True
    then show ?thesis by (simp add: json_escape.simps utf8_clean.simps)
  next
    case ne: False
    show ?thesis
    proof (cases "hd bs < 0x80")
      case True
      have "list_all (\<lambda>b. b < 0x100) (tl bs)" using 1(3) ne by (cases bs) auto
      then show ?thesis
        using 1(1) [OF ne True] escape_byte_read [OF True, of html] ne True
        by (simp add: json_escape.simps [of html bs] utf8_clean.simps [of bs] after_def)
    next
      case False
      obtain r w where rw: "decode_rune bs = (r, w)" by fastforce
      have "list_all (\<lambda>b. b < 0x100) (drop w bs)" using 1(3) by (auto simp: list_all_iff dest: in_set_dropD)
      then have IH: "read_string (json_escape html (drop w bs) @ dquote # rest) = Some (utf8_clean (drop w bs), rest)"
        using 1(2) [OF ne False rw [symmetric]] by blast
      show ?thesis
      proof (cases "r = 0xfffd \<and> w = 1")
        case bad: True
        then show ?thesis
          using ne False rw IH by (simp add: json_escape.simps [of html bs] utf8_clean.simps [of bs] read_string_unicode after_def)
      next
        case good: False
        have "map char_of (utf8_encode r) = map char_of (take w bs)" if "r = 0x2028 \<or> r = 0x2029"
          using decode_rune_line [OF rw that ne False] by simp
        then show ?thesis
          using ne False rw IH good read_string_high [OF decode_rune_high [OF rw ne False good 1(3)]]
          by (auto simp: json_escape.simps [of html bs] utf8_clean.simps [of bs] read_string_unicode after_def)
      qed
    qed
  qed
qed


lemma read_json_string: "read_string (json_escape html (map of_char s) @ dquote # rest) = Some (valid_text s, rest)"
  unfolding valid_text_def by (rule read_string_escape) (simp add: list_all_iff)


subsection \<open>Reading back a value\<close>

primrec json_clean :: "json \<Rightarrow> json" where
  "json_clean JNull = JNull"
| "json_clean (JBool b) = JBool b"
| "json_clean (JNumber n) = JNumber n"
| "json_clean (JString s) = JString (valid_text s)"
| "json_clean (JArray js) = JArray (map json_clean js)"
| "json_clean (JObject ms) = JObject (map (map_prod valid_text json_clean) ms)"

text \<open>The numbers of a value are literals.\<close>

fun json_ok :: "json \<Rightarrow> bool" and members_ok :: "(string \<times> json) list \<Rightarrow> bool" where
  "json_ok (JNumber n) = (n \<noteq> [] \<and> list_all number_char n)"
| "json_ok (JArray []) = True"
| "json_ok (JArray (j # js)) = (json_ok j \<and> json_ok (JArray js))"
| "json_ok (JObject ms) = members_ok ms"
| "json_ok JNull = True"
| "json_ok (JBool b) = True"
| "json_ok (JString s) = True"
| "members_ok [] = True"
| "members_ok ((k, j) # ms) = (json_ok j \<and> members_ok ms)"

definition no_number :: "string \<Rightarrow> bool" where
  "no_number s \<longleftrightarrow> (case s of [] \<Rightarrow> True | c # _ \<Rightarrow> \<not> number_char c)"

lemma no_number_simps [simp]:
  "no_number []" "no_number (c # s) = (\<not> number_char c)"
  "no_number (new_line indent d @ s) = (if indent then True else no_number s)"
  by (simp_all add: no_number_def new_line_def number_char_def)

lemma skip_space_simps [simp]:
  "skip_space (new_line indent d @ s) = skip_space s" "skip_space [] = []"
  "skip_space (c # s) = (if json_space c then skip_space s else c # s)"
proof -
  have "\<forall>c \<in> set (new_line indent d). json_space c" by (auto simp: new_line_def json_space_def)
  then show "skip_space (new_line indent d @ s) = skip_space s" by (simp add: skip_space_def dropWhile_append2)
qed (simp_all add: skip_space_def)

lemma plain_chars [simp]:
  "\<not> json_space dquote" "\<not> json_space CHR ''[''" "\<not> json_space CHR '']''" "\<not> json_space CHR ''{''" "\<not> json_space CHR ''}''"
  "\<not> json_space CHR '',''" "\<not> json_space CHR '':''" "\<not> json_space CHR ''n''" "\<not> json_space CHR ''t''" "\<not> json_space CHR ''f''"
  "\<not> number_char CHR '']''" "\<not> number_char CHR ''}''" "\<not> number_char CHR '',''" "\<not> number_char CHR 0x0a"
  by (simp_all add: json_space_def number_char_def)

lemma read_value_space [simp]: "read_value n (new_line indent d @ s) = read_value n s"
  by (cases n) simp_all

lemma read_key_write [simp]:
  "read_key (new_line indent d @ json_key html indent k @ s) = Some (valid_text k, (if indent then CHR '' '' # s else s))"
  by (simp add: read_key_def json_key_def json_string_def read_json_string)

lemma read_value_blank [simp]: "read_value n (if b then CHR '' '' # s else s) = read_value n s"
  by (cases n) (simp_all add: json_space_def)

lemma number_char_cases: "number_char c \<Longrightarrow> \<not> json_space c \<and> c \<noteq> dquote \<and> c \<noteq> CHR ''['' \<and> c \<noteq> CHR ''{'' \<and>
    c \<noteq> CHR '']'' \<and> c \<noteq> CHR ''}'' \<and> c \<noteq> CHR ''n'' \<and> c \<noteq> CHR ''t'' \<and> c \<noteq> CHR ''f''"
  by (auto simp: number_char_def json_space_def)

lemma read_number:
  assumes "n \<noteq> []" and "list_all number_char n" and "no_number rest"
  shows "read_value (Suc k) (n @ rest) = Some (JNumber n, rest)"
proof -
  obtain c r where n: "n = c # r" using assms(1) by (cases n) auto
  have c: "number_char c" using assms(2) n by simp
  have t: "takeWhile number_char (n @ rest) = n" "dropWhile number_char (n @ rest) = rest"
    using assms(2,3) by (auto simp: takeWhile_append dropWhile_append list_all_iff no_number_def takeWhile_eq_Nil_iff split: list.splits)
  show ?thesis
    using number_char_cases [OF c] t unfolding n by (simp add: read_atom_def)
qed

text \<open>A written value starts with a token, and not with the end of an array or an object.\<close>

lemma write_start:
  assumes "json_ok j"
  shows "\<exists>c r. json_write html indent d j = c # r \<and> \<not> json_space c \<and> c \<noteq> CHR '']'' \<and> c \<noteq> CHR ''}''"
proof (cases j)
  case (JNumber n)
  then obtain c r where "n = c # r" "number_char c" using assms by (cases n) auto
  then show ?thesis using JNumber number_char_cases by auto
next
  case (JArray js)
  then show ?thesis by (cases js) auto
next
  case (JObject ms)
  then show ?thesis by (cases ms) auto
qed (auto simp: json_string_def)

lemma no_number_elems [simp]:
  "no_number (json_elems html indent d js @ new_line i e @ CHR '']'' # rest)"
  "no_number (json_members html indent d ms @ new_line i e @ CHR ''}'' # rest)"
  by (induction js) (auto, induction ms, auto)

lemma read_written:
  "\<And>n rest. json_ok j \<Longrightarrow> no_number rest \<Longrightarrow> length (json_write html indent d j) \<le> n \<Longrightarrow>
     read_value n (json_write html indent d j @ rest) = Some (json_clean j, rest)"
  "\<And>n e rest. json_ok (JArray js) \<Longrightarrow> length (json_elems html indent d js) < n \<Longrightarrow>
     read_elems n (json_elems html indent d js @ new_line indent e @ CHR '']'' # rest) = Some (map json_clean js, rest)"
  "\<And>n e rest. members_ok ms \<Longrightarrow> length (json_members html indent d ms) < n \<Longrightarrow>
     read_members n (json_members html indent d ms @ new_line indent e @ CHR ''}'' # rest) =
       Some (map (map_prod valid_text json_clean) ms, rest)"
proof (induction html indent d j and html indent d js and html indent d ms
    rule: json_write_json_elems_json_members.induct)
  case (1 html indent d)
  then show ?case by (cases n) (auto simp: read_atom_def)
next
  case (2 html indent d b)
  then show ?case by (cases n; cases b) (auto simp: read_atom_def)
next
  case (3 html indent d num)
  then show ?case by (cases n) (auto simp: read_number simp del: read_value.simps(2))
next
  case (4 html indent d s)
  then show ?case by (cases n) (auto simp: json_string_def read_json_string)
next
  case (5 html indent d)
  then show ?case by (cases n) auto
next
  case (6 html indent d j js)
  from 6(3) have ok: "json_ok j" "json_ok (JArray js)" by simp_all
  obtain c r where w: "json_write html indent (d + 1) j = c # r" "\<not> json_space c" "c \<noteq> CHR '']''"
    using write_start [OF ok(1)] by blast
  obtain m where n: "n = Suc m" "length (json_write html indent (d + 1) j) \<le> m" "length (json_elems html indent (d + 1) js) < m"
    using 6(5) by (cases n) auto
  show ?case
    using 6(1) [OF ok(1) no_number_elems(1) n(2)] 6(2) [OF ok(2) n(3), of d rest] w by (simp add: n(1))
next
  case (7 html indent d)
  then show ?case by (cases n) auto
next
  case (8 html indent d k j ms)
  from 8(3) have ok: "json_ok j" "members_ok ms" by simp_all
  obtain m where n: "n = Suc m" "length (json_write html indent (d + 1) j) \<le> m" "length (json_members html indent (d + 1) ms) < m"
    using 8(5) by (cases n) auto
  obtain r where k: "json_key html indent k = dquote # r" by (simp add: json_key_def json_string_def)
  show ?case
    using 8(1) [OF ok(1) no_number_elems(2) n(2)] 8(2) [OF ok(2) n(3), of d rest] k
      read_key_write [of indent "d + 1" html k] by (simp add: n(1))
next
  case (9 html indent d)
  then show ?case by (cases n) auto
next
  case (10 html indent d j js)
  from 10(3) have ok: "json_ok j" "json_ok (JArray js)" by simp_all
  obtain m where n: "n = Suc m" "length (json_write html indent d j) \<le> m" "length (json_elems html indent d js) < m"
    using 10(4) by (cases n) auto
  show ?case using 10(1) [OF ok(1) no_number_elems(1) n(2)] 10(2) [OF ok(2) n(3)] by (simp add: n(1))
next
  case (11 html indent d)
  then show ?case by (cases n) auto
next
  case (12 html indent d k j ms)
  from 12(3) have ok: "json_ok j" "members_ok ms" by simp_all
  obtain m where n: "n = Suc m" "length (json_write html indent d j) \<le> m" "length (json_members html indent d ms) < m"
    using 12(4) by (cases n) auto
  show ?case using 12(1) [OF ok(1) no_number_elems(2) n(2)] 12(2) [OF ok(2) n(3)] by (simp add: n(1))
qed


lemma json_read_Encode: "json_ok j \<Longrightarrow> json_read (json_Encode html indent j) = Some (json_clean j)"
  using read_written(1) [of j "[CHR 0x0a]" html indent 0 "Suc (length (json_Encode html indent j))"]
  by (simp add: json_read_def json_Encode_def json_space_def)


subsection \<open>Lines\<close>

lemma hexdigit_not_line: "n < 16 \<Longrightarrow> hexdigit n \<noteq> CHR 0x0a"
  using hex_digit_hexdigit [of n] by (auto simp: hex_digit_def in_range_def)

lemma char_not_line: "(b :: nat) < 256 \<Longrightarrow> b \<noteq> 10 \<Longrightarrow> CHR 0x0a \<noteq> char_of b"
proof
  assume b: "b < 256" "b \<noteq> 10" and "CHR 0x0a = char_of b"
  then have "(of_char CHR 0x0a :: nat) = of_char (char_of b :: char)" by simp
  then show False using b by simp
qed

lemma unicode_escape_line:
  assumes "n < 65536" shows "CHR 0x0a \<notin> set (unicode_escape n)"
proof -
  have "hexdigit k \<noteq> CHR 0x0a" if "k < 16" for k using hexdigit_not_line [OF that] .
  from this [THEN not_sym] show ?thesis
    using assms by (simp add: unicode_escape_def less_mult_imp_div_less)
qed

lemma escape_byte_line:
  assumes "b < 0x80" shows "CHR 0x0a \<notin> set (if json_safe html b then [char_of b] else escape_byte b)"
proof (cases "json_safe html b")
  case True
  then show ?thesis using char_not_line [of b] assms by (simp add: json_safe_def)
next
  case False
  have "b = 10 \<Longrightarrow> escape_byte b = [backslash, CHR ''n'']" by (simp add: escape_byte_def)
  then show ?thesis
    using False unicode_escape_line [of b] char_not_line [of b] assms by (cases "b = 10") (simp_all add: escape_byte_def)
qed

lemma json_escape_line: "list_all (\<lambda>b. b < 0x100) bs \<Longrightarrow> CHR 0x0a \<notin> set (json_escape html bs)"
proof (induction html bs rule: json_escape.induct)
  case (1 html bs)
  show ?case
  proof (cases "bs = []")
    case True
    then show ?thesis by (simp add: json_escape.simps)
  next
    case ne: False
    show ?thesis
    proof (cases "hd bs < 0x80")
      case True
      have "list_all (\<lambda>b. b < 0x100) (tl bs)" using 1(3) ne by (cases bs) auto
      then show ?thesis
        using 1(1) [OF ne True] escape_byte_line [OF True, of html] ne True by (simp add: json_escape.simps [of html bs])
    next
      case False
      obtain r w where rw: "decode_rune bs = (r, w)" by fastforce
      have "list_all (\<lambda>b. b < 0x100) (drop w bs)" using 1(3) by (auto simp: list_all_iff dest: in_set_dropD)
      then have IH: "CHR 0x0a \<notin> set (json_escape html (drop w bs))"
        using 1(2) [OF ne False rw [symmetric]] by blast
      have "CHR 0x0a \<notin> set (map char_of (take w bs))" if "\<not> (r = 0xfffd \<and> w = 1)"
        using decode_rune_high [OF rw ne False that 1(3)]
        using char_not_line by (fastforce simp: list_all_iff)
      then show ?thesis
        using IH rw ne False unicode_escape_line by (auto simp: json_escape.simps [of html bs])
    qed
  qed
qed

lemma json_string_line: "CHR 0x0a \<notin> set (json_string html s)"
  using json_escape_line [of "map of_char s" html] by (simp add: json_string_def list_all_iff)

lemma json_write_line:
  "json_ok j \<Longrightarrow> \<not> indent \<Longrightarrow> CHR 0x0a \<notin> set (json_write html indent d j)"
  "json_ok (JArray js) \<Longrightarrow> \<not> indent \<Longrightarrow> CHR 0x0a \<notin> set (json_elems html indent d js)"
  "members_ok ms \<Longrightarrow> \<not> indent \<Longrightarrow> CHR 0x0a \<notin> set (json_members html indent d ms)"
proof (induction html indent d j and html indent d js and html indent d ms
    rule: json_write_json_elems_json_members.induct)
  case (3 html indent d n)
  then have "\<forall>c \<in> set n. number_char c" by (simp add: list_all_iff)
  then show ?case using plain_chars(14) by (metis json_write.simps(3))
qed (auto simp: json_string_line json_key_def new_line_def)

text \<open>The lines of a text, each without its newline; what follows the last newline is dropped.\<close>

fun text_lines :: "string \<Rightarrow> string list" where
  "text_lines [] = []"
| "text_lines (c # s) =
     (if c = CHR 0x0a then [] # text_lines s
      else if CHR 0x0a \<in> set s then (case text_lines s of l # ls \<Rightarrow> (c # l) # ls | [] \<Rightarrow> [])
      else [])"

lemma text_lines_append: "CHR 0x0a \<notin> set l \<Longrightarrow> text_lines (l @ CHR 0x0a # s) = l # text_lines s"
  by (induction l) auto

lemma text_lines_concat: "\<forall>l \<in> set ls. CHR 0x0a \<notin> set l \<Longrightarrow> text_lines (concat (map (\<lambda>l. l @ [CHR 0x0a]) ls)) = ls"
  by (induction ls) (simp_all add: text_lines_append)

end
