(* ===== verification/Diffparse.thy ===== *)
theory Diffparse
  imports Go_Strconv Go_Json Pipeline "HOL-Library.AList"
begin

text \<open>
  \<^verbatim>\<open>scripts/diffparse/main.go\<close>: the comparison of the decoded handshakes with tshark's. \<^verbatim>\<open>encoding/json\<close>
  gives the values; an object is the list of its members in the order in which Go's map iteration visits
  them. A Go map from ports is a list of pairs in the order of insertion, without repeated keys.
\<close>

type_synonym members = "(string \<times> json) list"

definition isGREASE :: "u16 \<Rightarrow> bool" where
  "isGREASE v \<longleftrightarrow> (ucast (drop_bit 8 v) :: u8) = ucast v \<and> v AND 0x0f = 0x0a"


subsection \<open>Reading tshark's output\<close>

text \<open>\<^verbatim>\<open>json.Unmarshal\<close> into a slice of strings: a null element leaves the empty string.\<close>

fun string_elements :: "json list \<Rightarrow> string list option" where
  "string_elements [] = Some []"
| "string_elements (JString s # es) = map_option (Cons s) (string_elements es)"
| "string_elements (JNull # es) = map_option (Cons []) (string_elements es)"
| "string_elements (_ # es) = None"

definition unmarshal_strings :: "json \<Rightarrow> string list option" where
  "unmarshal_strings raw = (case raw of JNull \<Rightarrow> Some [] | JArray es \<Rightarrow> string_elements es | _ \<Rightarrow> None)"

text \<open>The member itself, \<open>None\<close> when it is missing.\<close>

definition strs :: "json option \<Rightarrow> string list" where
  "strs raw =
     (case raw of
        None \<Rightarrow> []
      | Some raw \<Rightarrow>
          (case unmarshal_strings raw of
             Some ss \<Rightarrow> ss
           | None \<Rightarrow> (case raw of JString one \<Rightarrow> [one] | _ \<Rightarrow> [])))"

text \<open>The objects of a tree in the order in which \<^verbatim>\<open>walk\<close> calls its function on them.\<close>

fun walk :: "json \<Rightarrow> members list" and walk_members :: "members \<Rightarrow> members list" and walk_list :: "json list \<Rightarrow> members list" where
  "walk (JObject n) = n # walk_members n"
| "walk (JArray n) = walk_list n"
| "walk _ = []"
| "walk_members [] = []"
| "walk_members ((k, v) # n) = walk v @ walk_members n"
| "walk_list [] = []"
| "walk_list (v # n) = walk v @ walk_list n"

definition collect_value :: "json option \<Rightarrow> string list" where
  "collect_value v =
     (case v of
        Some (JString t) \<Rightarrow> [t]
      | Some (JArray es) \<Rightarrow> concat (map (\<lambda>e. case e of JString s \<Rightarrow> [s] | _ \<Rightarrow> []) es)
      | _ \<Rightarrow> [])"

definition collect :: "json \<Rightarrow> string \<Rightarrow> string list" where
  "collect node key = concat (map (\<lambda>obj. collect_value (map_of obj key)) (walk node))"

definition extension :: "json \<Rightarrow> string \<Rightarrow> json option" where
  "extension node num =
     map_option JObject (find (\<lambda>obj. map_of obj ''tls.handshake.extension.type'' = Some (JString num)) (walk node))"

fun toU16 :: "string list \<Rightarrow> bool \<Rightarrow> u16 list" where
  "toU16 [] dropGREASE = []"
| "toU16 (s # vals) dropGREASE =
     (case ParseUint (TrimSpace s) None 32 of
        Inl _ \<Rightarrow> toU16 vals dropGREASE
      | Inr v \<Rightarrow>
          (let u = word_of_nat v in
           if dropGREASE \<and> isGREASE u then toU16 vals dropGREASE else u # toU16 vals dropGREASE))"

record hello =
  dh_Port :: u16
  dh_SNI :: string
  dh_Ciphers :: "u16 list"
  dh_Groups :: "u16 list"
  dh_KeyShares :: "u16 list"
  dh_SigAlgs :: "u16 list"
  dh_ALPN :: "string list"
  dh_JA4 :: string

type_synonym hellos = "(u16 \<times> hello) list"

text \<open>The join key: the first source port, of TCP or else of UDP.\<close>

definition join_port :: "string list \<Rightarrow> string list \<Rightarrow> u16 option" where
  "join_port tcp udp =
     (case (if tcp = [] then udp else tcp) of
        [] \<Rightarrow> None
      | port # _ \<Rightarrow> (case ParseUint port (Some 10) 16 of Inl _ \<Rightarrow> None | Inr v \<Rightarrow> Some (word_of_nat v)))"

definition fields_hello :: "u16 \<Rightarrow> members \<Rightarrow> hello" where
  "fields_hello port l =
     (let first = (\<lambda>key. case strs (map_of l key) of [] \<Rightarrow> [] | s # _ \<Rightarrow> s) in
      \<lparr>dh_Port = port, dh_SNI = first ''tls.handshake.extensions_server_name'',
       dh_Ciphers = toU16 (strs (map_of l ''tls.handshake.ciphersuite'')) True,
       dh_Groups = toU16 (strs (map_of l ''tls.handshake.extensions_supported_group'')) True,
       dh_KeyShares = toU16 (strs (map_of l ''tls.handshake.extensions_key_share_group'')) True,
       dh_SigAlgs = [], dh_ALPN = strs (map_of l ''tls.handshake.extensions_alpn_str''),
       dh_JA4 = first ''tls.handshake.ja4''\<rparr>)"

definition fields_packet :: "hellos \<Rightarrow> members \<Rightarrow> hellos" where
  "fields_packet out l =
     (case join_port (strs (map_of l ''tcp.srcport'')) (strs (map_of l ''udp.srcport'')) of
        None \<Rightarrow> out
      | Some port \<Rightarrow> if map_of out port \<noteq> None then out else out @ [(port, fields_hello port l)])"

text \<open>A file: the error of opening it, or the error or the value of decoding it.\<close>

definition readTsharkFields :: "string + (string + members list) \<Rightarrow> string + hellos" where
  "readTsharkFields file =
     (case file of
        Inl e \<Rightarrow> Inl e
      | Inr (Inl e) \<Rightarrow> Inl (''decoding tshark fields json: '' @ e)
      | Inr (Inr packets) \<Rightarrow> Inr (foldl fields_packet [] packets))"

definition scoped_packet :: "u16 list \<times> hellos \<Rightarrow> json option \<Rightarrow> u16 list \<times> hellos" where
  "scoped_packet st p =
     (let (seen, hellos) = st in
      case p of
        None \<Rightarrow> (seen, hellos)
      | Some layers \<Rightarrow>
          (case join_port (collect layers ''tcp.srcport'') (collect layers ''udp.srcport'') of
             None \<Rightarrow> (seen, hellos)
           | Some port \<Rightarrow>
               if port \<in> set seen then (seen, hellos)
               else
                 (port # seen,
                  case extension layers ''13'' of
                    None \<Rightarrow> hellos
                  | Some ext \<Rightarrow>
                      AList.map_entry port (\<lambda>h. h\<lparr>dh_SigAlgs := toU16 (collect ext ''tls.handshake.sig_hash_alg'') True\<rparr>) hellos)))"

definition addScopedSigAlgs :: "string + (string + json option list) \<Rightarrow> hellos \<Rightarrow> string + hellos" where
  "addScopedSigAlgs file hellos =
     (case file of
        Inl e \<Rightarrow> Inl e
      | Inr (Inl e) \<Rightarrow> Inl (''decoding tshark tree json: '' @ e)
      | Inr (Inr packets) \<Rightarrow> Inr (snd (foldl scoped_packet ([], hellos) packets)))"


subsection \<open>Reading the capture\<close>

definition our_hello :: "Flow \<Rightarrow> ClientHello \<Rightarrow> hello" where
  "our_hello f ch =
     \<lparr>dh_Port = fl_ClientPort f, dh_SNI = ch_ServerName ch, dh_Ciphers = ch_CipherSuites ch, dh_Groups = ch_SupportedGroups ch,
      dh_KeyShares = ch_KeyShareGroups ch, dh_SigAlgs = ch_SignatureAlgorithms ch, dh_ALPN = ch_ALPN ch, dh_JA4 = JA4 ch\<rparr>"

definition our_flow :: "hellos \<Rightarrow> Flow \<Rightarrow> hellos" where
  "our_flow out f =
     (case fl_Client f of
        None \<Rightarrow> out
      | Some ch \<Rightarrow> if map_of out (fl_ClientPort f) \<noteq> None then out else out @ [(fl_ClientPort f, our_hello f ch)])"

text \<open>The packet loop; \<open>SrcEOF\<close> is here \<^verbatim>\<open>io.EOF\<close> itself. \<open>None\<close> is a source that never ends.\<close>

partial_function (option) ours_loop ::
  "cryptobyte \<Rightarrow> gopacket \<Rightarrow> nat \<Rightarrow> ('s \<Rightarrow> ('e src_error + bytes \<times> int) \<times> 's) \<Rightarrow> 's \<Rightarrow> Assembler \<Rightarrow> ('e + Assembler) option" where
  "ours_loop cb gp linkType next s a =
     (case next s of
        (Inl SrcEOF, s) \<Rightarrow> Some (Inr a)
      | (Inl (SrcErr e), s) \<Rightarrow> Some (Inl e)
      | (Inr (data, ts), s) \<Rightarrow> ours_loop cb gp linkType next s (Packet cb gp a data ts linkType))"

definition readOurs :: "cryptobyte \<Rightarrow> gopacket \<Rightarrow> int \<Rightarrow> 'e + ('s, 'e) Source \<Rightarrow> ('e + hellos) option" where
  "readOurs cb gp closeNow src =
     (case src of
        Inl e \<Rightarrow> Some (Inl e)
      | Inr src \<Rightarrow>
          (case ours_loop cb gp (sc_LinkType src) (sc_Next src) (sc_state src)
                  (Assembler_New \<lparr>o_MaxStreamPrefix = 0, o_CloseTimeout = 0, o_MaxStreams = 0\<rparr>) of
             None \<Rightarrow> None
           | Some (Inl e) \<Rightarrow> Some (Inl e)
           | Some (Inr a) \<Rightarrow> Some (Inr (foldl our_flow [] (a_handled (Close cb gp a closeNow))))))"


subsection \<open>Comparison\<close>

record diff_report =
  df_checks :: int
  df_mismatches :: int
  df_ja4Compared :: int
  df_ja4Agreed :: int
  df_out :: "string list"

definition Sprint_u16 :: "u16 list \<Rightarrow> string" where
  "Sprint_u16 vs = Sprint_list (map (\<lambda>v. dec (unat v)) vs)"

definition hexList :: "u16 list \<Rightarrow> string" where
  "hexList vs =
     (if length vs = 0 then ''[]''
      else ''['' @ Join (map (\<lambda>v. ''0x'' @ hex04 v) vs) '' '' @ '']'')"

definition cmpU16 :: "u16 \<Rightarrow> string \<Rightarrow> u16 list \<Rightarrow> u16 list \<Rightarrow> bool \<Rightarrow> diff_report \<Rightarrow> diff_report" where
  "cmpU16 port field ours theirs ordered r =
     (let r = r\<lparr>df_checks := df_checks r + 1\<rparr>;
          a = (if ordered then ours else sort_slice (<) ours);
          b = (if ordered then theirs else sort_slice (<) theirs)
      in if Sprint_u16 a = Sprint_u16 b then r
         else r\<lparr>df_mismatches := df_mismatches r + 1,
                df_out := df_out r @ [''  MISMATCH port '' @ dec (unat port) @ '' '' @ field @ nl @
                  ''    tlscensus: '' @ hexList ours @ nl @ ''    tshark:    '' @ hexList theirs @ nl]\<rparr>)"

definition cmpStr :: "(string \<Rightarrow> string) \<Rightarrow> u16 \<Rightarrow> string \<Rightarrow> string \<Rightarrow> string \<Rightarrow> diff_report \<Rightarrow> diff_report" where
  "cmpStr quote port field ours theirs r =
     (let r = r\<lparr>df_checks := df_checks r + 1\<rparr> in
      if ours = theirs then r
      else r\<lparr>df_mismatches := df_mismatches r + 1,
             df_out := df_out r @ [''  MISMATCH port '' @ dec (unat port) @ '' '' @ field @ nl @
               ''    tlscensus: '' @ quote ours @ nl @ ''    tshark:    '' @ quote theirs @ nl]\<rparr>)"

text \<open>One port of tshark's map.\<close>

definition compare_ja4 :: "u16 \<Rightarrow> hello \<Rightarrow> hello \<Rightarrow> diff_report \<Rightarrow> diff_report" where
  "compare_ja4 p our their r =
     (if dh_JA4 their = [] then r
      else
        (let r = r\<lparr>df_ja4Compared := df_ja4Compared r + 1\<rparr> in
         if dh_JA4 our = dh_JA4 their then r\<lparr>df_ja4Agreed := df_ja4Agreed r + 1\<rparr>
         else r\<lparr>df_out := df_out r @ [''  JA4 DIFFERS port '' @ dec (unat p) @ nl @
                ''    tlscensus: '' @ dh_JA4 our @ nl @ ''    tshark:    '' @ dh_JA4 their @ nl]\<rparr>))"

definition compare_port :: "(string \<Rightarrow> string) \<Rightarrow> hellos \<Rightarrow> hellos \<Rightarrow> diff_report \<Rightarrow> u16 \<Rightarrow> diff_report" where
  "compare_port quote ours theirs r p =
     (let t = the (map_of theirs p) in
      case map_of ours p of
        None \<Rightarrow>
          r\<lparr>df_checks := df_checks r + 1, df_mismatches := df_mismatches r + 1,
            df_out := df_out r @ [''  MISSING port '' @ dec (unat p) @ '' ('' @ dh_SNI t @ '') '' @ [CHR 0xe2, CHR 0x80, CHR 0x94] @
              '' tshark decoded a ClientHello that tlscensus did not report'' @ nl]\<rparr>
      | Some our \<Rightarrow>
          (let r = cmpStr quote p ''sni'' (dh_SNI our) (dh_SNI t) r;
               r = cmpU16 p ''cipher_suites'' (dh_Ciphers our) (dh_Ciphers t) True r;
               r = cmpU16 p ''supported_groups'' (dh_Groups our) (dh_Groups t) True r;
               r = cmpU16 p ''key_share_groups'' (dh_KeyShares our) (dh_KeyShares t) True r;
               r = cmpU16 p ''signature_algorithms'' (dh_SigAlgs our) (dh_SigAlgs t) True r;
               r = cmpStr quote p ''alpn'' (Join (dh_ALPN our) '','') (Join (dh_ALPN t) '','') r
           in compare_ja4 p our t r))"

definition compare_extra :: "hellos \<Rightarrow> diff_report \<Rightarrow> u16 \<times> hello \<Rightarrow> diff_report" where
  "compare_extra theirs r entry =
     (let (p, our) = entry in
      if map_of theirs p \<noteq> None then r
      else r\<lparr>df_checks := df_checks r + 1, df_mismatches := df_mismatches r + 1,
             df_out := df_out r @ [''  EXTRA port '' @ dec (unat p) @ '' ('' @ dh_SNI our @ '') '' @ [CHR 0xe2, CHR 0x80, CHR 0x94] @
               '' tlscensus reported a ClientHello tshark did not'' @ nl]\<rparr>)"

definition compare_all :: "(string \<Rightarrow> string) \<Rightarrow> hellos \<Rightarrow> hellos \<Rightarrow> diff_report" where
  "compare_all quote ours theirs =
     (let ports = sort_slice (<) (map fst theirs);
          r = foldl (compare_port quote ours theirs)
                \<lparr>df_checks = 0, df_mismatches = 0, df_ja4Compared = 0, df_ja4Agreed = 0, df_out = []\<rparr> ports
      in foldl (compare_extra theirs) r ours)"

definition diff_summary :: "hellos \<Rightarrow> diff_report \<Rightarrow> string" where
  "diff_summary theirs r =
     ''  '' @ dec (length theirs) @ '' flows, '' @ dec_int (df_checks r) @ '' field checks, '' @ dec_int (df_mismatches r) @ '' mismatches'' @ nl @
     (if df_ja4Compared r > 0
      then ''  JA4: '' @ dec_int (df_ja4Agreed r) @ [CHR ''/''] @ dec_int (df_ja4Compared r) @ '' agree with the reference implementation'' @ nl
      else ''  JA4: not compared (this tshark build does not emit tls.handshake.ja4)'' @ nl)"

text \<open>The files as the operating system and the decoders give them.\<close>

record 's diff_files =
  dg_fields :: "string \<Rightarrow> string + (string + members list)"
  dg_tree :: "string \<Rightarrow> string + (string + json option list)"
  dg_pcap :: "string \<Rightarrow> string + ('s, string) Source"

text \<open>Standard output, standard error and exit status; \<open>None\<close> is a capture that never ends.\<close>

definition diffparse_main ::
  "cryptobyte \<Rightarrow> gopacket \<Rightarrow> int \<Rightarrow> (string \<Rightarrow> string) \<Rightarrow> 's diff_files \<Rightarrow> string list \<Rightarrow> (string \<times> string \<times> nat) option" where
  "diffparse_main cb gp closeNow quote files osArgs =
     (let failed = (\<lambda>e. Some ([], ''diffparse: '' @ e @ nl, 1)) in
      case osArgs of
        [prog, fieldsPath, treePath, pcapPath] \<Rightarrow>
          (case readTsharkFields (dg_fields files fieldsPath) of
             Inl e \<Rightarrow> failed e
           | Inr theirs \<Rightarrow>
               (case addScopedSigAlgs (dg_tree files treePath) theirs of
                  Inl e \<Rightarrow> failed e
                | Inr theirs \<Rightarrow>
                    (case readOurs cb gp closeNow (dg_pcap files pcapPath) of
                       None \<Rightarrow> None
                     | Some (Inl e) \<Rightarrow> failed e
                     | Some (Inr ours) \<Rightarrow>
                         (let r = compare_all quote ours theirs in
                          Some (concat (df_out r) @ diff_summary theirs r, [], if df_mismatches r > 0 then 1 else 0)))))
      | _ \<Rightarrow> Some ([], ''usage: diffparse TSHARK_FIELDS_JSON TSHARK_TREE_JSON PCAP'' @ nl, 2))"

end
