(* ===== verification/Diffparse_Props.thy ===== *)
theory Diffparse_Props
  imports Diffparse Pipeline_Props
begin

text \<open>The comparison succeeds exactly when the two readings of the capture agree.\<close>


subsection \<open>Equal texts are equal lists\<close>

lemma split_Join:
  "list_all (\<lambda>x. d \<notin> set x) xs \<Longrightarrow> split_char d (Join xs [d]) = (if xs = [] then [[]] else xs)"
proof (induction xs rule: induct_list012)
  case (2 x)
  then show ?case by (induction x) auto
next
  case (3 x y zs)
  have "d \<notin> set x \<Longrightarrow> split_char d (x @ d # t) = x # split_char d t" for x t by (induction x) auto
  with 3 show ?case by simp
qed simp

lemma dec_digits: "c \<in> set (dec n) \<Longrightarrow> is_digit c"
proof (induction n rule: dec.induct)
  case (1 n)
  have d: "k < 10 \<Longrightarrow> is_digit (char_of (48 + k))" for k :: nat by (simp add: is_digit_def char_code_def)
  show ?case
    using 1 d [of n] d [of "n mod 10"] by (cases "n < 10") (auto simp: dec.simps [of n])
qed

lemma Sprint_u16_inj: "Sprint_u16 vs = Sprint_u16 ws \<longleftrightarrow> vs = ws"
proof
  assume eq: "Sprint_u16 vs = Sprint_u16 ws"
  let ?d = "map (\<lambda>v :: u16. dec (unat v))"
  have no: "list_all (\<lambda>x. CHR '' '' \<notin> set x) (?d us)" for us
    using dec_digits by (fastforce simp: list_all_iff is_digit_def char_code_def)
  from eq have "Join (?d vs) '' '' = Join (?d ws) '' ''" by (simp add: Sprint_u16_def Sprint_list_def)
  then have "split_char CHR '' '' (Join (?d vs) '' '') = split_char CHR '' '' (Join (?d ws) '' '')" by simp
  then have "(if vs = [] then [[]] else ?d vs) = (if ws = [] then [[]] else ?d ws)"
    using split_Join [OF no [of vs]] split_Join [OF no [of ws]] by simp
  then have "?d vs = ?d ws" using dec_neq_Nil [THEN not_sym] by (auto split: if_splits)
  moreover have "inj (\<lambda>v :: u16. dec (unat v))" by (rule injI) (simp add: dec_inj word_unat_eq_iff)
  ultimately show "vs = ws" by (simp add: inj_map_eq_map)
qed simp


subsection \<open>Counting mismatches\<close>

text \<open>When two hellos agree; a JA4 that differs is reported and not counted.\<close>

definition agree :: "hello \<Rightarrow> hello \<Rightarrow> bool" where
  "agree h t \<longleftrightarrow>
     dh_SNI h = dh_SNI t \<and> dh_Ciphers h = dh_Ciphers t \<and> dh_Groups h = dh_Groups t \<and> dh_KeyShares h = dh_KeyShares t \<and>
     dh_SigAlgs h = dh_SigAlgs t \<and> Join (dh_ALPN h) '','' = Join (dh_ALPN t) '',''"

lemma cmp_mismatches [simp]:
  "df_mismatches (cmpU16 p f a b True r) = df_mismatches r + (if a = b then 0 else 1)"
  "df_mismatches (cmpStr q p f s t r) = df_mismatches r + (if s = t then 0 else 1)"
  "df_mismatches (compare_ja4 p h k r) = df_mismatches r"
  by (simp_all add: cmpU16_def cmpStr_def compare_ja4_def Let_def Sprint_u16_inj)

lemma compare_port_mismatches:
  "df_mismatches r \<le> df_mismatches (compare_port q ours theirs r p) \<and>
   (df_mismatches (compare_port q ours theirs r p) = df_mismatches r \<longleftrightarrow>
      (\<exists>h. map_of ours p = Some h \<and> agree h (the (map_of theirs p))))"
  by (auto simp: compare_port_def agree_def Let_def split: option.split)

lemma compare_extra_mismatches:
  "df_mismatches r \<le> df_mismatches (compare_extra theirs r e) \<and>
   (df_mismatches (compare_extra theirs r e) = df_mismatches r \<longleftrightarrow> map_of theirs (fst e) \<noteq> None)"
  by (cases e) (simp add: compare_extra_def)

text \<open>A fold whose steps never lower a counter leaves it unchanged exactly when every step does.\<close>

lemma fold_counter:
  fixes count :: "'a \<Rightarrow> int"
  assumes "\<And>r x. count r \<le> count (f r x) \<and> (count (f r x) = count r \<longleftrightarrow> P x)"
  shows "count r \<le> count (foldl f r xs) \<and> (count (foldl f r xs) = count r \<longleftrightarrow> list_all P xs)"
proof (induction xs arbitrary: r)
  case (Cons x xs)
  from assms [of r x] Cons.IH [of "f r x"] show ?case by auto
qed simp

lemma compare_all_agrees:
  "df_mismatches (compare_all q ours theirs) = 0 \<longleftrightarrow>
     (\<forall>p. case (map_of theirs p, map_of ours p) of
        (None, None) \<Rightarrow> True | (Some t, Some h) \<Rightarrow> agree h t | _ \<Rightarrow> False)" (is "?zero \<longleftrightarrow> ?all")
  and compare_all_mismatches_pos: "0 \<le> df_mismatches (compare_all q ours theirs)"
proof -
  let ?r = "\<lparr>df_checks = 0, df_mismatches = 0, df_ja4Compared = 0, df_ja4Agreed = 0, df_out = []\<rparr>"
  let ?r' = "foldl (compare_port q ours theirs) ?r (sort_slice (<) (map fst theirs))"
  note ports = fold_counter [of df_mismatches "compare_port q ours theirs", OF compare_port_mismatches, of ?r "sort_slice (<) (map fst theirs)"]
  note extra = fold_counter [of df_mismatches "compare_extra theirs", OF compare_extra_mismatches, of ?r' ours]
  have eq: "compare_all q ours theirs = foldl (compare_extra theirs) ?r' ours" by (simp add: compare_all_def)
  show "0 \<le> df_mismatches (compare_all q ours theirs)" using ports extra unfolding eq by simp
  have keys: "(\<forall>e \<in> set m. P (fst e)) \<longleftrightarrow> (\<forall>p. map_of m p \<noteq> None \<longrightarrow> P p)"
    and keys': "(\<forall>p \<in> set (map fst m). P p) \<longleftrightarrow> (\<forall>p. map_of m p \<noteq> None \<longrightarrow> P p)" for m :: hellos and P
    by (auto simp: map_of_eq_None_iff)
  have "?zero \<longleftrightarrow> (\<forall>p \<in> set (map fst theirs). \<exists>h. map_of ours p = Some h \<and> agree h (the (map_of theirs p))) \<and>
      (\<forall>e \<in> set ours. map_of theirs (fst e) \<noteq> None)"
    using ports extra unfolding eq by (auto simp: list_all_iff)
  also have "\<dots> \<longleftrightarrow> (\<forall>p. (map_of theirs p \<noteq> None \<longrightarrow> (\<exists>h. map_of ours p = Some h \<and> agree h (the (map_of theirs p)))) \<and>
      (map_of ours p \<noteq> None \<longrightarrow> map_of theirs p \<noteq> None))"
    unfolding keys [of ours "\<lambda>p. map_of theirs p \<noteq> None"] keys' [of theirs] by blast
  also have "\<dots> \<longleftrightarrow> ?all" by (intro arg_cong [of _ _ All] ext) (auto split: option.split)
  finally show "?zero \<longleftrightarrow> ?all" .
qed


subsection \<open>The first ClientHello of each port\<close>

definition first_hello :: "Flow list \<Rightarrow> u16 \<Rightarrow> hello option" where
  "first_hello fs p =
     map_option (\<lambda>f. our_hello f (the (fl_Client f))) (find (\<lambda>f. fl_Client f \<noteq> None \<and> fl_ClientPort f = p) fs)"

lemma our_flow_first:
  "map_of (our_flow out f) p =
     (case map_of out p of
        Some h \<Rightarrow> Some h
      | None \<Rightarrow> if fl_Client f \<noteq> None \<and> fl_ClientPort f = p then Some (our_hello f (the (fl_Client f))) else None)"
  by (cases "fl_Client f"; cases "map_of out (fl_ClientPort f)")
    (auto simp: our_flow_def map_add_def split: option.split)

lemma our_flows:
  "map_of (foldl our_flow out fs) p = (case map_of out p of Some h \<Rightarrow> Some h | None \<Rightarrow> first_hello fs p)"
proof (induction fs arbitrary: out)
  case (Cons f fs)
  show ?case by (simp add: Cons our_flow_first first_hello_def split: option.split)
qed (simp add: first_hello_def split: option.split)

lemma ours_loop_ok:
  "yields nxt s pkts e \<Longrightarrow>
     ours_loop cb gp linkType nxt s a = Some (case e of SrcEOF \<Rightarrow> Inr (packets cb gp linkType a pkts) | SrcErr x \<Rightarrow> Inl x)"
proof (induction pkts arbitrary: s a)
  case Nil
  then obtain s' where "nxt s = (Inl e, s')" by (cases "nxt s") simp
  then show ?case by (simp add: ours_loop.simps [of cb gp linkType nxt s a] split: src_error.split)
next
  case (Cons pkt pkts)
  obtain data ts where pkt: "pkt = (data, ts)" by fastforce
  from Cons.prems obtain s' where "nxt s = (Inr (data, ts), s')" "yields nxt s' pkts e" by (cases "nxt s") (simp add: pkt)
  with Cons.IH show ?case by (simp add: ours_loop.simps [of cb gp linkType nxt s a] pkt split: src_error.split)
qed


subsection \<open>The property\<close>

text \<open>
  C37: The comparison exits with success exactly when the two readings agree. When tshark's files decode
  and the capture is read to its end, the status is 0 if and only if the ports are the same and, for
  each, the first ClientHello of the flows the assembler reports for that port has the name, the
  suites, the groups, the key shares, the signature algorithms, each in order, and the joined protocols
  that tshark has; a handshake one side misses is a mismatch, a JA4 that differs is not.
\<close>

theorem diffparse_exit_exact:
  assumes "readTsharkFields (dg_fields files a1) = Inr hellos" and "addScopedSigAlgs (dg_tree files a2) hellos = Inr theirs"
    and "dg_pcap files a3 = Inr src" and "yields (sc_Next src) (sc_state src) pkts SrcEOF"
  shows "\<exists>out status. diffparse_main cb gp closeNow quote files [a0, a1, a2, a3] = Some (out, [], status) \<and>
    (let flows = a_handled (Close cb gp (packets cb gp (sc_LinkType src)
           (Assembler_New \<lparr>o_MaxStreamPrefix = 0, o_CloseTimeout = 0, o_MaxStreams = 0\<rparr>) pkts) closeNow)
     in (status = 0 \<longleftrightarrow>
           (\<forall>p. case (map_of theirs p, first_hello flows p) of
              (None, None) \<Rightarrow> True | (Some t, Some h) \<Rightarrow> agree h t | _ \<Rightarrow> False)) \<and>
        status \<le> 1)"
proof -
  let ?flows = "a_handled (Close cb gp (packets cb gp (sc_LinkType src)
           (Assembler_New \<lparr>o_MaxStreamPrefix = 0, o_CloseTimeout = 0, o_MaxStreams = 0\<rparr>) pkts) closeNow)"
  define ours where "ours = foldl our_flow [] ?flows"
  have first: "map_of ours p = first_hello ?flows p" for p by (simp add: ours_def our_flows)
  have read: "readOurs cb gp closeNow (dg_pcap files a3) = Some (Inr ours)"
    by (simp add: readOurs_def assms(3) ours_loop_ok [OF assms(4)] ours_def)
  define r where "r = compare_all quote ours theirs"
  have run: "diffparse_main cb gp closeNow quote files [a0, a1, a2, a3] =
      Some (concat (df_out r) @ diff_summary theirs r, [], if df_mismatches r > 0 then 1 else 0)"
    by (simp add: diffparse_main_def assms(1,2) read r_def Let_def)
  have "\<not> df_mismatches r > 0 \<longleftrightarrow> df_mismatches r = 0" using compare_all_mismatches_pos [of quote ours theirs] by (auto simp: r_def)
  then have "\<not> df_mismatches r > 0 \<longleftrightarrow> (\<forall>p. case (map_of theirs p, first_hello ?flows p) of
      (None, None) \<Rightarrow> True | (Some t, Some h) \<Rightarrow> agree h t | _ \<Rightarrow> False)"
    unfolding r_def compare_all_agrees first .
  with run show ?thesis by (intro exI [of _ "concat (df_out r) @ diff_summary theirs r"] exI conjI) (auto simp: Let_def)
qed

definition sample_files :: "(bytes \<times> int) list diff_files" where
  "sample_files = \<lparr>dg_fields = (\<lambda>_. Inr (Inr [[(''tcp.srcport'', JArray [JString ''443''])]])), dg_tree = (\<lambda>_. Inr (Inr [])),
     dg_pcap = (\<lambda>_. Inr (list_source [([1], 5)]))\<rparr>"

theorem diffparse_exit_exact_witness:
  "\<exists>out. diffparse_main string_methods no_packets 7 id sample_files [''diffparse'', ''f'', ''t'', ''p''] = Some (out, [], 1)"
proof -
  define theirs where "theirs = [(443 :: u16, fields_hello 443 [(''tcp.srcport'', JArray [JString ''443''])])]"
  have "ParseUint ''443'' (Some 10) 16 = Inr 443"
    by (simp add: ParseUint_def digit_value_def is_digit_def char_code_def underscore_def)
  then have fields: "readTsharkFields (dg_fields sample_files ''f'') = Inr theirs"
    by (simp add: readTsharkFields_def sample_files_def fields_packet_def join_port_def strs_def unmarshal_strings_def theirs_def)
  have tree: "addScopedSigAlgs (dg_tree sample_files ''t'') theirs = Inr theirs"
    by (simp add: addScopedSigAlgs_def sample_files_def)
  have pcap: "dg_pcap sample_files ''p'' = Inr (list_source [([1], 5)])" by (simp add: sample_files_def)
  have ys: "yields (sc_Next (list_source [([1], 5)])) (sc_state (list_source [([1], 5)])) [([1], 5)] SrcEOF"
    by (simp add: list_source_def)
  have "a_handled (Close string_methods no_packets (packets string_methods no_packets (sc_LinkType (list_source [([1], 5)]))
      (Assembler_New \<lparr>o_MaxStreamPrefix = 0, o_CloseTimeout = 0, o_MaxStreams = 0\<rparr>) [([1], 5)]) 7) = []"
    by (simp add: Close_def flushQUIC_def run_call_def no_packets_def Packet_def Assembler_New_def Let_def zero_Stats_def)
  with diffparse_exit_exact [OF fields tree pcap ys, of string_methods no_packets 7 id "''diffparse''"]
  obtain out status where run: "diffparse_main string_methods no_packets 7 id sample_files [''diffparse'', ''f'', ''t'', ''p''] = Some (out, [], status)"
    "status = 0 \<longleftrightarrow> (\<forall>p. map_of theirs p = None)" "status \<le> 1"
    by (auto simp: Let_def first_hello_def split: option.splits)
  have "map_of theirs 443 \<noteq> None" by (simp add: theirs_def)
  with run(2,3) have "status = 1" by (metis le_neq_implies_less less_one)
  with run(1) show ?thesis by blast
qed

end
