(* ===== verification/Capture_Bpf.thy ===== *)
theory Capture_Bpf
  imports Prelude
begin

text \<open>
  The read path of \<^verbatim>\<open>internal/capture/live_darwin.go\<close>: one \<^verbatim>\<open>read\<close> on a BPF device returns many
  packets, each after a header, and padded to a word when another one follows. Darwin runs on little-endian machines only, so
  \<^verbatim>\<open>binary.NativeEndian\<close> is little-endian, and \<^verbatim>\<open>int\<close> has 64 bits: the two lengths of a header are
  never negative. Times are nanoseconds from Go's zero time.
\<close>

definition bpfAlignment :: int where "bpfAlignment = 4"
definition bpfHdrLen :: nat where "bpfHdrLen = 18"

definition bpfWordAlign :: "int \<Rightarrow> int" where
  "bpfWordAlign x = (x + bpfAlignment - 1) AND NOT (bpfAlignment - 1)"

text \<open>\<^verbatim>\<open>time.Unix\<close>, with a nanosecond part of either sign.\<close>

definition time_Unix :: "int \<Rightarrow> int \<Rightarrow> int" where
  "time_Unix sec nsec = (sec + 62135596800) * 10 ^ 9 + nsec"

definition le_nat :: "bytes \<Rightarrow> nat" where
  "le_nat bs = be_nat (rev bs)"

definition le_bytes :: "nat \<Rightarrow> nat \<Rightarrow> bytes" where
  "le_bytes n v = map (\<lambda>i. word_of_nat (v div 256 ^ i)) [0..<n]"

record CaptureInfo =
  ci_Timestamp :: int
  ci_CaptureLength :: int
  ci_Length :: int

text \<open>A packet with what follows it, or nothing when the buffer holds no complete packet.\<close>

definition nextBPFPacket :: "bytes \<Rightarrow> (bytes \<times> CaptureInfo \<times> bytes) option" where
  "nextBPFPacket buf =
     (if length buf < bpfHdrLen then None
      else
        (let tsSec = sint (word_of_nat (le_nat (take 4 buf)) :: u32);
             tsUsec = sint (word_of_nat (le_nat (take 4 (drop 4 buf))) :: u32);
             capLen = le_nat (take 4 (drop 8 buf));
             dataLen = le_nat (take 4 (drop 12 buf));
             hdrLen = le_nat (take 2 (drop 16 buf));
             stop = hdrLen + capLen
         in if hdrLen < bpfHdrLen then None
            else if stop > length buf then None
            else
              (let ci = \<lparr>ci_Timestamp = time_Unix tsSec (tsUsec * 1000), ci_CaptureLength = int capLen,
                         ci_Length = int dataLen\<rparr>;
                   nxt = nat (bpfWordAlign (int stop));
                   rest = (if nxt \<ge> length buf then [] else drop nxt buf)
               in Some (take capLen (drop hdrLen buf), ci, rest))))"

text \<open>
  \<^verbatim>\<open>Next\<close> loops over what the operating system and the other goroutine do. \<open>dw_reads\<close> are the outcomes
  of the coming reads, and \<open>dw_loads\<close> says how often \<^verbatim>\<open>closed.Load\<close> still gives false: \<open>None\<close> when the
  source is never closed. A result of \<open>None\<close> is a loop still blocked in a read when the outcomes are used up.
  \<open>ReadAgain\<close> is \<^verbatim>\<open>EINTR\<close> or \<^verbatim>\<open>EAGAIN\<close>, \<open>ReadFailed\<close> any other error number.
\<close>

datatype os_read = ReadOK bytes | ReadAgain | ReadFailed int

record darwinSource =
  dw_pending :: bytes
  dw_reads :: "os_read list"
  dw_loads :: "nat option"

datatype next_result = NextPacket bytes CaptureInfo | NextEOF | NextError int

definition closed_Load :: "nat option \<Rightarrow> bool \<times> nat option" where
  "closed_Load l = (case l of None \<Rightarrow> (False, None) | Some 0 \<Rightarrow> (True, Some 0) | Some (Suc n) \<Rightarrow> (False, Some n))"

function darwin_Next :: "bytes \<Rightarrow> os_read list \<Rightarrow> nat option \<Rightarrow> (next_result \<times> darwinSource) option" where
  "darwin_Next pending reads loads =
     (let (closed, loads) = closed_Load loads in
      if closed then Some (NextEOF, \<lparr>dw_pending = pending, dw_reads = reads, dw_loads = loads\<rparr>)
      else if length pending > 0 then
        (case nextBPFPacket pending of
           Some (data, ci, rest) \<Rightarrow> Some (NextPacket data ci, \<lparr>dw_pending = rest, dw_reads = reads, dw_loads = loads\<rparr>)
         | None \<Rightarrow> darwin_Next [] reads loads)
      else
        (case reads of
           [] \<Rightarrow> None
         | ReadAgain # reads \<Rightarrow> darwin_Next pending reads loads
         | ReadFailed e # reads \<Rightarrow>
             (let (closed, loads) = closed_Load loads in
              Some (if closed then NextEOF else NextError e, \<lparr>dw_pending = pending, dw_reads = reads, dw_loads = loads\<rparr>))
         | ReadOK buf # reads \<Rightarrow> darwin_Next buf reads loads))"
  by pat_completeness auto
termination
  by (relation "measure (\<lambda>(pending, reads, loads). 2 * length reads + (if pending = [] then 0 else 1))") auto

declare darwin_Next.simps [simp del]

abbreviation dw_Next :: "darwinSource \<Rightarrow> (next_result \<times> darwinSource) option" where
  "dw_Next s \<equiv> darwin_Next (dw_pending s) (dw_reads s) (dw_loads s)"


subsection \<open>Little-endian fields\<close>

lemma length_le_bytes [simp]: "length (le_bytes n v) = n"
  by (simp add: le_bytes_def)

lemma le_bytes_Suc: "le_bytes (Suc n) v = le_bytes n v @ [word_of_nat (v div 256 ^ n)]"
  by (simp add: le_bytes_def)

lemma le_nat_le_bytes: "le_nat (le_bytes n v) = v mod 256 ^ n"
proof (induction n)
  case (Suc n)
  have "unat (word_of_nat (v div 256 ^ n) :: u8) = v div 256 ^ n mod 256" by (simp add: unat_of_nat)
  then have "le_nat (le_bytes (Suc n) v) = (v div 256 ^ n mod 256) * 256 ^ n + v mod 256 ^ n"
    using Suc.IH by (simp add: le_nat_def le_bytes_Suc be_nat_Cons)
  also have "\<dots> = v mod (256 ^ n * 256)" by (simp add: mod_mult2_eq)
  finally show ?case by (simp add: mult.commute)
qed (simp add: le_nat_def le_bytes_def)

text \<open>The mask clears the two low bits: the least multiple of four that is not smaller.\<close>

lemma bpfWordAlign_eq: "bpfWordAlign x = 4 * ((x + 3) div 4)"
proof -
  have "2 \<le> n \<Longrightarrow> Suc (Suc (n - 2)) = n" for n by simp
  then have "y AND NOT (mask 2) = push_bit 2 (drop_bit 2 y)" for y :: int
    by (intro bit_eqI) (auto simp: bit_simps)
  then show ?thesis
    by (simp add: bpfWordAlign_def bpfAlignment_def mask_eq_exp_minus_1 push_bit_eq_mult drop_bit_eq_div)
qed



subsection \<open>Splitting a buffer\<close>

text \<open>What the kernel writes for a packet: the header, padding up to the data, and the data.\<close>

record bpf_entry =
  be_Sec :: int
  be_Usec :: int
  be_Len :: nat
  be_HdrLen :: nat
  be_Data :: bytes

definition u32_of :: "int \<Rightarrow> nat" where
  "u32_of i = unat (word_of_int i :: u32)"

definition bpf_encode :: "bpf_entry \<Rightarrow> bytes" where
  "bpf_encode e =
     le_bytes 4 (u32_of (be_Sec e)) @ le_bytes 4 (u32_of (be_Usec e)) @ le_bytes 4 (length (be_Data e)) @
     le_bytes 4 (be_Len e) @ le_bytes 2 (be_HdrLen e) @ replicate (be_HdrLen e - bpfHdrLen) 0 @ be_Data e"

text \<open>The bytes from the end of a packet to the next word, and the header of the packet that follows it.\<close>

definition bpf_pad :: "bpf_entry \<Rightarrow> nat" where
  "bpf_pad e = (let stop = be_HdrLen e + length (be_Data e) in nat (bpfWordAlign (int stop)) - stop)"

text \<open>
  What one read returns: packets, padded in between, and a rest that holds no complete packet. The last packet
  is padded only when there is such a rest after it.
\<close>

fun kernel_fill :: "bpf_entry list \<Rightarrow> bytes \<Rightarrow> bytes" where
  "kernel_fill [] t = t"
| "kernel_fill (e # es) t =
     bpf_encode e @ (if es = [] \<and> t = [] then [] else replicate (bpf_pad e) 0 @ kernel_fill es t)"

definition bpf_fits :: "bpf_entry \<Rightarrow> bool" where
  "bpf_fits e \<longleftrightarrow>
     - (2 ^ 31) \<le> be_Sec e \<and> be_Sec e < 2 ^ 31 \<and> - (2 ^ 31) \<le> be_Usec e \<and> be_Usec e < 2 ^ 31 \<and>
     length (be_Data e) < 2 ^ 32 \<and> be_Len e < 2 ^ 32 \<and> bpfHdrLen \<le> be_HdrLen e \<and> be_HdrLen e < 2 ^ 16"

definition bpf_info :: "bpf_entry \<Rightarrow> CaptureInfo" where
  "bpf_info e = \<lparr>ci_Timestamp = time_Unix (be_Sec e) (be_Usec e * 1000), ci_CaptureLength = int (length (be_Data e)),
     ci_Length = int (be_Len e)\<rparr>"

lemma word_align_bounds: "int n \<le> bpfWordAlign (int n)" "bpfWordAlign (int n) < int n + 4"
  by (simp_all add: bpfWordAlign_eq)

lemma length_bpf_encode:
  assumes "bpf_fits e"
  shows "length (bpf_encode e) = be_HdrLen e + length (be_Data e)"
proof -
  have "18 \<le> be_HdrLen e" using assms by (simp add: bpf_fits_def bpfHdrLen_def)
  moreover have "length (bpf_encode e) = 18 + (be_HdrLen e - 18) + length (be_Data e)"
    by (simp add: bpf_encode_def bpfHdrLen_def)
  ultimately show ?thesis by arith
qed

lemma u32_round_trip:
  assumes "- (2 ^ 31) \<le> i" and "i < 2 ^ 31"
  shows "sint (word_of_nat (le_nat (le_bytes 4 (u32_of i))) :: u32) = i"
proof -
  have "u32_of i < 256 ^ 4" using unsigned_less [of "word_of_int i :: u32", where ?'a = nat] by (simp add: u32_of_def)
  then have "le_nat (le_bytes 4 (u32_of i)) = u32_of i" by (simp add: le_nat_le_bytes)
  then show ?thesis using assms by (simp add: u32_of_def signed_of_int signed_take_bit_int_eq_self)
qed

lemma nextBPFPacket_encode:
  assumes "bpf_fits e"
  shows "nextBPFPacket (bpf_encode e @ t) = Some (be_Data e, bpf_info e, drop (bpf_pad e) t)"
proof -
  let ?d = "be_Data e" and ?h = "be_HdrLen e"
  let ?stop = "?h + length ?d"
  let ?buf = "bpf_encode e @ t"
  have fits: "length ?d < 256 ^ 4" "be_Len e < 256 ^ 4" "18 \<le> ?h" "?h < 256 ^ 2"
    using assms by (simp_all add: bpf_fits_def bpfHdrLen_def)
  have buf: "?buf = le_bytes 4 (u32_of (be_Sec e)) @ le_bytes 4 (u32_of (be_Usec e)) @ le_bytes 4 (length ?d) @
      le_bytes 4 (be_Len e) @ le_bytes 2 ?h @ replicate (?h - 18) 0 @ ?d @ t"
    by (simp add: bpf_encode_def bpfHdrLen_def)
  have len: "length ?buf = ?stop + length t" using length_bpf_encode [OF assms] by simp
  have fields: "take 4 ?buf = le_bytes 4 (u32_of (be_Sec e))" "take 4 (drop 4 ?buf) = le_bytes 4 (u32_of (be_Usec e))"
    "take 4 (drop 8 ?buf) = le_bytes 4 (length ?d)" "take 4 (drop 12 ?buf) = le_bytes 4 (be_Len e)"
    "take 2 (drop 16 ?buf) = le_bytes 2 ?h" "take (length ?d) (drop ?h ?buf) = ?d"
    unfolding buf using fits(3) by simp_all
  have nums: "le_nat (le_bytes 4 (length ?d)) = length ?d" "le_nat (le_bytes 4 (be_Len e)) = be_Len e"
    "le_nat (le_bytes 2 ?h) = ?h"
    using fits by (simp_all add: le_nat_le_bytes)
  have nxt: "nat (bpfWordAlign (int ?stop)) = ?stop + bpf_pad e"
    using word_align_bounds(1) [of ?stop] by (simp add: bpf_pad_def Let_def)
  have time: "sint (word_of_nat (le_nat (le_bytes 4 (u32_of (be_Sec e)))) :: u32) = be_Sec e"
    "sint (word_of_nat (le_nat (le_bytes 4 (u32_of (be_Usec e)))) :: u32) = be_Usec e"
    using assms by (simp_all only: u32_round_trip bpf_fits_def)
  have bounds: "\<not> length ?buf < bpfHdrLen" "\<not> ?h < bpfHdrLen" "\<not> length ?buf < ?stop"
    using len fits(3) by (simp_all add: bpfHdrLen_def)
  have rest: "(if length ?buf \<le> ?stop + bpf_pad e then [] else drop (?stop + bpf_pad e) ?buf) = drop (bpf_pad e) t"
    using len length_bpf_encode [OF assms] by simp
  show ?thesis
    unfolding nextBPFPacket_def Let_def fields nums time nxt rest using bounds by (simp add: bpf_info_def)
qed

lemma nextBPFPacket_fill:
  "bpf_fits e \<Longrightarrow> nextBPFPacket (kernel_fill (e # es) t) = Some (be_Data e, bpf_info e, kernel_fill es t)"
  by (cases "es = [] \<and> t = []") (use nextBPFPacket_encode [of e "[]"] nextBPFPacket_encode [of e "replicate (bpf_pad e) 0 @ kernel_fill es t"] in auto)

lemma nextBPFPacket_Nil [simp]: "nextBPFPacket [] = None"
  by (simp add: nextBPFPacket_def bpfHdrLen_def)

text \<open>
  whatever the buffer holds, a packet that is split off lies within it, right after a header, it is
  as long as its capture length says, and what is left is a proper suffix, so the loop over a read ends.
\<close>

theorem nextBPFPacket_within:
  assumes "nextBPFPacket buf = Some (data, ci, rest)"
  shows "\<exists>hdr pad. buf = hdr @ data @ pad \<and> 18 \<le> length hdr \<and> suffix rest pad \<and>
    length rest < length buf \<and> ci_CaptureLength ci = int (length data)"
proof -
  define capLen where "capLen = le_nat (take 4 (drop 8 buf))"
  define hdrLen where "hdrLen = le_nat (take 2 (drop 16 buf))"
  define nxt where "nxt = nat (bpfWordAlign (int (hdrLen + capLen)))"
  have b: "18 \<le> hdrLen" "hdrLen + capLen \<le> length buf"
    and data: "data = take capLen (drop hdrLen buf)" and rest: "rest = (if nxt \<ge> length buf then [] else drop nxt buf)"
    and ci: "ci_CaptureLength ci = int capLen"
    using assms unfolding nextBPFPacket_def Let_def capLen_def [symmetric] hdrLen_def [symmetric] nxt_def [symmetric]
    by (auto simp: bpfHdrLen_def split: if_splits)
  have nxt: "hdrLen + capLen \<le> nxt" using word_align_bounds(1) [of "hdrLen + capLen"] by (simp add: nxt_def)
  have "buf = take hdrLen buf @ data @ drop (hdrLen + capLen) buf"
    by (simp add: data add.commute flip: drop_drop)
  moreover have "suffix rest (drop (hdrLen + capLen) buf)"
  proof (cases "length buf \<le> nxt")
    case False
    then have "drop (hdrLen + capLen) buf = take (nxt - (hdrLen + capLen)) (drop (hdrLen + capLen) buf) @ rest"
      using nxt by (simp add: rest) (metis append_take_drop_id drop_drop le_add_diff_inverse2)
    then show ?thesis by (rule suffixI)
  qed (simp add: rest)
  moreover have "length rest < length buf" using b nxt by (auto simp: rest)
  moreover have "18 \<le> length (take hdrLen buf)" "length data = capLen" using b by (simp_all add: data)
  ultimately show ?thesis using ci by metis
qed



subsection \<open>What the source delivers\<close>

text \<open>Repeated calls of \<^verbatim>\<open>Next\<close>, until one blocks.\<close>

fun darwin_drain :: "nat \<Rightarrow> darwinSource \<Rightarrow> next_result list" where
  "darwin_drain 0 s = []"
| "darwin_drain (Suc n) s = (case dw_Next s of None \<Rightarrow> [] | Some (r, s) \<Rightarrow> r # darwin_drain n s)"

text \<open>
  A read that times out or is interrupted, or one that returns some packets and then bytes that hold no
  complete packet.
\<close>

type_synonym filled = "bpf_entry list \<times> bytes"

definition filled_bytes :: "filled \<Rightarrow> bytes" where
  "filled_bytes = (\<lambda>(es, t). kernel_fill es t)"

definition os_of :: "filled option \<Rightarrow> os_read" where
  "os_of r = (case r of None \<Rightarrow> ReadAgain | Some b \<Rightarrow> ReadOK (filled_bytes b))"

definition entries_of :: "filled option \<Rightarrow> bpf_entry list" where
  "entries_of r = (case r of None \<Rightarrow> [] | Some (es, t) \<Rightarrow> es)"

definition filled_ok :: "filled option \<Rightarrow> bool" where
  "filled_ok r = (case r of None \<Rightarrow> True | Some (es, t) \<Rightarrow> list_all bpf_fits es \<and> nextBPFPacket t = None)"

lemma bpf_encode_ne: "bpf_encode e \<noteq> []"
  by (simp add: bpf_encode_def le_bytes_def)

lemma darwin_Next_open [simp]: "closed_Load None = (False, None)"
  by (simp add: closed_Load_def)

lemma darwin_Next_delivers:
  assumes "filled_ok (Some (es, t))" and "list_all filled_ok rs"
  shows "case es @ concat (map entries_of rs) of
      [] \<Rightarrow> darwin_Next (filled_bytes (es, t)) (map os_of rs) None = None
    | e # pkts \<Rightarrow> (\<exists>es' t' rs'. darwin_Next (filled_bytes (es, t)) (map os_of rs) None =
          Some (NextPacket (be_Data e) (bpf_info e), \<lparr>dw_pending = filled_bytes (es', t'), dw_reads = map os_of rs', dw_loads = None\<rparr>) \<and>
        filled_ok (Some (es', t')) \<and> list_all filled_ok rs' \<and> pkts = es' @ concat (map entries_of rs'))"
  using assms
proof (induction rs arbitrary: es t)
  case Nil
  show ?case
  proof (cases es)
    case Nil
    have blocked: "darwin_Next [] [] None = None"
      by (subst darwin_Next.simps) simp
    have "darwin_Next t [] None = None"
      using Nil.prems(1) blocked by (subst darwin_Next.simps) (simp add: filled_ok_def)
    with Nil show ?thesis by (simp add: filled_bytes_def)
  next
    case (Cons e es')
    then have "darwin_Next (filled_bytes (es, t)) [] None =
        Some (NextPacket (be_Data e) (bpf_info e), \<lparr>dw_pending = filled_bytes (es', t), dw_reads = [], dw_loads = None\<rparr>)"
      using Nil.prems(1) nextBPFPacket_fill [of e es' t] bpf_encode_ne [of e]
      by (subst darwin_Next.simps) (simp add: filled_bytes_def filled_ok_def)
    then show ?thesis
      using Nil.prems(1) unfolding Cons append_Cons list.case
      by (intro exI [of _ es'] exI [of _ t] exI [of _ "[]"]) (simp add: filled_ok_def)
  qed
next
  case (Cons r rs)
  show ?case
  proof (cases es)
    case Nil
    have empty: "darwin_Next (filled_bytes (es, t)) (map os_of (r # rs)) None = darwin_Next [] (os_of r # map os_of rs) None"
      using Cons.prems(1) Nil darwin_Next.simps [of t "os_of r # map os_of rs" None]
      by (cases t) (simp_all add: filled_bytes_def filled_ok_def)
    obtain es1 t1 where next1: "darwin_Next [] (os_of r # map os_of rs) None = darwin_Next (filled_bytes (es1, t1)) (map os_of rs) None"
      "entries_of r = es1" "filled_ok (Some (es1, t1))"
    proof (cases r)
      case None
      then have "darwin_Next [] (os_of r # map os_of rs) None = darwin_Next (filled_bytes ([], [])) (map os_of rs) None"
        by (subst darwin_Next.simps) (simp add: os_of_def filled_bytes_def)
      with None show thesis by (intro that [of "[]" "[]"]) (simp_all add: entries_of_def filled_ok_def)
    next
      case (Some b)
      obtain es1 t1 where b: "b = (es1, t1)" by fastforce
      have "darwin_Next [] (os_of r # map os_of rs) None = darwin_Next (filled_bytes (es1, t1)) (map os_of rs) None"
        by (subst darwin_Next.simps) (simp add: os_of_def Some b)
      then show thesis using Some b Cons.prems(2) by (intro that [of es1 t1]) (simp_all add: entries_of_def)
    qed
    show ?thesis
      unfolding empty next1(1) using Cons.IH [OF next1(3)] Cons.prems(2) Nil by (simp add: next1(2))
  next
    case (Cons e es')
    then have "darwin_Next (filled_bytes (es, t)) (map os_of (r # rs)) None =
        Some (NextPacket (be_Data e) (bpf_info e),
          \<lparr>dw_pending = filled_bytes (es', t), dw_reads = map os_of (r # rs), dw_loads = None\<rparr>)"
      using Cons.prems(1) nextBPFPacket_fill [of e es' t] bpf_encode_ne [of e]
      by (subst darwin_Next.simps) (simp add: filled_bytes_def filled_ok_def)
    then show ?thesis
      using Cons.prems unfolding Cons append_Cons list.case
      by (intro exI [of _ es'] exI [of _ t] exI [of _ "r # rs"]) (simp, simp add: filled_ok_def [of "Some (e # es', t)"] filled_ok_def [of "Some (es', t)"])
  qed
qed

lemma darwin_drain_delivers:
  assumes "filled_ok (Some (es, t))" and "list_all filled_ok rs"
  shows "darwin_drain n (\<lparr>dw_pending = filled_bytes (es, t), dw_reads = map os_of rs, dw_loads = None\<rparr>) =
    map (\<lambda>e. NextPacket (be_Data e) (bpf_info e)) (take n (es @ concat (map entries_of rs)))"
  using assms
proof (induction n arbitrary: es t rs)
  case (Suc n)
  show ?case
  proof (cases "es @ concat (map entries_of rs)")
    case Nil
    from darwin_Next_delivers [OF Suc.prems] show ?thesis unfolding Nil by simp
  next
    case (Cons e pkts)
    from darwin_Next_delivers [OF Suc.prems] obtain es' t' rs' where
      "darwin_Next (filled_bytes (es, t)) (map os_of rs) None =
          Some (NextPacket (be_Data e) (bpf_info e), \<lparr>dw_pending = filled_bytes (es', t'), dw_reads = map os_of rs', dw_loads = None\<rparr>)"
      "filled_ok (Some (es', t'))" "list_all filled_ok rs'" "pkts = es' @ concat (map entries_of rs')"
      unfolding Cons by auto
    then show ?thesis using Suc.IH [of es' t' rs'] unfolding Cons by simp
  qed
qed simp

text \<open>
  C29: Every packet the kernel hands over is delivered, once and in order, however the packets are
  grouped into reads, whatever padding the headers have, with reads that time out in between, with the last
  packet of a read left unpadded or followed by bytes that hold no complete packet; each comes with its time
  and lengths.
\<close>

theorem darwin_delivers_packets:
  assumes "list_all filled_ok rs"
  shows "darwin_drain n \<lparr>dw_pending = [], dw_reads = map os_of rs, dw_loads = None\<rparr> =
    map (\<lambda>e. NextPacket (be_Data e) (bpf_info e)) (take n (concat (map entries_of rs)))"
  using darwin_drain_delivers [of "[]" "[]" rs n] assms by (simp add: filled_ok_def filled_bytes_def)

definition sample_entry :: bpf_entry where
  "sample_entry = \<lparr>be_Sec = 1700000000, be_Usec = 5, be_Len = 60, be_HdrLen = 18, be_Data = [1, 2, 3]\<rparr>"

theorem darwin_delivers_packets_witness:
  "darwin_drain 5 \<lparr>dw_pending = [],
     dw_reads = map os_of [None, Some ([sample_entry, sample_entry], []), Some ([sample_entry], [9, 9]), None], dw_loads = None\<rparr> =
   replicate 3 (NextPacket [1, 2, 3] (bpf_info sample_entry)) \<and>
   length (kernel_fill [sample_entry, sample_entry] []) = 45"
proof -
  have "nextBPFPacket [9, 9] = None" by (simp add: nextBPFPacket_def bpfHdrLen_def)
  then have "list_all filled_ok [None, Some ([sample_entry, sample_entry], []), Some ([sample_entry], [9, 9]), None]"
    by (simp add: filled_ok_def bpf_fits_def sample_entry_def bpfHdrLen_def)
  from darwin_delivers_packets [OF this, of 5]
  have "darwin_drain 5 \<lparr>dw_pending = [],
     dw_reads = map os_of [None, Some ([sample_entry, sample_entry], []), Some ([sample_entry], [9, 9]), None], dw_loads = None\<rparr> =
   replicate 3 (NextPacket [1, 2, 3] (bpf_info sample_entry))"
    by (simp add: entries_of_def sample_entry_def numeral_3_eq_3)
  moreover have "bpfWordAlign 21 = 24" by (simp add: bpfWordAlign_eq)
  ultimately show ?thesis
    by (simp add: bpf_encode_def bpf_pad_def sample_entry_def bpfHdrLen_def)
qed

text \<open>Closing the source makes \<^verbatim>\<open>Next\<close> end, also when the read it interrupts fails.\<close>

lemma darwin_Next_closed:
  "darwin_Next pending reads (Some 0) = Some (NextEOF, \<lparr>dw_pending = pending, dw_reads = reads, dw_loads = Some 0\<rparr>)"
  "darwin_Next [] (ReadFailed e # reads) (Some 1) = Some (NextEOF, \<lparr>dw_pending = [], dw_reads = reads, dw_loads = Some 0\<rparr>)"
  by (subst darwin_Next.simps, simp add: closed_Load_def)+

theorem nextBPFPacket_within_witness:
  "\<exists>hdr pad. bpf_encode sample_entry = hdr @ [1, 2, 3] @ pad \<and> 18 \<le> length hdr"
proof -
  have "nextBPFPacket (bpf_encode sample_entry) = Some ([1, 2, 3], bpf_info sample_entry, [])"
    using nextBPFPacket_encode [of sample_entry "[]"] by (simp add: sample_entry_def bpf_fits_def bpfHdrLen_def)
  from nextBPFPacket_within [OF this] show ?thesis by blast
qed

end
