(* ===== verification/Capture_Windows.thy ===== *)
theory Capture_Windows
  imports Capture_Bpf Go_Utf8
begin

text \<open>
  The read path of \<^verbatim>\<open>internal/capture/live_windows.go\<close>: \<^verbatim>\<open>Next\<close> on the capture goroutine and
  \<^verbatim>\<open>Close\<close> on others, over a \<^verbatim>\<open>pcap_t\<close> that must not be used after it is freed. What a call of
  \<^verbatim>\<open>pcap_next_ex\<close> gives is any value of \<open>pcap_next\<close>.
\<close>

subsection \<open>One read\<close>

record pcapPkthdr =
  ph_Sec :: u32
  ph_Usec :: u32
  ph_Caplen :: u32
  ph_Len :: u32

text \<open>The return value, the header and the memory at the data pointer, either of which can be null.\<close>

record pcap_next =
  pn_ret :: u32
  pn_hdr :: "pcapPkthdr option"
  pn_data :: "bytes option"

definition pcapNextOK :: int where "pcapNextOK = 1"
definition pcapNextTimeout :: int where "pcapNextTimeout = 0"
definition pcapNextEOF :: int where "pcapNextEOF = -2"

definition timeFromPcap :: "pcapPkthdr \<Rightarrow> int" where
  "timeFromPcap hdr = time_Unix (sint (ph_Sec hdr)) (sint (ph_Usec hdr) * 1000)"

datatype once = OncePacket bytes CaptureInfo | OnceNothing | OnceDone | OnceError string

text \<open>What \<^verbatim>\<open>nextOnce\<close> makes of the values a call on a live handle gave.\<close>

definition nextOnce :: "int \<Rightarrow> string \<Rightarrow> pcap_next \<Rightarrow> once" where
  "nextOnce snaplen friendly out =
     (let ret = sint (pn_ret out) in
      if ret = pcapNextOK then
        (case (pn_hdr out, pn_data out) of
           (Some hdr, Some data) \<Rightarrow>
             (let n = int (unat (ph_Caplen hdr)) in
              if n < 0 \<or> n > snaplen then
                OnceError (''reading from '' @ friendly @ '': driver reported a '' @ dec_int n @
                  ''-byte packet with a snaplen of '' @ dec_int snaplen @
                  '', which means struct pcap_pkthdr is being read wrongly'')
              else OncePacket (take (nat n) data)
                     \<lparr>ci_Timestamp = timeFromPcap hdr, ci_CaptureLength = n, ci_Length = int (unat (ph_Len hdr))\<rparr>)
         | _ \<Rightarrow> OnceNothing)
      else if ret = pcapNextTimeout then OnceNothing
      else if ret = pcapNextEOF then OnceDone
      else OnceError (''reading from '' @ friendly @ '': pcap_next_ex returned '' @ dec_int ret))"


subsection \<open>Next and Close\<close>

text \<open>
  The points of \<^verbatim>\<open>Next\<close>: before the check of \<^verbatim>\<open>closed\<close>, about to lock, holding the lock, inside
  \<^verbatim>\<open>pcap_next_ex\<close>, about to unlock, deciding on what the read gave, returned. The points of \<^verbatim>\<open>Close\<close>:
  not called, after the swap, holding the lock, about to unlock, returned. Two callers of \<^verbatim>\<open>Close\<close>: the
  signal handler and the deferred call.
\<close>

datatype next_return = RetPacket bytes CaptureInfo | RetEOF | RetError string

datatype reader_pc = RTop | RWant | RHave | RIn | RUnlock once | RGot once | RReturned next_return

datatype closer_pc = CStart | CWant | CHave | CUnlock | CDone

datatype closer = SignalHandler | Deferred

datatype owner = Reader | Closer closer

record wsource =
  ws_closed :: bool
  ws_mu :: "owner option"
  ws_handle :: bool
  ws_live :: bool
  ws_frees :: nat
  ws_reader :: reader_pc
  ws_closer :: "closer \<Rightarrow> closer_pc"

definition wsource_open :: wsource where
  "wsource_open = \<lparr>ws_closed = False, ws_mu = None, ws_handle = True, ws_live = True, ws_frees = 0,
     ws_reader = RTop, ws_closer = (\<lambda>_. CStart)\<rparr>"

definition next_of :: "bool \<Rightarrow> once \<Rightarrow> reader_pc" where
  "next_of closed r =
     (case r of
        OnceNothing \<Rightarrow> RTop
      | OncePacket data ci \<Rightarrow> RReturned (RetPacket data ci)
      | OnceDone \<Rightarrow> RReturned RetEOF
      | OnceError e \<Rightarrow> RReturned (if closed then RetEOF else RetError e))"

inductive ws_step :: "int \<Rightarrow> string \<Rightarrow> wsource \<Rightarrow> wsource \<Rightarrow> bool" for snaplen friendly where
  topClosed: "ws_reader s = RTop \<Longrightarrow> ws_closed s \<Longrightarrow> ws_step snaplen friendly s (s\<lparr>ws_reader := RReturned RetEOF\<rparr>)"
| topOpen: "ws_reader s = RTop \<Longrightarrow> \<not> ws_closed s \<Longrightarrow> ws_step snaplen friendly s (s\<lparr>ws_reader := RWant\<rparr>)"
| readLock: "ws_reader s = RWant \<Longrightarrow> ws_mu s = None \<Longrightarrow>
    ws_step snaplen friendly s (s\<lparr>ws_mu := Some Reader, ws_reader := RHave\<rparr>)"
| readGone: "ws_reader s = RHave \<Longrightarrow> \<not> ws_handle s \<Longrightarrow> ws_step snaplen friendly s (s\<lparr>ws_reader := RUnlock OnceDone\<rparr>)"
| readEnter: "ws_reader s = RHave \<Longrightarrow> ws_handle s \<Longrightarrow> ws_step snaplen friendly s (s\<lparr>ws_reader := RIn\<rparr>)"
| readLeave: "ws_reader s = RIn \<Longrightarrow> ws_step snaplen friendly s (s\<lparr>ws_reader := RUnlock (nextOnce snaplen friendly out)\<rparr>)"
| readUnlock: "ws_reader s = RUnlock r \<Longrightarrow> ws_step snaplen friendly s (s\<lparr>ws_mu := None, ws_reader := RGot r\<rparr>)"
| readGot: "ws_reader s = RGot r \<Longrightarrow> ws_step snaplen friendly s (s\<lparr>ws_reader := next_of (ws_closed s) r\<rparr>)"
| closeLock: "ws_closer s c = CWant \<Longrightarrow> ws_mu s = None \<Longrightarrow>
    ws_step snaplen friendly s (s\<lparr>ws_mu := Some (Closer c), ws_closer := (ws_closer s)(c := CHave)\<rparr>)"
| closeFree: "ws_closer s c = CHave \<Longrightarrow> ws_handle s \<Longrightarrow>
    ws_step snaplen friendly s (s\<lparr>ws_handle := False, ws_live := False, ws_frees := ws_frees s + 1,
      ws_closer := (ws_closer s)(c := CUnlock)\<rparr>)"
| closeGone: "ws_closer s c = CHave \<Longrightarrow> \<not> ws_handle s \<Longrightarrow>
    ws_step snaplen friendly s (s\<lparr>ws_closer := (ws_closer s)(c := CUnlock)\<rparr>)"
| closeUnlock: "ws_closer s c = CUnlock \<Longrightarrow>
    ws_step snaplen friendly s (s\<lparr>ws_mu := None, ws_closer := (ws_closer s)(c := CDone)\<rparr>)"

text \<open>Calls of \<^verbatim>\<open>Close\<close>, with its atomic swap, and of \<^verbatim>\<open>Next\<close> after an earlier one has returned.\<close>

inductive ws_reachable :: "int \<Rightarrow> string \<Rightarrow> wsource \<Rightarrow> bool" for snaplen friendly where
  opened: "ws_reachable snaplen friendly wsource_open"
| callClose: "ws_reachable snaplen friendly s \<Longrightarrow> ws_closer s c = CStart \<Longrightarrow>
    ws_reachable snaplen friendly
      (s\<lparr>ws_closed := True, ws_closer := (ws_closer s)(c := if ws_closed s then CDone else CWant)\<rparr>)"
| callNext: "ws_reachable snaplen friendly s \<Longrightarrow> ws_reader s = RReturned r \<Longrightarrow>
    ws_reachable snaplen friendly (s\<lparr>ws_reader := RTop\<rparr>)"
| step: "ws_reachable snaplen friendly s \<Longrightarrow> ws_step snaplen friendly s s' \<Longrightarrow> ws_reachable snaplen friendly s'"


subsection \<open>No use after free\<close>

fun reads_locked :: "reader_pc \<Rightarrow> bool" where
  "reads_locked RHave = True" | "reads_locked RIn = True" | "reads_locked (RUnlock r) = True" | "reads_locked _ = False"

fun close_locked :: "closer_pc \<Rightarrow> bool" where
  "close_locked CHave = True" | "close_locked CUnlock = True" | "close_locked _ = False"

text \<open>The closer that swapped first is the only one past the swap.\<close>

definition closing :: "closer_pc \<Rightarrow> bool" where
  "closing p \<longleftrightarrow> p \<in> {CWant, CHave, CUnlock}"

definition ws_inv :: "wsource \<Rightarrow> bool" where
  "ws_inv s \<longleftrightarrow>
     (reads_locked (ws_reader s) \<longleftrightarrow> ws_mu s = Some Reader) \<and>
     (\<forall>c. close_locked (ws_closer s c) \<longleftrightarrow> ws_mu s = Some (Closer c)) \<and>
     ws_live s = ws_handle s \<and> ws_frees s = (if ws_live s then 0 else 1) \<and>
     (ws_reader s = RIn \<longrightarrow> ws_handle s) \<and>
     (\<not> ws_closed s \<longrightarrow> ws_handle s \<and> (\<forall>c. ws_closer s c = CStart)) \<and>
     (\<forall>c. ws_closer s c = CUnlock \<longrightarrow> \<not> ws_handle s) \<and>
     (ws_closed s \<and> ws_handle s \<longrightarrow> (\<exists>c. closing (ws_closer s c)))"

lemma all_closer: "(\<forall>c. P c) \<longleftrightarrow> P SignalHandler \<and> P Deferred"
  by (metis closer.exhaust)

lemma ex_closer: "(\<exists>c. P c) \<longleftrightarrow> P SignalHandler \<or> P Deferred"
  by (metis closer.exhaust)

lemmas ws_inv_simps = ws_inv_def all_closer ex_closer closing_def

lemma reads_locked_next_of [simp]: "\<not> reads_locked (next_of closed r)" "next_of closed r \<noteq> RIn"
  by (simp_all add: next_of_def split: once.split)

lemma ws_inv_step:
  assumes inv: "ws_inv s" and "ws_step snaplen friendly s s'"
  shows "ws_inv s'"
  using assms(2)
proof cases
  case (closeLock c)
  with inv show ?thesis by (cases c) (auto simp: ws_inv_simps)
next
  case (closeFree c)
  with inv show ?thesis by (cases c) (auto simp: ws_inv_simps)
next
  case (closeGone c)
  with inv show ?thesis by (cases c) (auto simp: ws_inv_simps)
next
  case (closeUnlock c)
  with inv show ?thesis by (cases c) (auto simp: ws_inv_simps)
qed (use inv in \<open>auto simp: ws_inv_simps\<close>)

lemma ws_reachable_inv: "ws_reachable snaplen friendly s \<Longrightarrow> ws_inv s"
proof (induction rule: ws_reachable.induct)
  case opened
  show ?case by (simp add: ws_inv_simps wsource_open_def)
next
  case (callClose s c)
  then show ?case by (cases c) (auto simp: ws_inv_simps)
next
  case (callNext s r)
  then show ?case by (auto simp: ws_inv_simps)
qed (rule ws_inv_step)

text \<open>The driver cannot make a packet longer than the snap length.\<close>

lemma nextOnce_bounded: "nextOnce snaplen friendly out = OncePacket data ci \<Longrightarrow> int (length data) \<le> snaplen"
  by (auto simp: nextOnce_def Let_def not_less of_nat_min min.coboundedI2 split: if_splits option.splits)


subsection \<open>Close comes back\<close>

fun reader_left :: "reader_pc \<Rightarrow> nat" where
  "reader_left RWant = 6" | "reader_left RHave = 5" | "reader_left RIn = 4" | "reader_left (RUnlock r) = 3"
| "reader_left (RGot r) = 2" | "reader_left RTop = 1" | "reader_left (RReturned r) = 0"

fun closer_left :: "closer_pc \<Rightarrow> nat" where
  "closer_left CWant = 3" | "closer_left CHave = 2" | "closer_left CUnlock = 1" | "closer_left _ = 0"

definition ws_left :: "wsource \<Rightarrow> nat" where
  "ws_left s = reader_left (ws_reader s) + closer_left (ws_closer s SignalHandler) + closer_left (ws_closer s Deferred)"

lemma next_of_left: "reader_left (next_of closed r) < 2"
  by (simp add: next_of_def split: once.split)

lemma ws_step_left:
  assumes "ws_step snaplen friendly s s'" and "ws_closed s"
  shows "ws_left s' < ws_left s \<and> ws_closed s'"
  using assms(1)
proof cases
  case (readGot r)
  with assms(2) next_of_left [of True r] show ?thesis by (simp add: ws_left_def)
next
  case (closeLock c)
  with assms(2) show ?thesis by (cases c) (simp_all add: ws_left_def)
next
  case (closeFree c)
  with assms(2) show ?thesis by (cases c) (simp_all add: ws_left_def)
next
  case (closeGone c)
  with assms(2) show ?thesis by (cases c) (simp_all add: ws_left_def)
next
  case (closeUnlock c)
  with assms(2) show ?thesis by (cases c) (simp_all add: ws_left_def)
qed (use assms(2) in \<open>simp_all add: ws_left_def\<close>)

lemma closed_run_ends:
  assumes "ws_closed (run 0)" and "\<And>i. ws_step snaplen friendly (run i) (run (Suc i))"
  shows False
proof -
  have "ws_closed (run i) \<and> ws_left (run i) + i \<le> ws_left (run 0)" for i
  proof (induction i)
    case (Suc i)
    with ws_step_left [OF assms(2) [of i]] show ?case by simp
  qed (use assms(1) in simp)
  from this [of "Suc (ws_left (run 0))"] show False by simp
qed

lemma ws_progress:
  assumes inv: "ws_inv s" and stuck: "\<nexists>s'. ws_step snaplen friendly s s'"
  shows "(\<exists>r. ws_reader s = RReturned r) \<and> (\<forall>c. \<not> closing (ws_closer s c))"
proof -
  have locked: "\<not> close_locked (ws_closer s c)" for c
    using stuck by (cases "ws_closer s c") (auto dest: ws_step.closeFree ws_step.closeGone ws_step.closeUnlock)
  have reading: "\<not> reads_locked (ws_reader s)"
    using stuck by (cases "ws_reader s") (auto dest: ws_step.readGone ws_step.readEnter ws_step.readLeave ws_step.readUnlock)
  have mu: "ws_mu s = None"
  proof (cases "ws_mu s")
    case (Some ow)
    with inv locked reading show ?thesis by (cases ow) (auto simp: ws_inv_def)
  qed
  have "ws_closer s c \<noteq> CWant" for c using stuck mu by (auto dest: ws_step.closeLock)
  then have "\<not> closing (ws_closer s c)" for c
    using locked [of c] by (auto simp: closing_def)
  moreover have "\<exists>r. ws_reader s = RReturned r"
    using stuck mu reading
    by (cases "ws_reader s") (auto dest: ws_step.topClosed ws_step.topOpen ws_step.readLock ws_step.readGot)
  ultimately show ?thesis by blast
qed

lemma ws_steps_inv:
  "(ws_step snaplen friendly)\<^sup>*\<^sup>* s s' \<Longrightarrow> ws_inv s \<and> ws_closed s \<Longrightarrow> ws_inv s' \<and> ws_closed s'"
  by (induction rule: rtranclp_induct) (use ws_inv_step ws_step_left in blast)+

text \<open>
  C31: The driver's handle is never used after it was freed, whatever the interleaving of reads with the
  two callers of \<^verbatim>\<open>Close\<close>: while a read is inside the driver the handle is live, it is freed at most
  once, and once a call of \<^verbatim>\<open>Close\<close> has been made and none is still running it has been freed.
\<close>

theorem windows_no_use_after_free:
  assumes "ws_reachable snaplen friendly s"
  shows "(ws_reader s = RIn \<longrightarrow> ws_live s) \<and> ws_frees s \<le> 1 \<and> (ws_live s \<longleftrightarrow> ws_frees s = 0) \<and>
    (ws_closed s \<and> \<not> closing (ws_closer s SignalHandler) \<and> \<not> closing (ws_closer s Deferred) \<longrightarrow> ws_frees s = 1)"
  using ws_reachable_inv [OF assms] by (auto simp: ws_inv_def ex_closer)

text \<open>
  C32: Closing ends the capture. From a reachable state in which the source is closed there is no endless
  run, and a run that cannot continue has come back from \<^verbatim>\<open>Next\<close> and from every call of \<^verbatim>\<open>Close\<close>, with the
  handle freed; so neither waits for the other for ever.
\<close>

theorem windows_close_terminates:
  assumes "ws_reachable snaplen friendly s" and "ws_closed s"
  shows "(\<nexists>run. run 0 = s \<and> (\<forall>i. ws_step snaplen friendly (run i) (run (Suc i)))) \<and>
    (\<forall>s'. (ws_step snaplen friendly)\<^sup>*\<^sup>* s s' \<and> (\<nexists>s''. ws_step snaplen friendly s' s'') \<longrightarrow>
      (\<exists>r. ws_reader s' = RReturned r) \<and> \<not> closing (ws_closer s' SignalHandler) \<and> \<not> closing (ws_closer s' Deferred) \<and>
      \<not> ws_live s')"
proof -
  have inv: "ws_inv s" using ws_reachable_inv [OF assms(1)] .
  have "(\<exists>r. ws_reader s' = RReturned r) \<and> \<not> closing (ws_closer s' SignalHandler) \<and> \<not> closing (ws_closer s' Deferred) \<and> \<not> ws_live s'"
    if "(ws_step snaplen friendly)\<^sup>*\<^sup>* s s'" "\<nexists>s''. ws_step snaplen friendly s' s''" for s'
  proof -
    have s': "ws_inv s'" "ws_closed s'" using ws_steps_inv [OF that(1)] inv assms(2) by blast+
    from ws_progress [OF s'(1) that(2)] s' show ?thesis by (auto simp: ws_inv_def)
  qed
  then show ?thesis using closed_run_ends [of _ snaplen friendly] assms(2) by blast
qed

definition sample_wsource :: wsource where
  "sample_wsource = wsource_open\<lparr>ws_closed := True, ws_closer := (\<lambda>_. CStart)(SignalHandler := CWant)\<rparr>"

lemma sample_wsource_reachable: "ws_reachable snaplen friendly sample_wsource"
  using ws_reachable.callClose [OF ws_reachable.opened, of SignalHandler snaplen friendly]
  by (simp add: sample_wsource_def wsource_open_def)

theorem windows_no_use_after_free_witness: "ws_frees sample_wsource \<le> 1"
  using windows_no_use_after_free [OF sample_wsource_reachable [of 100 "''eth''"]] by simp

theorem windows_close_terminates_witness:
  "\<nexists>run. run 0 = sample_wsource \<and> (\<forall>i. ws_step 100 ''eth'' (run i) (run (Suc i)))"
proof -
  have "ws_closed sample_wsource" by (simp add: sample_wsource_def)
  from windows_close_terminates [OF sample_wsource_reachable [of 100 "''eth''"] this] show ?thesis by blast
qed

end
