(* ===== verification/Quic_Observed.thy ===== *)
theory Quic_Observed
  imports Assemble_Props Synth_Server
begin

text \<open>
  The QUIC path as a whole: the Initial packets that \<^verbatim>\<open>tlssynth\<close> builds for the two hellos of a
  handshake, cut into CRYPTO frames, are handed to \<^verbatim>\<open>quicPacket\<close>, through the header parser, the key
  derivation, packet protection, CRYPTO reassembly and the hello parsers, to the report of the flow.
\<close>

subsection \<open>Packets of a handshake\<close>

text \<open>
  One Initial packet: its direction, packet number, the offset and data of its CRYPTO frame, the size it is
  padded to, the bytes that follow it in its datagram and its capture time.
\<close>

record quic_event =
  qe_server :: bool
  qe_pn :: u32
  qe_off :: u64
  qe_data :: bytes
  qe_pad :: int
  qe_rest :: bytes
  qe_ts :: int

definition initial_packet :: "bytes \<Rightarrow> bytes \<Rightarrow> quic_event \<Rightarrow> bytes option" where
  "initial_packet dcid scid e =
     QUICInitial dcid scid (qe_server e) (qe_pn e) (CryptoFrame_bytes (qe_off e) (qe_data e)) (qe_pad e)"

definition event_ok :: "quic_event \<Rightarrow> bool" where
  "event_ok e \<longleftrightarrow> unat (qe_pn e) < 65536 \<and> qe_pad e \<le> 65535"

definition receive_datagram ::
  "cryptobyte \<Rightarrow> bytes \<Rightarrow> bytes \<Rightarrow> addr \<times> u16 \<Rightarrow> addr \<times> u16 \<Rightarrow> Assembler \<Rightarrow> quic_event \<Rightarrow> Assembler" where
  "receive_datagram cb dcid scid cli srv a e =
     (case initial_packet dcid scid e of
        None \<Rightarrow> a
      | Some pkt \<Rightarrow>
          if qe_server e then quicPacket cb a (fst srv) (fst cli) (snd srv) (snd cli) (pkt @ qe_rest e) (qe_ts e)
          else quicPacket cb a (fst cli) (fst srv) (snd cli) (snd srv) (pkt @ qe_rest e) (qe_ts e))"

text \<open>The CRYPTO frames of one direction, in the order of arrival.\<close>

definition crypto_of :: "bool \<Rightarrow> quic_event list \<Rightarrow> (u64 \<times> bytes) list" where
  "crypto_of d evs = map (\<lambda>e. (qe_off e, qe_data e)) (filter (\<lambda>e. qe_server e = d) evs)"

lemma crypto_of_simps [simp]:
  "crypto_of d [] = []"
  "crypto_of d (evs @ [e]) = crypto_of d evs @ (if qe_server e = d then [(qe_off e, qe_data e)] else [])"
  by (simp_all add: crypto_of_def)

text \<open>The frames of one direction carry a message: pieces of it at different offsets that cover it.\<close>

definition carries :: "bytes \<Rightarrow> (u64 \<times> bytes) list \<Rightarrow> bool" where
  "carries m fs \<longleftrightarrow> pieces_of m fs \<and> frames_fit fs \<and> (\<forall>i<length m. covers fs i)"

lemma carries_prefix: "pieces_of m fs \<Longrightarrow> prefix (cs_prefix (cs_add_all empty_cryptoStream fs)) m"
  using crypto_reassembly [of m fs fs] by simp

lemma carries_all: "carries m fs \<Longrightarrow> cs_prefix (cs_add_all empty_cryptoStream fs) = m"
  using crypto_reassembly [of m fs fs] by (simp add: carries_def)

lemma pieces_of_append: "pieces_of m (fs @ gs) \<longleftrightarrow> pieces_of m fs \<and> pieces_of m gs"
  by (simp add: pieces_of_def)


subsection \<open>A packet is opened\<close>

lemma length_quicVarint: "length b < length (quicVarint b v)" "length (quicVarint b v) \<le> length b + 8"
  by (simp_all add: quicVarint_def)

lemma length_CryptoFrame_bytes:
  "2 \<le> length (CryptoFrame_bytes off d)" "length (CryptoFrame_bytes off d) \<le> length d + 17"
  using length_quicVarint [of "[0x06]" off] length_quicVarint [of "quicVarint [0x06] off" "word_of_nat (length d)"]
  by (simp_all add: CryptoFrame_bytes_def Let_def)

lemma CryptoFrames_pad_payload:
  assumes "unat off < 2 ^ 62" and "length d < 2 ^ 62"
  shows "CryptoFrames (pad_payload dcid scid (CryptoFrame_bytes off d) padTo) = [\<lparr>cf_Offset = off, cf_Data = d\<rparr>]"
proof -
  obtain n where "pad_payload dcid scid (CryptoFrame_bytes off d) padTo = CryptoFrame_bytes off d @ replicate n 0"
    by (cases "padTo > 0") (force simp: pad_payload_def Let_def)+
  moreover have "CryptoFrames (replicate n 0) = []" for n
    using CryptoFrames_payload [of "[]" n] by (simp add: frames_payload_def)
  ultimately show ?thesis by (simp add: CryptoFrames_crypto [OF assms])
qed

text \<open>The flow with the frame of a packet stored.\<close>

definition flow_stored :: "quicFlow \<Rightarrow> quic_event \<Rightarrow> quicFlow" where
  "flow_stored f e =
     (let f = (if qe_ts e > fl_LastSeen (q_flow f) then f\<lparr>q_flow := (q_flow f)\<lparr>fl_LastSeen := qe_ts e\<rparr>\<rparr> else f)
      in if qe_server e then f\<lparr>q_server := cs_add (q_server f) (qe_off e) (qe_data e)\<rparr>
         else f\<lparr>q_client := cs_add (q_client f) (qe_off e) (qe_data e)\<rparr>)"

lemma initial_packet_opened:
  assumes "length dcid \<le> 20" and "length scid \<le> 20" and "event_ok e"
    and "unat (qe_off e) \<le> maxCryptoBytes" and "length (qe_data e) \<le> maxCryptoBytes"
  obtains pkt h where "initial_packet dcid scid e = Some pkt" and "IsLongHeader (pkt @ qe_rest e)"
    and "ParseLongHeader (pkt @ qe_rest e) = Inr h" and "lh_Type h = TypeInitial" and "lh_Version h = Version1"
    and "lh_DCID h = dcid"
    and "\<And>cb a f src sport. \<lbrakk>q_version f = Version1; q_origDCID f = dcid; \<not> q_rejected f; \<not> q_emitted f;
            (src = q_clientAddr f \<and> sport = q_clientPort f) = (\<not> qe_server e)\<rbrakk> \<Longrightarrow>
          quicFlowPacket cb a f h src sport (pkt @ qe_rest e) (qe_ts e) = quicParse cb a (flow_stored f e)"
proof -
  let ?fr = "CryptoFrame_bytes (qe_off e) (qe_data e)"
  have len: "length (pad_payload dcid scid ?fr (qe_pad e)) \<le> gcm_max"
    using assms(3,5) length_CryptoFrame_bytes [of "qe_off e" "qe_data e"]
    by (auto simp: pad_payload_def Let_def event_ok_def gcm_max_def maxCryptoBytes_def)
  obtain pkt h k where p: "QUICInitial dcid scid (qe_server e) (qe_pn e) ?fr (qe_pad e) = Some pkt"
      "ParseLongHeader (pkt @ qe_rest e) = Inr h" "lh_Type h = TypeInitial" "lh_Version h = Version1" "lh_DCID h = dcid"
    and k: "DeriveInitialKeys (lh_Version h) dcid (qe_server e) = Inr k"
      "Open (pkt @ qe_rest e) h k = Inr (ucast (qe_pn e), pad_payload dcid scid ?fr (qe_pad e))"
    using initial_round_trip [OF assms(1,2) _ length_CryptoFrame_bytes(1) len, of "qe_pn e" "qe_server e" "qe_rest e"]
      assms(3) unfolding event_ok_def by blast
  have frames: "CryptoFrames (pad_payload dcid scid ?fr (qe_pad e)) = [\<lparr>cf_Offset = qe_off e, cf_Data = qe_data e\<rparr>]"
    using assms(4,5) by (intro CryptoFrames_pad_payload) (simp_all add: maxCryptoBytes_def)
  show ?thesis
  proof (rule that)
    show "IsLongHeader (pkt @ qe_rest e)"
      using p(2) by (auto simp: ParseLongHeader_def split: if_splits)
    show "quicFlowPacket cb a f h src sport (pkt @ qe_rest e) (qe_ts e) = quicParse cb a (flow_stored f e)"
      if f: "q_version f = Version1" "q_origDCID f = dcid" "\<not> q_rejected f" "\<not> q_emitted f"
        and side: "(src = q_clientAddr f \<and> sport = q_clientPort f) = (\<not> qe_server e)" for cb a f src sport
    proof -
      define g where "g = (if qe_ts e > fl_LastSeen (q_flow f) then f\<lparr>q_flow := (q_flow f)\<lparr>fl_LastSeen := qe_ts e\<rparr>\<rparr> else f)"
      have g: "q_version g = Version1" "q_origDCID g = dcid"
          "(src = q_clientAddr g \<and> sport = q_clientPort g) = (\<not> qe_server e)"
        using f side by (simp_all add: g_def)
      show ?thesis
        unfolding quicFlowPacket_def flow_stored_def Let_def g_def [symmetric] g
        using f k p(4) by (cases "qe_server e") (simp_all add: frames cs_add_all_def)
    qed
  qed (use p in \<open>simp_all add: initial_packet_def\<close>)
qed


subsection \<open>The hellos in the reassembled bytes\<close>

lemma length_HandshakeMsg: "length (HandshakeMsg t body) = 4 + length body"
  by (simp add: HandshakeMsg_def)

lemma splitMessages_part:
  assumes "prefix p (HandshakeMsg t body)" and "length body < 2 ^ 24"
  shows "splitMessages p = (if p = HandshakeMsg t body then [\<lparr>msg_Type = t, msg_Body = body\<rparr>] else [])"
proof -
  have whole: "splitMessages (HandshakeMsg t body) = [\<lparr>msg_Type = t, msg_Body = body\<rparr>]"
    using splitMessages_HandshakeMsg [OF assms(2), of t "[]"] by simp
  have "prefix (splitMessages p) [\<lparr>msg_Type = t, msg_Body = body\<rparr>]"
    using splitMessages_prefix [OF assms(1)] by (simp only: whole)
  then have cases: "splitMessages p = [] \<or> splitMessages p = [\<lparr>msg_Type = t, msg_Body = body\<rparr>]"
    by (simp add: prefix_Cons)
  have only: "p = HandshakeMsg t body" if "splitMessages p = [\<lparr>msg_Type = t, msg_Body = body\<rparr>]"
  proof -
    have "length p \<ge> 4 + length body"
      using that by (subst (asm) splitMessages_unfold) (auto split: if_splits)
    moreover obtain zs where zs: "HandshakeMsg t body = p @ zs" using assms(1) by (auto simp: prefix_def)
    moreover from zs have "length p + length zs = 4 + length body"
      by (metis length_append length_HandshakeMsg)
    ultimately have "length zs = 0" by linarith
    with zs show ?thesis by simp
  qed
  show ?thesis
  proof (cases "p = HandshakeMsg t body")
    case True
    then show ?thesis by (simp only: whole if_True simp_thms)
  next
    case False
    then show ?thesis using cases only by (simp only: if_False) blast
  qed
qed

context cryptobyte_laws
begin

lemma FindClientHelloRaw_part:
  assumes "spec_fits s" and "prefix p (HandshakeMsg 1 (hello_bytes s))"
  shows "FindClientHelloRaw cb p =
    Inr (if p = HandshakeMsg 1 (hello_bytes s) then Some (expected_hello s) else None)"
proof -
  have "length (hello_bytes s) < 2 ^ 24" using assms(1) by (simp add: hello_bytes_def spec_fits_def greased_def)
  then show ?thesis
    using splitMessages_part [OF assms(2)] parse_hello_bytes [OF assms(1)]
    by (simp add: FindClientHelloRaw_def HandshakeMessagesRaw_def)
qed

lemma FindServerHelloRaw_part:
  assumes "length (ss_ALPN s) \<le> 255" and "\<not> ss_HelloRetry s" and "0x0304 \<le> ss_SelectedVersion s"
    and "prefix p (HandshakeMsg 2 (server_bytes s))"
  shows "FindServerHelloRaw cb p =
    Inr (if p = HandshakeMsg 2 (server_bytes s) then Some ((expected_server s)\<lparr>sh_FlightComplete := True\<rparr>) else None)"
proof -
  have "length (server_bytes s) < 2 ^ 24"
    using length_server_exts [OF assms(1)] by (simp add: server_bytes_def server_random_def HelloRetryRequestRandom_def)
  moreover have "sh_NegotiatedVersion (expected_server s) \<ge> 0x0304"
    using assms(3) by (auto simp: sh_NegotiatedVersion_def expected_server_def)
  moreover have "\<not> sh_IsHelloRetryRequest (expected_server s)" using assms(2) by (simp add: expected_server_def)
  ultimately show ?thesis
    using splitMessages_part [OF assms(4)] parse_server_bytes [OF assms(1)]
    by (simp add: FindServerHelloRaw_def HandshakeMessagesRaw_def findServerHelloIn_def)
qed

end


subsection \<open>One flow through the assembler\<close>

text \<open>
  A handshake between two endpoints: the connection ID its keys come from, the two messages the CRYPTO
  frames carry, and what the parsers read in them.
\<close>

record handshake =
  hs_dcid :: bytes
  hs_cli :: "addr \<times> u16"
  hs_srv :: "addr \<times> u16"
  hs_chm :: bytes
  hs_shm :: bytes
  hs_CH :: ClientHello
  hs_SH :: ServerHello

definition parsed_as :: "cryptobyte \<Rightarrow> handshake \<Rightarrow> bool" where
  "parsed_as cb hs \<longleftrightarrow> hs_chm hs \<noteq> [] \<and> sh_FlightComplete (hs_SH hs) \<and>
     (\<forall>p. prefix p (hs_chm hs) \<longrightarrow> FindClientHelloRaw cb p = Inr (if p = hs_chm hs then Some (hs_CH hs) else None)) \<and>
     (\<forall>p. prefix p (hs_shm hs) \<longrightarrow> FindServerHelloRaw cb p = Inr (if p = hs_shm hs then Some (hs_SH hs) else None))"

definition flow_between :: "handshake \<Rightarrow> int \<Rightarrow> Flow \<Rightarrow> bool" where
  "flow_between hs t0 fl \<longleftrightarrow>
     fl_Transport fl = TransportQUIC \<and> endpoints fl = (hs_cli hs, hs_srv hs) \<and> fl_FirstSeen fl = t0"

definition flow_complete :: "handshake \<Rightarrow> int \<Rightarrow> Flow \<Rightarrow> bool" where
  "flow_complete hs t0 fl \<longleftrightarrow>
     flow_between hs t0 fl \<and> fl_Client fl = Some (hs_CH hs) \<and> fl_Server fl = Some (hs_SH hs)"

definition flow_tracked :: "handshake \<Rightarrow> int \<Rightarrow> quicFlow \<Rightarrow> bool" where
  "flow_tracked hs t0 f \<longleftrightarrow>
     q_version f = Version1 \<and> q_origDCID f = hs_dcid hs \<and> (q_clientAddr f, q_clientPort f) = hs_cli hs \<and>
     \<not> q_rejected f \<and> flow_between hs t0 (q_flow f)"

text \<open>Not reported yet, with these bytes of the two directions in hand.\<close>

definition flow_pending :: "handshake \<Rightarrow> cryptoStream \<Rightarrow> cryptoStream \<Rightarrow> quicFlow \<Rightarrow> bool" where
  "flow_pending hs c s f \<longleftrightarrow>
     \<not> q_emitted f \<and> \<not> q_haveSH f \<and> q_client f = c \<and> q_server f = s \<and>
     (q_haveCH f \<longrightarrow> fl_Client (q_flow f) = Some (hs_CH hs))"

definition flow_settled :: "handshake \<Rightarrow> quicFlow \<Rightarrow> bool" where
  "flow_settled hs f \<longleftrightarrow>
     (cs_prefix (q_client f) = hs_chm hs \<longrightarrow> q_haveCH f) \<and> (q_haveCH f \<longrightarrow> cs_prefix (q_server f) \<noteq> hs_shm hs)"

lemma quicParse_flow:
  assumes hs: "parsed_as cb hs" and t: "flow_tracked hs t0 f" and p: "flow_pending hs c s f"
    and pre: "prefix (cs_prefix c) (hs_chm hs)" "prefix (cs_prefix s) (hs_shm hs)"
    and run: "quicParse cb a f = (f', a')"
  shows "flow_tracked hs t0 f' \<and> a_quicFlows a' = a_quicFlows a \<and> a_opts a' = a_opts a \<and>
    (if q_emitted f' then a_handled a' = a_handled a @ [q_flow f'] \<and> flow_complete hs t0 (q_flow f')
     else a_handled a' = a_handled a \<and> flow_pending hs c s f' \<and> flow_settled hs f')"
proof -
  define u where "u = (if \<not> q_haveCH f \<and> cs_prefix c = hs_chm hs
    then f\<lparr>q_haveCH := True, q_flow := (q_flow f)\<lparr>fl_Client := Some (hs_CH hs)\<rparr>\<rparr> else f)"
  have u: "flow_tracked hs t0 u" "flow_pending hs c s u" "cs_prefix c = hs_chm hs \<Longrightarrow> q_haveCH u"
    using t p by (auto simp: u_def flow_tracked_def flow_pending_def flow_between_def endpoints_def)
  have parse: "quicParse cb a f =
      (if q_haveCH u then
         (if cs_prefix s = hs_shm hs
          then emitQUIC a (u\<lparr>q_haveSH := True, q_flow := (q_flow u)\<lparr>fl_Server := Some (hs_SH hs)\<rparr>\<rparr>)
          else (u, a))
       else (u, a))"
  proof -
    have "FindClientHelloRaw cb (cs_prefix c) = Inr (if cs_prefix c = hs_chm hs then Some (hs_CH hs) else None)"
      "FindServerHelloRaw cb (cs_prefix s) = Inr (if cs_prefix s = hs_shm hs then Some (hs_SH hs) else None)"
      "sh_FlightComplete (hs_SH hs)"
      using hs pre by (auto simp: parsed_as_def)
    then show ?thesis
      using p by (auto simp: quicParse_def u_def flow_pending_def)
  qed
  show ?thesis
  proof (cases "q_haveCH u \<and> cs_prefix s = hs_shm hs")
    case True
    let ?v = "u\<lparr>q_haveSH := True, q_flow := (q_flow u)\<lparr>fl_Server := Some (hs_SH hs)\<rparr>\<rparr>"
    have "emitQUIC a ?v = (f', a')" using True run parse by simp
    then have "f' = ?v\<lparr>q_emitted := True\<rparr>" "a_handled a' = a_handled a @ [q_flow ?v]"
      "a_quicFlows a' = a_quicFlows a" "a_opts a' = a_opts a"
      using True u(2) by (auto simp: emitQUIC_def flow_pending_def)
    then show ?thesis
      using True u by (auto simp: flow_tracked_def flow_pending_def flow_between_def flow_complete_def endpoints_def)
  next
    case False
    then have "f' = u" "a' = a" using run parse by (auto split: if_splits)
    then show ?thesis
      using False u by (auto simp: flow_settled_def flow_pending_def)
  qed
qed


lemma cs_add_all_single: "cs_add_all c [] = c" "cs_add_all c [(off, d)] = cs_add c off d"
  by (simp_all add: cs_add_all_def)

abbreviation received :: "bool \<Rightarrow> quic_event list \<Rightarrow> cryptoStream" where
  "received d evs \<equiv> cs_add_all empty_cryptoStream (crypto_of d evs)"

lemma flow_stored_keeps:
  "flow_tracked hs t0 f \<Longrightarrow> flow_tracked hs t0 (flow_stored f e)"
  "flow_pending hs (received False evs) (received True evs) f \<Longrightarrow>
   flow_pending hs (received False (evs @ [e])) (received True (evs @ [e])) (flow_stored f e)"
  by (auto simp: flow_stored_def Let_def flow_tracked_def flow_pending_def flow_between_def endpoints_def
      cs_add_all_append cs_add_all_single)

text \<open>What holds of the assembler after the packets \<open>evs\<close> of the handshake.\<close>

definition hs_key :: "handshake \<Rightarrow> quicKey" where
  "hs_key hs = makeQUICKey (fst (hs_cli hs)) (snd (hs_cli hs)) (fst (hs_srv hs)) (snd (hs_srv hs))"

definition observing :: "handshake \<Rightarrow> int \<Rightarrow> Flow list \<Rightarrow> quic_event list \<Rightarrow> quicFlow \<Rightarrow> Assembler \<Rightarrow> bool" where
  "observing hs t0 before evs f a \<longleftrightarrow>
     flow_tracked hs t0 f \<and>
     (if q_emitted f then \<exists>fl. a_handled a = before @ [fl] \<and> flow_complete hs t0 fl
      else a_handled a = before \<and> flow_pending hs (received False evs) (received True evs) f)"

definition observed :: "handshake \<Rightarrow> int \<Rightarrow> Flow list \<Rightarrow> quic_event list \<Rightarrow> Assembler \<Rightarrow> bool" where
  "observed hs t0 before evs a \<longleftrightarrow>
     (\<exists>f. map_of (a_quicFlows a) (hs_key hs) = Some f \<and> observing hs t0 before evs f a \<and>
        (\<not> q_emitted f \<longrightarrow> flow_settled hs f))"

definition event_fits :: "quic_event \<Rightarrow> bool" where
  "event_fits e \<longleftrightarrow> event_ok e \<and> unat (qe_off e) \<le> maxCryptoBytes \<and> length (qe_data e) \<le> maxCryptoBytes"

definition partial :: "handshake \<Rightarrow> quic_event list \<Rightarrow> bool" where
  "partial hs evs \<longleftrightarrow>
     prefix (cs_prefix (received False evs)) (hs_chm hs) \<and> prefix (cs_prefix (received True evs)) (hs_shm hs)"

lemma observing_step:
  assumes hs: "parsed_as cb hs" and o: "observing hs t0 before evs f a" and pre: "partial hs (evs @ [e])"
    and packet: "\<not> q_emitted f \<Longrightarrow> quicFlowPacket cb a f h src sport pkt ts = quicParse cb a (flow_stored f e)"
    and run: "quicFlowPacket cb a f h src sport pkt ts = (f', a')"
  shows "observing hs t0 before (evs @ [e]) f' a' \<and> (\<not> q_emitted f' \<longrightarrow> flow_settled hs f') \<and>
    a_quicFlows a' = a_quicFlows a \<and> a_opts a' = a_opts a"
proof (cases "q_emitted f")
  case True
  then have "f' = f" "a' = a" using run by (simp_all add: quicFlowPacket_def)
  then show ?thesis using o True by (simp add: observing_def)
next
  case False
  then have o: "flow_tracked hs t0 f" "a_handled a = before" "flow_pending hs (received False evs) (received True evs) f"
    using o by (simp_all add: observing_def)
  have pre: "prefix (cs_prefix (received False (evs @ [e]))) (hs_chm hs)"
    "prefix (cs_prefix (received True (evs @ [e]))) (hs_shm hs)"
    using pre unfolding partial_def by blast+
  have "quicParse cb a (flow_stored f e) = (f', a')" using run packet False by simp
  note p = quicParse_flow [OF hs flow_stored_keeps(1) [OF o(1)] flow_stored_keeps(2) [OF o(3)] pre this]
  show ?thesis
  proof (cases "q_emitted f'")
    case True
    then show ?thesis using p o(2) unfolding observing_def by (simp only: if_True simp_thms) blast
  next
    case False
    then show ?thesis using p o(2) unfolding observing_def by (simp only: if_False simp_thms)
  qed
qed

text \<open>A datagram of the handshake comes to its flow, from the side it was sent by.\<close>

lemma hs_key_sym: "makeQUICKey (fst (hs_srv hs)) (snd (hs_srv hs)) (fst (hs_cli hs)) (snd (hs_cli hs)) = hs_key hs"
  by (simp add: hs_key_def quic_key_pairs_directions)

definition sender :: "handshake \<Rightarrow> quic_event \<Rightarrow> addr \<times> u16" where
  "sender hs e = (if qe_server e then hs_srv hs else hs_cli hs)"

lemma receive_flow:
  assumes "length (hs_dcid hs) \<le> 20" and "length scid \<le> 20" and "event_fits e" and "hs_cli hs \<noteq> hs_srv hs"
    and hs: "parsed_as cb hs" and pre: "partial hs (evs @ [e])"
  obtains pkt h where "initial_packet (hs_dcid hs) scid e = Some pkt" and "IsLongHeader (pkt @ qe_rest e)"
    and "ParseLongHeader (pkt @ qe_rest e) = Inr h" and "lh_Type h = TypeInitial" and "lh_Version h = Version1"
    and "lh_DCID h = hs_dcid hs"
    and "\<And>f b. observing hs t0 before evs f b \<Longrightarrow>
          \<exists>f' b'. quicFlowPacket cb b f h (fst (sender hs e)) (snd (sender hs e)) (pkt @ qe_rest e) (qe_ts e) = (f', b') \<and>
            observing hs t0 before (evs @ [e]) f' b' \<and> (\<not> q_emitted f' \<longrightarrow> flow_settled hs f') \<and>
            a_quicFlows b' = a_quicFlows b \<and> a_opts b' = a_opts b"
proof -
  obtain pkt h where pkt: "initial_packet (hs_dcid hs) scid e = Some pkt" "IsLongHeader (pkt @ qe_rest e)"
      "ParseLongHeader (pkt @ qe_rest e) = Inr h" "lh_Type h = TypeInitial" "lh_Version h = Version1" "lh_DCID h = hs_dcid hs"
    and opened: "\<And>cb a f src sport. \<lbrakk>q_version f = Version1; q_origDCID f = hs_dcid hs; \<not> q_rejected f; \<not> q_emitted f;
            (src = q_clientAddr f \<and> sport = q_clientPort f) = (\<not> qe_server e)\<rbrakk> \<Longrightarrow>
          quicFlowPacket cb a f h src sport (pkt @ qe_rest e) (qe_ts e) = quicParse cb a (flow_stored f e)"
    by (rule initial_packet_opened [OF assms(1,2)]) (use assms(3) in \<open>auto simp: event_fits_def\<close>)
  show ?thesis
  proof (rule that [OF pkt])
    fix f b
    assume f: "observing hs t0 before evs f b"
    then have t: "q_version f = Version1" "q_origDCID f = hs_dcid hs" "\<not> q_rejected f"
        "(q_clientAddr f, q_clientPort f) = hs_cli hs"
      by (simp_all add: observing_def flow_tracked_def)
    obtain f' b' where run: "quicFlowPacket cb b f h (fst (sender hs e)) (snd (sender hs e)) (pkt @ qe_rest e) (qe_ts e) = (f', b')"
      by fastforce
    have "(fst (sender hs e) = q_clientAddr f \<and> snd (sender hs e) = q_clientPort f) = (\<not> qe_server e)"
      using t(4) assms(4) by (auto simp: sender_def prod_eq_iff)
    from observing_step [OF hs f pre opened [OF t(1-3) _ this] run] run
    show "\<exists>f' b'. quicFlowPacket cb b f h (fst (sender hs e)) (snd (sender hs e)) (pkt @ qe_rest e) (qe_ts e) = (f', b') \<and>
            observing hs t0 before (evs @ [e]) f' b' \<and> (\<not> q_emitted f' \<longrightarrow> flow_settled hs f') \<and>
            a_quicFlows b' = a_quicFlows b \<and> a_opts b' = a_opts b"
      by blast
  qed
qed

lemma observed_put:
  "observing hs t0 before evs f b \<Longrightarrow> (\<not> q_emitted f \<longrightarrow> flow_settled hs f) \<Longrightarrow>
   observed hs t0 before evs (b\<lparr>a_quicFlows := map_put (hs_key hs) f m\<rparr>)"
  by (auto simp: observed_def map_of_map_put observing_def)

lemmas receive_eval = receive_datagram_def quicPacket_def Supported_def hs_key_sym hs_key_def [symmetric] sender_def

lemma receive_next:
  assumes "length (hs_dcid hs) \<le> 20" and "length scid \<le> 20" and "event_fits e" and "hs_cli hs \<noteq> hs_srv hs"
    and "parsed_as cb hs" and o: "observed hs t0 before evs a" and "partial hs (evs @ [e])"
  shows "observed hs t0 before (evs @ [e]) (receive_datagram cb (hs_dcid hs) scid (hs_cli hs) (hs_srv hs) a e)"
proof -
  obtain f where f: "map_of (a_quicFlows a) (hs_key hs) = Some f" "observing hs t0 before evs f a"
    using o by (auto simp: observed_def)
  obtain pkt h where pkt: "initial_packet (hs_dcid hs) scid e = Some pkt" "IsLongHeader (pkt @ qe_rest e)"
      "ParseLongHeader (pkt @ qe_rest e) = Inr h" "lh_Type h = TypeInitial" "lh_Version h = Version1" "lh_DCID h = hs_dcid hs"
    and step: "\<And>f b. observing hs t0 before evs f b \<Longrightarrow>
          \<exists>f' b'. quicFlowPacket cb b f h (fst (sender hs e)) (snd (sender hs e)) (pkt @ qe_rest e) (qe_ts e) = (f', b') \<and>
            observing hs t0 before (evs @ [e]) f' b' \<and> (\<not> q_emitted f' \<longrightarrow> flow_settled hs f') \<and>
            a_quicFlows b' = a_quicFlows b \<and> a_opts b' = a_opts b"
    by (rule receive_flow [OF assms(1-5,7)]) blast
  obtain f' a' where s: "quicFlowPacket cb a f h (fst (sender hs e)) (snd (sender hs e)) (pkt @ qe_rest e) (qe_ts e) = (f', a')"
    "observing hs t0 before (evs @ [e]) f' a'" "\<not> q_emitted f' \<longrightarrow> flow_settled hs f'"
    using step [OF f(2)] by blast
  then have "receive_datagram cb (hs_dcid hs) scid (hs_cli hs) (hs_srv hs) a e =
      a'\<lparr>a_quicFlows := map_put (hs_key hs) f' (a_quicFlows a')\<rparr>"
    using pkt f(1) by (cases "qe_server e") (simp_all add: receive_eval)
  with observed_put [OF s(2,3)] show ?thesis by simp
qed

lemma receive_first:
  assumes "length (hs_dcid hs) \<le> 20" and "length scid \<le> 20" and "event_fits e" and "hs_cli hs \<noteq> hs_srv hs"
    and hs: "parsed_as cb hs" and "partial hs ([] @ [e])" and "\<not> qe_server e"
    and none: "map_of (a_quicFlows a) (hs_key hs) = None" and room: "int (length (a_quicFlows a)) < o_MaxStreams (a_opts a)"
  shows "observed hs (qe_ts e) (a_handled a) [e] (receive_datagram cb (hs_dcid hs) scid (hs_cli hs) (hs_srv hs) a e)"
proof -
  define b where "b = a\<lparr>a_stats := (a_stats a)\<lparr>s_Streams := s_Streams (a_stats a) + 1,
      s_LiveStreams := s_LiveStreams (a_stats a) + 1\<rparr>\<rparr>"
  obtain pkt h where pkt: "initial_packet (hs_dcid hs) scid e = Some pkt" "IsLongHeader (pkt @ qe_rest e)"
      "ParseLongHeader (pkt @ qe_rest e) = Inr h" "lh_Type h = TypeInitial" "lh_Version h = Version1" "lh_DCID h = hs_dcid hs"
    and step: "\<And>f b. observing hs (qe_ts e) (a_handled a) [] f b \<Longrightarrow>
          \<exists>f' b'. quicFlowPacket cb b f h (fst (sender hs e)) (snd (sender hs e)) (pkt @ qe_rest e) (qe_ts e) = (f', b') \<and>
            observing hs (qe_ts e) (a_handled a) ([] @ [e]) f' b' \<and> (\<not> q_emitted f' \<longrightarrow> flow_settled hs f') \<and>
            a_quicFlows b' = a_quicFlows b \<and> a_opts b' = a_opts b"
    by (rule receive_flow [OF assms(1-6)]) blast
  define f where "f = new_quicFlow h (fst (hs_cli hs)) (fst (hs_srv hs)) (snd (hs_cli hs)) (snd (hs_srv hs)) (qe_ts e)"
  have "observing hs (qe_ts e) (a_handled a) [] f b"
    using pkt by (simp add: observing_def f_def b_def new_quicFlow_def flow_tracked_def flow_between_def flow_pending_def
        endpoints_def cs_add_all_single)
  then obtain f' b' where s: "quicFlowPacket cb b f h (fst (sender hs e)) (snd (sender hs e)) (pkt @ qe_rest e) (qe_ts e) = (f', b')"
    "observing hs (qe_ts e) (a_handled a) [e] f' b'" "\<not> q_emitted f' \<longrightarrow> flow_settled hs f'" "a_quicFlows b' = a_quicFlows a"
    using step by (force simp: b_def)
  then have "receive_datagram cb (hs_dcid hs) scid (hs_cli hs) (hs_srv hs) a e =
      b'\<lparr>a_quicFlows := map_put (hs_key hs) f' (a_quicFlows b')\<rparr>"
    using pkt none room \<open>\<not> qe_server e\<close>
    by (simp add: receive_eval Let_def b_def [symmetric] f_def [symmetric])
  with observed_put [OF s(2,3)] show ?thesis by simp
qed


lemma pieces_of_crypto_append:
  "pieces_of m (crypto_of d (evs @ fs)) \<Longrightarrow> pieces_of m (crypto_of d evs)"
  by (simp add: crypto_of_def pieces_of_append)

lemma observed_handshake:
  assumes "length (hs_dcid hs) \<le> 20" and "length scid \<le> 20" and "hs_cli hs \<noteq> hs_srv hs" and "parsed_as cb hs"
    and "\<not> qe_server e"
    and "map_of (a_quicFlows a) (hs_key hs) = None" and "int (length (a_quicFlows a)) < o_MaxStreams (a_opts a)"
    and "list_all event_fits (e # es)"
    and "pieces_of (hs_chm hs) (crypto_of False (e # es))" and "pieces_of (hs_shm hs) (crypto_of True (e # es))"
  shows "observed hs (qe_ts e) (a_handled a) (e # es)
    (foldl (receive_datagram cb (hs_dcid hs) scid (hs_cli hs) (hs_srv hs)) a (e # es))"
  using assms(8-)
proof (induction es rule: rev_induct)
  case Nil
  then have "partial hs ([] @ [e])" by (simp only: partial_def append_Nil carries_prefix simp_thms)
  with Nil.prems(1) show ?case using receive_first [OF assms(1,2) _ assms(3,4)] assms(5-7) by simp
next
  case (snoc x es)
  have "partial hs ((e # es) @ [x])"
    using snoc.prems(2,3) by (simp add: partial_def carries_prefix del: crypto_of_simps(2))
  moreover have "observed hs (qe_ts e) (a_handled a) (e # es)
      (foldl (receive_datagram cb (hs_dcid hs) scid (hs_cli hs) (hs_srv hs)) a (e # es))"
    using snoc pieces_of_crypto_append [of _ _ "e # es" "[x]"] by simp
  ultimately show ?case
    using receive_next [OF assms(1,2) _ assms(3,4), of x "qe_ts e" "a_handled a" "e # es"] snoc.prems(1) by simp
qed

lemma carries_fits: "carries m fs \<Longrightarrow> (off, d) \<in> set fs \<Longrightarrow> unat off \<le> maxCryptoBytes \<and> length d \<le> maxCryptoBytes"
proof -
  assume c: "carries m fs" and "(off, d) \<in> set fs"
  then have "length d \<le> sum_list (map (\<lambda>p. length (snd p)) fs)"
    by (intro member_le_sum_list) force+
  then show ?thesis using c \<open>(off, d) \<in> set fs\<close> by (auto simp: carries_def frames_fit_def list_all_iff)
qed

text \<open>
  C2: a QUIC handshake is observed, whatever way its packets come. Let the ClientHello and the TLS 1.3
  ServerHello that \<^verbatim>\<open>tlssynth\<close> builds from two specifications be cut into CRYPTO frames in any way
  that covers them, within the bounds of the reassembly, each frame in a protected Initial packet of its own, padded or
  not and followed by any other packets in its datagram. If the first packet is the client's, then, in any
  order and interleaving of the others, an assembler that has room and no flow for these endpoints
  reports exactly one flow for them: between the client and the server, first seen with the first
  packet, with exactly the two hellos the specifications describe.
\<close>

theorem quic_handshake_observed:
  assumes "cryptobyte_laws cb" and "builder_laws bd" and "spec_fits cs"
    and "length (ss_ALPN ss) \<le> 255" and "\<not> ss_HelloRetry ss" and "0x0304 \<le> ss_SelectedVersion ss"
    and "build_ClientHello bd cs = Some ch" and "build_ServerHello bd ss = Some sh"
    and "length dcid \<le> 20" and "length scid \<le> 20" and "cli \<noteq> srv"
    and "list_all event_ok (e # es)" and "\<not> qe_server e"
    and "carries (HandshakeMsg MsgClientHello ch) (crypto_of False (e # es))"
    and "carries (HandshakeMsg MsgServerHello sh) (crypto_of True (e # es))"
    and "map_of (a_quicFlows a) (makeQUICKey (fst cli) (snd cli) (fst srv) (snd srv)) = None"
    and "int (length (a_quicFlows a)) < o_MaxStreams (a_opts a)"
  shows "\<exists>fl. a_handled (foldl (receive_datagram cb dcid scid cli srv) a (e # es)) = a_handled a @ [fl] \<and>
    fl_Transport fl = TransportQUIC \<and> endpoints fl = (cli, srv) \<and> fl_FirstSeen fl = qe_ts e \<and>
    fl_Client fl = Some (expected_hello cs) \<and>
    fl_Server fl = Some ((expected_server ss)\<lparr>sh_FlightComplete := True\<rparr>)"
proof -
  define hs where "hs = \<lparr>hs_dcid = dcid, hs_cli = cli, hs_srv = srv, hs_chm = HandshakeMsg 1 (hello_bytes cs),
    hs_shm = HandshakeMsg 2 (server_bytes ss), hs_CH = expected_hello cs,
    hs_SH = (expected_server ss)\<lparr>sh_FlightComplete := True\<rparr>\<rparr>"
  have msgs: "ch = hello_bytes cs" "sh = server_bytes ss"
    using assms(7,8) builder_laws.build_ClientHello_bytes [OF assms(2,3)] builder_laws.build_ServerHello_bytes [OF assms(2,4)]
    by simp_all
  have parsed: "parsed_as cb hs"
    using cryptobyte_laws.FindClientHelloRaw_part [OF assms(1,3)] cryptobyte_laws.FindServerHelloRaw_part [OF assms(1,4-6)]
    by (simp add: parsed_as_def hs_def HandshakeMsg_def)
  have carried: "carries (hs_chm hs) (crypto_of False (e # es))" "carries (hs_shm hs) (crypto_of True (e # es))"
    using assms(14,15) by (simp_all add: hs_def msgs)
  have fits: "list_all event_fits (e # es)"
    unfolding list_all_iff
  proof
    fix x assume x: "x \<in> set (e # es)"
    then have "(qe_off x, qe_data x) \<in> set (crypto_of (qe_server x) (e # es))" by (auto simp: crypto_of_def)
    with carries_fits [OF carried(1)] carries_fits [OF carried(2)]
    have "unat (qe_off x) \<le> maxCryptoBytes \<and> length (qe_data x) \<le> maxCryptoBytes"
      by (cases "qe_server x") auto
    with x assms(12) show "event_fits x" by (simp add: event_fits_def list_all_iff) blast
  qed
  have "observed hs (qe_ts e) (a_handled a) (e # es) (foldl (receive_datagram cb dcid scid cli srv) a (e # es))"
    using observed_handshake [of hs scid cb e a es] assms(9-11,13,16,17) parsed fits carried
    by (simp add: hs_def hs_key_def carries_def)
  then obtain f where f: "observing hs (qe_ts e) (a_handled a) (e # es) f (foldl (receive_datagram cb dcid scid cli srv) a (e # es))"
      "\<not> q_emitted f \<longrightarrow> flow_settled hs f"
    unfolding observed_def by blast
  have "q_emitted f"
    using f carries_all [OF carried(1)] carries_all [OF carried(2)]
    by (cases "q_emitted f") (auto simp: observing_def flow_pending_def flow_settled_def)
  then show ?thesis
    using f(1) by (auto simp: observing_def flow_complete_def flow_between_def hs_def)
qed


text \<open>A message cut in two, and a message whole.\<close>

lemma carries_whole: "m \<noteq> [] \<Longrightarrow> length m \<le> maxCryptoBytes \<Longrightarrow> carries m [(0, m)]"
  by (auto simp: carries_def pieces_of_def frames_fit_def covers_def maxCryptoFrames_def)

lemma carries_halves:
  assumes "0 < n" and "n < length m" and "length m \<le> maxCryptoBytes"
  shows "carries m [(0, take n m), (word_of_nat n, drop n m)]" "carries m [(word_of_nat n, drop n m), (0, take n m)]"
proof -
  have n: "unat (word_of_nat n :: u64) = n" using assms by (simp add: unat_of_nat maxCryptoBytes_def)
  then have "(word_of_nat n :: u64) \<noteq> 0" using assms(1) by auto
  then show "carries m [(0, take n m), (word_of_nat n, drop n m)]" "carries m [(word_of_nat n, drop n m), (0, take n m)]"
    using assms n by (auto simp: carries_def pieces_of_def frames_fit_def covers_def maxCryptoFrames_def)
qed

definition sample_server :: ServerHelloSpec where
  "sample_server = \<lparr>ss_LegacyVersion = 0, ss_Cipher = 0x1301, ss_SelectedVersion = 0x0304, ss_Group = 29,
     ss_ALPN = ''h3'', ss_HelloRetry = False\<rparr>"

definition sample_event :: "bool \<Rightarrow> u32 \<Rightarrow> u64 \<Rightarrow> bytes \<Rightarrow> int \<Rightarrow> quic_event" where
  "sample_event server pn off d ts = \<lparr>qe_server = server, qe_pn = pn, qe_off = off, qe_data = d, qe_pad = 1200,
     qe_rest = [0xff], qe_ts = ts\<rparr>"

definition sample_chm :: bytes where "sample_chm = HandshakeMsg MsgClientHello (hello_bytes sample_spec)"

definition sample_shm :: bytes where "sample_shm = HandshakeMsg MsgServerHello (server_bytes sample_server)"

lemma sample_lengths:
  "20 < length sample_chm" "length sample_chm \<le> maxCryptoBytes" "sample_shm \<noteq> []" "length sample_shm \<le> maxCryptoBytes"
  by (simp_all add: sample_chm_def sample_shm_def length_HandshakeMsg hello_bytes_def sample_spec_def spec_compression_def
      hello_exts_def exts_bytes_def sni_body_def alpn_body_def shares_body_def share_bytes_def KeyShareLen_def ech_body_def
      greased_def maxCryptoBytes_def server_bytes_def sample_server_def server_random_def server_exts_def server_share_def)
    (simp add: HandshakeMsg_def)

text \<open>The second half of the ClientHello comes first, then the server's packet, then the first half.\<close>

definition sample_events :: "quic_event list" where
  "sample_events =
     [sample_event True 0 0 sample_shm 11, sample_event False 0 0 (take 20 sample_chm) 12]"

theorem quic_handshake_observed_witness:
  "\<exists>fl. a_handled (foldl (receive_datagram string_methods [1, 2, 3, 4] [5] (Addr4 1, 50000) (Addr4 2, 443))
      (Assembler_New sample_opts) (sample_event False 1 20 (drop 20 sample_chm) 10 # sample_events)) = [fl] \<and>
    endpoints fl = ((Addr4 1, 50000), (Addr4 2, 443)) \<and> fl_Client fl = Some (expected_hello sample_spec)"
proof -
  let ?e = "sample_event False 1 20 (drop 20 sample_chm) 10"
  have "carries sample_chm (crypto_of False (?e # sample_events))" "carries sample_shm (crypto_of True (?e # sample_events))"
    using carries_halves(2) [of 20 sample_chm] carries_whole [of sample_shm] sample_lengths
    by (simp_all add: crypto_of_def sample_event_def sample_events_def)
  moreover have "list_all event_ok (?e # sample_events)" "\<not> qe_server ?e"
    by (simp_all add: sample_events_def sample_event_def event_ok_def)
  moreover have "a_quicFlows (Assembler_New sample_opts) = []" "0 < o_MaxStreams (a_opts (Assembler_New sample_opts))"
      "a_handled (Assembler_New sample_opts) = []"
    by (simp_all add: Assembler_New_def Let_def setDefaults_def sample_opts_def DefaultMaxStreams_def)
  moreover have "length (ss_ALPN sample_server) \<le> 255" "\<not> ss_HelloRetry sample_server" "0x0304 \<le> ss_SelectedVersion sample_server"
    by (simp_all add: sample_server_def)
  ultimately show ?thesis
    using quic_handshake_observed [OF sm.cryptobyte_laws_axioms bm.builder_laws_axioms sample_spec_fits _ _ _
      builder_laws.build_ClientHello_bytes [OF bm.builder_laws_axioms sample_spec_fits]
      builder_laws.build_ServerHello_bytes [OF bm.builder_laws_axioms, of sample_server], of "[1, 2, 3, 4]" "[5]"
      "(Addr4 1, 50000)" "(Addr4 2, 443)" ?e sample_events "Assembler_New sample_opts", folded sample_chm_def sample_shm_def]
    by auto
qed

end
