(* ===== verification/Generator.thy ===== *)
theory Generator
  imports Synth_Server Assemble Go_Utf8 Report
begin

text \<open>
  \<^verbatim>\<open>testdata/gen/main.go\<close>: the generator of the sample captures. A frame is what is handed to gopacket's
  serialiser: the network layer, the transport layer and the payload; the Ethernet addresses, the time
  to live and the window are constants. \<open>gen_env\<close> has the serialiser, the writer of the file, the parser of
  addresses and the self-signed certificates; \<open>gn_frames\<close> has what was written to the file, with its time.
  \<open>None\<close> is \<^verbatim>\<open>log.Fatal\<close> or a panic of a builder.
\<close>

definition mss :: nat where "mss = 1460"

definition x25519 :: u16 where "x25519 = 29"
definition secp256r1 :: u16 where "secp256r1 = 23"
definition secp384r1 :: u16 where "secp384r1 = 24"
definition x25519MLKEM768 :: u16 where "x25519MLKEM768 = 0x11ec"

definition tlsAES128GCMSHA256 :: u16 where "tlsAES128GCMSHA256 = 0x1301"
definition tlsAES256GCMSHA384 :: u16 where "tlsAES256GCMSHA384 = 0x1302"
definition tlsChaCha20Poly1305 :: u16 where "tlsChaCha20Poly1305 = 0x1303"
definition ecdheRSAAES128GCMSHA256 :: u16 where "ecdheRSAAES128GCMSHA256 = 0xc02f"
definition ecdheECDSAAES128GCMSHA25 :: u16 where "ecdheECDSAAES128GCMSHA25 = 0xc02b"
definition rsaWithRC4128SHA :: u16 where "rsaWithRC4128SHA = 0x0005"
definition rsaWith3DESEDECBCSHA :: u16 where "rsaWith3DESEDECBCSHA = 0x000a"
definition rsaWithAES128CBCSHA :: u16 where "rsaWithAES128CBCSHA = 0x002f"

definition tls10 :: u16 where "tls10 = 0x0301"
definition tls12 :: u16 where "tls12 = 0x0303"
definition tls13 :: u16 where "tls13 = 0x0304"

text \<open>23 August 2026, 10:00 UTC, in nanoseconds from Go's zero time.\<close>

definition baseTime :: int where "baseTime = 63923076000 * 10 ^ 9"


subsection \<open>Frames\<close>

record tcpFlags =
  tf_syn :: bool
  tf_ack :: bool
  tf_psh :: bool
  tf_fin :: bool

datatype network = IPv4Header addr "addr option" | IPv6Header addr addr

datatype transport = TCPSegment u16 u16 u32 u32 tcpFlags | UDPDatagram u16 u16

record frame =
  fr_net :: network
  fr_transport :: transport
  fr_payload :: bytes

record gen =
  gn_now :: int
  gn_packets :: int
  gn_flows :: int
  gn_frames :: "(int \<times> frame) list"

record gen_env =
  ge_Serialize :: "frame \<Rightarrow> bytes option"
  ge_WritePacket :: "int \<Rightarrow> bytes \<Rightarrow> bool"
  ge_Create :: "string \<Rightarrow> bool"
  ge_ParseIP :: "string \<Rightarrow> addr"
  ge_selfSigned :: "string \<Rightarrow> nat \<Rightarrow> bytes option"

definition To4 :: "addr \<Rightarrow> addr option" where
  "To4 a = (case Unmap a of Addr4 w \<Rightarrow> Some (Addr4 w) | _ \<Rightarrow> None)"

definition network_layer :: "addr \<Rightarrow> addr \<Rightarrow> network" where
  "network_layer src dst =
     (case To4 src of Some v4 \<Rightarrow> IPv4Header v4 (To4 dst) | None \<Rightarrow> IPv6Header src dst)"

definition write_frame :: "gen_env \<Rightarrow> frame \<Rightarrow> gen \<Rightarrow> gen option" where
  "write_frame env fr g =
     (case ge_Serialize env fr of
        None \<Rightarrow> None
      | Some b \<Rightarrow>
          (let now = gn_now g + 250 * 10 ^ 3 in
           if ge_WritePacket env now b
           then Some (g\<lparr>gn_now := now, gn_packets := gn_packets g + 1, gn_frames := gn_frames g @ [(now, fr)]\<rparr>)
           else None))"

definition tcp_frame :: "addr \<Rightarrow> addr \<Rightarrow> u16 \<Rightarrow> u16 \<Rightarrow> u32 \<Rightarrow> u32 \<Rightarrow> tcpFlags \<Rightarrow> bytes \<Rightarrow> frame" where
  "tcp_frame src dst sport dport sq ack fl payload =
     \<lparr>fr_net = network_layer src dst, fr_transport = TCPSegment sport dport sq ack fl, fr_payload = payload\<rparr>"

definition emit :: "gen_env \<Rightarrow> addr \<Rightarrow> addr \<Rightarrow> u16 \<Rightarrow> u16 \<Rightarrow> u32 \<Rightarrow> u32 \<Rightarrow> tcpFlags \<Rightarrow> bytes \<Rightarrow> gen \<Rightarrow> gen option" where
  "emit env src dst sport dport sq ack fl payload g = write_frame env (tcp_frame src dst sport dport sq ack fl payload) g"

definition emitUDP :: "gen_env \<Rightarrow> addr \<Rightarrow> addr \<Rightarrow> u16 \<Rightarrow> u16 \<Rightarrow> bytes \<Rightarrow> gen \<Rightarrow> gen option" where
  "emitUDP env src dst sport dport payload g =
     write_frame env \<lparr>fr_net = network_layer src dst, fr_transport = UDPDatagram sport dport, fr_payload = payload\<rparr> g"


subsection \<open>Connections\<close>

definition flag_syn :: tcpFlags where "flag_syn = \<lparr>tf_syn = True, tf_ack = False, tf_psh = False, tf_fin = False\<rparr>"
definition flag_syn_ack :: tcpFlags where "flag_syn_ack = flag_syn\<lparr>tf_ack := True\<rparr>"
definition flag_ack :: tcpFlags where "flag_ack = \<lparr>tf_syn = False, tf_ack = True, tf_psh = False, tf_fin = False\<rparr>"
definition flag_fin_ack :: tcpFlags where "flag_fin_ack = flag_ack\<lparr>tf_fin := True\<rparr>"

text \<open>The opening of a connection: the sequence numbers start at 1000 and 5000.\<close>

definition open_conn :: "gen_env \<Rightarrow> addr \<Rightarrow> addr \<Rightarrow> u16 \<Rightarrow> u16 \<Rightarrow> gen \<Rightarrow> gen option" where
  "open_conn env cIP sIP sport dport g =
     Option.bind (emit env cIP sIP sport dport 1000 0 flag_syn [] g) (\<lambda>g.
     Option.bind (emit env sIP cIP dport sport 5000 1001 flag_syn_ack [] g) (\<lambda>g.
     emit env cIP sIP sport dport 1001 5001 flag_ack [] g))"

text \<open>The loop that cuts a stream into segments; it gives the next sequence number.\<close>

function send :: "gen_env \<Rightarrow> addr \<Rightarrow> addr \<Rightarrow> u16 \<Rightarrow> u16 \<Rightarrow> u32 \<Rightarrow> u32 \<Rightarrow> bytes \<Rightarrow> gen \<Rightarrow> (u32 \<times> gen) option" where
  "send env src dst sport dport sq ack payload g =
     (if payload = [] then Some (sq, g)
      else
        (let n = min mss (length payload) in
         Option.bind (emit env src dst sport dport sq ack (flag_ack\<lparr>tf_psh := (n = length payload)\<rparr>) (take n payload) g) (\<lambda>g.
         send env src dst sport dport (sq + word_of_nat n) ack (drop n payload) g)))"
  by pat_completeness auto
termination
  by (relation "measure (\<lambda>(_, _, _, _, _, _, _, payload, _). length payload)") (auto simp: mss_def)

declare send.simps [simp del]

definition rawFlow :: "gen_env \<Rightarrow> string \<Rightarrow> string \<Rightarrow> u16 \<Rightarrow> u16 \<Rightarrow> bytes \<Rightarrow> bytes \<Rightarrow> gen \<Rightarrow> gen option" where
  "rawFlow env client server sport dport c2s s2c g =
     (let g = g\<lparr>gn_flows := gn_flows g + 1\<rparr>; cIP = ge_ParseIP env client; sIP = ge_ParseIP env server in
      Option.bind (open_conn env cIP sIP sport dport g) (\<lambda>g.
      Option.bind (send env cIP sIP sport dport 1001 5001 c2s g) (\<lambda>(cSeq, g).
      Option.bind (send env sIP cIP dport sport 5001 cSeq s2c g) (\<lambda>(sSeq, g).
      Option.bind (emit env cIP sIP sport dport cSeq sSeq flag_fin_ack [] g) (\<lambda>g.
      emit env sIP cIP dport sport sSeq (cSeq + 1) flag_fin_ack [] g)))))"

record gen_flow =
  gf_client :: string
  gf_server :: string
  gf_sport :: u16
  gf_dport :: u16
  gf_ch :: ClientHelloSpec
  gf_sh :: "ServerHelloSpec option"
  gf_ske :: u16
  gf_certs :: "bytes list option"

definition client_stream :: "'b builder \<Rightarrow> ClientHelloSpec \<Rightarrow> bytes option" where
  "client_stream bd ch =
     map_option (\<lambda>body. Records RecordHandshake (HandshakeMsg MsgClientHello body) (int mss)) (build_ClientHello bd ch)"

definition server_messages :: "'b builder \<Rightarrow> gen_flow \<Rightarrow> ServerHelloSpec \<Rightarrow> bytes option" where
  "server_messages bd f sh =
     Option.bind (build_ServerHello bd sh) (\<lambda>body.
     Option.bind (case gf_certs f of None \<Rightarrow> Some [] | Some certs \<Rightarrow> map_option (HandshakeMsg MsgCertificate) (CertificateMsg bd certs)) (\<lambda>cert.
     Option.bind (if gf_ske f = 0 then Some []
                  else map_option (\<lambda>ske. HandshakeMsg MsgServerKeyExchange ske @ HandshakeMsg MsgServerHelloDone [])
                         (ServerKeyExchangeECDHE bd (gf_ske f))) (\<lambda>ske.
     Some (HandshakeMsg MsgServerHello body @ cert @ ske))))"

definition server_stream :: "'b builder \<Rightarrow> gen_flow \<Rightarrow> bytes option" where
  "server_stream bd f =
     (case gf_sh f of
        None \<Rightarrow> Some []
      | Some sh \<Rightarrow> map_option (\<lambda>msgs. Records RecordHandshake msgs (int mss)) (server_messages bd f sh))"

definition tlsFlow :: "gen_env \<Rightarrow> 'b builder \<Rightarrow> gen_flow \<Rightarrow> gen \<Rightarrow> gen option" where
  "tlsFlow env bd f g =
     Option.bind (client_stream bd (gf_ch f)) (\<lambda>c2s.
     Option.bind (server_stream bd f) (\<lambda>s2c.
     rawFlow env (gf_client f) (gf_server f) (gf_sport f) (gf_dport f) c2s s2c g))"


subsection \<open>The captures\<close>

definition newCapture :: "gen_env \<Rightarrow> string \<Rightarrow> gen option" where
  "newCapture env path =
     (if ge_Create env path then Some \<lparr>gn_now = baseTime, gn_packets = 0, gn_flows = 0, gn_frames = []\<rparr> else None)"

fun in_turn :: "('a \<Rightarrow> gen \<Rightarrow> gen option) \<Rightarrow> 'a list \<Rightarrow> gen \<Rightarrow> gen option" where
  "in_turn f [] g = Some g"
| "in_turn f (x # xs) g = Option.bind (f x g) (in_turn f xs)"

definition no_spec :: ClientHelloSpec where
  "no_spec = \<lparr>sp_LegacyVersion = 0, sp_Ciphers = [], sp_Compression = None, sp_SNI = [], sp_ALPN = [], sp_SupportedVersions = [],
     sp_Groups = [], sp_KeyShares = [], sp_SigAlgs = [], sp_ECH = False, sp_QUIC = False, sp_OmitExtensions = False, sp_NoGREASE = False\<rparr>"

definition server_spec :: "u16 \<Rightarrow> u16 \<Rightarrow> u16 \<Rightarrow> string \<Rightarrow> ServerHelloSpec" where
  "server_spec cipher version grp alpn =
     \<lparr>ss_LegacyVersion = 0, ss_Cipher = cipher, ss_SelectedVersion = version, ss_Group = grp, ss_ALPN = alpn, ss_HelloRetry = False\<rparr>"

definition wrote :: "string \<Rightarrow> string \<Rightarrow> gen \<Rightarrow> string" where
  "wrote path what g =
     ''wrote '' @ path @ '' ('' @ dec_int (gn_packets g) @ '' packets, '' @ dec_int (gn_flows g) @ '' '' @ what @ '')'' @ nl"

text \<open>The flows of the first capture, in their order; the two certificates are made on the way.\<close>

definition modernCiphers :: "u16 list" where
  "modernCiphers = [tlsAES128GCMSHA256, tlsAES256GCMSHA384, tlsChaCha20Poly1305, ecdheECDSAAES128GCMSHA25, ecdheRSAAES128GCMSHA256]"

definition modernSigAlgs :: "u16 list" where
  "modernSigAlgs = [0x0403, 0x0804, 0x0401, 0x0503, 0x0805, 0x0501]"

definition modern_spec :: "string \<Rightarrow> string list \<Rightarrow> u16 list \<Rightarrow> u16 list \<Rightarrow> u16 list \<Rightarrow> ClientHelloSpec" where
  "modern_spec sni alpn versions groups shares =
     no_spec\<lparr>sp_Ciphers := modernCiphers, sp_SNI := sni, sp_ALPN := alpn, sp_SupportedVersions := versions,
       sp_Groups := groups, sp_KeyShares := shares, sp_SigAlgs := modernSigAlgs\<rparr>"

definition make_flow :: "string \<Rightarrow> string \<Rightarrow> u16 \<Rightarrow> u16 \<Rightarrow> ClientHelloSpec \<Rightarrow> ServerHelloSpec option \<Rightarrow> gen_flow" where
  "make_flow client server sport dport ch sh =
     \<lparr>gf_client = client, gf_server = server, gf_sport = sport, gf_dport = dport, gf_ch = ch, gf_sh = sh,
      gf_ske = 0, gf_certs = None\<rparr>"

definition sample_modern :: "gen_flow list" where
  "sample_modern =
     [make_flow ''192.168.1.50'' ''104.18.32.7'' 51420 443
        (modern_spec ''www.cloudflare.com'' [''h2'', ''http/1.1''] [tls13, tls12]
           [x25519MLKEM768, x25519, secp256r1, secp384r1] [x25519MLKEM768, x25519])
        (Some (server_spec tlsAES128GCMSHA256 tls13 x25519MLKEM768 ''h2'')),
      make_flow ''192.168.1.50'' ''93.184.216.34'' 51421 443
        (modern_spec ''example.com'' [''h2'', ''http/1.1''] [tls13, tls12]
           [x25519MLKEM768, x25519, secp256r1] [x25519MLKEM768, x25519])
        (Some (server_spec tlsAES128GCMSHA256 tls13 x25519 ''h2'')),
      make_flow ''192.168.1.51'' ''142.250.185.78'' 44100 443
        (modern_spec ''www.google.com'' [''h2''] [tls13, tls12] [x25519MLKEM768, x25519, secp256r1] [x25519])
        (Some (server_spec tlsChaCha20Poly1305 tls13 x25519 ''h2''))]"

definition sample_legacy :: "bytes \<Rightarrow> gen_flow" where
  "sample_legacy leaf2048 =
     (make_flow ''192.168.1.52'' ''10.20.0.9'' 39004 443
        (no_spec\<lparr>sp_LegacyVersion := tls12, sp_Ciphers := [ecdheRSAAES128GCMSHA256, rsaWithAES128CBCSHA],
           sp_SNI := ''legacy.internal.example'', sp_ALPN := [''http/1.1''], sp_Groups := [secp256r1, x25519],
           sp_SigAlgs := modernSigAlgs\<rparr>)
        (Some (server_spec ecdheRSAAES128GCMSHA256 0 0 ''http/1.1'')))
     \<lparr>gf_ske := secp256r1, gf_certs := Some [leaf2048]\<rparr>"

definition sample_appliance :: "bytes \<Rightarrow> gen_flow" where
  "sample_appliance leaf1024 =
     (make_flow ''192.168.1.52'' ''10.20.0.14'' 39010 8443
        (no_spec\<lparr>sp_LegacyVersion := tls12, sp_NoGREASE := True, sp_Ciphers := [rsaWithAES128CBCSHA, rsaWith3DESEDECBCSHA],
           sp_SNI := ''old-appliance.internal.example'', sp_Groups := [secp256r1]\<rparr>)
        (Some (server_spec rsaWithAES128CBCSHA 0 0 [])))
     \<lparr>gf_certs := Some [leaf1024]\<rparr>"

definition sample_rest :: "gen_flow list" where
  "sample_rest =
     [make_flow ''192.168.1.53'' ''10.20.0.31'' 40222 9443
        (no_spec\<lparr>sp_LegacyVersion := tls10, sp_NoGREASE := True, sp_OmitExtensions := True,
           sp_Ciphers := [rsaWithRC4128SHA, rsaWith3DESEDECBCSHA]\<rparr>)
        (Some ((server_spec rsaWithRC4128SHA 0 0 [])\<lparr>ss_LegacyVersion := tls10\<rparr>)),
      make_flow ''192.168.1.50'' ''104.18.32.7'' 51500 443
        ((modern_spec ''cloudflare-ech.com'' [''h2''] [tls13] [x25519MLKEM768, x25519] [x25519MLKEM768])\<lparr>sp_ECH := True\<rparr>)
        (Some (server_spec tlsAES128GCMSHA256 tls13 x25519MLKEM768 ''h2'')),
      make_flow ''192.168.1.54'' ''203.0.113.9'' 55001 443
        (modern_spec ''unreachable.example'' [] [tls13, tls12] [x25519, secp256r1] [x25519]) None,
      make_flow ''2001:db8::50'' ''2606:4700::6810:2007'' 51600 443
        (modern_spec ''ipv6.example.com'' [''h2''] [tls13] [x25519MLKEM768, x25519] [x25519MLKEM768])
        (Some (server_spec tlsAES256GCMSHA384 tls13 x25519MLKEM768 ''h2''))]"

definition crlf :: string where "crlf = [CHR 0x0d, CHR 0x0a]"

definition sample_raw :: "(string \<times> string \<times> u16 \<times> u16 \<times> string \<times> string) list" where
  "sample_raw =
     [(''192.168.1.50'', ''10.20.0.80'', 51700, 8080,
         ''GET /health HTTP/1.1'' @ crlf @ ''Host: 10.20.0.80'' @ crlf @ ''User-Agent: curl/8.6.0'' @ crlf @ crlf,
         ''HTTP/1.1 200 OK'' @ crlf @ ''Content-Length: 2'' @ crlf @ crlf @ ''ok''),
      (''192.168.1.50'', ''10.20.0.22'', 51701, 22, ''SSH-2.0-OpenSSH_9.6'' @ crlf, ''SSH-2.0-OpenSSH_9.3'' @ crlf)]"

definition writeSample :: "gen_env \<Rightarrow> 'b builder \<Rightarrow> (gen \<times> string) option" where
  "writeSample env bd =
     (let out = ''testdata/sample.pcap'' in
      Option.bind (newCapture env out) (\<lambda>g.
      Option.bind (in_turn (tlsFlow env bd) sample_modern g) (\<lambda>g.
      Option.bind (ge_selfSigned env ''legacy.internal.example'' 2048) (\<lambda>leaf2048.
      Option.bind (tlsFlow env bd (sample_legacy leaf2048) g) (\<lambda>g.
      Option.bind (ge_selfSigned env ''old-appliance.internal.example'' 1024) (\<lambda>leaf1024.
      Option.bind (tlsFlow env bd (sample_appliance leaf1024) g) (\<lambda>g.
      Option.bind (in_turn (tlsFlow env bd) sample_rest g) (\<lambda>g.
      Option.bind (in_turn (\<lambda>(client, server, sport, dport, c2s, s2c).
          rawFlow env client server sport dport (string_bytes c2s) (string_bytes s2c)) sample_raw g) (\<lambda>g.
      Some (g, wrote out ''flows'' g))))))))))"

text \<open>Many connections at once: all are opened, then each round sends one segment of every connection.\<close>

record conn =
  cn_cIP :: addr
  cn_sIP :: addr
  cn_sport :: u16
  cn_payload :: bytes
  cn_cSeq :: u32
  cn_sSeq :: u32

definition concurrent_spec :: "nat \<Rightarrow> ClientHelloSpec" where
  "concurrent_spec i =
     no_spec\<lparr>sp_Ciphers := [tlsAES128GCMSHA256, tlsAES256GCMSHA384], sp_SNI := ''host'' @ dec02 i @ ''.example'',
       sp_ALPN := [''h2''], sp_SupportedVersions := [tls13], sp_Groups := [x25519MLKEM768, x25519],
       sp_KeyShares := [x25519MLKEM768], sp_SigAlgs := [0x0403, 0x0804]\<rparr>"

definition new_conn :: "gen_env \<Rightarrow> 'b builder \<Rightarrow> nat \<Rightarrow> conn option" where
  "new_conn env bd i =
     map_option (\<lambda>c2s. \<lparr>cn_cIP = ge_ParseIP env ''192.168.1.60'', cn_sIP = ge_ParseIP env (''198.51.100.'' @ dec (i + 1)),
         cn_sport = word_of_nat (52000 + i), cn_payload = c2s, cn_cSeq = 1000, cn_sSeq = 5000\<rparr>)
       (client_stream bd (concurrent_spec i))"

fun new_conns :: "gen_env \<Rightarrow> 'b builder \<Rightarrow> nat list \<Rightarrow> conn list option" where
  "new_conns env bd [] = Some []"
| "new_conns env bd (i # is) = Option.bind (new_conn env bd i) (\<lambda>c. map_option ((#) c) (new_conns env bd is))"

text \<open>The handshake of a connection advances both of its sequence numbers.\<close>

definition conn_opened :: "conn \<Rightarrow> conn" where
  "conn_opened c = c\<lparr>cn_cSeq := cn_cSeq c + 1, cn_sSeq := cn_sSeq c + 1\<rparr>"

definition open_of :: "gen_env \<Rightarrow> conn \<Rightarrow> gen \<Rightarrow> gen option" where
  "open_of env c g =
     Option.bind (emit env (cn_cIP c) (cn_sIP c) (cn_sport c) 443 (cn_cSeq c) 0 flag_syn [] g) (\<lambda>g.
     Option.bind (emit env (cn_sIP c) (cn_cIP c) 443 (cn_sport c) (cn_sSeq c) (cn_cSeq c + 1) flag_syn_ack [] g) (\<lambda>g.
     emit env (cn_cIP c) (cn_sIP c) (cn_sport c) 443 (cn_cSeq c + 1) (cn_sSeq c + 1) flag_ack [] g))"

text \<open>One round, with the flag \<^verbatim>\<open>more\<close> so far.\<close>

definition conn_send :: "conn \<Rightarrow> conn" where
  "conn_send c = (let n = min mss (length (cn_payload c)) in
     c\<lparr>cn_cSeq := cn_cSeq c + word_of_nat n, cn_payload := drop n (cn_payload c)\<rparr>)"

fun conc_round :: "gen_env \<Rightarrow> conn list \<Rightarrow> bool \<Rightarrow> gen \<Rightarrow> (conn list \<times> bool \<times> gen) option" where
  "conc_round env [] again g = Some ([], again, g)"
| "conc_round env (c # cs) again g =
     (if length (cn_payload c) = 0 then map_option (\<lambda>(cs, again, g). (c # cs, again, g)) (conc_round env cs again g)
      else
        (let n = min mss (length (cn_payload c)); c' = conn_send c in
         Option.bind (emit env (cn_cIP c) (cn_sIP c) (cn_sport c) 443 (cn_cSeq c) (cn_sSeq c)
             (flag_ack\<lparr>tf_psh := (n = length (cn_payload c))\<rparr>) (take n (cn_payload c)) g) (\<lambda>g.
         map_option (\<lambda>(cs, again, g). (c' # cs, again, g))
           (conc_round env cs (again \<or> length (cn_payload c') > 0) g))))"

definition conns_left :: "conn list \<Rightarrow> nat" where
  "conns_left cs = sum_list (map (\<lambda>c. length (cn_payload c)) cs)"

text \<open>The rounds end: one that leaves bytes to send has sent some.\<close>

lemma conn_send_less: "cn_payload c \<noteq> [] \<Longrightarrow> length (cn_payload (conn_send c)) < length (cn_payload c)"
  by (simp add: conn_send_def Let_def mss_def)

lemma conc_round_left:
  "conc_round env cs again g = Some (cs', again', g') \<Longrightarrow>
   conns_left cs' \<le> conns_left cs \<and> (again' \<longrightarrow> again \<or> conns_left cs' < conns_left cs)"
proof (induction env cs again g arbitrary: cs' rule: conc_round.induct)
  case (2 env c cs again g)
  show ?case
  proof (cases "cn_payload c = []")
    case True
    then show ?thesis using 2 by (auto simp: conns_left_def)
  next
    case False
    then show ?thesis
      using 2 conn_send_less [OF False] by (fastforce simp: conns_left_def Let_def bind_eq_Some_conv)
  qed
qed simp

function conc_rounds :: "gen_env \<Rightarrow> conn list \<Rightarrow> gen \<Rightarrow> gen option" where
  "conc_rounds env cs g =
     (case conc_round env cs False g of
        None \<Rightarrow> None
      | Some (cs, again, g) \<Rightarrow> if again then conc_rounds env cs g else Some g)"
  by pat_completeness auto
termination
  by (relation "measure (\<lambda>(_, cs, _). conns_left cs)") (auto dest: conc_round_left)

declare conc_rounds.simps [simp del]

definition writeConcurrent :: "gen_env \<Rightarrow> 'b builder \<Rightarrow> (gen \<times> string) option" where
  "writeConcurrent env bd =
     (let n = 12; out = ''testdata/concurrent.pcap'' in
      Option.bind (newCapture env out) (\<lambda>g.
      Option.bind (new_conns env bd [0..<n]) (\<lambda>conns.
      Option.bind (in_turn (open_of env) conns (g\<lparr>gn_flows := gn_flows g + int n\<rparr>)) (\<lambda>g.
      Option.bind (conc_rounds env (map conn_opened conns) g) (\<lambda>g.
      Some (g, wrote out ''concurrent flows'' g))))))"

text \<open>Connections that stay open after their handshake.\<close>

definition keepalive_spec :: "nat \<Rightarrow> ClientHelloSpec" where
  "keepalive_spec i =
     no_spec\<lparr>sp_Ciphers := [tlsAES128GCMSHA256, tlsChaCha20Poly1305], sp_SNI := ''keepalive'' @ dec02 i @ ''.example'',
       sp_ALPN := [''h2''], sp_SupportedVersions := [tls13], sp_Groups := [x25519MLKEM768, x25519],
       sp_KeyShares := [x25519MLKEM768], sp_SigAlgs := [0x0403, 0x0804]\<rparr>"

definition keepalive_flow :: "gen_env \<Rightarrow> 'b builder \<Rightarrow> nat \<Rightarrow> gen \<Rightarrow> gen option" where
  "keepalive_flow env bd i g =
     Option.bind (client_stream bd (keepalive_spec i)) (\<lambda>c2s.
     Option.bind (build_ServerHello bd (server_spec tlsAES128GCMSHA256 tls13 x25519MLKEM768 ''h2'')) (\<lambda>sh.
     (let s2c = Records RecordHandshake (HandshakeMsg MsgServerHello sh) (int mss);
          cIP = ge_ParseIP env ''192.168.1.70'';
          sIP = ge_ParseIP env (''203.0.113.'' @ dec (i + 10));
          sport = word_of_nat (53000 + i) in
      Option.bind (open_conn env cIP sIP sport 443 (g\<lparr>gn_flows := gn_flows g + 1\<rparr>)) (\<lambda>g.
      Option.bind (send env cIP sIP sport 443 1001 5001 c2s g) (\<lambda>(cSeq, g).
      map_option snd (send env sIP cIP 443 sport 5001 cSeq s2c g))))))"

definition writeKeepalive :: "gen_env \<Rightarrow> 'b builder \<Rightarrow> (gen \<times> string) option" where
  "writeKeepalive env bd =
     (let out = ''testdata/keepalive.pcap'' in
      Option.bind (newCapture env out) (\<lambda>g.
      Option.bind (in_turn (keepalive_flow env bd) [0..<4] g) (\<lambda>g.
      Some (g, wrote out ''keep-alive flows'' g))))"

text \<open>QUIC handshakes: the ClientHello in the halves of two Initial packets, the ServerHello in one.\<close>

definition quic_spec :: "string \<Rightarrow> u16 \<Rightarrow> ClientHelloSpec" where
  "quic_spec name grp =
     no_spec\<lparr>sp_Ciphers := [tlsAES128GCMSHA256, tlsAES256GCMSHA384, tlsChaCha20Poly1305], sp_SNI := name,
       sp_ALPN := [''h3''], sp_SupportedVersions := [tls13], sp_Groups := [x25519MLKEM768, x25519, secp256r1],
       sp_KeyShares := [grp], sp_SigAlgs := [0x0403, 0x0804, 0x0401], sp_QUIC := True\<rparr>"

definition quic_hosts :: "(string \<times> u16) list" where
  "quic_hosts = [(''www.google.com'', x25519MLKEM768), (''cloudflare-quic.com'', x25519MLKEM768), (''classic-h3.example'', x25519)]"

definition quic_dcid :: "nat \<Rightarrow> bytes" where
  "quic_dcid i = [0x83, 0x94, 0xc8, 0xf0, 0x3e, 0x51, 0x57, word_of_nat i]"

definition quic_scid :: "nat \<Rightarrow> bytes" where
  "quic_scid i = [0xf0, 0x67, 0xa5, 0x50, 0x2a, 0x42, 0x62, word_of_nat i]"

definition quic_flow :: "gen_env \<Rightarrow> 'b builder \<Rightarrow> nat \<times> string \<times> u16 \<Rightarrow> gen \<Rightarrow> gen option" where
  "quic_flow env bd = (\<lambda>(i, name, grp) g.
     (let dcid = quic_dcid i; scid = quic_scid i in
      Option.bind (build_ClientHello bd (quic_spec name grp)) (\<lambda>ch.
      Option.bind (build_ServerHello bd (server_spec tlsAES128GCMSHA256 tls13 grp ''h3'')) (\<lambda>sh.
      (let chMsg = HandshakeMsg MsgClientHello ch;
           sh = HandshakeMsg MsgServerHello sh;
           cIP = ge_ParseIP env ''192.168.1.80'';
           sIP = ge_ParseIP env (''142.250.185.'' @ dec (100 + i));
           sport = word_of_nat (54000 + i);
           half = length chMsg div 2 in
       Option.bind (QUICInitial dcid scid False 0 (CryptoFrame_bytes 0 (take half chMsg)) 1200) (\<lambda>p.
       Option.bind (emitUDP env cIP sIP sport 443 p (g\<lparr>gn_flows := gn_flows g + 1\<rparr>)) (\<lambda>g.
       Option.bind (QUICInitial dcid scid False 1 (CryptoFrame_bytes (word_of_nat half) (drop half chMsg)) 1200) (\<lambda>p.
       Option.bind (emitUDP env cIP sIP sport 443 p g) (\<lambda>g.
       Option.bind (QUICInitial dcid scid True 0 (CryptoFrame_bytes 0 sh) 0) (\<lambda>p.
       emitUDP env sIP cIP 443 sport p g)))))))))) "

definition writeQUIC :: "gen_env \<Rightarrow> 'b builder \<Rightarrow> (gen \<times> string) option" where
  "writeQUIC env bd =
     (let out = ''testdata/quic.pcap'' in
      Option.bind (newCapture env out) (\<lambda>g.
      Option.bind (in_turn (quic_flow env bd) (zip [0..<length quic_hosts] quic_hosts) g) (\<lambda>g.
      Some (g, wrote out ''QUIC flows'' g))))"

text \<open>The four captures, in order, and what is printed; a failure ends the program.\<close>

definition gen_main :: "gen_env \<Rightarrow> 'b builder \<Rightarrow> (gen \<times> string) list option" where
  "gen_main env bd =
     Option.bind (writeSample env bd) (\<lambda>s.
     Option.bind (writeConcurrent env bd) (\<lambda>c.
     Option.bind (writeKeepalive env bd) (\<lambda>k.
     Option.bind (writeQUIC env bd) (\<lambda>q.
     Some [s, c, k, q]))))"

end
