(* ===== verification/Generator_Props.thy ===== *)
theory Generator_Props
  imports Generator
begin

text \<open>
  What the generator of the sample captures writes: each connection is a list of frames that depends on
  the two streams only (\<open>raw_frames\<close>), whose segments carry the streams in sequence.
\<close>

subsection \<open>The frames of a connection\<close>

lemma in_turn_append: "in_turn f (xs @ ys) g = Option.bind (in_turn f xs g) (in_turn f ys)"
  by (induction f xs g rule: in_turn.induct) (auto split: Option.bind_splits)

lemma in_turn_fun:
  "in_turn f [] = Some"
  "in_turn f (x # xs) = (\<lambda>g. Option.bind (f x g) (in_turn f xs))"
  "in_turn f (xs @ ys) = (\<lambda>g. Option.bind (in_turn f xs g) (in_turn f ys))"
  by (simp_all add: fun_eq_iff in_turn_append)

function seg_frames :: "addr \<Rightarrow> addr \<Rightarrow> u16 \<Rightarrow> u16 \<Rightarrow> u32 \<Rightarrow> u32 \<Rightarrow> bytes \<Rightarrow> frame list" where
  "seg_frames src dst sport dport sq ack payload =
     (if payload = [] then []
      else
        (let n = min mss (length payload) in
         tcp_frame src dst sport dport sq ack (flag_ack\<lparr>tf_psh := (n = length payload)\<rparr>) (take n payload) #
         seg_frames src dst sport dport (sq + word_of_nat n) ack (drop n payload)))"
  by pat_completeness auto
termination
  by (relation "measure (\<lambda>(_, _, _, _, _, _, payload). length payload)") (auto simp: mss_def)

declare seg_frames.simps [simp del]

lemma send_frames:
  "send env src dst sport dport sq ack payload g =
     map_option (Pair (sq + word_of_nat (length payload))) (in_turn (write_frame env) (seg_frames src dst sport dport sq ack payload) g)"
proof (induction payload arbitrary: sq g rule: length_induct)
  case (1 payload)
  show ?case
  proof (cases "payload = []")
    case True
    then show ?thesis by (simp add: send.simps seg_frames.simps)
  next
    case False
    define n where "n = min mss (length payload)"
    have "0 < n" "n \<le> length payload" using False by (auto simp: n_def mss_def)
    then have IH: "send env src dst sport dport (sq + word_of_nat n) ack (drop n payload) =
        (\<lambda>h. map_option (Pair (sq + word_of_nat (length payload)))
          (in_turn (write_frame env) (seg_frames src dst sport dport (sq + word_of_nat n) ack (drop n payload)) h))"
      using 1 [rule_format, of "drop n payload"] by (simp add: of_nat_diff fun_eq_iff)
    show ?thesis
      using False by (simp add: send.simps [of _ _ _ _ _ _ _ payload] seg_frames.simps [of _ _ _ _ _ _ payload]
          n_def [symmetric] Let_def IH emit_def map_option_bind o_def)
  qed
qed

definition raw_frames :: "addr \<Rightarrow> addr \<Rightarrow> u16 \<Rightarrow> u16 \<Rightarrow> bytes \<Rightarrow> bytes \<Rightarrow> frame list" where
  "raw_frames cIP sIP sport dport c2s s2c =
     (let cSeq = 1001 + word_of_nat (length c2s); sSeq = 5001 + word_of_nat (length s2c) in
      [tcp_frame cIP sIP sport dport 1000 0 flag_syn [], tcp_frame sIP cIP dport sport 5000 1001 flag_syn_ack [],
       tcp_frame cIP sIP sport dport 1001 5001 flag_ack []] @
      seg_frames cIP sIP sport dport 1001 5001 c2s @ seg_frames sIP cIP dport sport 5001 cSeq s2c @
      [tcp_frame cIP sIP sport dport cSeq sSeq flag_fin_ack [], tcp_frame sIP cIP dport sport sSeq (cSeq + 1) flag_fin_ack []])"

lemma rawFlow_frames:
  "rawFlow env client server sport dport c2s s2c g =
     in_turn (write_frame env) (raw_frames (ge_ParseIP env client) (ge_ParseIP env server) sport dport c2s s2c)
       (g\<lparr>gn_flows := gn_flows g + 1\<rparr>)"
  by (simp add: rawFlow_def open_conn_def raw_frames_def Let_def emit_def in_turn_fun send_frames bind_map_option o_def)


subsection \<open>Writing\<close>

text \<open>
  The serialiser and the file do not fail on frames gopacket can serialise: both addresses of a frame are of
  one family and the payload fits a segment.
\<close>

definition complete_frame :: "frame \<Rightarrow> bool" where
  "complete_frame fr \<longleftrightarrow>
     (case fr_net fr of IPv4Header _ dst \<Rightarrow> dst \<noteq> None | IPv6Header _ _ \<Rightarrow> True) \<and> length (fr_payload fr) \<le> mss"

definition never_fails :: "gen_env \<Rightarrow> bool" where
  "never_fails env \<longleftrightarrow>
     (\<forall>fr. complete_frame fr \<longrightarrow> ge_Serialize env fr \<noteq> None) \<and> (\<forall>t b. ge_WritePacket env t b)"

definition wrote_frames :: "gen \<Rightarrow> frame list \<Rightarrow> gen \<Rightarrow> bool" where
  "wrote_frames g frs g' \<longleftrightarrow>
     map snd (gn_frames g') = map snd (gn_frames g) @ frs \<and> gn_packets g' = gn_packets g + int (length frs) \<and>
     gn_flows g' = gn_flows g \<and> gn_now g' = gn_now g + 250000 * int (length frs)"

lemma write_all:
  assumes "never_fails env" and "list_all complete_frame frs"
  shows "\<exists>g'. in_turn (write_frame env) frs g = Some g' \<and> wrote_frames g frs g'"
  using assms(2)
proof (induction frs arbitrary: g)
  case Nil
  show ?case by (simp add: wrote_frames_def)
next
  case (Cons fr frs)
  obtain b where "ge_Serialize env fr = Some b" using assms(1) Cons.prems by (auto simp: never_fails_def)
  then obtain h where h: "write_frame env fr g = Some h" "wrote_frames g [fr] h"
    using assms(1) by (auto simp: write_frame_def Let_def never_fails_def wrote_frames_def)
  obtain g' where "in_turn (write_frame env) frs h = Some g'" "wrote_frames h frs g'"
    using Cons.IH [of h] Cons.prems by auto
  then show ?case using h by (auto simp: wrote_frames_def)
qed


subsection \<open>What each side sends\<close>

definition sent_by :: "addr \<Rightarrow> addr \<Rightarrow> frame list \<Rightarrow> frame list" where
  "sent_by src dst frs = filter (\<lambda>fr. fr_net fr = network_layer src dst) frs"

definition stream_of :: "frame list \<Rightarrow> bytes" where
  "stream_of frs = concat (map fr_payload frs)"

text \<open>Sequence numbers without a gap: a segment takes its bytes, SYN and FIN one more.\<close>

fun in_sequence :: "u32 \<Rightarrow> frame list \<Rightarrow> bool" where
  "in_sequence sq [] = True"
| "in_sequence sq (fr # frs) =
     (case fr_transport fr of
        TCPSegment _ _ q _ fl \<Rightarrow>
          q = sq \<and> in_sequence (sq + word_of_nat (length (fr_payload fr)) + (if tf_syn fl \<or> tf_fin fl then 1 else 0)) frs
      | UDPDatagram _ _ \<Rightarrow> False)"

lemma stream_of_simps [simp]:
  "stream_of [] = []" "stream_of (fr # frs) = fr_payload fr @ stream_of frs" "stream_of (xs @ ys) = stream_of xs @ stream_of ys"
  by (simp_all add: stream_of_def)

lemma seg_frames_props:
  "stream_of (seg_frames src dst sport dport sq ack payload) = payload \<and>
   list_all (\<lambda>fr. fr_net fr = network_layer src dst \<and> length (fr_payload fr) \<le> mss) (seg_frames src dst sport dport sq ack payload) \<and>
   in_sequence sq (seg_frames src dst sport dport sq ack payload @ rest) = in_sequence (sq + word_of_nat (length payload)) rest"
proof (induction payload arbitrary: sq rule: length_induct)
  case (1 payload)
  show ?case
  proof (cases "payload = []")
    case True
    then show ?thesis by (simp add: seg_frames.simps)
  next
    case False
    define n where "n = min mss (length payload)"
    have n: "0 < n" "n \<le> length payload" "n \<le> mss" using False by (auto simp: n_def mss_def)
    then have IH: "stream_of (seg_frames src dst sport dport (sq + word_of_nat n) ack (drop n payload)) = drop n payload"
      "list_all (\<lambda>fr. fr_net fr = network_layer src dst \<and> length (fr_payload fr) \<le> mss)
        (seg_frames src dst sport dport (sq + word_of_nat n) ack (drop n payload))"
      "in_sequence (sq + word_of_nat n) (seg_frames src dst sport dport (sq + word_of_nat n) ack (drop n payload) @ rest) =
        in_sequence (sq + word_of_nat (length payload)) rest"
      using 1 [rule_format, of "drop n payload"] by (simp_all add: of_nat_diff)
    have eq: "seg_frames src dst sport dport sq ack payload =
        tcp_frame src dst sport dport sq ack (flag_ack\<lparr>tf_psh := (n = length payload)\<rparr>) (take n payload) #
        seg_frames src dst sport dport (sq + word_of_nat n) ack (drop n payload)"
      using False by (subst seg_frames.simps) (simp add: n_def Let_def)
    show ?thesis unfolding eq using n by (simp add: IH tcp_frame_def flag_ack_def min_absorb2)
  qed
qed

definition one_family :: "addr \<Rightarrow> addr \<Rightarrow> bool" where
  "one_family a b \<longleftrightarrow> (To4 a = None \<longleftrightarrow> To4 b = None)"

lemma network_layers:
  assumes "one_family c s" and "Unmap c \<noteq> Unmap s"
  shows "network_layer c s \<noteq> network_layer s c"
    "case network_layer c s of IPv4Header _ dst \<Rightarrow> dst \<noteq> None | IPv6Header _ _ \<Rightarrow> True"
    "case network_layer s c of IPv4Header _ dst \<Rightarrow> dst \<noteq> None | IPv6Header _ _ \<Rightarrow> True"
  using assms by (auto simp: one_family_def network_layer_def To4_def split: addr.splits)

lemma filter_all: "list_all P xs \<Longrightarrow> filter P xs = xs" "list_all (\<lambda>x. \<not> P x) xs \<Longrightarrow> filter P xs = []"
  by (induction xs) auto

lemma raw_frames_props:
  fixes sport dport :: u16 and c2s s2c :: bytes
  assumes "one_family c s" and "Unmap c \<noteq> Unmap s"
  defines "frs \<equiv> raw_frames c s sport dport c2s s2c"
  shows "list_all complete_frame frs"
    and "in_sequence 1000 (sent_by c s frs)" and "in_sequence 5000 (sent_by s c frs)"
    and "stream_of (sent_by c s frs) = c2s" and "stream_of (sent_by s c frs) = s2c"
proof -
  let ?cSeq = "1001 + word_of_nat (length c2s) :: u32" and ?sSeq = "5001 + word_of_nat (length s2c) :: u32"
  let ?c = "seg_frames c s sport dport 1001 5001 c2s" and ?s = "seg_frames s c dport sport 5001 ?cSeq s2c"
  note net = network_layers [OF assms(1,2)]
  note seg = seg_frames_props [of c s sport dport 1001 5001 c2s] seg_frames_props [of s c dport sport 5001 ?cSeq s2c]
  have segs: "sent_by c s ?c = ?c" "sent_by s c ?s = ?s" "sent_by s c ?c = []" "sent_by c s ?s = []"
    unfolding sent_by_def by (rule filter_all; use seg net(1) in \<open>auto simp: list_all_iff\<close>)+
  have c: "sent_by c s frs = tcp_frame c s sport dport 1000 0 flag_syn [] # tcp_frame c s sport dport 1001 5001 flag_ack [] #
      ?c @ [tcp_frame c s sport dport ?cSeq ?sSeq flag_fin_ack []]"
    using segs net(1) net(1) [symmetric] by (simp add: frs_def raw_frames_def Let_def sent_by_def tcp_frame_def)
  have s: "sent_by s c frs = tcp_frame s c dport sport 5000 1001 flag_syn_ack [] #
      ?s @ [tcp_frame s c dport sport ?sSeq (?cSeq + 1) flag_fin_ack []]"
    using segs net(1) net(1) [symmetric] by (simp add: frs_def raw_frames_def Let_def sent_by_def tcp_frame_def)
  note flags = tcp_frame_def flag_syn_def flag_syn_ack_def flag_ack_def flag_fin_ack_def
  show "in_sequence 1000 (sent_by c s frs)" "stream_of (sent_by c s frs) = c2s"
    unfolding c using seg by (simp_all add: flags)
  show "in_sequence 5000 (sent_by s c frs)" "stream_of (sent_by s c frs) = s2c"
    unfolding s using seg by (simp_all add: flags)
  show "list_all complete_frame frs"
    using seg net(2,3) by (auto simp: frs_def raw_frames_def Let_def list_all_iff complete_frame_def tcp_frame_def)
qed


subsection \<open>The generated connections\<close>

text \<open>
  A generated connection carries the handshake it is made for. For every flow whose ClientHello fits
  the wire format, between two addresses of one family, the generator writes one connection: each
  side numbers its segments without a gap from its SYN to its FIN, no segment is longer than the
  maximum, what the client sends, however it was cut, is found to be the ClientHello of the flow,
  what the server sends is the stream built for it, and the counters agree with the frames.
\<close>

theorem generated_flow_round_trip:
  assumes "cryptobyte_laws cb" and "builder_laws bd" and "never_fails env" and "spec_fits (gf_ch f)"
    and "server_stream bd f = Some s2c"
    and "one_family (ge_ParseIP env (gf_client f)) (ge_ParseIP env (gf_server f))"
    and "Unmap (ge_ParseIP env (gf_client f)) \<noteq> Unmap (ge_ParseIP env (gf_server f))"
  shows "\<exists>g' frs. tlsFlow env bd f g = Some g' \<and>
    map snd (gn_frames g') = map snd (gn_frames g) @ frs \<and> gn_packets g' = gn_packets g + int (length frs) \<and>
    gn_flows g' = gn_flows g + 1 \<and> gn_now g' = gn_now g + 250000 * int (length frs) \<and>
    list_all (\<lambda>fr. length (fr_payload fr) \<le> mss) frs \<and>
    (let c = ge_ParseIP env (gf_client f); s = ge_ParseIP env (gf_server f) in
       in_sequence 1000 (sent_by c s frs) \<and> in_sequence 5000 (sent_by s c frs) \<and>
       FindClientHello cb (stream_of (sent_by c s frs)) = Inr (Some (expected_hello (gf_ch f))) \<and>
       stream_of (sent_by s c frs) = s2c)"
proof -
  let ?c = "ge_ParseIP env (gf_client f)" and ?s = "ge_ParseIP env (gf_server f)"
  define c2s where "c2s = message_stream [(MsgClientHello, hello_bytes (gf_ch f))] (int mss)"
  have stream: "client_stream bd (gf_ch f) = Some c2s"
    using builder_laws.build_ClientHello_bytes [OF assms(2,4)] by (simp add: client_stream_def c2s_def message_stream_def)
  have len: "length (hello_bytes (gf_ch f)) < 2 ^ 24"
    using assms(4) by (simp add: hello_bytes_def spec_fits_def greased_def)
  have find: "FindClientHello cb c2s = Inr (Some (expected_hello (gf_ch f)))"
    using message_stream_messages [of "[(1, hello_bytes (gf_ch f))]" "int mss"] len
      cryptobyte_laws.parse_hello_bytes [OF assms(1,4)]
    by (simp add: FindClientHello_def c2s_def mss_def)
  define frs where "frs = raw_frames ?c ?s (gf_sport f) (gf_dport f) c2s s2c"
  note p = raw_frames_props [OF assms(6,7), of "gf_sport f" "gf_dport f" c2s s2c, folded frs_def]
  obtain g' where g': "in_turn (write_frame env) frs (g\<lparr>gn_flows := gn_flows g + 1\<rparr>) = Some g'"
    "wrote_frames (g\<lparr>gn_flows := gn_flows g + 1\<rparr>) frs g'"
    using write_all [OF assms(3) p(1)] by blast
  have "tlsFlow env bd f g = Some g'"
    using g'(1) by (simp add: tlsFlow_def stream assms(5) rawFlow_frames frs_def)
  moreover have "list_all (\<lambda>fr. length (fr_payload fr) \<le> mss) frs"
    using p(1) by (auto simp: list_all_iff complete_frame_def)
  ultimately show ?thesis
    using g'(2) p(2-5) find by (intro exI [of _ g'] exI [of _ frs]) (simp add: wrote_frames_def Let_def)
qed

definition quiet_env :: gen_env where
  "quiet_env = \<lparr>ge_Serialize = (\<lambda>fr. Some (fr_payload fr)), ge_WritePacket = (\<lambda>_ _. True), ge_Create = (\<lambda>_. True),
     ge_ParseIP = (\<lambda>s. Addr4 (word_of_nat (length s))), ge_selfSigned = (\<lambda>_ _. None)\<rparr>"

theorem generated_flow_round_trip_witness:
  "\<exists>g'. tlsFlow quiet_env builder_methods (make_flow ''10.0.0.1'' ''10.20.0.80'' 51700 443 sample_spec None)
      \<lparr>gn_now = baseTime, gn_packets = 0, gn_flows = 0, gn_frames = []\<rparr> = Some g' \<and> gn_flows g' = 1 \<and>
    FindClientHello string_methods (stream_of (sent_by (Addr4 8) (Addr4 10) (map snd (gn_frames g')))) =
      Inr (Some (expected_hello sample_spec))"
proof -
  have "never_fails quiet_env" by (simp add: never_fails_def quiet_env_def)
  then show ?thesis
    using generated_flow_round_trip [OF sm.cryptobyte_laws_axioms bm.builder_laws_axioms, of quiet_env
      "make_flow ''10.0.0.1'' ''10.20.0.80'' 51700 443 sample_spec None" "[]"
      "\<lparr>gn_now = baseTime, gn_packets = 0, gn_flows = 0, gn_frames = []\<rparr>"] sample_spec_fits
    by (auto simp: make_flow_def server_stream_def one_family_def To4_def quiet_env_def Let_def)
qed

end
