(* ===== verification/Record_Props.thy ===== *)
theory Record_Props
  imports Pipeline_Props
begin

text \<open>
  What every record of a run satisfies: its readiness and its findings are graded with fixed values, and it
  claims nothing negotiated that was not seen.
\<close>

subsection \<open>Names are never empty\<close>

lemma name_or_hex_not_empty:
  assumes "list_all (\<lambda>e. snd e \<noteq> []) ns" shows "name_or_hex ns v \<noteq> []"
  using assms by (auto simp: name_or_hex_def list_all_iff sharp_hex04_def split: option.splits dest!: map_of_SomeD)

lemma cipherSuiteNames_not_empty: "list_all (\<lambda>e. snd e \<noteq> []) cipherSuiteNames"
  by (simp add: cipherSuiteNames_def)

lemma groupNames_not_empty: "list_all (\<lambda>e. snd e \<noteq> []) groupNames"
  by (simp add: groupNames_def)

lemma GroupName_not_empty [simp]: "GroupName v \<noteq> []"
  unfolding GroupName_def by (rule name_or_hex_not_empty [OF groupNames_not_empty])

lemma VersionName_not_empty [simp]: "VersionName v \<noteq> []"
  by (simp add: VersionName_def sharp_hex04_def)

lemma cipher_kx_Name [simp]: "cp_Name (cipher_kx p kx) = cp_Name p"
  by (simp add: cipher_kx_def Let_def case_prod_beta)

lemma cipher_bulk_Name [simp]: "cp_Name (cipher_bulk p rest) = cp_Name p"
  by (simp add: cipher_bulk_def Let_def split: option.split)

lemma cipher_of_name_Name [simp]: "cp_Name (cipher_of_name n) = n"
  by (simp add: cipher_of_name_def Let_def case_prod_beta)

lemma Cipher_Name_not_empty [simp]: "cp_Name (Cipher v) \<noteq> []"
proof (cases "map_of cipherSuiteNames v")
  case None
  then show ?thesis
    using name_or_hex_not_empty [OF cipherSuiteNames_not_empty, of v] by (simp add: Cipher_def CipherName_def)
next
  case (Some n)
  then have "n \<noteq> []" using cipherSuiteNames_not_empty by (auto simp: list_all_iff dest!: map_of_SomeD)
  then show ?thesis using Some by (simp add: Cipher_def)
qed


subsection \<open>Well-formed records\<close>

text \<open>Every kind of finding has one severity.\<close>

definition severity_table :: "(string \<times> Severity) list" where
  "severity_table =
     [(FindingObsoleteProtocol, SevCritical), (FindingLegacyProtocol, SevLow), (FindingBrokenCipher, SevCritical),
      (FindingWeakCipher, SevHigh), (FindingNoForwardSecrecy, SevHigh), (FindingAnonymousKeyExch, SevCritical),
      (FindingExportCipher, SevCritical), (FindingNullEncryption, SevCritical), (FindingSHA1Signature, SevMedium),
      (FindingCompressionOffered, SevMedium), (FindingClassicalKeyExch, SevInfo), (FindingECHOffered, SevInfo),
      (FindingWeakCertKey, SevHigh), (FindingCertExpired, SevMedium), (FindingCertSHA1, SevHigh),
      (FindingUnknownCipher, SevInfo)]"

definition graded :: "Finding \<Rightarrow> bool" where
  "graded f \<longleftrightarrow> map_of severity_table (fi_ID f) = Some (fi_Severity f)"

definition nothing_negotiated :: "Record \<Rightarrow> bool" where
  "nothing_negotiated r \<longleftrightarrow>
     r_Version r = [] \<and> r_CipherSuite r = [] \<and> r_ForwardSecrecy r = None \<and> r_Group r = [] \<and> r_GroupSource r = [] \<and>
     r_ALPN r = [] \<and> r_JA4S r = [] \<and> r_Certificates r = [] \<and> r_PQ r \<noteq> PQNegotiated"

definition record_wf :: "Record \<Rightarrow> bool" where
  "record_wf r \<longleftrightarrow>
     r_PQ r \<in> set [PQNegotiated, PQOffered, PQAdvertised, PQClassical, PQUnknown] \<and>
     list_all graded (r_Findings r) \<and>
     (if r_ServerObserved r then r_Version r \<noteq> [] \<and> r_CipherSuite r \<noteq> [] \<and> r_ForwardSecrecy r \<noteq> None
      else nothing_negotiated r) \<and>
     (r_PQ r = PQNegotiated \<longrightarrow> r_Group r \<noteq> []) \<and> (\<not> r_ECH r \<longrightarrow> r_ECHConfigID r = 0) \<and>
     (r_ECH r \<longleftrightarrow> FindingECHOffered \<in> fi_ID ` set (r_Findings r))"

lemma list_all_mk [simp]: "list_all P (mk i sev d) \<longleftrightarrow> P \<lparr>fi_ID = i, fi_Severity = sev, fi_Detail = d\<rparr>"
  by (simp add: mk_def)

lemma findings_graded: "list_all graded (findings env f ch r c)"
proof -
  note fs = graded_def severity_table_def finding_defs
  have "list_all graded (version_findings f ch)" by (simp add: version_findings_def Let_def fs)
  moreover have "list_all graded (cipher_findings c)" by (simp add: cipher_findings_def fs)
  moreover have "list_all graded (compression_findings ms)" for ms
    by (simp add: compression_findings_def fs split: option.split)
  moreover have "list_all graded (pq_findings pq)" for pq by (simp add: pq_findings_def fs)
  moreover have "list_all graded (ech_findings env ch)" by (simp add: ech_findings_def fs split: option.split)
  moreover have "list_all graded (certs_findings env leaf cs)" for leaf cs
    by (induction cs arbitrary: leaf) (simp_all add: cert_findings_def fs)
  ultimately show ?thesis by (simp add: findings_def)
qed

text \<open>Only an ECH extension gives the finding on ECH.\<close>

abbreviation no_ech :: "Finding list \<Rightarrow> bool" where
  "no_ech fs \<equiv> list_all (\<lambda>f. fi_ID f \<noteq> FindingECHOffered) fs"

lemma findings_ech: "no_ech (findings env f ch r c) \<longleftrightarrow> ch_ECH ch = None"
proof -
  have "no_ech (version_findings f ch)" by (simp add: version_findings_def Let_def finding_defs)
  moreover have "no_ech (cipher_findings c)" by (simp add: cipher_findings_def finding_defs)
  moreover have "no_ech (compression_findings ms)" for ms
    by (simp add: compression_findings_def finding_defs split: option.split)
  moreover have "no_ech (pq_findings pq)" for pq by (simp add: pq_findings_def finding_defs)
  moreover have "no_ech (certs_findings env leaf cs)" for leaf cs
    by (induction cs arbitrary: leaf) (simp_all add: cert_findings_def finding_defs)
  moreover have "no_ech (ech_findings env ch) \<longleftrightarrow> ch_ECH ch = None" by (simp add: ech_findings_def split: option.split)
  ultimately show ?thesis by (simp add: findings_def)
qed

lemma pqStatus_values: "pqStatus f ch \<in> set [PQNegotiated, PQOffered, PQAdvertised, PQClassical, PQUnknown]"
  by (simp add: pqStatus_def Let_def split: option.split)

lemma pqStatus_negotiated: "pqStatus f ch = PQNegotiated \<Longrightarrow> \<exists>sh. fl_Server f = Some sh \<and> sh_Group sh \<noteq> 0"
  by (auto simp: pqStatus_def Let_def pq_defs split: option.splits if_splits)

lemma analyze_server_fields [simp]:
  "r_Version (fst (analyze_server env ch sh r)) = VersionName (sh_NegotiatedVersion sh)"
  "r_CipherSuite (fst (analyze_server env ch sh r)) = cp_Name (Cipher (sh_CipherSuite sh))"
  "r_ForwardSecrecy (fst (analyze_server env ch sh r)) = Some (cp_ForwardSecrecy (Cipher (sh_CipherSuite sh)))"
  "r_Group (fst (analyze_server env ch sh r)) = (if sh_Group sh \<noteq> 0 then GroupName (sh_Group sh) else r_Group r)"
  "r_ECH (fst (analyze_server env ch sh r)) = r_ECH r" "r_ECHConfigID (fst (analyze_server env ch sh r)) = r_ECHConfigID r"
  "r_ServerObserved (fst (analyze_server env ch sh r)) = r_ServerObserved r"
  by (simp_all add: analyze_server_def Let_def)

text \<open>The fields of a record that depend on whether the server was seen.\<close>

lemma Analyze_fields:
  assumes "Analyze env f = Some r"
  obtains ch where "fl_Client f = Some ch" and "r_PQ r = pqStatus f ch"
    and "list_all graded (r_Findings r)" and "no_ech (r_Findings r) \<longleftrightarrow> ch_ECH ch = None"
    and "r_ECH r \<longleftrightarrow> ch_ECH ch \<noteq> None" and "ch_ECH ch = None \<Longrightarrow> r_ECHConfigID r = 0"
    and "r_ServerObserved r \<longleftrightarrow> fl_Server f \<noteq> None"
    and "fl_Server f = None \<Longrightarrow> r_Version r = [] \<and> r_CipherSuite r = [] \<and> r_ForwardSecrecy r = None \<and> r_Group r = [] \<and>
      r_GroupSource r = [] \<and> r_ALPN r = [] \<and> r_JA4S r = [] \<and> r_Certificates r = []"
    and "\<And>sh. fl_Server f = Some sh \<Longrightarrow> r_Version r \<noteq> [] \<and> r_CipherSuite r \<noteq> [] \<and> r_ForwardSecrecy r \<noteq> None \<and>
      (sh_Group sh \<noteq> 0 \<longrightarrow> r_Group r \<noteq> [])"
proof -
  obtain ch where ch: "fl_Client f = Some ch" using assms by (auto simp: Analyze_def split: option.splits)
  show thesis
    using assms ch by (intro that [OF ch]) (auto simp: Analyze_def case_prod_beta Let_def findings_graded findings_ech split: option.splits)
qed

lemma Analyze_wf:
  assumes "Analyze env f = Some r" shows "record_wf r"
proof -
  obtain ch where r: "r_PQ r = pqStatus f ch" "list_all graded (r_Findings r)" "no_ech (r_Findings r) \<longleftrightarrow> ch_ECH ch = None"
    "r_ECH r \<longleftrightarrow> ch_ECH ch \<noteq> None" "ch_ECH ch = None \<Longrightarrow> r_ECHConfigID r = 0" "r_ServerObserved r \<longleftrightarrow> fl_Server f \<noteq> None"
    "fl_Server f = None \<Longrightarrow> r_Version r = [] \<and> r_CipherSuite r = [] \<and> r_ForwardSecrecy r = None \<and> r_Group r = [] \<and>
      r_GroupSource r = [] \<and> r_ALPN r = [] \<and> r_JA4S r = [] \<and> r_Certificates r = []"
    "\<And>sh. fl_Server f = Some sh \<Longrightarrow> r_Version r \<noteq> [] \<and> r_CipherSuite r \<noteq> [] \<and> r_ForwardSecrecy r \<noteq> None \<and>
      (sh_Group sh \<noteq> 0 \<longrightarrow> r_Group r \<noteq> [])"
    using Analyze_fields [OF assms] by metis
  have "FindingECHOffered \<in> fi_ID ` set (r_Findings r) \<longleftrightarrow> r_ECH r"
    using r(3,4) unfolding list_all_iff by (metis (mono_tags, lifting) image_iff)
  moreover have "nothing_negotiated r" if "fl_Server f = None"
    using r(7) [OF that] pqStatus_negotiated [of f ch] that by (auto simp: nothing_negotiated_def r(1))
  moreover have "r_Group r \<noteq> []" if "r_PQ r = PQNegotiated"
    using pqStatus_negotiated [of f ch] that r(8) by (auto simp: r(1))
  ultimately show ?thesis
    using r(2,4-6,8) pqStatus_values [of f ch]
    by (auto simp: record_wf_def r(1) simp del: list.set)
qed


subsection \<open>Runs\<close>

lemma analyses_wf: "list_all (\<lambda>f. fl_Client f \<noteq> None) fs \<Longrightarrow> list_all record_wf (analyses ie n fs)"
proof (induction fs arbitrary: n)
  case (Cons f fs)
  then obtain r where "Analyze (ie n) f = Some r" using Analyze_total [of f "ie n"] by auto
  with Cons show ?case by (simp add: Analyze_wf)
qed simp

lemma reported_wf:
  assumes "pipe_ok cb gp ie p" shows "list_all record_wf (reported ie p)"
  using assms reachable_inv [of cb gp "p_asm p"] by (simp add: pipe_ok_def reported_def asm_inv_def analyses_wf)

lemma summary_rows_graded:
  assumes "list_all record_wf rs" and "row \<in> set (su_Findings (acc_Summary (accumulate rs) topN))"
  shows "map_of severity_table (fc_ID row) = Some (fc_Severity row)"
proof -
  have tab: "distinct (map fst (acc_findings (accumulate rs)))"
    "case map_of (acc_findings (accumulate rs)) i of None \<Rightarrow> \<forall>f \<in> set (concat (map r_Findings rs)). fi_ID f \<noteq> i
      | Some fc \<Rightarrow> counted_as (concat (map r_Findings rs)) i fc" for i
    using accumulate_table [of rs] unfolding table_of_def by blast+
  from assms(2) obtain i where i: "(i, row) \<in> set (acc_findings (accumulate rs))"
    by (auto simp: acc_Summary_def Let_def)
  then have "counted_as (concat (map r_Findings rs)) i row" using tab(2) [of i] map_of_is_SomeI [OF tab(1)] by simp
  then obtain r f where f: "r \<in> set rs" "f \<in> set (r_Findings r)" "fi_ID f = fc_ID row" "fi_Severity f = fc_Severity row"
    by (auto simp: counted_as_def)
  then have "graded f" using assms(1) by (auto simp: list_all_iff record_wf_def)
  then show ?thesis using f by (simp add: graded_def)
qed

text \<open>
  C12: records are well typed. Whatever packets a run reads, every record it keeps or delivers has one of the
  five readiness values and findings of the fixed IDs, each with the one severity of its ID, so that the
  findings table of the summary has these severities too (a comment on that table in \<^verbatim>\<open>summary.go\<close> expects the same
  rule to fire at different severities, which no rule of the code does); a record claims a version, suite, group, protocol,
  fingerprint or certificates of the server only when the server was seen, names version and suite
  whenever it was, names the group when it says that a post-quantum one was negotiated, and mentions
  Encrypted Client Hello exactly when the extension was there.
\<close>

theorem records_well_formed:
  assumes "yields nxt s pkts e"
  shows "\<exists>p out. p_run cb gp ie linkType nxt s (newPipeline opts keep on) = Some (p, out, run_result e) \<and>
    list_all record_wf (p_records p @ out) \<and>
    list_all (\<lambda>row. map_of severity_table (fc_ID row) = Some (fc_Severity row)) (su_Findings (acc_Summary (p_acc p) topN))"
proof -
  let ?p = "newPipeline opts keep on"
  have new: "p_pending ?p = []" "p_onRecord ?p = on" "reported ie ?p = []"
    by (simp_all add: newPipeline_def reported_def Assembler_New_def Let_def)
  from p_run_ok [OF newPipeline_ok new(1) assms, of cb gp ie linkType] new obtain p rs where p:
    "p_run cb gp ie linkType nxt s ?p = Some (p, if on then rs else [], run_result e)" "pipe_ok cb gp ie p" "reported ie p = rs"
    by auto
  have wf: "list_all record_wf rs" using reported_wf [OF p(2)] p(3) by simp
  moreover have "list_all record_wf (p_records p)" "p_acc p = accumulate rs" using wf p(2,3) by (auto simp: pipe_ok_def)
  ultimately show ?thesis using p(1) summary_rows_graded [OF wf] by (auto simp: list_all_iff)
qed

theorem records_well_formed_witness:
  "\<exists>p out r. p_run string_methods (hello_gopacket (\<lambda>_. True) 5) (\<lambda>_. sample_env) 1 (sc_Next (list_source [])) [([1], 5)]
     (newPipeline sample_opts True False) = Some (p, out, None) \<and> p_records p = [r] \<and> record_wf r"
proof -
  let ?gp = "hello_gopacket (\<lambda>_. True) 5" and ?p = "newPipeline sample_opts True False"
  have yields: "yields (sc_Next (list_source [])) [([1], 5)] [([1], 5)] SrcEOF" by (simp add: list_source_def)
  obtain p out where wf: "p_run string_methods ?gp (\<lambda>_. sample_env) 1 (sc_Next (list_source [])) [([1], 5)] ?p = Some (p, out, run_result SrcEOF)"
    "list_all record_wf (p_records p @ out)"
    using records_well_formed [OF yields, of string_methods ?gp "\<lambda>_. sample_env" 1 sample_opts True False 5] by blast
  have new: "p_pending ?p = []" "p_keep ?p" "p_asm ?p = Assembler_New sample_opts" by (simp_all add: newPipeline_def)
  obtain q rs where q: "p_run string_methods ?gp (\<lambda>_. sample_env) 1 (sc_Next (list_source [])) [([1], 5)] ?p =
      Some (q, if p_onRecord ?p then rs else [], run_result SrcEOF)" "pipe_ok string_methods ?gp (\<lambda>_. sample_env) q"
    "p_asm q = packets string_methods ?gp 1 (p_asm ?p) [([1], 5)]" "p_keep q = p_keep ?p"
    using p_run_ok [OF newPipeline_ok new(1) yields, of string_methods ?gp "\<lambda>_. sample_env" 1] by blast
  have "q = p" using q(1) wf(1) by simp
  have "a_handled (p_asm p) = [sample_flow 5]"
    using sample_reported [of 5 "\<lambda>_. True"] q(3) by (simp add: \<open>q = p\<close> new(3))
  then have "length (p_records p) = 1"
    using q(2,4) new(2) by (simp add: \<open>q = p\<close> pipe_ok_def reported_def)
  then obtain r where "p_records p = [r]" by (cases "p_records p") auto
  with wf show ?thesis by (auto simp: run_result_def)
qed

end
