(* ===== verification/Json_Report.thy ===== *)
theory Json_Report
  imports Go_Json Cbom
begin

text \<open>
  The documents of \<^verbatim>\<open>internal/report\<close> as JSON: \<^verbatim>\<open>WriteJSON\<close>, \<^verbatim>\<open>WriteNDJSON\<close> and \<^verbatim>\<open>WriteCBOM\<close>, with the
  struct tags of the types they encode. A member that \<^verbatim>\<open>omitempty\<close> leaves out is \<open>None\<close>. \<open>json_env\<close> has what
  the values do not carry here: the offset of the location of captured times (other times are in UTC) and the
  shortest decimal form of the readiness.
\<close>

record json_env =
  je_Zone :: "int \<Rightarrow> int"
  je_Float :: "rat \<Rightarrow> string"


subsection \<open>Members\<close>

definition json_object :: "(string \<times> json option) list \<Rightarrow> json" where
  "json_object fs = JObject (concat (map (\<lambda>(k, v). case v of None \<Rightarrow> [] | Some j \<Rightarrow> [(k, j)]) fs))"

definition json_int :: "int \<Rightarrow> json" where
  "json_int i = JNumber (dec_int i)"

definition opt_string :: "string \<Rightarrow> json option" where
  "opt_string s = (if s = [] then None else Some (JString s))"

definition opt_bool :: "bool \<Rightarrow> json option" where
  "opt_bool b = (if b then Some (JBool b) else None)"

definition opt_int :: "int \<Rightarrow> json option" where
  "opt_int i = (if i = 0 then None else Some (json_int i))"

definition opt_list :: "('a \<Rightarrow> json) \<Rightarrow> 'a list \<Rightarrow> json option" where
  "opt_list f xs = (if xs = [] then None else Some (JArray (map f xs)))"

text \<open>A slice that is \<^verbatim>\<open>nil\<close> until something is appended to it.\<close>

definition json_appended :: "('a \<Rightarrow> json) \<Rightarrow> 'a list \<Rightarrow> json" where
  "json_appended f xs = (if xs = [] then JNull else JArray (map f xs))"


subsection \<open>Times and addresses\<close>

text \<open>\<^verbatim>\<open>Time.MarshalJSON\<close> at an offset of so many seconds east of UTC; it fails outside the years of four digits.\<close>

definition nano_fraction :: "int \<Rightarrow> string" where
  "nano_fraction t =
     (if t mod 10 ^ 9 = 0 then []
      else ''.'' @ rev (dropWhile (\<lambda>c. c = CHR ''0'') (rev (dec_pad 9 (t mod 10 ^ 9)))))"

definition zone_suffix :: "int \<Rightarrow> string" where
  "zone_suffix off =
     (if off = 0 then ''Z''
      else (let zone = \<bar>off\<bar> div 60 in
            (if off < 0 \<and> zone \<noteq> 0 then ''-'' else ''+'') @ dec_pad 2 (zone div 60) @ '':'' @ dec_pad 2 (zone mod 60)))"

definition time_text :: "int \<Rightarrow> int \<Rightarrow> string" where
  "time_text off t =
     (let local = t + off * 10 ^ 9
      in date_only local @ ''T'' @ time_of_day local @ nano_fraction local @ zone_suffix off)"

definition time_ok :: "int \<Rightarrow> int \<Rightarrow> bool" where
  "time_ok off t \<longleftrightarrow> time_text off t ! 4 = CHR ''-'' \<and> \<bar>off\<bar> div 3600 < 24"

text \<open>\<^verbatim>\<open>Addr.MarshalText\<close>\<close>

definition addr_text :: "addr \<Rightarrow> string" where
  "addr_text a = (if a = AddrNone then [] else addr_String a)"

definition seen_time :: "json_env \<Rightarrow> int \<Rightarrow> json" where
  "seen_time env t = JString (time_text (je_Zone env t) t)"

definition seen_ok :: "json_env \<Rightarrow> int \<Rightarrow> bool" where
  "seen_ok env t \<longleftrightarrow> time_ok (je_Zone env t) t"


subsection \<open>The inventory\<close>

definition json_Finding :: "Finding \<Rightarrow> json" where
  "json_Finding f = json_object
     [(''id'', Some (JString (fi_ID f))), (''severity'', Some (JString (fi_Severity f))), (''detail'', Some (JString (fi_Detail f)))]"

definition json_CertInfo :: "CertInfo \<Rightarrow> json" where
  "json_CertInfo c = json_object
     [(''subject'', Some (JString (ci_Subject c))), (''issuer'', Some (JString (ci_Issuer c))),
      (''not_after'', Some (JString (time_text 0 (ci_NotAfter c)))),
      (''public_key_algorithm'', Some (JString (ci_PublicKeyAlgorithm c))), (''key_bits'', opt_int (ci_KeyBits c)),
      (''signature_algorithm'', Some (JString (ci_SignatureAlgorithm c))), (''self_signed'', opt_bool (ci_SelfSigned c))]"

definition record_fields :: "json_env \<Rightarrow> Record \<Rightarrow> (string \<times> json option) list" where
  "record_fields env r =
     [(''first_seen'', Some (seen_time env (r_FirstSeen r))), (''last_seen'', Some (seen_time env (r_LastSeen r))),
      (''transport'', Some (JString (r_Transport r))),
      (''client_ip'', Some (JString (addr_text (r_ClientIP r)))), (''client_port'', Some (json_int (uint (r_ClientPort r)))),
      (''server_ip'', Some (JString (addr_text (r_ServerIP r)))), (''server_port'', Some (json_int (uint (r_ServerPort r)))),
      (''server_name'', opt_string (r_ServerName r)), (''ech'', opt_bool (r_ECH r)),
      (''ech_config_id'', opt_int (uint (r_ECHConfigID r))), (''version_offered'', Some (JString (r_VersionOffered r))),
      (''version'', opt_string (r_Version r)), (''cipher_suite'', opt_string (r_CipherSuite r)),
      (''cipher_suites_offered'', Some (json_appended JString (r_CipherSuitesOffered r))),
      (''forward_secrecy'', map_option JBool (r_ForwardSecrecy r)), (''group'', opt_string (r_Group r)),
      (''group_source'', opt_string (r_GroupSource r)), (''key_share_groups'', opt_list JString (r_KeyShareGroups r)),
      (''supported_groups'', opt_list JString (r_SupportedGroups r)),
      (''signature_algorithms'', opt_list JString (r_SignatureAlgorithms r)), (''alpn_offered'', opt_list JString (r_ALPNOffered r)),
      (''alpn'', opt_string (r_ALPN r)), (''ja4'', opt_string (r_JA4 r)), (''ja4s'', opt_string (r_JA4S r)),
      (''pq_status'', Some (JString (r_PQ r))), (''findings'', opt_list json_Finding (r_Findings r)),
      (''certificates'', opt_list json_CertInfo (r_Certificates r)), (''server_observed'', Some (JBool (r_ServerObserved r))),
      (''truncated'', opt_bool (r_Truncated r))]"

definition json_Record :: "json_env \<Rightarrow> Record \<Rightarrow> json" where
  "json_Record env r = json_object (record_fields env r)"

definition record_ok :: "json_env \<Rightarrow> Record \<Rightarrow> bool" where
  "record_ok env r \<longleftrightarrow>
     seen_ok env (r_FirstSeen r) \<and> seen_ok env (r_LastSeen r) \<and> list_all (\<lambda>c. time_ok 0 (ci_NotAfter c)) (r_Certificates r)"

definition json_Aggregate :: "json_env \<Rightarrow> Aggregate \<Rightarrow> json" where
  "json_Aggregate env a = json_object
     [(''transport'', Some (JString (ag_Transport a))), (''server_name'', opt_string (ag_ServerName a)),
      (''server_ip'', Some (JString (addr_text (ag_ServerIP a)))), (''server_port'', Some (json_int (uint (ag_ServerPort a)))),
      (''version'', opt_string (ag_Version a)), (''cipher_suite'', opt_string (ag_CipherSuite a)),
      (''group'', opt_string (ag_Group a)), (''alpn'', opt_string (ag_ALPN a)), (''ja4s'', opt_list JString (ag_JA4s a)),
      (''pq_status'', Some (JString (ag_PQ a))), (''ech'', opt_bool (ag_ECH a)),
      (''ech_config_ids'', opt_int (int (ag_ECHConfigIDs a))), (''ech_likely_grease'', opt_bool (ag_ECHLikelyGREASE a)),
      (''server_observed'', Some (JBool (ag_ServerObserved a))), (''count'', Some (json_int (ag_Count a))),
      (''clients'', Some (json_int (int (ag_Clients a)))), (''clients_capped'', opt_bool (ag_ClientsCapped a)),
      (''first_seen'', Some (seen_time env (ag_FirstSeen a))), (''last_seen'', Some (seen_time env (ag_LastSeen a))),
      (''severity'', Some (JString (ag_Severity a))), (''findings'', opt_list JString (ag_Findings a))]"

definition json_Count :: "Count \<Rightarrow> json" where
  "json_Count c = json_object [(''name'', Some (JString (co_Name c))), (''count'', Some (json_int (co_Count c)))]"

definition json_FindingCount :: "FindingCount \<Rightarrow> json" where
  "json_FindingCount c = json_object
     [(''id'', Some (JString (fc_ID c))), (''severity'', Some (JString (fc_Severity c))), (''count'', Some (json_int (fc_Count c))),
      (''example'', opt_string (fc_Example c))]"

text \<open>\<^verbatim>\<open>omitempty\<close> has no effect on the two times, which are structs. The rankings are made with \<^verbatim>\<open>make\<close>, never nil.\<close>

definition json_Summary :: "json_env \<Rightarrow> Summary \<Rightarrow> json" where
  "json_Summary env s = json_object
     [(''flows'', Some (json_int (su_Flows s))), (''server_observed'', Some (json_int (su_ServerObserved s))),
      (''first_seen'', Some (seen_time env (su_FirstSeen s))), (''last_seen'', Some (seen_time env (su_LastSeen s))),
      (''versions'', Some (JArray (map json_Count (su_Versions s)))), (''ciphers'', Some (JArray (map json_Count (su_Ciphers s)))),
      (''groups'', Some (JArray (map json_Count (su_Groups s)))), (''alpn'', Some (JArray (map json_Count (su_ALPN s)))),
      (''transports'', Some (JArray (map json_Count (su_Transports s)))), (''ja4'', Some (JArray (map json_Count (su_JA4 s)))),
      (''server_names'', Some (JArray (map json_Count (su_ServerName s)))), (''pq_status'', Some (JArray (map json_Count (su_PQ s)))),
      (''pq_readiness'', Some (JNumber (je_Float env (su_PQReadiness s)))), (''ech_offered'', Some (json_int (su_ECHOffered s))),
      (''ech_likely_grease'', Some (json_int (su_ECHLikelyGREASE s))),
      (''findings'', Some (JArray (map json_FindingCount (su_Findings s)))),
      (''distinct_findings'', Some (json_int (int (su_DistinctFindings s)))),
      (''aggregates_dropped'', opt_int (su_AggregatesDropped s))]"

definition json_Stats :: "Stats \<Rightarrow> json" where
  "json_Stats s = json_object
     [(''Packets'', Some (json_int (s_Packets s))), (''TCPPackets'', Some (json_int (s_TCPPackets s))),
      (''UDPPackets'', Some (json_int (s_UDPPackets s))), (''Streams'', Some (json_int (s_Streams s))),
      (''TLSFlows'', Some (json_int (s_TLSFlows s))), (''RejectedTCP'', Some (json_int (s_RejectedTCP s))),
      (''StreamsDropped'', Some (json_int (s_StreamsDropped s))), (''LiveStreams'', Some (json_int (s_LiveStreams s)))]"

definition json_Report :: "json_env \<Rightarrow> Report \<Rightarrow> json" where
  "json_Report env r = json_object
     [(''tool'', Some (JString (rp_Tool r))), (''version'', Some (JString (rp_Version r))),
      (''generated_at'', Some (JString (time_text 0 (rp_GeneratedAt r)))), (''sources'', Some (json_appended JString (rp_Sources r))),
      (''stats'', Some (json_Stats (rp_Stats r))), (''summary'', Some (json_Summary env (rp_Summary r))),
      (''aggregates'', opt_list (json_Aggregate env) (rp_Aggregates r)), (''records'', opt_list (json_Record env) (rp_Records r))]"

definition report_ok :: "json_env \<Rightarrow> Report \<Rightarrow> bool" where
  "report_ok env r \<longleftrightarrow>
     time_ok 0 (rp_GeneratedAt r) \<and> seen_ok env (su_FirstSeen (rp_Summary r)) \<and> seen_ok env (su_LastSeen (rp_Summary r)) \<and>
     list_all (\<lambda>a. seen_ok env (ag_FirstSeen a) \<and> seen_ok env (ag_LastSeen a)) (rp_Aggregates r) \<and>
     list_all (record_ok env) (rp_Records r)"

text \<open>An encoding error of a value writes nothing of it; \<open>None\<close> is the error.\<close>

definition WriteJSON :: "json_env \<Rightarrow> Report \<Rightarrow> string option" where
  "WriteJSON env r = (if report_ok env r then Some (json_Encode True True (json_Report env r)) else None)"

text \<open>What is written, and whether there was no error.\<close>

fun WriteNDJSON :: "json_env \<Rightarrow> Record list \<Rightarrow> string \<times> bool" where
  "WriteNDJSON env [] = ([], True)"
| "WriteNDJSON env (r # records) =
     (if record_ok env r then
        (case WriteNDJSON env records of (out, ok) \<Rightarrow> (json_Encode True False (json_Record env r) @ out, ok))
      else ([], False))"


subsection \<open>The bill of materials\<close>

definition json_cdxProperty :: "cdxProperty \<Rightarrow> json" where
  "json_cdxProperty p = json_object [(''name'', Some (JString (pr_Name p))), (''value'', Some (JString (pr_Value p)))]"

definition json_cdxOccurrence :: "cdxOccurrence \<Rightarrow> json" where
  "json_cdxOccurrence oc = json_object [(''bom-ref'', opt_string (oc_BOMRef oc)), (''location'', Some (JString (oc_Location oc)))]"

definition json_cdxEvidence :: "cdxEvidence \<Rightarrow> json" where
  "json_cdxEvidence e = json_object [(''occurrences'', opt_list json_cdxOccurrence (ev_Occurrences e))]"

definition json_cdxAlgorithmProps :: "cdxAlgorithmProps \<Rightarrow> json" where
  "json_cdxAlgorithmProps p = json_object
     [(''primitive'', opt_string (al_Primitive p)), (''parameterSetIdentifier'', opt_string (al_ParameterSetIdentifier p)),
      (''executionEnvironment'', opt_string (al_ExecutionEnvironment p)),
      (''implementationPlatform'', opt_string (al_ImplementationPlatform p)),
      (''cryptoFunctions'', opt_list JString (al_CryptoFunctions p)),
      (''classicalSecurityLevel'', map_option json_int (al_ClassicalSecurityLevel p)),
      (''nistQuantumSecurityLevel'', map_option json_int (al_NISTQuantumSecurityLevel p))]"

definition json_cdxCipherSuite :: "cdxCipherSuite \<Rightarrow> json" where
  "json_cdxCipherSuite c = json_object
     [(''name'', Some (JString (su_Name c))), (''algorithms'', opt_list JString (su_Algorithms c)),
      (''identifiers'', opt_list JString (su_Identifiers c))]"

definition json_cdxProtocolProps :: "cdxProtocolProps \<Rightarrow> json" where
  "json_cdxProtocolProps p = json_object
     [(''type'', opt_string (pp_Type p)), (''version'', opt_string (pp_Version p)),
      (''cipherSuites'', opt_list json_cdxCipherSuite (pp_CipherSuites p)), (''cryptoRefArray'', opt_list JString (pp_CryptoRefs p))]"

definition json_cdxCertificateProps :: "cdxCertificateProps \<Rightarrow> json" where
  "json_cdxCertificateProps c = json_object
     [(''subjectName'', opt_string (ct_SubjectName c)), (''issuerName'', opt_string (ct_IssuerName c)),
      (''notValidAfter'', opt_string (ct_NotValidAfter c)), (''certificateFormat'', opt_string (ct_CertificateFormat c)),
      (''signatureAlgorithmRef'', opt_string (ct_SignatureAlgorithmRef c))]"

definition json_cdxCryptoProps :: "cdxCryptoProps \<Rightarrow> json" where
  "json_cdxCryptoProps c = json_object
     [(''assetType'', Some (JString (cy_AssetType c))),
      (''algorithmProperties'', map_option json_cdxAlgorithmProps (cy_AlgorithmProperties c)),
      (''protocolProperties'', map_option json_cdxProtocolProps (cy_ProtocolProperties c)),
      (''certificateProperties'', map_option json_cdxCertificateProps (cy_CertificateProps c))]"

definition json_cdxComponent :: "cdxComponent \<Rightarrow> json" where
  "json_cdxComponent c = json_object
     [(''type'', Some (JString (co_Type c))), (''bom-ref'', Some (JString (co_BOMRef c))), (''name'', Some (JString (co_CompName c))),
      (''cryptoProperties'', map_option json_cdxCryptoProps (co_CryptoProperties c)),
      (''properties'', opt_list json_cdxProperty (co_Properties c)),
      (''evidence'', map_option json_cdxEvidence (co_Evidence c))]"

definition json_cdxToolComponent :: "cdxToolComponent \<Rightarrow> json" where
  "json_cdxToolComponent t = json_object
     [(''type'', Some (JString (tc_Type t))), (''name'', Some (JString (tc_Name t))), (''version'', Some (JString (tc_Version t)))]"

definition json_cdxMetadata :: "cdxMetadata \<Rightarrow> json" where
  "json_cdxMetadata m = json_object
     [(''timestamp'', Some (JString (me_Timestamp m))),
      (''tools'', Some (json_object [(''components'', Some (JArray (map json_cdxToolComponent (me_Tools m))))]))]"

definition json_cdxDependency :: "cdxDependency \<Rightarrow> json" where
  "json_cdxDependency d = json_object [(''ref'', Some (JString (de_Ref d))), (''dependsOn'', opt_list JString (de_DependsOn d))]"

definition json_cdxBOM :: "cdxBOM \<Rightarrow> json" where
  "json_cdxBOM b = json_object
     [(''bomFormat'', Some (JString (bom_Format b))), (''specVersion'', Some (JString (bom_SpecVersion b))),
      (''serialNumber'', Some (JString (bom_SerialNumber b))), (''version'', Some (json_int (bom_Version b))),
      (''metadata'', Some (json_cdxMetadata (bom_Metadata b))),
      (''components'', Some (JArray (map json_cdxComponent (bom_Components b)))),
      (''dependencies'', opt_list json_cdxDependency (bom_Dependencies b))]"

definition WriteCBOM :: "cbom_env \<Rightarrow> Report \<Rightarrow> Record list \<Rightarrow> string" where
  "WriteCBOM env r records = json_Encode False True (json_cdxBOM (buildCBOM env r records))"

end
