(* ===== verification/Json_Props.thy ===== *)
theory Json_Props
  imports Json_Report Cbom_Props Go_Strconv
begin

text \<open>
  The JSON documents are read back: each line of an NDJSON output is one record and determines it, and the
  indented documents are the values they were written from.
\<close>

subsection \<open>Written values\<close>

definition field_ok :: "string \<times> json option \<Rightarrow> bool" where
  "field_ok f \<longleftrightarrow> (case snd f of None \<Rightarrow> True | Some j \<Rightarrow> json_ok j)"

lemma members_ok_append: "members_ok (ms @ ns) \<longleftrightarrow> members_ok ms \<and> members_ok ns"
  by (induction ms) auto

lemma json_ok_object: "json_ok (json_object fs) \<longleftrightarrow> list_all field_ok fs"
  by (induction fs) (auto simp: json_object_def members_ok_append field_ok_def split: option.splits)

lemma json_ok_array: "json_ok (JArray js) \<longleftrightarrow> list_all json_ok js"
  by (induction js) auto

lemma dec_number: "dec n \<noteq> [] \<and> list_all number_char (dec n)"
proof (induction n rule: dec.induct)
  case (1 n)
  have d: "number_char (char_of (48 + k))" if "k < 10" for k :: nat
  proof -
    have "k \<in> {0, 1, 2, 3, 4, 5, 6, 7, 8, 9}" using that by auto
    then show ?thesis by (auto simp: number_char_def char_of_eq_iff take_bit_eq_mod)
  qed
  show ?case using 1 d [of n] d [of "n mod 10"] by (cases "n < 10") (auto simp: dec.simps [of n])
qed

lemma dec_int_number [simp]: "dec_int i \<noteq> []" "list_all number_char (dec_int i)"
  using dec_number [of "nat \<bar>i\<bar>"] by (auto simp: dec_int_def dec_pad_def Let_def number_char_def)

lemma ok_fields [simp]:
  "field_ok (k, None)" "field_ok (k, Some j) = json_ok j" "field_ok (k, opt_string s)" "field_ok (k, opt_bool b)"
  "field_ok (k, opt_int i)" "json_ok (json_int i)" "field_ok (k, map_option JBool x)" "field_ok (k, map_option json_int y)"
  "json_ok (seen_time env t)"
  by (auto simp: field_ok_def opt_string_def opt_bool_def opt_int_def json_int_def seen_time_def split: option.splits)

lemma ok_lists [simp]:
  "(\<And>x. json_ok (f x)) \<Longrightarrow> field_ok (k, opt_list f xs)"
  "(\<And>x. json_ok (f x)) \<Longrightarrow> json_ok (json_appended f xs)"
  "(\<And>x. json_ok (f x)) \<Longrightarrow> json_ok (JArray (map f xs))"
  "(\<And>x. json_ok (g x)) \<Longrightarrow> field_ok (k, map_option g y)"
  by (auto simp: field_ok_def opt_list_def json_appended_def json_ok_array list_all_iff split: option.splits)

lemma ok_inventory [simp]:
  "json_ok (json_Finding f)" "json_ok (json_CertInfo c)" "json_ok (json_Record env r)" "json_ok (json_Aggregate env a)"
  "json_ok (json_Count ct)" "json_ok (json_FindingCount fc)" "json_ok (json_Stats s)"
  by (simp_all add: json_Finding_def json_CertInfo_def json_Record_def record_fields_def json_Aggregate_def json_Count_def
      json_FindingCount_def json_Stats_def json_ok_object del: json_ok.simps(2,3))

lemma ok_bom [simp]: "json_ok (json_cdxBOM b)"
  by (simp add: json_cdxBOM_def json_cdxMetadata_def json_cdxToolComponent_def json_cdxComponent_def json_cdxDependency_def
      json_cdxCryptoProps_def json_cdxProperty_def json_cdxEvidence_def json_cdxAlgorithmProps_def json_cdxProtocolProps_def
      json_cdxCertificateProps_def json_cdxOccurrence_def json_cdxCipherSuite_def json_ok_object del: json_ok.simps(2,3))

lemma ok_report:
  assumes "je_Float env (su_PQReadiness (rp_Summary r)) \<noteq> []"
    and "list_all number_char (je_Float env (su_PQReadiness (rp_Summary r)))"
  shows "json_ok (json_Report env r)"
  using assms by (simp add: json_Report_def json_Summary_def json_ok_object del: json_ok.simps(2,3))


subsection \<open>A value determines what it was made of\<close>

lemma utf8_clean_ascii: "list_all (\<lambda>b. b < 128) bs \<Longrightarrow> utf8_clean bs = map char_of bs"
proof (induction bs)
  case (Cons b bs)
  then show ?case by (subst utf8_clean.simps) simp
qed (simp add: utf8_clean.simps)

lemma valid_text_ascii: "list_all (\<lambda>c. (of_char c :: nat) < 128) s \<Longrightarrow> valid_text s = s"
  by (simp add: valid_text_def utf8_clean_ascii list_all_iff o_def map_idI)

lemma utf8_clean_Nil: "utf8_clean [] = []"
  by (subst utf8_clean.simps) simp

lemma utf8_clean_not_Nil:
  assumes "bs \<noteq> []" shows "utf8_clean bs \<noteq> []"
proof (cases "hd bs < 0x80")
  case True
  then show ?thesis using assms by (subst utf8_clean.simps) simp
next
  case False
  obtain r w where "decode_rune bs = (r, w)" "0 < w" using decode_rune_width [of bs] by (cases "decode_rune bs") auto
  then show ?thesis using assms False by (subst utf8_clean.simps) (simp add: utf8_encode_def)
qed

lemma valid_text_Nil [simp]: "valid_text s = [] \<longleftrightarrow> s = []"
  using utf8_clean_not_Nil [of "map of_char s"] by (auto simp: valid_text_def utf8_clean_Nil)

fun clean_members :: "(string \<times> json option) list \<Rightarrow> (string \<times> json) list" where
  "clean_members [] = []"
| "clean_members ((k, None) # fs) = clean_members fs"
| "clean_members ((k, Some j) # fs) = (valid_text k, json_clean j) # clean_members fs"

lemma json_clean_object: "json_clean (json_object fs) = JObject (clean_members fs)"
  by (induction fs rule: clean_members.induct) (auto simp: json_object_def)

definition field_keys :: "(string \<times> json option) list \<Rightarrow> string list" where
  "field_keys fs = map (\<lambda>f. valid_text (fst f)) fs"

definition field_values :: "(string \<times> json option) list \<Rightarrow> json option list" where
  "field_values fs = map (\<lambda>f. map_option json_clean (snd f)) fs"

lemma same_keys: "map fst fs = map fst gs \<Longrightarrow> field_keys fs = field_keys gs"
  unfolding field_keys_def by (metis (mono_tags) map_map o_def map_eq_conv)

lemma clean_members_keys: "(k, j) \<in> set (clean_members fs) \<Longrightarrow> k \<in> set (field_keys fs)"
  by (induction fs rule: clean_members.induct) (auto simp: field_keys_def)

lemma json_object_determines:
  assumes "json_clean (json_object fs) = json_clean (json_object gs)"
    and "map fst fs = map fst gs" and "distinct (field_keys fs)"
  shows "field_values fs = field_values gs"
proof -
  have "length fs = length gs" using assms(2) by (rule map_eq_imp_length_eq)
  moreover have "clean_members fs = clean_members gs" using assms(1) by (simp add: json_clean_object)
  ultimately show ?thesis
    using assms(2,3)
  proof (induction fs gs rule: list_induct2)
    case (Cons f fs g gs)
    obtain k v where f: "f = (k, v)" by (cases f)
    then obtain w where g: "g = (k, w)" using Cons.prems(2) by (cases g) auto
    have d: "distinct (valid_text k # field_keys fs)" using Cons.prems(3) f by (simp add: field_keys_def)
    have keys: "map fst fs = map fst gs" using Cons.prems(2) by simp
    have "field_keys fs = field_keys gs" using keys by (rule same_keys)
    then have new: "(valid_text k, j) \<notin> set (clean_members fs)" "(valid_text k, j) \<notin> set (clean_members gs)" for j
      using d clean_members_keys [of "valid_text k" j fs] clean_members_keys [of "valid_text k" j gs] by auto
    have eq: "clean_members ((k, v) # fs) = clean_members ((k, w) # gs)" using Cons.prems(1) f g by simp
    have IH: "clean_members fs = clean_members gs \<Longrightarrow> field_values fs = field_values gs"
      using Cons.IH keys d by simp
    show ?case
    proof (cases v; cases w)
      assume "v = None" "w = None"
      then show ?thesis using eq IH f g by (simp add: field_values_def)
    next
      fix j assume "v = None" "w = Some j"
      then show ?thesis using eq new(1) [of "json_clean j"] by simp
    next
      fix j assume "v = Some j" "w = None"
      then show ?thesis using eq new(2) [of "json_clean j"] by (metis clean_members.simps(2,3) list.set_intros(1))
    next
      fix i j assume "v = Some i" "w = Some j"
      then show ?thesis using eq IH f g by (simp add: field_values_def)
    qed
  qed simp
qed

definition same_text :: "string \<Rightarrow> string \<Rightarrow> bool" where
  "same_text s t \<longleftrightarrow> valid_text s = valid_text t"

lemma clean_eqs [simp]:
  "valid_text s = valid_text t \<longleftrightarrow> same_text s t"
  by (simp add: same_text_def)

lemma opt_string_eq [simp]: "map_option json_clean (opt_string s) = map_option json_clean (opt_string t) \<longleftrightarrow> same_text s t"
  using valid_text_Nil [of s] valid_text_Nil [of t] by (auto simp: opt_string_def same_text_def simp del: valid_text_Nil clean_eqs)


lemma dec_int_inj: "dec_int i = dec_int j \<longleftrightarrow> i = j"
proof
  assume eq: "dec_int i = dec_int j"
  have minus: "CHR ''-'' \<notin> set (dec n)" for n
  proof (induction n rule: dec.induct)
    case (1 n)
    have d: "CHR ''-'' \<noteq> char_of (48 + k)" if "k < 10" for k :: nat
    proof -
      have "k \<in> {0, 1, 2, 3, 4, 5, 6, 7, 8, 9}" using that by auto
      then show ?thesis by (auto dest!: sym [of "CHR ''-''"] simp: char_of_eq_iff take_bit_eq_mod)
    qed
    show ?case using 1 d [of n] d [of "n mod 10"] by (cases "n < 10") (auto simp: dec.simps [of n])
  qed
  have form: "dec_int k = (if k < 0 then ''-'' else []) @ dec (nat \<bar>k\<bar>)" for k
    by (simp add: dec_int_def dec_pad_def Let_def)
  have no: "CHR ''-'' # x \<noteq> dec n" for x n using minus [of n] by (metis list.set_intros(1))
  show "i = j"
  proof (cases "i < 0"; cases "j < 0")
    assume "i < 0" "j < 0"
    then have "dec (nat \<bar>i\<bar>) = dec (nat \<bar>j\<bar>)" using eq by (simp only: form if_True append_Cons append_Nil list.inject)
    then show ?thesis using \<open>i < 0\<close> \<open>j < 0\<close> by (simp add: dec_inj)
  next
    assume "i < 0" "\<not> j < 0"
    then show ?thesis using eq no by (simp only: form if_True if_False append_Cons append_Nil)
  next
    assume "\<not> i < 0" "j < 0"
    then show ?thesis using eq no by (simp only: form if_True if_False append_Cons append_Nil) metis
  next
    assume "\<not> i < 0" "\<not> j < 0"
    then have "dec (nat \<bar>i\<bar>) = dec (nat \<bar>j\<bar>)" using eq by (simp only: form if_False append_Nil)
    then show ?thesis using \<open>\<not> i < 0\<close> \<open>\<not> j < 0\<close> by (simp add: dec_inj)
  qed
qed simp

lemma field_eqs [simp]:
  "map_option json_clean (opt_bool b) = map_option json_clean (opt_bool c) \<longleftrightarrow> b = c"
  "json_clean (json_int i) = json_clean (json_int j) \<longleftrightarrow> i = j"
  "map_option json_clean (opt_int i) = map_option json_clean (opt_int j) \<longleftrightarrow> i = j"
  "map_option json_clean (map_option JBool x) = map_option json_clean (map_option JBool y) \<longleftrightarrow> x = y"
  by (cases x; cases y; auto simp: opt_bool_def opt_int_def json_int_def dec_int_inj)+

lemma list_eqs:
  assumes "\<And>x y. json_clean (f x) = json_clean (f y) \<Longrightarrow> R x y"
  shows "map json_clean (map f xs) = map json_clean (map f ys) \<Longrightarrow> list_all2 R xs ys"
    and "json_clean (json_appended f xs) = json_clean (json_appended f ys) \<Longrightarrow> list_all2 R xs ys"
    and "map_option json_clean (opt_list f xs) = map_option json_clean (opt_list f ys) \<Longrightarrow> list_all2 R xs ys"
proof -
  show l: "map json_clean (map f xs) = map json_clean (map f ys) \<Longrightarrow> list_all2 R xs ys" for xs ys
    using assms by (auto simp: list_all2_conv_all_nth list_eq_iff_nth_eq)
  show "json_clean (json_appended f xs) = json_clean (json_appended f ys) \<Longrightarrow> list_all2 R xs ys"
    using l [of xs ys] by (auto simp: json_appended_def split: if_splits)
  show "map_option json_clean (opt_list f xs) = map_option json_clean (opt_list f ys) \<Longrightarrow> list_all2 R xs ys"
    using l [of xs ys] by (auto simp: opt_list_def split: if_splits)
qed

text \<open>Two findings, certificates and records that print the same.\<close>

definition same_texts :: "string list \<Rightarrow> string list \<Rightarrow> bool" where
  "same_texts xs ys \<longleftrightarrow> list_all2 same_text xs ys"

definition same_finding :: "Finding \<Rightarrow> Finding \<Rightarrow> bool" where
  "same_finding f g \<longleftrightarrow>
     same_text (fi_ID f) (fi_ID g) \<and> same_text (fi_Severity f) (fi_Severity g) \<and> same_text (fi_Detail f) (fi_Detail g)"

definition same_cert :: "CertInfo \<Rightarrow> CertInfo \<Rightarrow> bool" where
  "same_cert c d \<longleftrightarrow>
     same_text (ci_Subject c) (ci_Subject d) \<and> same_text (ci_Issuer c) (ci_Issuer d) \<and>
     same_text (time_text 0 (ci_NotAfter c)) (time_text 0 (ci_NotAfter d)) \<and>
     same_text (ci_PublicKeyAlgorithm c) (ci_PublicKeyAlgorithm d) \<and> ci_KeyBits c = ci_KeyBits d \<and>
     same_text (ci_SignatureAlgorithm c) (ci_SignatureAlgorithm d) \<and> ci_SelfSigned c = ci_SelfSigned d"

lemma same_finding: "json_clean (json_Finding f) = json_clean (json_Finding g) \<Longrightarrow> same_finding f g"
  by (simp add: json_Finding_def json_clean_object same_finding_def)

lemma same_cert:
  assumes "json_clean (json_CertInfo c) = json_clean (json_CertInfo d)" shows "same_cert c d"
  using json_object_determines [OF assms [unfolded json_CertInfo_def]]
  by (simp add: field_keys_def field_values_def valid_text_ascii same_cert_def)


text \<open>The times and addresses of two records print the same, the texts are the same up to invalid UTF-8, and all else is equal.\<close>

definition same_names :: "Record \<Rightarrow> Record \<Rightarrow> bool" where
  "same_names r s \<longleftrightarrow>
     same_text (r_Transport r) (r_Transport s) \<and> same_text (r_ServerName r) (r_ServerName s) \<and>
     same_text (r_VersionOffered r) (r_VersionOffered s) \<and> same_text (r_Version r) (r_Version s) \<and>
     same_text (r_CipherSuite r) (r_CipherSuite s) \<and> same_texts (r_CipherSuitesOffered r) (r_CipherSuitesOffered s) \<and>
     same_text (r_Group r) (r_Group s) \<and> same_text (r_GroupSource r) (r_GroupSource s) \<and>
     same_texts (r_KeyShareGroups r) (r_KeyShareGroups s) \<and> same_texts (r_SupportedGroups r) (r_SupportedGroups s) \<and>
     same_texts (r_SignatureAlgorithms r) (r_SignatureAlgorithms s) \<and> same_texts (r_ALPNOffered r) (r_ALPNOffered s) \<and>
     same_text (r_ALPN r) (r_ALPN s) \<and> same_text (r_JA4 r) (r_JA4 s) \<and> same_text (r_JA4S r) (r_JA4S s) \<and>
     same_text (r_PQ r) (r_PQ s)"

definition same_time :: "json_env \<Rightarrow> int \<Rightarrow> int \<Rightarrow> bool" where
  "same_time env t u \<longleftrightarrow> same_text (time_text (je_Zone env t) t) (time_text (je_Zone env u) u)"

definition same_record :: "json_env \<Rightarrow> Record \<Rightarrow> Record \<Rightarrow> bool" where
  "same_record env r s \<longleftrightarrow>
     same_time env (r_FirstSeen r) (r_FirstSeen s) \<and> same_time env (r_LastSeen r) (r_LastSeen s) \<and>
     same_text (addr_text (r_ClientIP r)) (addr_text (r_ClientIP s)) \<and> r_ClientPort r = r_ClientPort s \<and>
     same_text (addr_text (r_ServerIP r)) (addr_text (r_ServerIP s)) \<and> r_ServerPort r = r_ServerPort s \<and>
     same_names r s \<and> r_ECH r = r_ECH s \<and> r_ECHConfigID r = r_ECHConfigID s \<and> r_ForwardSecrecy r = r_ForwardSecrecy s \<and>
     list_all2 same_finding (r_Findings r) (r_Findings s) \<and> list_all2 same_cert (r_Certificates r) (r_Certificates s) \<and>
     r_ServerObserved r = r_ServerObserved s \<and> r_Truncated r = r_Truncated s"

lemma record_keys: "field_keys (record_fields env r) =
   [''first_seen'', ''last_seen'', ''transport'', ''client_ip'', ''client_port'', ''server_ip'', ''server_port'', ''server_name'',
    ''ech'', ''ech_config_id'', ''version_offered'', ''version'', ''cipher_suite'', ''cipher_suites_offered'', ''forward_secrecy'',
    ''group'', ''group_source'', ''key_share_groups'', ''supported_groups'', ''signature_algorithms'', ''alpn_offered'', ''alpn'',
    ''ja4'', ''ja4s'', ''pq_status'', ''findings'', ''certificates'', ''server_observed'', ''truncated'']"
  by (simp add: field_keys_def record_fields_def valid_text_ascii)

lemma record_keys_distinct: "distinct (field_keys (record_fields env r))"
  unfolding record_keys by simp


lemma same_texts_eqs:
  "json_clean (json_appended JString xs) = json_clean (json_appended JString ys) \<Longrightarrow> same_texts xs ys"
  "map_option json_clean (opt_list JString xs) = map_option json_clean (opt_list JString ys) \<Longrightarrow> same_texts xs ys"
  unfolding same_texts_def by (rule list_eqs(2,3); simp)+

lemma same_items:
  "map_option json_clean (opt_list json_Finding fs) = map_option json_clean (opt_list json_Finding gs) \<Longrightarrow> list_all2 same_finding fs gs"
  "map_option json_clean (opt_list json_CertInfo cs) = map_option json_clean (opt_list json_CertInfo ds) \<Longrightarrow> list_all2 same_cert cs ds"
  by (rule list_eqs(3) [where f = json_Finding]; simp add: same_finding)
    (rule list_eqs(3) [where f = json_CertInfo]; simp add: same_cert)

lemma same_record:
  assumes "json_clean (json_Record env r) = json_clean (json_Record env s)" shows "same_record env r s"
proof -
  have "field_values (record_fields env r) = field_values (record_fields env s)"
    using assms unfolding json_Record_def
    by (rule json_object_determines [OF _ _ record_keys_distinct]) (simp add: record_fields_def)
  then show ?thesis
    unfolding field_values_def record_fields_def list.map list.inject fst_conv snd_conv
    by (auto simp: same_record_def same_names_def same_time_def seen_time_def word_uint_eq_iff
        dest!: same_texts_eqs same_items)
qed



subsection \<open>The documents are read back\<close>

lemma WriteNDJSON_lines:
  "WriteNDJSON env rs = (out, True) \<Longrightarrow>
   out = concat (map (\<lambda>l. l @ [CHR 0x0a]) (map (\<lambda>r. json_write True False 0 (json_Record env r)) rs))"
  by (induction rs arbitrary: out) (auto simp: json_Encode_def split: if_splits prod.splits)

lemma ndjson_read:
  assumes "WriteNDJSON env rs = (out, True)"
  shows "map json_read (text_lines out) = map (\<lambda>r. Some (json_clean (json_Record env r))) rs"
proof -
  have "text_lines out = map (\<lambda>r. json_write True False 0 (json_Record env r)) rs"
    unfolding WriteNDJSON_lines [OF assms] by (rule text_lines_concat) (auto simp: json_write_line(1))
  moreover have "json_read (json_write True False 0 (json_Record env r)) = Some (json_clean (json_Record env r))" for r
    using read_written(1) [of "json_Record env r" "[]" True False 0] by (simp add: json_read_def del: read_value.simps)
  ultimately show ?thesis by simp
qed

lemma WriteNDJSON_ok: "list_all (record_ok env) rs \<Longrightarrow> snd (WriteNDJSON env rs)"
  by (induction rs) (simp_all add: case_prod_beta)



subsection \<open>Reports\<close>

definition same_count :: "Count \<Rightarrow> Count \<Rightarrow> bool" where
  "same_count c d \<longleftrightarrow> same_text (co_Name c) (co_Name d) \<and> co_Count c = co_Count d"

definition same_fcount :: "FindingCount \<Rightarrow> FindingCount \<Rightarrow> bool" where
  "same_fcount c d \<longleftrightarrow>
     same_text (fc_ID c) (fc_ID d) \<and> same_text (fc_Severity c) (fc_Severity d) \<and> fc_Count c = fc_Count d \<and>
     same_text (fc_Example c) (fc_Example d)"

definition same_aggregate :: "json_env \<Rightarrow> Aggregate \<Rightarrow> Aggregate \<Rightarrow> bool" where
  "same_aggregate env a b \<longleftrightarrow>
     same_text (ag_Transport a) (ag_Transport b) \<and> same_text (ag_ServerName a) (ag_ServerName b) \<and>
     same_text (addr_text (ag_ServerIP a)) (addr_text (ag_ServerIP b)) \<and> ag_ServerPort a = ag_ServerPort b \<and>
     same_text (ag_Version a) (ag_Version b) \<and> same_text (ag_CipherSuite a) (ag_CipherSuite b) \<and>
     same_text (ag_Group a) (ag_Group b) \<and> same_text (ag_ALPN a) (ag_ALPN b) \<and>
     same_texts (ag_JA4s a) (ag_JA4s b) \<and> same_text (ag_PQ a) (ag_PQ b) \<and> ag_ECH a = ag_ECH b \<and>
     ag_ECHConfigIDs a = ag_ECHConfigIDs b \<and> ag_ECHLikelyGREASE a = ag_ECHLikelyGREASE b \<and>
     ag_ServerObserved a = ag_ServerObserved b \<and> ag_Count a = ag_Count b \<and> ag_Clients a = ag_Clients b \<and>
     ag_ClientsCapped a = ag_ClientsCapped b \<and> same_time env (ag_FirstSeen a) (ag_FirstSeen b) \<and>
     same_time env (ag_LastSeen a) (ag_LastSeen b) \<and> same_text (ag_Severity a) (ag_Severity b) \<and>
     same_texts (ag_Findings a) (ag_Findings b)"

text \<open>Of the readiness, the decimal form.\<close>

definition same_summary :: "json_env \<Rightarrow> Summary \<Rightarrow> Summary \<Rightarrow> bool" where
  "same_summary env s t \<longleftrightarrow> je_Float env (su_PQReadiness s) = je_Float env (su_PQReadiness t) \<and>
     su_Flows s = su_Flows t \<and> su_ServerObserved s = su_ServerObserved t \<and>
     same_time env (su_FirstSeen s) (su_FirstSeen t) \<and> same_time env (su_LastSeen s) (su_LastSeen t) \<and>
     list_all2 same_count (su_Versions s) (su_Versions t) \<and>
     list_all2 same_count (su_Ciphers s) (su_Ciphers t) \<and> list_all2 same_count (su_Groups s) (su_Groups t) \<and>
     list_all2 same_count (su_ALPN s) (su_ALPN t) \<and>
     list_all2 same_count (su_Transports s) (su_Transports t) \<and> list_all2 same_count (su_JA4 s) (su_JA4 t) \<and>
     list_all2 same_count (su_ServerName s) (su_ServerName t) \<and> list_all2 same_count (su_PQ s) (su_PQ t) \<and>
     su_ECHOffered s = su_ECHOffered t \<and> su_ECHLikelyGREASE s = su_ECHLikelyGREASE t \<and>
     list_all2 same_fcount (su_Findings s) (su_Findings t) \<and> su_DistinctFindings s = su_DistinctFindings t \<and>
     su_AggregatesDropped s = su_AggregatesDropped t"

definition same_report :: "json_env \<Rightarrow> Report \<Rightarrow> Report \<Rightarrow> bool" where
  "same_report env r s \<longleftrightarrow>
     same_text (rp_Tool r) (rp_Tool s) \<and> same_text (rp_Version r) (rp_Version s) \<and>
     same_text (time_text 0 (rp_GeneratedAt r)) (time_text 0 (rp_GeneratedAt s)) \<and>
     same_texts (rp_Sources r) (rp_Sources s) \<and> rp_Stats r = rp_Stats s \<and> same_summary env (rp_Summary r) (rp_Summary s) \<and>
     list_all2 (same_aggregate env) (rp_Aggregates r) (rp_Aggregates s) \<and>
     list_all2 (same_record env) (rp_Records r) (rp_Records s)"

lemma same_count: "json_clean (json_Count c) = json_clean (json_Count d) \<Longrightarrow> same_count c d"
  using json_object_determines [of "[(''name'', Some (JString (co_Name c))), (''count'', Some (json_int (co_Count c)))]"
      "[(''name'', Some (JString (co_Name d))), (''count'', Some (json_int (co_Count d)))]"]
  by (simp add: json_Count_def field_keys_def field_values_def valid_text_ascii same_count_def)

lemma same_fcount:
  assumes "json_clean (json_FindingCount c) = json_clean (json_FindingCount d)" shows "same_fcount c d"
  using json_object_determines [OF assms [unfolded json_FindingCount_def]]
  by (simp add: field_keys_def field_values_def valid_text_ascii same_fcount_def)

lemma same_stats:
  assumes "json_clean (json_Stats s) = json_clean (json_Stats t)" shows "s = t"
  using json_object_determines [OF assms [unfolded json_Stats_def]]
  by (simp add: field_keys_def field_values_def valid_text_ascii)

lemma same_counts:
  "map json_clean (map json_Count cs) = map json_clean (map json_Count ds) \<Longrightarrow> list_all2 same_count cs ds"
  "map json_clean (map json_FindingCount fs) = map json_clean (map json_FindingCount gs) \<Longrightarrow> list_all2 same_fcount fs gs"
  by (rule list_eqs(1) [where f = json_Count]; simp add: same_count)
    (rule list_eqs(1) [where f = json_FindingCount]; simp add: same_fcount)

lemma same_aggregate:
  assumes "json_clean (json_Aggregate env a) = json_clean (json_Aggregate env b)" shows "same_aggregate env a b"
  using json_object_determines [OF assms [unfolded json_Aggregate_def]]
  by (simp add: field_keys_def field_values_def valid_text_ascii)
    (auto simp: same_aggregate_def same_time_def seen_time_def word_uint_eq_iff dest!: same_texts_eqs)

lemma same_summary:
  assumes "json_clean (json_Summary env s) = json_clean (json_Summary env t)" shows "same_summary env s t"
  using json_object_determines [OF assms [unfolded json_Summary_def]]
  by (simp add: field_keys_def field_values_def valid_text_ascii del: map_map)
    (auto simp: same_summary_def same_time_def seen_time_def simp del: map_map dest!: same_counts)

lemma same_report:
  assumes "json_clean (json_Report env r) = json_clean (json_Report env s)" shows "same_report env r s"
  using json_object_determines [OF assms [unfolded json_Report_def]]
    list_eqs(3) [where f = "json_Aggregate env", OF same_aggregate] list_eqs(3) [where f = "json_Record env", OF same_record]
  by (simp add: field_keys_def field_values_def valid_text_ascii)
    (auto simp: same_report_def dest!: same_texts_eqs same_stats same_summary)

lemma WriteJSON_Some: "WriteJSON env r = Some out \<longleftrightarrow> report_ok env r \<and> out = json_Encode True True (json_Report env r)"
  by (auto simp: WriteJSON_def)



subsection \<open>Witnesses\<close>

text \<open>A time in a year of four digits has a text.\<close>

lemma dec_length_4:
  assumes "1000 \<le> n" "n < 10000" shows "length (dec n) = 4"
proof -
  have "n div 1000 < 10" "10 \<le> n div 100" "10 \<le> n div 10" "10 \<le> n" using assms
    by (simp_all add: div_less_iff_less_mult less_eq_div_iff_mult_less_eq)
  then show ?thesis
    by (simp add: dec.simps [of n] dec.simps [of "n div 10"] dec.simps [of "n div 100"] dec.simps [of "n div 1000"]
        flip: div_mult2_eq)
qed

lemma time_ok_year:
  assumes "civil (t + off * 10 ^ 9) = (y, m, d)" "1000 \<le> y" "y < 10000" "\<bar>off\<bar> div 3600 < 24"
  shows "time_ok off t"
proof -
  have "length (dec (nat y)) = 4" using assms(2,3) by (intro dec_length_4) auto
  then show ?thesis
    using assms by (simp add: time_ok_def time_text_def date_only_def dec_pad_def Let_def nth_append)
qed

definition sample_json_env :: json_env where
  "sample_json_env = \<lparr>je_Zone = (\<lambda>_. 7200), je_Float = (\<lambda>_. ''0.5'')\<rparr>"

definition sample_time :: int where "sample_time = 63835596800000000000"

lemma sample_time_ok: "seen_ok sample_json_env sample_time" "time_ok 0 sample_time"
proof -
  have sum: "sample_time + 7200 * 10 ^ 9 = 63835604000000000000" "sample_time + 0 * 10 ^ 9 = 63835596800000000000"
    by (simp_all add: sample_time_def)
  have "civil (sample_time + 7200 * 10 ^ 9) = (2023, 11, 15)" unfolding sum(1) by code_simp
  from time_ok_year [OF this] show "seen_ok sample_json_env sample_time" by (simp add: seen_ok_def sample_json_env_def)
  have "civil (sample_time + 0 * 10 ^ 9) = (2023, 11, 14)" unfolding sum(2) by code_simp
  from time_ok_year [OF this] show "time_ok 0 sample_time" by simp
qed

definition sample_entry :: Record where
  "sample_entry = \<lparr>r_FirstSeen = sample_time, r_LastSeen = sample_time, r_Transport = ''tcp'',
     r_ClientIP = Addr4 0xC0000201, r_ClientPort = 50000, r_ServerIP = Addr4 0xC0000202, r_ServerPort = 443,
     r_ServerName = ''a<b.example'', r_ECH = True, r_ECHConfigID = 7, r_VersionOffered = ''TLS 1.3'', r_Version = ''TLS 1.3'',
     r_CipherSuite = ''TLS_AES_128_GCM_SHA256'', r_CipherSuitesOffered = [''TLS_AES_128_GCM_SHA256''],
     r_ForwardSecrecy = Some True, r_Group = ''x25519'', r_GroupSource = ''key_share'', r_KeyShareGroups = [''x25519''],
     r_SupportedGroups = [''x25519''], r_SignatureAlgorithms = [], r_ALPNOffered = [''h2''], r_ALPN = ''h2'', r_JA4 = [],
     r_JA4S = [], r_PQ = PQClassical, r_Findings = [\<lparr>fi_ID = ''weak-cipher'', fi_Severity = SevMedium, fi_Detail = []\<rparr>],
     r_Certificates = [], r_ServerObserved = True, r_Truncated = False\<rparr>"

lemma sample_entry_ok: "record_ok sample_json_env sample_entry"
  using sample_time_ok by (simp add: record_ok_def sample_entry_def)


definition sample_json_report :: Report where
  "sample_json_report = \<lparr>rp_Tool = ''tlscensus'', rp_Version = ''1'', rp_GeneratedAt = sample_time, rp_Sources = [],
     rp_Stats = zero_Stats,
     rp_Summary = (acc_s NewAccumulator)\<lparr>su_Flows := 1, su_FirstSeen := sample_time, su_LastSeen := sample_time\<rparr>,
     rp_Aggregates = [], rp_Records = [sample_entry]\<rparr>"

lemma sample_json_report_ok: "report_ok sample_json_env sample_json_report"
  by (simp add: sample_json_report_def report_ok_def sample_entry_ok sample_time_ok)


end
