(* ===== verification/Read_Output.thy ===== *)
theory Read_Output
  imports Pipeline_Props Capture_Open Json_Props
begin

text \<open>
  The read command from the bytes of the capture files to the bytes it writes: the source of a file
  (\<^verbatim>\<open>internal/capture/file.go\<close>), and the output of each document of \<^verbatim>\<open>writeReport\<close>.
\<close>

subsection \<open>The source of a file\<close>

text \<open>A reader of \<^verbatim>\<open>pcapgo\<close>: its state, and what its next read gives.\<close>

record ('s, 'e) reader =
  rd_state :: 's
  rd_ReadPacketData :: "'s \<Rightarrow> ('e src_error + bytes \<times> int) \<times> 's"
  rd_LinkType :: nat

text \<open>The file is open or closed.\<close>

record ('s, 'e) fileSource =
  fs_f :: bool
  fs_r :: "('s, 'e) reader"
  fs_name :: string

definition file_Next :: "('s, 'e) fileSource \<Rightarrow> ('e src_error + bytes \<times> int) \<times> ('s, 'e) fileSource" where
  "file_Next s =
     (case rd_ReadPacketData (fs_r s) (rd_state (fs_r s)) of
        (result, st) \<Rightarrow> (result, s\<lparr>fs_r := (fs_r s)\<lparr>rd_state := st\<rparr>\<rparr>))"

definition file_LinkType :: "('s, 'e) fileSource \<Rightarrow> nat" where
  "file_LinkType s = rd_LinkType (fs_r s)"

definition file_Name :: "('s, 'e) fileSource \<Rightarrow> string" where
  "file_Name s = fs_name s"

definition file_Close :: "('s, 'e) fileSource \<Rightarrow> ('s, 'e) fileSource" where
  "file_Close s = s\<lparr>fs_f := False\<rparr>"

definition file_Source :: "('s, 'e) fileSource \<Rightarrow> (('s, 'e) fileSource, 'e) Source" where
  "file_Source s = \<lparr>sc_LinkType = file_LinkType s, sc_Next = file_Next, sc_state = s\<rparr>"

text \<open>\<open>disk\<close> is what \<^verbatim>\<open>os.Open\<close> finds at a path.\<close>

definition open_file ::
  "('s, string) reader pcapgo \<Rightarrow> (string \<Rightarrow> string + bytes) \<Rightarrow> string \<Rightarrow> string + (('s, string) fileSource, string) Source" where
  "open_file pg disk path =
     (case fst (OpenFile pg path (disk path)) of
        Inl e \<Rightarrow> Inl e
      | Inr r \<Rightarrow> Inr (file_Source \<lparr>fs_f = True, fs_r = r, fs_name = path\<rparr>))"

lemma file_Next_fields:
  "fst (file_Next s) = fst (rd_ReadPacketData (fs_r s) (rd_state (fs_r s)))"
  "rd_state (fs_r (snd (file_Next s))) = snd (rd_ReadPacketData (fs_r s) (rd_state (fs_r s)))"
  "rd_ReadPacketData (fs_r (snd (file_Next s))) = rd_ReadPacketData (fs_r s)"
  by (simp_all add: file_Next_def case_prod_beta)

lemma file_yields:
  "yields (rd_ReadPacketData (fs_r s)) (rd_state (fs_r s)) pkts e \<Longrightarrow> yields file_Next s pkts e"
  by (induction pkts arbitrary: s) (simp_all add: file_Next_fields)


subsection \<open>The output\<close>

text \<open>What the command writes and whether without an error; \<open>html\<close> is the execution of the page template.\<close>

definition write_document :: "json_env \<Rightarrow> (Report \<Rightarrow> string \<times> bool) \<Rightarrow> document \<Rightarrow> string \<times> bool" where
  "write_document je html doc =
     (case doc of
        DocNDJSON records \<Rightarrow> WriteNDJSON je records
      | DocJSON rep \<Rightarrow> (case WriteJSON je rep of None \<Rightarrow> ([], False) | Some out \<Rightarrow> (out, True))
      | DocCBOM bom \<Rightarrow> (json_Encode False True (json_cdxBOM bom), True)
      | DocHTML rep records \<Rightarrow> html rep
      | DocText out \<Rightarrow> (out, True))"

lemma set_SortRecords: "set (SortRecords rs) = set rs"
  unfolding SortRecords_def by (metis mset_sort_slice set_mset_mset)

lemma length_SortRecords: "length (SortRecords rs) = length rs"
  unfolding SortRecords_def by (metis mset_sort_slice size_mset)

lemma ndjson_written:
  assumes "list_all (record_ok je) rs"
  obtains out where "write_document je html (DocNDJSON rs) = (out, True)"
    and "map json_read (text_lines out) = map (\<lambda>r. Some (json_clean (json_Record je r))) rs"
    and "length (text_lines out) = length rs"
proof -
  obtain out where out: "WriteNDJSON je rs = (out, True)"
    using WriteNDJSON_ok [OF assms] by (cases "WriteNDJSON je rs") auto
  with ndjson_read [OF out] show thesis
    by (intro that [of out]) (auto simp: write_document_def dest: map_eq_imp_length_eq)
qed

text \<open>
  C19: Reading capture files takes the census of all of them and of every flow in them, from the bytes on disk
  to the bytes written. When the reader chosen for each file by its magic reads it to its end, the command
  succeeds, never dereferencing nil: its report is that of one assembler that saw the packets of all
  files in order and was then closed, its summary that of the analyses of all flows the assembler reported,
  each once, its records are those analyses sorted, and the number of handshakes of the summary is the
  flow counter of the assembler. In the NDJSON format the output has exactly one line for each reported flow,
  and a JSON reader gets from it the record of that flow.
\<close>

theorem read_writes_every_flow:
  assumes "rf_files fl \<noteq> []" and "validateFormat (rf_format fl)"
    and "list_all (\<lambda>path. fst (OpenFile pg path (disk path)) = Inr (rd path) \<and>
      yields (rd_ReadPacketData (rd path)) (rd_state (rd path)) (pkts path) SrcEOF) (rf_files fl)"
  shows "let a = Close cb gp (foldl (\<lambda>a path. packets cb gp (rd_LinkType (rd path)) a (pkts path))
               (Assembler_New \<lparr>o_MaxStreamPrefix = rf_maxPrefix fl, o_CloseTimeout = 0, o_MaxStreams = rf_maxStreams fl\<rparr>)
               (rf_files fl)) closeNow;
             all = analyses ie 0 (a_handled a);
             rep = \<lparr>rp_Tool = ''tlscensus'', rp_Version = ver, rp_GeneratedAt = now, rp_Sources = rf_files fl,
               rp_Stats = a_stats a, rp_Summary = acc_Summary (accumulate all) (rf_top fl),
               rp_Aggregates = Aggregates (accumulate all) 0,
               rp_Records = (if rf_records fl then SortRecords all else [])\<rparr>;
             doc = writeReport oe ce (rf_format fl) rep (SortRecords all)
         in runRead cb gp ie oe ce (open_file pg disk) ver closeNow now fl =
              Some (Inr (doc, warnIfIncomplete (a_stats a))) \<and>
            su_Flows (rp_Summary rep) = s_TLSFlows (rp_Stats rep) \<and> length all = length (a_handled a) \<and>
            (rf_format fl = ''ndjson'' \<and> list_all (record_ok je) all \<longrightarrow>
               (\<exists>out. write_document je html doc = (out, True) \<and> length (text_lines out) = length (a_handled a) \<and>
                  map json_read (text_lines out) = map (\<lambda>r. Some (json_clean (json_Record je r))) (SortRecords all)))"
proof -
  let ?src = "\<lambda>path. file_Source \<lparr>fs_f = True, fs_r = rd path, fs_name = path\<rparr>"
  have files: "list_all (\<lambda>path. open_file pg disk path = Inr (?src path) \<and>
      yields (sc_Next (?src path)) (sc_state (?src path)) (pkts path) SrcEOF) (rf_files fl)"
    using assms(3) by (auto simp: list_all_iff open_file_def file_Source_def intro!: file_yields)
  have out: "\<exists>out. write_document je html (writeReport oe ce ''ndjson'' rep (SortRecords rs)) = (out, True) \<and>
      length (text_lines out) = length rs \<and>
      map json_read (text_lines out) = map (\<lambda>r. Some (json_clean (json_Record je r))) (SortRecords rs)"
    if "list_all (record_ok je) rs" for rep rs
    using ndjson_written [of je "SortRecords rs" html] that
    by (auto simp: writeReport_def list_all_iff set_SortRecords length_SortRecords)
  define a where "a = Close cb gp (foldl (\<lambda>a path. packets cb gp (rd_LinkType (rd path)) a (pkts path))
      (Assembler_New \<lparr>o_MaxStreamPrefix = rf_maxPrefix fl, o_CloseTimeout = 0, o_MaxStreams = rf_maxStreams fl\<rparr>)
      (rf_files fl)) closeNow"
  have link: "sc_LinkType (?src path) = rd_LinkType (rd path)" for path by (simp add: file_Source_def file_LinkType_def)
  note run = read_reports_every_flow [OF assms(1,2) files, of cb gp closeNow ie ver now oe ce, unfolded link, folded a_def]
  show ?thesis
    unfolding a_def [symmetric] Let_def
    using run [unfolded Let_def] out [of "analyses ie 0 (a_handled a)"] by (intro conjI impI) simp_all
qed


text \<open>One connection in one file: the reassembler delivers its ClientHello at the final flush.\<close>

abbreviation one_hello :: gopacket where
  "one_hello \<equiv> hello_gopacket (\<lambda>cs. last cs = FlushAll) sample_time"

definition sample_reader :: "((bytes \<times> int) list, string) reader" where
  "sample_reader = \<lparr>rd_state = [([1], sample_time)],
     rd_ReadPacketData = (\<lambda>s. case s of [] \<Rightarrow> (Inl SrcEOF, []) | pkt # s \<Rightarrow> (Inr pkt, s)), rd_LinkType = 1\<rparr>"

definition sample_pcapgo :: "((bytes \<times> int) list, string) reader pcapgo" where
  "sample_pcapgo = \<lparr>pg_NewNgReader = (\<lambda>_. Inl ''not pcapng''), pg_NewReader = (\<lambda>_. Inr sample_reader),
     pg_short = (\<lambda>_. ''EOF''), pg_Seek = None\<rparr>"

definition sample_read :: read_flags where
  "sample_read = \<lparr>rf_format = ''ndjson'', rf_top = 15, rf_records = False, rf_maxPrefix = 0, rf_maxStreams = 0,
     rf_files = [''a.pcap'']\<rparr>"

definition sample_closed :: Assembler where
  "sample_closed = Close string_methods one_hello
     (Packet string_methods one_hello (Assembler_New sample_opts) [1] sample_time 1) 7"

lemma sample_closed_handled:
  "\<exists>f. a_handled sample_closed = [f] \<and> fl_FirstSeen f = sample_time \<and> fl_LastSeen f = sample_time \<and> fl_Server f = None \<and>
     fl_Client f = Some sample_hello"
  "s_StreamsDropped (a_stats sample_closed) = 0"
proof -
  have t: "0 < sample_time" by (simp add: sample_time_def)
  define a where "a = (sample_first sample_time)\<lparr>a_calls := a_calls (sample_first sample_time) @ [FlushAll]\<rparr>"
  define b where "b = foldl (run_callback string_methods) a [CbReassembledSG 0 True sample_record sample_time, CbReassemblyComplete 0]"
  have a: "a_streams a = [sample_new_stream sample_time]" "o_MaxStreamPrefix (a_opts a) = 32768"
    "a_handled a = []" "a_quicFlows a = []" "s_StreamsDropped (a_stats a) = 0"
    using sample_first_fields [OF t] by (simp_all add: a_def)
  have b: "a_handled b = [sample_flow sample_time]" "a_quicFlows b = []" "s_StreamsDropped (a_stats b) = 0"
    using sample_delivered [OF a(1,2)] a(3-5) by (simp_all add: b_def)
  have "run_call string_methods one_hello (sample_first sample_time) FlushAll = b"
    unfolding run_call_def Let_def a_def [symmetric] b_def by (simp add: hello_gopacket_def a_def)
  then have closed: "sample_closed = b"
    using b(2) unfolding sample_closed_def sample_Packet [OF t] by (simp add: Close_def flushQUIC_def)
  show "\<exists>f. a_handled sample_closed = [f] \<and> fl_FirstSeen f = sample_time \<and> fl_LastSeen f = sample_time \<and> fl_Server f = None \<and>
     fl_Client f = Some sample_hello" "s_StreamsDropped (a_stats sample_closed) = 0"
    unfolding closed b by (simp_all add: sample_flow_def sample_new_stream_def)
qed

theorem read_writes_every_flow_witness:
  "\<forall>oe ce html. \<exists>doc out. runRead string_methods one_hello (\<lambda>_. sample_env) oe ce
     (open_file sample_pcapgo (\<lambda>_. Inr (magicPcap @ [2, 0, 4, 0]))) ''1'' 7 8 sample_read = Some (Inr (doc, [])) \<and>
     write_document sample_json_env html doc = (out, True) \<and> length (text_lines out) = 1"
proof (intro allI)
  fix oe ce html
  let ?disk = "\<lambda>_ :: string. Inr (magicPcap @ [2, 0, 4, 0]) :: string + bytes"
  have open_ok: "fst (OpenFile sample_pcapgo path (?disk path)) = Inr sample_reader" for path
    by (simp add: OpenFile_def sample_pcapgo_def magicPcap_def magicPcapNg_def Let_def)
  have yields_ok: "yields (rd_ReadPacketData sample_reader) (rd_state sample_reader) [([1], sample_time)] SrcEOF"
    by (simp add: sample_reader_def)
  have fl: "rf_files sample_read \<noteq> []" "validateFormat (rf_format sample_read)" "rf_format sample_read = ''ndjson''"
    by (simp_all add: sample_read_def validateFormat_def)
  have files: "list_all (\<lambda>path. fst (OpenFile sample_pcapgo path (?disk path)) = Inr sample_reader \<and>
      yields (rd_ReadPacketData sample_reader) (rd_state sample_reader) [([1], sample_time)] SrcEOF) (rf_files sample_read)"
    using open_ok yields_ok by (simp add: list_all_iff)
  have a: "Close string_methods one_hello (foldl (\<lambda>a path. packets string_methods one_hello (rd_LinkType sample_reader) a
      [([1], sample_time)]) (Assembler_New \<lparr>o_MaxStreamPrefix = rf_maxPrefix sample_read, o_CloseTimeout = 0,
        o_MaxStreams = rf_maxStreams sample_read\<rparr>) (rf_files sample_read)) 7 = sample_closed"
    by (simp add: sample_closed_def sample_read_def sample_reader_def sample_opts_def)
  obtain f where f: "a_handled sample_closed = [f]" "fl_FirstSeen f = sample_time" "fl_LastSeen f = sample_time"
    "fl_Server f = None" "fl_Client f = Some sample_hello"
    using sample_closed_handled(1) by blast
  have "list_all (record_ok sample_json_env) (analyses (\<lambda>_. sample_env) 0 (a_handled sample_closed))"
    using sample_time_ok(1)
    by (simp add: f Analyze_def record_ok_def case_prod_beta Let_def sample_hello_def empty_ClientHello_def)
  then show "\<exists>doc out. runRead string_methods one_hello (\<lambda>_. sample_env) oe ce (open_file sample_pcapgo ?disk) ''1'' 7 8
      sample_read = Some (Inr (doc, [])) \<and> write_document sample_json_env html doc = (out, True) \<and> length (text_lines out) = 1"
    using read_writes_every_flow [OF fl(1,2) files, of string_methods one_hello 7 "\<lambda>_. sample_env" "''1''" 8 oe ce sample_json_env html]
    unfolding a Let_def
    by (auto simp: f(1) fl(3) warnIfIncomplete_def sample_closed_handled(2))
qed


subsection \<open>A file that does not open\<close>

lemma read_files_append:
  "read_files cb gp ie openFile (ps @ qs) p =
     (case read_files cb gp ie openFile ps p of Some (Inr q) \<Rightarrow> read_files cb gp ie openFile qs q | r \<Rightarrow> r)"
  by (induction ps arbitrary: p) (simp_all split: option.split sum.split)

text \<open>
  The first file that is missing, too short, of another format or refused by its reader ends the command with
  the error of that file, whatever was read before it and whatever files come after it; no document is written.
\<close>

theorem read_stops_at_bad_file:
  assumes "rf_files fl = good @ bad # rest" and "validateFormat (rf_format fl)"
    and "list_all (\<lambda>path. fst (OpenFile pg path (disk path)) = Inr (rd path) \<and>
      yields (rd_ReadPacketData (rd path)) (rd_state (rd path)) (pkts path) SrcEOF) good"
    and "fst (OpenFile pg bad (disk bad)) = Inl e"
  shows "runRead cb gp ie oe ce (open_file pg disk) ver closeNow now fl = Some (Inl (OpenFailed e))"
proof -
  let ?src = "\<lambda>path. file_Source \<lparr>fs_f = True, fs_r = rd path, fs_name = path\<rparr>"
  let ?p = "newPipeline \<lparr>o_MaxStreamPrefix = rf_maxPrefix fl, o_CloseTimeout = 0, o_MaxStreams = rf_maxStreams fl\<rparr> True False"
  have files: "list_all (\<lambda>path. open_file pg disk path = Inr (?src path) \<and>
      yields (sc_Next (?src path)) (sc_state (?src path)) (pkts path) SrcEOF) good"
    using assms(3) by (auto simp: list_all_iff open_file_def file_Source_def intro!: file_yields)
  have "p_pending ?p = []" by (simp add: newPipeline_def)
  from read_files_ok [OF newPipeline_ok this files, of cb gp ie] obtain q where
    "read_files cb gp ie (open_file pg disk) good ?p = Some (Inr q)" by blast
  then show ?thesis
    using assms(1,2,4) by (simp add: runRead_def Let_def read_files_append open_file_def)
qed

text \<open>An unknown format and an empty list of files are refused before any file is opened.\<close>

theorem read_refuses:
  "rf_files fl = [] \<Longrightarrow> runRead cb gp ie oe ce openFile ver closeNow now fl = Some (Inl NoFiles)"
  "rf_files fl \<noteq> [] \<Longrightarrow> \<not> validateFormat (rf_format fl) \<Longrightarrow>
     runRead cb gp ie oe ce openFile ver closeNow now fl = Some (Inl (UnknownFormat (rf_format fl)))"
  by (simp_all add: runRead_def)

end
