(* ===== verification/Spec2Isabelle.thy ===== *)
theory Spec2Isabelle
  imports Tls_Stream Registry Ja4 Quic_Keys Crypto_Stream Samples Synth_Server Assemble_Props Accumulator_Props Report Cbom_Props Watch
    Html_Props Serve_Props Command_Props Diffparse_Props Capture_Filter Capture_Bpf Capture_Interfaces Capture_Open Capture_Windows
    Quic_Observed Generator_Props Record_Props Read_Output
begin

text \<open>
  \<^bold>\<open>tlscensus: a verification development.\<close>

  tlscensus takes a census of the TLS cryptography in use on a network, passively. Packets come from a
  capture file or from a live source (\<^verbatim>\<open>internal/capture\<close>); the assembler (\<^verbatim>\<open>internal/assemble\<close>) joins the
  two directions of a TCP connection, or the datagrams of a QUIC flow, whose Initial packets
  \<^verbatim>\<open>internal/quic\<close> opens, and looks for the hellos with \<^verbatim>\<open>internal/tlsparse\<close>; it reports each handshake
  once to a handler, which analyses it (\<^verbatim>\<open>internal/inventory\<close>) and adds it to running totals; the reports
  (\<^verbatim>\<open>internal/report\<close>) are made of these totals. \<^verbatim>\<open>cmd/tlscensus\<close> wires this up for four commands,
  \<^verbatim>\<open>internal/tlssynth\<close> builds handshakes independently of the parsers, and \<^verbatim>\<open>scripts/diffparse\<close> compares the
  parsers with tshark's; \<^verbatim>\<open>testdata/gen\<close> writes the sample captures.

  \<^bold>\<open>Parts, in the order they call each other.\<close>

  \<^item> Shared: \<open>Prelude\<close> (bytes, words, big-endian numbers, the collections of simplification rules),
    \<open>Go_Text\<close>, \<open>Go_Format\<close>, \<open>Go_Utf8\<close>, \<open>Go_Strconv\<close> (what is used of Go's text packages; the locale
    \<open>strict_weak_order\<close> for \<^verbatim>\<open>sort.Slice\<close>), \<open>Go_Float\<close> (\<^verbatim>\<open>float64\<close> with its rounding), \<open>Go_Json\<close> (the bytes \<^verbatim>\<open>encoding/json\<close> writes, and a JSON reader
    as their specification), \<open>Sha256\<close> and \<open>Aes_Gcm\<close> (the standard library's cryptography,
    computed; the locale \<open>aead\<close>).
  \<^item> \<^verbatim>\<open>tlsparse\<close>: \<open>Cryptobyte\<close> (the interface of the parsing package, locale \<open>cryptobyte_laws\<close>), \<open>Grease\<close>,
    \<open>Tls_Extensions\<close>, \<open>Tls_ClientHello\<close>, \<open>Tls_ServerHello\<close>, \<open>Tls_Record\<close> and \<open>Tls_Stream\<close> (records,
    messages and the search for hellos), \<open>Registry\<close> (codepoints and names), \<open>Ja4\<close>.
  \<^item> \<^verbatim>\<open>quic\<close>: \<open>Quic_Wire\<close> (variable-length integers, CRYPTO frames, long headers), \<open>Quic_Keys\<close> (Initial keys,
    removal of packet protection, and tlssynth's builder of Initial packets).
  \<^item> \<^verbatim>\<open>tlssynth\<close>: \<open>Builder\<close> (the interface of the building package, locale \<open>builder_laws\<close>), \<open>Synth\<close>; the
    round trips are in \<open>Synth_Props\<close> and \<open>Synth_Server\<close>.
  \<^item> \<^verbatim>\<open>assemble\<close>: \<open>Crypto_Stream\<close> (bounded storage of CRYPTO frames), \<open>Assemble\<close> (stream factory, callbacks of
    a stream, QUIC flows, dispatch, flush and close), \<open>Assemble_Inv\<close> (the invariant of each operation),
    \<open>Samples\<close>, \<open>Assemble_Props\<close>, \<open>Quic_Observed\<close> (a QUIC handshake from tlssynth's packets to the report).
  \<^item> \<^verbatim>\<open>inventory\<close>: \<open>Inventory\<close> (records, post-quantum status, findings), \<open>Accumulator\<close> (aggregates and
    summary), \<open>Accumulator_Props\<close>, \<open>Record_Props\<close> (what every record of a run satisfies).
  \<^item> \<^verbatim>\<open>report\<close>: \<open>Report\<close> (text, order of records, the line of a flow), \<open>Cbom\<close> and \<open>Cbom_Props\<close> (the bill of
    materials), \<open>Json_Report\<close> and \<open>Json_Props\<close> (the three JSON documents), \<open>Html\<close> and \<open>Html_Props\<close> (the view of
    the page).
  \<^item> \<^verbatim>\<open>capture\<close>: \<open>Capture_Filter\<close> (the kernel filter; the locale \<open>bpf_machine\<close> for what runs it),
    \<open>Capture_Bpf\<close> (Darwin's read loop), \<open>Capture_Windows\<close> (reading and closing on Windows, as steps),
    \<open>Capture_Interfaces\<close> (choice of an interface), \<open>Capture_Open\<close> (opening sources on each platform and
    capture files).
  \<^item> \<^verbatim>\<open>cmd\<close>: \<open>Pipeline\<close> and \<open>Pipeline_Props\<close> (\<^verbatim>\<open>pipeline.go\<close> and the read command), \<open>Read_Output\<close> (the
    read command from the bytes of the files to those of the output), \<open>Watch\<close> (the goroutines of
    a watch, as steps under two mutexes), \<open>Flags\<close> (the flag package), \<open>Command\<close> and \<open>Command_Props\<close>
    (dispatch, flags, set-up and end of a watch, the listing of interfaces), \<open>Serve\<close> and \<open>Serve_Props\<close>
    (the HTTP server).
  \<^item> \<^verbatim>\<open>scripts/diffparse\<close>: \<open>Diffparse\<close> and \<open>Diffparse_Props\<close>.
  \<^item> \<^verbatim>\<open>testdata/gen\<close>: \<open>Generator\<close> (the sample captures, as the frames given to gopacket) and
    \<open>Generator_Props\<close>.

  \<^bold>\<open>Conventions.\<close> A struct is a record whose fields have a short prefix, an enumeration or tagged value a
  datatype; an operation on a pointer takes the state and gives the new one. Definitions have the name of
  the Go function, with a prefix where it is a method or clashes. \<^verbatim>\<open>uint8\<close> to \<^verbatim>\<open>uint64\<close> are words of
  their width and wrap; \<^verbatim>\<open>int\<close> is unbounded, and lengths that could leave its 64 bits are bounded in the
  proofs. A nil pointer is \<open>None\<close>, an error the left of a sum, a panic \<open>None\<close> of an extra option, in
  \<^verbatim>\<open>quic\<close> the error \<open>QuicPanic\<close>, which every index and slice out of its bounds gives; a loop
  that may not end is a \<open>partial_function\<close> whose \<open>None\<close> is then also not ending. A Go map is the list of
  its entries without repeated keys; the order of the list stands for the order of iteration, which Go does
  not fix. Times are nanoseconds from Go's zero time, a \<^verbatim>\<open>float64\<close> is the
  rational it stands for, and each operation on it rounds to 53 bits (\<open>Go_Float\<close>).

  \<^bold>\<open>Code outside the sources\<close> is an argument: \<open>cryptobyte\<close> and \<open>builder\<close> with their laws, \<open>gopacket\<close> (what a
  packet decodes to, and which callbacks the reassembler makes: every theorem on the assembler holds for any
  behaviour of it), \<open>inv_env\<close> (certificate parser and clock), \<open>out_env\<close>, \<open>html_env\<close>, \<open>cbom_env\<close>, \<open>json_env\<close>
  (number and time formats), the environments of the three platforms in \<open>Capture_Open\<close>, \<open>serve_env\<close>, \<open>gen_env\<close>, and the
  decoded JSON and the packet sources of \<open>Diffparse\<close>. Each locale is interpreted on a concrete implementation, and
  each theorem with such a hypothesis has an instance that uses it.

  \<^bold>\<open>What is shown.\<close>

  \<^item> Parsing: the record layer delivers exactly the handshake messages for every fragmentation; a truncated
    capture gives a prefix; what the builder writes the parsers read back, for hellos, server flights and
    protected Initial packets; headers and frames stay within their datagram, and
    neither decoding a header nor opening its packet indexes out of bounds; a JA4 does not depend on
    the order of extensions and suites.
  \<^item> Assembly: a stream refines a machine of phases; the hello is found however the bytes are cut; each
    handshake is reported once, over TCP and over QUIC; a QUIC handshake built by tlssynth is reported with the hellos it was made
    of, in whatever packets it comes; memory is bounded by the configured limits; closing reports what is left
    of every stream the reassembler completes.
  \<^item> Inventory: counts are conserved, rankings do not depend on the order of records or of map iteration, the
    table of findings is exact; every record is well typed and claims nothing that was not seen.
  \<^item> Reports: the bill of materials lists exactly the negotiated cryptography with closed references and an
    identity that does not depend on the order; the ladder of the page accounts for every handshake, up to the
    rounding of its widths; JSON
    documents are read back as the values they encode and lose no field of a record or a report.
  \<^item> Capture: the filter keeps exactly what it says; Darwin's loop delivers every packet; opening never leaks
    a handle, be it of the capture, the permission probe or the device list; on Windows the handle is never used after it was freed and closing ends the capture.
  \<^item> Commands: reading files, a watch under every interleaving, a static and a live server count every reported
    flow exactly once, and what is read from the bytes of the files is written as one line for each flow; the
    first file that does not open ends the command with its error; the mutexes never deadlock; nothing is served without the token, and the address that is
    printed serves the page; flags are read back in every form;
    the comparison with tshark succeeds exactly when both readings agree; a generated connection carries the
    handshake it is made for.

  The theorems named \<open>retry_hides_server_hello\<close>, \<open>longer_retransmission_lost\<close>, \<open>limit_not_shared\<close>,
  \<open>serve_cbom_empty\<close> and \<open>vlan_frames_dropped\<close> state behaviour that differs from what the sources or their
  comments intend.

  \<^bold>\<open>Termination and fuel.\<close> Loops over bytes are functions with a measure on the bytes left, \<open>bpf_vm\<close> one on
  the instructions ahead, since jumps go forward. There is no fuel; \<open>darwin_drain\<close> asks for a number of
  packets. The loops over a packet source
  (\<open>p_run\<close>, \<open>ours_loop\<close>) are partial functions, shown to end on every source that does. The step
  relations of \<open>Watch\<close> and \<open>Capture_Windows\<close> are shown to have no endless run.

  \<^bold>\<open>Not modelled.\<close> The execution of the page template (a library call on a view that is modelled),
  \<^verbatim>\<open>net/http\<close>'s path cleaning and the serving of connections, signals and tickers (a signal is a \<open>Close\<close>
  that can come at any time, a tick a sweep), the readers of \<^verbatim>\<open>pcapgo\<close>, and the system calls themselves.
\<close>

end
